(* ===== verification/Prelude.thy ===== *)
theory Prelude
  imports Main "HOL-Library.Word" "HOL-Library.Monad_Syntax"
begin

unbundle bit_operations_syntax

text \<open>
  Shared vocabulary of the development: machine integers as words, byte order, checked
  reads of packet buffers, C strings, IPv4 prefixes, and the generic lemmas on lists, words
  and options that the component theories use.

  Byte order.  The target is a little-endian 32-bit core, so an address in network byte
  order (lwIP's \<open>ip4_addr_t.addr\<close>) is the word whose lowest byte is the first octet.
  \<open>htonl\<close> swaps the bytes; \<open>le32\<close> reads four packet bytes the way a load of
  \<open>ip_hdr.src.addr\<close> does, \<open>be32\<close> and \<open>be16\<close> read host-order values.

  Reads.  A read outside a buffer is undefined behaviour in C.  Every read of a packet byte
  goes through \<open>rd8\<close>, which is \<open>None\<close> outside the buffer, so that absence of
  out-of-bounds reads is a theorem about each parser and not an assumption.
\<close>

section \<open>Types\<close>

type_synonym u8 = "8 word"
type_synonym u16 = "16 word"
type_synonym u32 = "32 word"
type_synonym u64 = "64 word"
type_synonym bytes = "u8 list"
type_synonym mac = "u8 list"

text \<open>The ESP-IDF error codes the modelled functions return.\<close>

datatype esp_err =
    ESP_OK | ESP_FAIL | ESP_ERR_NO_MEM | ESP_ERR_INVALID_ARG | ESP_ERR_INVALID_STATE
  | ESP_ERR_INVALID_SIZE | ESP_ERR_NOT_FOUND | ESP_ERR_NVS (nvs_code: int)

abbreviation ESP_ERR_NVS_NOT_FOUND :: esp_err where "ESP_ERR_NVS_NOT_FOUND \<equiv> ESP_ERR_NVS 0x1102"
abbreviation ESP_ERR_NVS_INVALID_LENGTH :: esp_err where "ESP_ERR_NVS_INVALID_LENGTH \<equiv> ESP_ERR_NVS 0x110c"

text \<open>The result codes of lwIP.\<close>

datatype err = ERR_OK | ERR_VAL | ERR_ARG | ERR_OTHER int

section \<open>Rule collections\<close>

named_theorems byte_simps \<open>sizes and values of the byte-level operations\<close>
named_theorems table_simps \<open>effects of the table operations\<close>

section \<open>Words and byte order\<close>

definition mk32 :: "u8 \<Rightarrow> u8 \<Rightarrow> u8 \<Rightarrow> u8 \<Rightarrow> u32" where
  "mk32 a b c d = push_bit 24 (ucast a) OR push_bit 16 (ucast b) OR push_bit 8 (ucast c) OR ucast d"

definition mk16 :: "u8 \<Rightarrow> u8 \<Rightarrow> u16" where
  "mk16 a b = push_bit 8 (ucast a) OR ucast b"

definition byte0 :: "u32 \<Rightarrow> u8" where "byte0 w = ucast w"
definition byte1 :: "u32 \<Rightarrow> u8" where "byte1 w = ucast (drop_bit 8 w)"
definition byte2 :: "u32 \<Rightarrow> u8" where "byte2 w = ucast (drop_bit 16 w)"
definition byte3 :: "u32 \<Rightarrow> u8" where "byte3 w = ucast (drop_bit 24 w)"

definition hi8 :: "u16 \<Rightarrow> u8" where "hi8 w = ucast (drop_bit 8 w)"
definition lo8 :: "u16 \<Rightarrow> u8" where "lo8 w = ucast w"

text \<open>\<open>htonl\<close> and \<open>ntohl\<close> are the same byte swap, and so are \<open>htons\<close> and \<open>ntohs\<close>.\<close>

definition htonl :: "u32 \<Rightarrow> u32" where
  "htonl w = mk32 (byte0 w) (byte1 w) (byte2 w) (byte3 w)"

definition htons :: "u16 \<Rightarrow> u16" where
  "htons w = mk16 (lo8 w) (hi8 w)"

lemmas word_byte_defs = mk32_def mk16_def byte0_def byte1_def byte2_def byte3_def hi8_def lo8_def

lemma byte3_mk32 [simp]: "byte3 (mk32 a b c d) = a"
  by (rule bit_word_eqI) (auto simp: word_byte_defs bit_simps dest: bit_imp_le_length)

lemma byte2_mk32 [simp]: "byte2 (mk32 a b c d) = b"
  by (rule bit_word_eqI) (auto simp: word_byte_defs bit_simps dest: bit_imp_le_length)

lemma byte1_mk32 [simp]: "byte1 (mk32 a b c d) = c"
  by (rule bit_word_eqI) (auto simp: word_byte_defs bit_simps dest: bit_imp_le_length)

lemma byte0_mk32 [simp]: "byte0 (mk32 a b c d) = d"
  by (rule bit_word_eqI) (auto simp: word_byte_defs bit_simps dest: bit_imp_le_length)

lemma mk32_bytes [simp]: "mk32 (byte3 w) (byte2 w) (byte1 w) (byte0 w) = w"
proof (rule bit_word_eqI)
  fix n assume n: "n < LENGTH(32)"
  then consider "n < 8" | "8 \<le> n \<and> n < 16" | "16 \<le> n \<and> n < 24" | "24 \<le> n" by linarith
  then show "bit (mk32 (byte3 w) (byte2 w) (byte1 w) (byte0 w)) n = bit w n"
    using n by cases (auto simp: word_byte_defs bit_simps)
qed

lemma mk32_inject [simp]: "mk32 a b c d = mk32 a' b' c' d' \<longleftrightarrow> a = a' \<and> b = b' \<and> c = c' \<and> d = d'"
  by (metis byte0_mk32 byte1_mk32 byte2_mk32 byte3_mk32)

lemma htonl_mk32 [simp]: "htonl (mk32 a b c d) = mk32 d c b a"
  by (simp add: htonl_def)

lemma htonl_htonl [simp]: "htonl (htonl w) = w"
  by (simp add: htonl_def)

lemma htonl_inject [simp]: "htonl a = htonl b \<longleftrightarrow> a = b"
  by (metis htonl_htonl)

lemma htonl_bytes [simp]:
  "byte0 (htonl w) = byte3 w" "byte1 (htonl w) = byte2 w"
  "byte2 (htonl w) = byte1 w" "byte3 (htonl w) = byte0 w"
  by (simp_all add: htonl_def)

lemma hi8_mk16 [simp]: "hi8 (mk16 a b) = a"
  by (rule bit_word_eqI) (auto simp: word_byte_defs bit_simps dest: bit_imp_le_length)

lemma lo8_mk16 [simp]: "lo8 (mk16 a b) = b"
  by (rule bit_word_eqI) (auto simp: word_byte_defs bit_simps dest: bit_imp_le_length)

lemma mk16_bytes [simp]: "mk16 (hi8 w) (lo8 w) = w"
proof (rule bit_word_eqI)
  fix n assume n: "n < LENGTH(16)"
  then consider "n < 8" | "8 \<le> n" by linarith
  then show "bit (mk16 (hi8 w) (lo8 w)) n = bit w n"
    using n by cases (auto simp: word_byte_defs bit_simps)
qed

lemma htons_htons [simp]: "htons (htons w) = w"
  by (simp add: htons_def)

lemma htonl_0 [simp]: "htonl 0 = 0"
  by (simp add: htonl_def mk32_def byte0_def byte1_def byte2_def byte3_def)

lemma htonl_eq_0 [simp]: "htonl w = 0 \<longleftrightarrow> w = 0"
  by (metis htonl_0 htonl_htonl)

lemma htonl_and: "htonl (a AND b) = htonl a AND htonl b"
proof (rule bit_word_eqI)
  fix n assume n: "n < LENGTH(32)"
  then consider "n < 8" | "8 \<le> n \<and> n < 16" | "16 \<le> n \<and> n < 24" | "24 \<le> n" by linarith
  then show "bit (htonl (a AND b)) n = bit (htonl a AND htonl b) n"
    using n by cases (auto simp: htonl_def word_byte_defs bit_simps)
qed

section \<open>Checked reads\<close>

definition rd8 :: "bytes \<Rightarrow> nat \<Rightarrow> u8 option" where
  "rd8 p i = (if i < length p then Some (p ! i) else None)"

text \<open>A checked \<open>memcpy\<close> out of a buffer.\<close>

definition rdn :: "bytes \<Rightarrow> nat \<Rightarrow> nat \<Rightarrow> bytes option" where
  "rdn m off n = (if off + n \<le> length m then Some (take n (drop off m)) else None)"

definition be16 :: "bytes \<Rightarrow> nat \<Rightarrow> u16 option" where
  "be16 p i = do { a \<leftarrow> rd8 p i; b \<leftarrow> rd8 p (i + 1); Some (mk16 a b) }"

definition be32 :: "bytes \<Rightarrow> nat \<Rightarrow> u32 option" where
  "be32 p i = do { a \<leftarrow> rd8 p i; b \<leftarrow> rd8 p (i + 1); c \<leftarrow> rd8 p (i + 2); d \<leftarrow> rd8 p (i + 3);
                   Some (mk32 a b c d) }"

definition le32 :: "bytes \<Rightarrow> nat \<Rightarrow> u32 option" where
  "le32 p i = map_option htonl (be32 p i)"

lemma rd8_Some [byte_simps]: "i < length p \<Longrightarrow> rd8 p i = Some (p ! i)"
  by (simp add: rd8_def)

lemma rd8_None_iff [simp]: "rd8 p i = None \<longleftrightarrow> length p \<le> i"
  by (auto simp: rd8_def)

lemma be16_Some [byte_simps]: "i + 1 < length p \<Longrightarrow> be16 p i = Some (mk16 (p ! i) (p ! (i + 1)))"
  by (simp add: be16_def rd8_def)

lemma be32_Some [byte_simps]:
  "i + 3 < length p \<Longrightarrow>
   be32 p i = Some (mk32 (p ! i) (p ! (i + 1)) (p ! (i + 2)) (p ! (i + 3)))"
  by (simp add: be32_def rd8_def)

lemma le32_Some [byte_simps]:
  "i + 3 < length p \<Longrightarrow>
   le32 p i = Some (mk32 (p ! (i + 3)) (p ! (i + 2)) (p ! (i + 1)) (p ! i))"
  by (simp add: le32_def be32_Some)

section \<open>IPv4 prefixes\<close>

text \<open>The mask with \<open>n\<close> high bits set, in host byte order, as the code builds it.\<close>

definition prefix_mask :: "nat \<Rightarrow> u32" where
  "prefix_mask n = (if n = 0 then 0 else push_bit (32 - n) 0xFFFFFFFF)"

lemma prefix_mask_0 [simp]: "prefix_mask 0 = 0"
  by (simp add: prefix_mask_def)

lemma bit_prefix_mask: "n \<le> 32 \<Longrightarrow> bit (prefix_mask n) i \<longleftrightarrow> i < 32 \<and> 32 - n \<le> i"
proof -
  have *: "(0xFFFFFFFF :: u32) = - 1" by simp
  show "n \<le> 32 \<Longrightarrow> ?thesis"
    unfolding prefix_mask_def * by (auto simp: bit_simps simp del: push_bit_minus_one)
qed

section \<open>Fixed-size tables\<close>

text \<open>
  Four modules keep a fixed array of slots with a \<open>valid\<close> flag and replace it as a whole:
  clear the array, then copy the accepted entries to the front, counting them.  The loop is
  the same in all of them; \<open>keep\<close> is the module's filter and \<open>mk\<close> what it stores.
\<close>

fun slot_fill :: "('e \<Rightarrow> bool) \<Rightarrow> ('e \<Rightarrow> 'e) \<Rightarrow> 'e list \<Rightarrow> 'e list \<times> nat \<Rightarrow> 'e list \<times> nat" where
  "slot_fill keep mk [] st = st"
| "slot_fill keep mk (e # es) (tab, n) =
     (if keep e then slot_fill keep mk es (tab[n := mk e], n + 1)
      else slot_fill keep mk es (tab, n))"

lemma slot_fill_aux:
  "length pre + length (filter keep es) \<le> N \<Longrightarrow>
   slot_fill keep mk es (pre @ replicate (N - length pre) z, length pre) =
     (pre @ map mk (filter keep es)
        @ replicate (N - length pre - length (filter keep es)) z,
      length pre + length (filter keep es))"
proof (induction es arbitrary: pre)
  case Nil
  then show ?case by simp
next
  case (Cons e es)
  show ?case
  proof (cases "keep e")
    case False
    with Cons show ?thesis by simp
  next
    case True
    with Cons.prems have "length pre < N" by simp
    then have "replicate (N - length pre) z = z # replicate (N - Suc (length pre)) z"
      by (metis Suc_diff_Suc replicate_Suc)
    then have upd: "(pre @ replicate (N - length pre) z)[length pre := mk e]
        = (pre @ [mk e]) @ replicate (N - length (pre @ [mk e])) z"
      by (simp add: list_update_append)
    from True Cons.prems have "length (pre @ [mk e]) + length (filter keep es) \<le> N" by simp
    note ih = Cons.IH [OF this]
    from True Cons.prems show ?thesis
      unfolding slot_fill.simps upd using ih by (simp add: upd)
  qed
qed

lemma slot_fill_clear [table_simps]:
  assumes "length es \<le> N"
  shows "slot_fill keep mk es (replicate N z, 0) =
     (map mk (filter keep es) @ replicate (N - length (filter keep es)) z, length (filter keep es))"
proof -
  have "length (filter keep es) \<le> N" using assms length_filter_le [of keep es] by linarith
  then show ?thesis using slot_fill_aux [of "[]" keep es N mk z] by simp
qed

text \<open>The lookup loop: the first slot that is in use and matches.\<close>

fun find_index :: "('e \<Rightarrow> bool) \<Rightarrow> 'e list \<Rightarrow> nat option" where
  "find_index P [] = None"
| "find_index P (x # xs) = (if P x then Some 0 else map_option Suc (find_index P xs))"

lemma find_index_Some:
  "find_index P xs = Some i \<Longrightarrow> i < length xs \<and> P (xs ! i) \<and> (\<forall>j < i. \<not> P (xs ! j))"
proof (induction xs arbitrary: i)
  case (Cons x xs)
  then show ?case by (fastforce split: if_splits simp: less_Suc_eq_0_disj)
qed simp

lemma find_index_None: "find_index P xs = None \<longleftrightarrow> (\<forall>x \<in> set xs. \<not> P x)"
  by (induction xs) auto

lemma find_index_find: "find P xs = map_option (nth xs) (find_index P xs)"
  by (induction xs) (auto simp: option.map_comp comp_def)

section \<open>Bounded tables\<close>

text \<open>
  The contract of a fixed-size table that is used as a list: \<open>abs\<close> is the list of its entries,
  \<open>add\<close> appends an admissible entry or fails on a full table, \<open>del\<close> removes the entry at an
  index or fails when there is none.  A run of operations (\<open>Inl\<close> an addition, \<open>Inr\<close> a deletion,
  a failing one leaving the table alone) then behaves as the same run on the list.
\<close>

fun table_run :: "('t \<Rightarrow> 'e \<Rightarrow> 't option) \<Rightarrow> ('t \<Rightarrow> nat \<Rightarrow> 't option) \<Rightarrow> 't \<Rightarrow> ('e + nat) list \<Rightarrow> 't" where
  "table_run add del t [] = t"
| "table_run add del t (Inl e # ops) = table_run add del (case add t e of None \<Rightarrow> t | Some t' \<Rightarrow> t') ops"
| "table_run add del t (Inr i # ops) = table_run add del (case del t i of None \<Rightarrow> t | Some t' \<Rightarrow> t') ops"

fun list_run :: "nat \<Rightarrow> 'e list \<Rightarrow> ('e + nat) list \<Rightarrow> 'e list" where
  "list_run cap xs [] = xs"
| "list_run cap xs (Inl e # ops) = list_run cap (if length xs < cap then xs @ [e] else xs) ops"
| "list_run cap xs (Inr i # ops) =
     list_run cap (if i < length xs then take i xs @ drop (Suc i) xs else xs) ops"

fun op_ok :: "('e \<Rightarrow> bool) \<Rightarrow> nat \<Rightarrow> ('e + nat) \<Rightarrow> bool" where
  "op_ok ok cap (Inl e) = ok e"
| "op_ok ok cap (Inr i) = (i < cap)"

locale bounded_table =
  fixes inv :: "'t \<Rightarrow> bool" and abs :: "'t \<Rightarrow> 'e list" and ok :: "'e \<Rightarrow> bool"
    and add :: "'t \<Rightarrow> 'e \<Rightarrow> 't option" and del :: "'t \<Rightarrow> nat \<Rightarrow> 't option" and cap :: nat
  assumes bound: "inv t \<Longrightarrow> length (abs t) \<le> cap"
    and add_None: "inv t \<Longrightarrow> ok e \<Longrightarrow> add t e = None \<Longrightarrow> length (abs t) = cap"
    and add_Some: "inv t \<Longrightarrow> ok e \<Longrightarrow> add t e = Some t' \<Longrightarrow>
          inv t' \<and> abs t' = abs t @ [e] \<and> length (abs t) < cap"
    and del_None: "inv t \<Longrightarrow> i < cap \<Longrightarrow> del t i = None \<Longrightarrow> length (abs t) \<le> i"
    and del_Some: "inv t \<Longrightarrow> i < cap \<Longrightarrow> del t i = Some t' \<Longrightarrow>
          inv t' \<and> i < length (abs t) \<and> abs t' = take i (abs t) @ drop (Suc i) (abs t)"
begin

lemma run_refines:
  "inv t \<Longrightarrow> \<forall>x \<in> set ops. op_ok ok cap x \<Longrightarrow>
   inv (table_run add del t ops) \<and> abs (table_run add del t ops) = list_run cap (abs t) ops"
proof (induction ops arbitrary: t)
  case Nil
  then show ?case by simp
next
  case (Cons x ops)
  show ?case
  proof (cases x)
    case (Inl e)
    with Cons.prems have "ok e" by simp
    with Inl Cons show ?thesis
      by (cases "add t e") (auto dest: add_None add_Some)
  next
    case (Inr i)
    with Cons.prems have "i < cap" by simp
    with Inr Cons show ?thesis
      by (cases "del t i") (auto dest: del_None del_Some)
  qed
qed

lemma add_then_delete:
  assumes "inv t" and "ok e" and "add t e = Some t'"
  shows "\<exists>t''. del t' (length (abs t)) = Some t'' \<and> inv t'' \<and> abs t'' = abs t"
proof -
  from add_Some [OF assms] have a: "inv t'" "abs t' = abs t @ [e]" "length (abs t) < cap" by auto
  show ?thesis
  proof (cases "del t' (length (abs t))")
    case None
    from del_None [OF a(1,3) this] a(2) show ?thesis by simp
  next
    case (Some t'')
    from del_Some [OF a(1,3) this] a(2) have "inv t'' \<and> abs t'' = abs t" by simp
    with Some show ?thesis by blast
  qed
qed

end

section \<open>C strings\<close>

text \<open>
  A C string is the list of its characters without the terminating NUL.  The standard
  library functions the code calls are written out: \<open>strcasecmp\<close> in the C locale,
  \<open>atoi\<close> (leading white space, one sign, digits), and the \<open>%d\<close>/\<open>%u\<close> conversion.
\<close>

definition c_tolower :: "char \<Rightarrow> char" where
  "c_tolower c = (if 65 \<le> (of_char c :: nat) \<and> (of_char c :: nat) \<le> 90 then char_of (of_char c + 32 :: nat) else c)"

definition strcaseeq :: "string \<Rightarrow> string \<Rightarrow> bool" where
  "strcaseeq a b \<longleftrightarrow> map c_tolower a = map c_tolower b"

definition is_digit :: "char \<Rightarrow> bool" where
  "is_digit c \<longleftrightarrow> 48 \<le> (of_char c :: nat) \<and> (of_char c :: nat) \<le> 57"

definition digit_char :: "nat \<Rightarrow> char" where
  "digit_char d = char_of (48 + d)"

fun dec :: "nat \<Rightarrow> string" where
  "dec n = (if n < 10 then [digit_char n] else dec (n div 10) @ [digit_char (n mod 10)])"

declare dec.simps [simp del]

fun digits_val :: "nat \<Rightarrow> string \<Rightarrow> nat" where
  "digits_val acc [] = acc"
| "digits_val acc (c # cs) = (if is_digit c then digits_val (10 * acc + (of_char c - 48)) cs else acc)"

definition is_space :: "char \<Rightarrow> bool" where
  "is_space c \<longleftrightarrow> c = CHR '' '' \<or> (9 \<le> (of_char c :: nat) \<and> (of_char c :: nat) \<le> 13)"

definition c_atoi :: "string \<Rightarrow> int" where
  "c_atoi s = (case dropWhile is_space s of
      [] \<Rightarrow> 0
    | c # cs \<Rightarrow> if c = CHR ''-'' then - int (digits_val 0 cs)
                else if c = CHR ''+'' then int (digits_val 0 cs)
                else int (digits_val 0 (c # cs)))"

text \<open>\<open>IPSTR\<close>/\<open>IP2STR\<close> of an address in network byte order: lowest byte first.\<close>

definition ip4_str :: "u32 \<Rightarrow> string" where
  "ip4_str a = dec (unat (byte0 a)) @ ''.'' @ dec (unat (byte1 a)) @ ''.''
             @ dec (unat (byte2 a)) @ ''.'' @ dec (unat (byte3 a))"

lemma of_digit_char [simp]: "d < 10 \<Longrightarrow> (of_char (digit_char d) :: nat) = 48 + d"
  by (simp add: digit_char_def)

lemma is_digit_digit_char [simp]: "d < 10 \<Longrightarrow> is_digit (digit_char d)"
  by (simp add: is_digit_def)

lemma dec_digits: "c \<in> set (dec n) \<Longrightarrow> is_digit c"
  by (induction n rule: dec.induct) (subst (asm) (2) dec.simps, auto split: if_splits)

lemma dec_nonempty [simp]: "dec n \<noteq> []"
  by (subst dec.simps) simp

lemma digits_val_append:
  "(\<forall>c \<in> set ds. is_digit c) \<Longrightarrow> digits_val acc (ds @ cs) = digits_val (digits_val acc ds) cs"
  by (induction ds arbitrary: acc) auto

lemma digits_val_dec: "digits_val 0 (dec n) = n"
proof (induction n rule: dec.induct)
  case (1 n)
  show ?case
  proof (cases "n < 10")
    case True
    then show ?thesis by (subst dec.simps) simp
  next
    case False
    have "\<forall>c \<in> set (dec (n div 10)). is_digit c" by (auto dest: dec_digits)
    with False 1 show ?thesis by (subst dec.simps) (simp add: digits_val_append)
  qed
qed

lemma dec_length: "n < 10 ^ k \<Longrightarrow> 0 < k \<Longrightarrow> length (dec n) \<le> k"
proof (induction k arbitrary: n)
  case (Suc k)
  show ?case
  proof (cases "n < 10")
    case True
    then show ?thesis by (subst dec.simps) simp
  next
    case False
    then have "0 < k" using Suc.prems(1) by (cases k) auto
    moreover have "n div 10 < 10 ^ k" using Suc.prems(1) by (simp add: div_less_iff_less_mult mult.commute)
    ultimately have "length (dec (n div 10)) \<le> k" using Suc.IH by blast
    with False show ?thesis by (subst dec.simps) simp
  qed
qed simp

lemma is_digit_not_special:
  "is_digit c \<Longrightarrow> c \<noteq> CHR ''/'' \<and> c \<noteq> CHR ''.'' \<and> c \<noteq> CHR ''-'' \<and> c \<noteq> CHR ''+'' \<and> \<not> is_space c
     \<and> c_tolower c \<noteq> CHR ''a''"
  by (auto simp: is_digit_def is_space_def c_tolower_def)

lemma c_atoi_dec [simp]: "c_atoi (dec n) = int n"
proof -
  obtain c cs where c: "dec n = c # cs" by (meson dec_nonempty neq_Nil_conv)
  then have "is_digit c" using dec_digits [of c n] by simp
  from is_digit_not_special [OF this] show ?thesis
    using digits_val_dec [of n] by (simp add: c_atoi_def c del: digits_val.simps)
qed

lemma unat_u8_less [simp]: "unat (w :: u8) < 256"
  using unsigned_less [of w, where ?'a = nat] by simp

lemma ip4_str_length: "length (ip4_str a) \<le> 15"
proof -
  have "length (dec (unat (w :: u8))) \<le> 3" for w
  proof (rule dec_length)
    show "unat w < 10 ^ 3" by (rule less_trans [OF unat_u8_less]) simp
  qed simp
  from this [of "byte0 a"] this [of "byte1 a"] this [of "byte2 a"] this [of "byte3 a"]
  show ?thesis by (simp add: ip4_str_def)
qed

lemma ip4_str_chars: "c \<in> set (ip4_str a) \<Longrightarrow> c \<noteq> CHR ''/''"
  by (auto simp: ip4_str_def dest: dec_digits is_digit_not_special)

lemma ip4_str_not_any: "\<not> strcaseeq (ip4_str a @ s) ''any''"
proof -
  obtain c cs where c: "dec (unat (byte0 a)) = c # cs" by (meson dec_nonempty neq_Nil_conv)
  then have "is_digit c" using dec_digits [of c "unat (byte0 a)"] by simp
  moreover have "c_tolower CHR ''a'' = CHR ''a''" by (simp add: c_tolower_def)
  ultimately show ?thesis using is_digit_not_special [of c] by (auto simp: strcaseeq_def ip4_str_def c)
qed

end
