(* ===== verification/Nvs_Api.thy ===== *)
theory Nvs_Api
  imports Prelude
begin

text \<open>
  The non-volatile storage of ESP-IDF as the modules use it.  NVS is not part of the
  repository, so it is a parameter of the model: a record of the calls the modules make, over
  an arbitrary flash state.  A blob is the list of the fixed-size records it holds; its length
  stands for its size in units of the record.

  \<open>nvs_lawful\<close> is the documented behaviour that the persistence theorems use: a blob that was
  set and committed without error is what a later read of the same key returns, reading has no
  effect, and other keys keep their blobs.  \<open>map_nvs\<close> is a concrete store that satisfies it;
  the witnesses use it.
\<close>

record ('h, 'e) nvs_api =
  nvs_open_ro :: "'h \<Rightarrow> esp_err"
  nvs_open_rw :: "'h \<Rightarrow> esp_err"
  nvs_get_blob :: "'h \<Rightarrow> string \<Rightarrow> nat \<Rightarrow> esp_err + 'e list"
  nvs_set_blob :: "'h \<Rightarrow> string \<Rightarrow> 'e list \<Rightarrow> esp_err \<times> 'h"
  nvs_commit :: "'h \<Rightarrow> esp_err \<times> 'h"

definition nvs_lawful :: "('h, 'e) nvs_api \<Rightarrow> bool" where
  "nvs_lawful api \<longleftrightarrow>
     (\<forall>h k b h'. nvs_set_blob api h k b = (ESP_OK, h') \<longrightarrow>
        (\<forall>cap. length b \<le> cap \<longrightarrow> nvs_get_blob api h' k cap = Inr b)) \<and>
     (\<forall>h k b e h' k' cap. nvs_set_blob api h k b = (e, h') \<longrightarrow> k' \<noteq> k \<longrightarrow>
        nvs_get_blob api h' k' cap = nvs_get_blob api h k' cap) \<and>
     (\<forall>h h' k cap. nvs_commit api h = (ESP_OK, h') \<longrightarrow>
        nvs_get_blob api h' k cap = nvs_get_blob api h k cap \<and>
        nvs_open_ro api h' = ESP_OK)"

text \<open>Writing one blob the way the table modules do: open, set, commit, close.\<close>

definition nvs_store :: "('h, 'e) nvs_api \<Rightarrow> 'h \<Rightarrow> string \<Rightarrow> 'e list \<Rightarrow> esp_err \<times> 'h" where
  "nvs_store api h k b =
     (if nvs_open_rw api h \<noteq> ESP_OK then (nvs_open_rw api h, h)
      else case nvs_set_blob api h k b of
        (e, h') \<Rightarrow> if e = ESP_OK then nvs_commit api h' else (e, h'))"

lemma nvs_store_get:
  assumes "nvs_lawful api" and "nvs_store api h k b = (ESP_OK, h')" and "length b \<le> cap"
  shows "nvs_get_blob api h' k cap = Inr b \<and> nvs_open_ro api h' = ESP_OK"
  using assms by (auto simp: nvs_lawful_def nvs_store_def split: if_splits prod.splits)

text \<open>A store that never fails: the map of committed blobs.\<close>

definition map_nvs :: "(string \<rightharpoonup> 'e list, 'e) nvs_api" where
  "map_nvs = \<lparr> nvs_open_ro = (\<lambda>_. ESP_OK), nvs_open_rw = (\<lambda>_. ESP_OK),
     nvs_get_blob = (\<lambda>h k cap. case h k of
        None \<Rightarrow> Inl ESP_ERR_NVS_NOT_FOUND
      | Some b \<Rightarrow> if length b \<le> cap then Inr b else Inl ESP_ERR_NVS_INVALID_LENGTH),
     nvs_set_blob = (\<lambda>h k b. (ESP_OK, h(k \<mapsto> b))),
     nvs_commit = (\<lambda>h. (ESP_OK, h)) \<rparr>"

lemma map_nvs_lawful: "nvs_lawful map_nvs"
  by (simp add: nvs_lawful_def map_nvs_def)

end
