(* ===== verification/Acl.thy ===== *)
theory Acl
  imports Prelude Nvs_Api
begin

text \<open>
  The ACL firewall: \<open>components/acl/acl.c\<close> and \<open>components/acl/acl_nvs.c\<close>.

  State: four rule tables of sixteen slots, four statistics records and the time of the last
  logged denial of each list (\<open>acl_lists\<close>, \<open>acl_stats\<close>, \<open>last_deny_log_time\<close>).  The mutex only
  serialises the operations, so an operation is one state transformer.  The parser of
  \<open>acl_check_packet\<close> reads the packet through checked reads, the rule loop is \<open>acl_apply\<close>.

  Results: the tables stay compact (rules in a prefix, pre-masked addresses), the operations
  refine a bounded list of rules, the packet check never reads outside the packet and is the
  first-match semantics, printing and parsing of addresses are inverse, and saving and loading
  the tables restores every rule with its hit counter reset.
\<close>

section \<open>State\<close>

record acl_entry =
  ae_src :: u32
  ae_s_mask :: u32
  ae_dest :: u32
  ae_d_mask :: u32
  ae_s_port :: u16
  ae_d_port :: u16
  ae_proto :: u8
  ae_allow :: u8
  ae_hit_count :: u32
  ae_valid :: u8

record acl_stats =
  packets_allowed :: u32
  packets_denied :: u32
  packets_nomatch :: u32

record acl_state =
  acl_lists :: "acl_entry list list"
  acl_stats :: "acl_stats list"
  last_deny_log_time :: "int list"

definition MAX_ACL_LISTS :: nat where "MAX_ACL_LISTS = 4"
definition MAX_ACL_ENTRIES :: nat where "MAX_ACL_ENTRIES = 16"
definition ACL_DENY :: u8 where "ACL_DENY = 0"
definition ACL_ALLOW :: u8 where "ACL_ALLOW = 1"
definition ACL_NO_MATCH :: u8 where "ACL_NO_MATCH = 0xFF"

definition acl_entry_zero :: acl_entry where
  "acl_entry_zero = \<lparr>ae_src = 0, ae_s_mask = 0, ae_dest = 0, ae_d_mask = 0, ae_s_port = 0,
     ae_d_port = 0, ae_proto = 0, ae_allow = 0, ae_hit_count = 0, ae_valid = 0\<rparr>"

definition acl_stats_zero :: acl_stats where
  "acl_stats_zero = \<lparr>packets_allowed = 0, packets_denied = 0, packets_nomatch = 0\<rparr>"

lemmas acl_consts = MAX_ACL_LISTS_def MAX_ACL_ENTRIES_def ACL_DENY_def ACL_ALLOW_def ACL_NO_MATCH_def

text \<open>\<open>acl_init\<close> clears the tables and the statistics; the log times are not touched.\<close>

definition acl_init :: "acl_state \<Rightarrow> acl_state" where
  "acl_init s = s\<lparr>acl_lists := replicate MAX_ACL_LISTS (replicate MAX_ACL_ENTRIES acl_entry_zero),
                  acl_stats := replicate MAX_ACL_LISTS acl_stats_zero\<rparr>"

definition acl_boot :: acl_state where
  "acl_boot = \<lparr>acl_lists = replicate MAX_ACL_LISTS (replicate MAX_ACL_ENTRIES acl_entry_zero),
               acl_stats = replicate MAX_ACL_LISTS acl_stats_zero,
               last_deny_log_time = replicate MAX_ACL_LISTS 0\<rparr>"

section \<open>Queries and table operations\<close>

definition acl_is_empty :: "acl_state \<Rightarrow> nat \<Rightarrow> bool" where
  "acl_is_empty s acl_no =
     (if MAX_ACL_LISTS \<le> acl_no then True
      else find_index (\<lambda>e. ae_valid e \<noteq> 0) (acl_lists s ! acl_no) = None)"

definition acl_get_count :: "acl_state \<Rightarrow> nat \<Rightarrow> nat" where
  "acl_get_count s acl_no =
     (if MAX_ACL_LISTS \<le> acl_no then 0
      else length (filter (\<lambda>e. ae_valid e \<noteq> 0) (acl_lists s ! acl_no)))"

definition acl_clear :: "acl_state \<Rightarrow> nat \<Rightarrow> acl_state" where
  "acl_clear s acl_no =
     (if MAX_ACL_LISTS \<le> acl_no then s
      else s\<lparr>acl_lists := (acl_lists s)[acl_no := replicate MAX_ACL_ENTRIES acl_entry_zero]\<rparr>)"

definition acl_clear_stats :: "acl_state \<Rightarrow> nat \<Rightarrow> acl_state" where
  "acl_clear_stats s acl_no =
     (if MAX_ACL_LISTS \<le> acl_no then s
      else s\<lparr>acl_stats := (acl_stats s)[acl_no := acl_stats_zero],
             acl_lists := (acl_lists s)[acl_no :=
               map (\<lambda>e. e\<lparr>ae_hit_count := 0\<rparr>) (acl_lists s ! acl_no)]\<rparr>)"

text \<open>The entry \<open>acl_add\<close> stores: addresses masked, counter reset, marked valid.\<close>

definition acl_mk_entry ::
  "u32 \<Rightarrow> u32 \<Rightarrow> u32 \<Rightarrow> u32 \<Rightarrow> u8 \<Rightarrow> u16 \<Rightarrow> u16 \<Rightarrow> u8 \<Rightarrow> acl_entry" where
  "acl_mk_entry src s_mask dest d_mask proto s_port d_port allow =
     \<lparr>ae_src = src AND s_mask, ae_s_mask = s_mask, ae_dest = dest AND d_mask, ae_d_mask = d_mask,
      ae_s_port = s_port, ae_d_port = d_port, ae_proto = proto, ae_allow = allow,
      ae_hit_count = 0, ae_valid = 1\<rparr>"

text \<open>The first empty slot takes the entry; a table without one is full.\<close>

definition acl_table_add :: "acl_entry list \<Rightarrow> acl_entry \<Rightarrow> acl_entry list option" where
  "acl_table_add l e = (case find_index (\<lambda>x. ae_valid x = 0) l of
     None \<Rightarrow> None
   | Some slot \<Rightarrow> Some (l[slot := e]))"

definition acl_add ::
  "acl_state \<Rightarrow> nat \<Rightarrow> u32 \<Rightarrow> u32 \<Rightarrow> u32 \<Rightarrow> u32 \<Rightarrow> u8 \<Rightarrow> u16 \<Rightarrow> u16 \<Rightarrow> u8 \<Rightarrow> bool \<times> acl_state" where
  "acl_add s acl_no src s_mask dest d_mask proto s_port d_port allow =
     (if MAX_ACL_LISTS \<le> acl_no then (False, s)
      else case acl_table_add (acl_lists s ! acl_no)
                  (acl_mk_entry src s_mask dest d_mask proto s_port d_port allow) of
        None \<Rightarrow> (False, s)
      | Some l \<Rightarrow> (True, s\<lparr>acl_lists := (acl_lists s)[acl_no := l]\<rparr>))"

text \<open>Deletion clears the slot and moves the valid entries behind it up by one.\<close>

function acl_compact :: "nat \<Rightarrow> acl_entry list \<Rightarrow> acl_entry list" where
  "acl_compact i l =
     (if i < MAX_ACL_ENTRIES - 1 \<and> ae_valid (l ! (i + 1)) \<noteq> 0
      then acl_compact (i + 1) (l[i := l ! (i + 1), i + 1 := acl_entry_zero])
      else l)"
  by pat_completeness auto
termination
  by (relation "measure (\<lambda>(i, l). MAX_ACL_ENTRIES - 1 - i)") auto

declare acl_compact.simps [simp del]

definition acl_table_delete :: "acl_entry list \<Rightarrow> nat \<Rightarrow> acl_entry list option" where
  "acl_table_delete l rule_idx =
     (if ae_valid (l ! rule_idx) = 0 then None
      else Some (acl_compact rule_idx (l[rule_idx := acl_entry_zero])))"

definition acl_delete :: "acl_state \<Rightarrow> nat \<Rightarrow> nat \<Rightarrow> bool \<times> acl_state" where
  "acl_delete s acl_no rule_idx =
     (if MAX_ACL_LISTS \<le> acl_no \<or> MAX_ACL_ENTRIES \<le> rule_idx then (False, s)
      else case acl_table_delete (acl_lists s ! acl_no) rule_idx of
        None \<Rightarrow> (False, s)
      | Some l \<Rightarrow> (True, s\<lparr>acl_lists := (acl_lists s)[acl_no := l]\<rparr>))"

section \<open>Checking a packet\<close>

text \<open>What the rules look at: addresses in network byte order, protocol, ports in host order.\<close>

record acl_view =
  pk_src :: u32
  pk_dst :: u32
  pk_proto :: u8
  pk_sport :: u16
  pk_dport :: u16

datatype acl_parse = Passthrough | Ipv4 acl_view

text \<open>The offset of the IP header, or \<open>None\<close> for an Ethernet frame that is not IPv4.\<close>

definition acl_ip_offset :: "bytes \<Rightarrow> nat option option" where
  "acl_ip_offset p =
     (if 14 \<le> length p then do {
        ethertype \<leftarrow> be16 p 12;
        Some (if ethertype = 0x0800 \<or> ethertype = 0x0806 \<or> ethertype = 0x86DD \<or> ethertype < 0x0600
              then (if ethertype \<noteq> 0x0800 then None else Some 14)
              else Some 0) }
      else Some (Some 0))"

text \<open>\<open>sizeof(struct ip_hdr)\<close> is 20, of \<open>tcp_hdr\<close> 20, of \<open>udp_hdr\<close> 8.\<close>

definition acl_ports :: "bytes \<Rightarrow> nat \<Rightarrow> nat \<Rightarrow> u8 \<Rightarrow> (u16 \<times> u16) option" where
  "acl_ports p offset ip_hdr_len proto =
     (if (proto = 6 \<and> offset + ip_hdr_len + 20 \<le> length p)
         \<or> (proto = 17 \<and> offset + ip_hdr_len + 8 \<le> length p) then do {
        sp \<leftarrow> be16 p (offset + ip_hdr_len);
        dp \<leftarrow> be16 p (offset + ip_hdr_len + 2);
        Some (sp, dp) }
      else Some (0, 0))"

definition acl_extract :: "bytes \<Rightarrow> acl_parse option" where
  "acl_extract p = do {
     off \<leftarrow> acl_ip_offset p;
     case off of None \<Rightarrow> Some Passthrough
     | Some offset \<Rightarrow>
         if length p < offset + 20 then Some Passthrough
         else do {
           vhl \<leftarrow> rd8 p offset;
           if drop_bit 4 vhl \<noteq> 4 then Some Passthrough
           else do {
             src \<leftarrow> le32 p (offset + 12);
             dst \<leftarrow> le32 p (offset + 16);
             proto \<leftarrow> rd8 p (offset + 9);
             (sp, dp) \<leftarrow> acl_ports p offset (unat (vhl AND 15) * 4) proto;
             Some (Ipv4 \<lparr>pk_src = src, pk_dst = dst, pk_proto = proto,
                         pk_sport = sp, pk_dport = dp\<rparr>) } } }"

definition acl_rule_matches :: "acl_view \<Rightarrow> acl_entry \<Rightarrow> bool" where
  "acl_rule_matches v r =
     (if ae_valid r = 0 then False
      else if ae_proto r \<noteq> 0 \<and> ae_proto r \<noteq> pk_proto v then False
      else if pk_src v AND ae_s_mask r \<noteq> ae_src r then False
      else if pk_dst v AND ae_d_mask r \<noteq> ae_dest r then False
      else if ae_s_port r \<noteq> 0 \<or> ae_d_port r \<noteq> 0 then
        (if pk_proto v \<noteq> 6 \<and> pk_proto v \<noteq> 17 then False
         else if ae_s_port r \<noteq> 0 \<and> ae_s_port r \<noteq> pk_sport v then False
         else if ae_d_port r \<noteq> 0 \<and> ae_d_port r \<noteq> pk_dport v then False
         else True)
      else True)"

text \<open>
  The whole check.  \<open>now\<close> is the reading of \<open>esp_timer_get_time\<close>; the result is the action,
  the new state and whether a denial is logged.  \<open>None\<close> would be an out-of-bounds read.
\<close>

definition acl_apply :: "acl_state \<Rightarrow> nat \<Rightarrow> acl_view \<Rightarrow> int \<Rightarrow> u8 \<times> acl_state \<times> bool" where
  "acl_apply s acl_no v now =
     (case find_index (acl_rule_matches v) (acl_lists s ! acl_no) of
        None \<Rightarrow>
          (let st = acl_stats s ! acl_no in
           (ACL_NO_MATCH,
            s\<lparr>acl_stats := (acl_stats s)[acl_no := st\<lparr>packets_nomatch := packets_nomatch st + 1\<rparr>]\<rparr>,
            False))
      | Some i \<Rightarrow>
          (let rule = acl_lists s ! acl_no ! i;
               rules = (acl_lists s ! acl_no)[i := rule\<lparr>ae_hit_count := ae_hit_count rule + 1\<rparr>];
               s1 = s\<lparr>acl_lists := (acl_lists s)[acl_no := rules]\<rparr>;
               st = acl_stats s ! acl_no;
               action = ae_allow rule AND 1
           in if action = ACL_ALLOW
              then (action,
                    s1\<lparr>acl_stats := (acl_stats s)[acl_no := st\<lparr>packets_allowed := packets_allowed st + 1\<rparr>]\<rparr>,
                    False)
              else (let s2 = s1\<lparr>acl_stats := (acl_stats s)[acl_no :=
                              st\<lparr>packets_denied := packets_denied st + 1\<rparr>]\<rparr>
                    in if 500000 \<le> now - last_deny_log_time s ! acl_no
                       then (action, s2\<lparr>last_deny_log_time :=
                                          (last_deny_log_time s)[acl_no := now]\<rparr>, True)
                       else (action, s2, False))))"

definition acl_check_packet ::
  "acl_state \<Rightarrow> nat \<Rightarrow> bytes option \<Rightarrow> int \<Rightarrow> (u8 \<times> acl_state \<times> bool) option" where
  "acl_check_packet s acl_no p now =
     (case p of
        None \<Rightarrow> Some (ACL_NO_MATCH, s, False)
      | Some payload \<Rightarrow>
          if MAX_ACL_LISTS \<le> acl_no then Some (ACL_NO_MATCH, s, False)
          else do {
            parsed \<leftarrow> acl_extract payload;
            Some (case parsed of
                    Passthrough \<Rightarrow> (ACL_NO_MATCH, s, False)
                  | Ipv4 v \<Rightarrow> acl_apply s acl_no v now) })"

section \<open>Names and addresses\<close>

definition acl_names :: "string list" where
  "acl_names = [''to_esp'', ''from_esp'', ''to_ap'', ''from_ap'']"

definition acl_get_name :: "nat \<Rightarrow> string" where
  "acl_get_name acl_no = (if MAX_ACL_LISTS \<le> acl_no then ''unknown'' else acl_names ! acl_no)"

definition acl_desc :: "string list" where
  "acl_desc = [''Internet -> ESP (to_esp)'', ''ESP -> Internet (from_esp)'',
               ''Clients -> ESP (to_ap)'', ''ESP -> Clients (from_ap)'']"

definition acl_get_desc :: "nat \<Rightarrow> string" where
  "acl_get_desc acl_no = (if MAX_ACL_LISTS \<le> acl_no then ''unknown'' else acl_desc ! acl_no)"

definition acl_get_rules :: "acl_state \<Rightarrow> nat \<Rightarrow> acl_entry list option" where
  "acl_get_rules s acl_no = (if MAX_ACL_LISTS \<le> acl_no then None else Some (acl_lists s ! acl_no))"

definition acl_get_stats :: "acl_state \<Rightarrow> nat \<Rightarrow> acl_stats option" where
  "acl_get_stats s acl_no = (if MAX_ACL_LISTS \<le> acl_no then None else Some (acl_stats s ! acl_no))"

definition acl_parse_name :: "string option \<Rightarrow> int" where
  "acl_parse_name name = (case name of None \<Rightarrow> -1
     | Some s \<Rightarrow> (case find_index (strcaseeq s) acl_names of None \<Rightarrow> -1 | Some i \<Rightarrow> int i))"

function count_ones :: "u32 \<Rightarrow> nat \<Rightarrow> nat" where
  "count_ones m count = (if m = 0 then count else count_ones (drop_bit 1 m) (count + unat (m AND 1)))"
  by pat_completeness auto
termination
proof (relation "measure (\<lambda>(m, count). unat m)")
  fix m :: u32 and count :: nat
  assume "m \<noteq> 0"
  then have "0 < unat m" by (simp add: unat_gt_0)
  then show "((drop_bit 1 m, count + unat (m AND 1)), (m, count)) \<in> measure (\<lambda>(m, count). unat m)"
    by (simp add: drop_bit_eq_div unat_div)
qed simp

declare count_ones.simps [simp del]

definition count_bits :: "u32 \<Rightarrow> nat" where
  "count_bits m = count_ones (htonl m) 0"

text \<open>The text written into a buffer of \<open>buf_len\<close> bytes (\<open>snprintf\<close> truncates).\<close>

definition acl_format_ip :: "u32 \<Rightarrow> u32 \<Rightarrow> nat \<Rightarrow> string" where
  "acl_format_ip ip msk buf_len =
     take (buf_len - 1)
       (if ip = 0 \<and> msk = 0 then ''any''
        else if msk = 0xFFFFFFFF then ip4_str ip
        else ip4_str ip @ ''/'' @ dec (count_bits msk))"

text \<open>\<open>aton\<close> is lwIP's \<open>ip4addr_aton\<close>: the address in network byte order, if the text is one.\<close>

definition acl_parse_ip :: "(string \<Rightarrow> u32 option) \<Rightarrow> string option \<Rightarrow> (u32 \<times> u32) option" where
  "acl_parse_ip aton str =
     (case str of None \<Rightarrow> None
      | Some s \<Rightarrow>
          if strcaseeq s ''any'' then Some (0, 0)
          else
            let ip_str = take 31 s;
                host = takeWhile (\<lambda>c. c \<noteq> CHR ''/'') ip_str;
                tail = dropWhile (\<lambda>c. c \<noteq> CHR ''/'') ip_str;
                cidr = (case tail of [] \<Rightarrow> 32 | _ # t \<Rightarrow> c_atoi t)
            in if cidr < 0 \<or> 32 < cidr then None
               else case aton host of
                 None \<Rightarrow> None
               | Some addr \<Rightarrow>
                   let msk = (if cidr = 0 then 0 else htonl (push_bit (nat (32 - cidr)) 0xFFFFFFFF))
                   in Some (addr AND msk, msk))"

section \<open>Persistence\<close>

definition acl_keys :: "string list" where
  "acl_keys = [''acl_0'', ''acl_1'', ''acl_2'', ''acl_3'']"

text \<open>A failing \<open>nvs_set_blob\<close> is logged and the loop goes on; the commit decides the result.\<close>

fun acl_save_lists :: "('h, acl_entry) nvs_api \<Rightarrow> 'h \<Rightarrow> (string \<times> acl_entry list) list \<Rightarrow> 'h" where
  "acl_save_lists api h [] = h"
| "acl_save_lists api h ((k, l) # rest) = acl_save_lists api (snd (nvs_set_blob api h k l)) rest"

definition save_acl_rules :: "('h, acl_entry) nvs_api \<Rightarrow> 'h \<Rightarrow> acl_state \<Rightarrow> esp_err \<times> 'h" where
  "save_acl_rules api h s =
     (if nvs_open_rw api h \<noteq> ESP_OK then (nvs_open_rw api h, h)
      else nvs_commit api (acl_save_lists api h (zip acl_keys (acl_lists s))))"

text \<open>
  \<open>nvs_get_blob\<close> writes the blob over the start of the table (a longer blob is an error), then
  the hit counters of the valid rules are reset.
\<close>

definition acl_load_list :: "('h, acl_entry) nvs_api \<Rightarrow> 'h \<Rightarrow> string \<Rightarrow> acl_entry list \<Rightarrow> acl_entry list" where
  "acl_load_list api h key rules =
     (case nvs_get_blob api h key MAX_ACL_ENTRIES of
        Inl _ \<Rightarrow> rules
      | Inr b \<Rightarrow> map (\<lambda>e. if ae_valid e \<noteq> 0 then e\<lparr>ae_hit_count := 0\<rparr> else e)
                   (b @ drop (length b) rules))"

definition load_acl_rules :: "('h, acl_entry) nvs_api \<Rightarrow> 'h \<Rightarrow> acl_state \<Rightarrow> esp_err \<times> acl_state" where
  "load_acl_rules api h s0 =
     (let s = acl_init s0 in
      if nvs_open_ro api h \<noteq> ESP_OK then (ESP_OK, s)
      else (ESP_OK, s\<lparr>acl_lists :=
              map (\<lambda>(k, l). acl_load_list api h k l) (zip acl_keys (acl_lists s))\<rparr>))"

section \<open>Tables: compactness and refinement\<close>

definition acl_valid :: "acl_entry \<Rightarrow> bool" where
  "acl_valid e \<longleftrightarrow> ae_valid e \<noteq> 0"

definition acl_premasked :: "acl_entry \<Rightarrow> bool" where
  "acl_premasked e \<longleftrightarrow> ae_src e = ae_src e AND ae_s_mask e \<and> ae_dest e = ae_dest e AND ae_d_mask e"

text \<open>The rules of a table, and the invariant every operation keeps.\<close>

definition acl_rules :: "acl_entry list \<Rightarrow> acl_entry list" where
  "acl_rules l = filter acl_valid l"

definition acl_table_inv :: "acl_entry list \<Rightarrow> bool" where
  "acl_table_inv l \<longleftrightarrow>
     length (acl_rules l) \<le> MAX_ACL_ENTRIES \<and>
     l = acl_rules l @ replicate (MAX_ACL_ENTRIES - length (acl_rules l)) acl_entry_zero \<and>
     (\<forall>e \<in> set (acl_rules l). acl_premasked e)"

lemma acl_valid_zero [simp]: "\<not> acl_valid acl_entry_zero"
  by (simp add: acl_valid_def acl_entry_zero_def)

lemma acl_table_invI:
  assumes "\<forall>e \<in> set rs. acl_valid e \<and> acl_premasked e" and "length rs + k = MAX_ACL_ENTRIES"
  shows "acl_table_inv (rs @ replicate k acl_entry_zero)
       \<and> acl_rules (rs @ replicate k acl_entry_zero) = rs"
proof -
  have "filter acl_valid rs = rs" using assms(1) by (simp add: filter_id_conv)
  then have "acl_rules (rs @ replicate k acl_entry_zero) = rs"
    by (simp add: acl_rules_def filter_replicate)
  moreover have "k = MAX_ACL_ENTRIES - length rs" using assms(2) by simp
  ultimately show ?thesis using assms by (simp add: acl_table_inv_def)
qed

lemma acl_table_invE:
  assumes "acl_table_inv l"
  obtains rs k where "l = rs @ replicate k acl_entry_zero" and "acl_rules l = rs"
    and "length rs + k = MAX_ACL_ENTRIES" and "\<forall>e \<in> set rs. acl_valid e \<and> acl_premasked e"
proof (rule that [of "acl_rules l" "MAX_ACL_ENTRIES - length (acl_rules l)"])
  show "\<forall>e \<in> set (acl_rules l). acl_valid e \<and> acl_premasked e"
    using assms by (auto simp: acl_table_inv_def acl_rules_def)
qed (use assms in \<open>simp_all add: acl_table_inv_def\<close>)

lemma acl_table_inv_length: "acl_table_inv l \<Longrightarrow> length l = MAX_ACL_ENTRIES"
  by (elim acl_table_invE) simp

lemma acl_table_inv_zero: "acl_table_inv (replicate MAX_ACL_ENTRIES acl_entry_zero)"
  using acl_table_invI [of "[]" MAX_ACL_ENTRIES] by simp

lemma find_empty_slot:
  "\<forall>e \<in> set rs. acl_valid e \<Longrightarrow>
   find_index (\<lambda>x. ae_valid x = 0) (rs @ replicate k acl_entry_zero)
     = (if k = 0 then None else Some (length rs))"
proof (induction rs)
  case Nil
  then show ?case by (cases k) (auto simp: acl_entry_zero_def)
next
  case (Cons a rs)
  then show ?case by (auto simp: acl_valid_def)
qed

lemma acl_table_add_spec:
  assumes inv: "acl_table_inv l" and e: "acl_valid e" "acl_premasked e"
  shows "case acl_table_add l e of
      None \<Rightarrow> length (acl_rules l) = MAX_ACL_ENTRIES
    | Some l' \<Rightarrow> acl_table_inv l' \<and> acl_rules l' = acl_rules l @ [e]
                 \<and> length (acl_rules l) < MAX_ACL_ENTRIES"
proof -
  from inv obtain rs k where l: "l = rs @ replicate k acl_entry_zero" "acl_rules l = rs"
    and len: "length rs + k = MAX_ACL_ENTRIES" and ok: "\<forall>e \<in> set rs. acl_valid e \<and> acl_premasked e"
    by (rule acl_table_invE)
  have idx: "find_index (\<lambda>x. ae_valid x = 0) l = (if k = 0 then None else Some (length rs))"
    using ok by (simp add: l find_empty_slot)
  show ?thesis
  proof (cases k)
    case 0
    then show ?thesis using idx len l by (simp add: acl_table_add_def)
  next
    case (Suc k')
    then have "l[length rs := e] = (rs @ [e]) @ replicate k' acl_entry_zero"
      by (simp add: l(1))
    moreover have "acl_table_inv ((rs @ [e]) @ replicate k' acl_entry_zero)
        \<and> acl_rules ((rs @ [e]) @ replicate k' acl_entry_zero) = rs @ [e]"
      using ok e len Suc by (intro acl_table_invI) auto
    ultimately show ?thesis using idx len l(2) Suc by (simp add: acl_table_add_def)
  qed
qed

lemma acl_compact_shift:
  "\<forall>e \<in> set b. acl_valid e \<Longrightarrow> length a + 1 + length b + k = MAX_ACL_ENTRIES \<Longrightarrow>
   acl_compact (length a) (a @ acl_entry_zero # b @ replicate k acl_entry_zero)
     = a @ b @ replicate (Suc k) acl_entry_zero"
proof (induction b arbitrary: a)
  case Nil
  have "\<not> (length a < MAX_ACL_ENTRIES - 1
      \<and> ae_valid ((a @ replicate (Suc k) acl_entry_zero) ! (length a + 1)) \<noteq> 0)"
    using Nil.prems by (auto simp: nth_append acl_entry_zero_def)
  then show ?case by (subst acl_compact.simps) auto
next
  case (Cons x b)
  let ?l = "a @ acl_entry_zero # (x # b) @ replicate k acl_entry_zero"
  have "length a < MAX_ACL_ENTRIES - 1 \<and> ae_valid (?l ! (length a + 1)) \<noteq> 0"
    using Cons.prems by (auto simp: nth_append acl_valid_def)
  moreover have "?l[length a := ?l ! (length a + 1), length a + 1 := acl_entry_zero]
      = (a @ [x]) @ acl_entry_zero # b @ replicate k acl_entry_zero"
    by (simp add: nth_append list_update_append)
  ultimately have "acl_compact (length a) ?l
      = acl_compact (length (a @ [x])) ((a @ [x]) @ acl_entry_zero # b @ replicate k acl_entry_zero)"
    by (subst acl_compact.simps) simp
  also have "\<dots> = (a @ [x]) @ b @ replicate (Suc k) acl_entry_zero"
    using Cons.prems by (intro Cons.IH) auto
  finally show ?case by simp
qed

lemma acl_table_delete_spec:
  assumes inv: "acl_table_inv l" and i: "i < MAX_ACL_ENTRIES"
  shows "case acl_table_delete l i of
      None \<Rightarrow> length (acl_rules l) \<le> i
    | Some l' \<Rightarrow> acl_table_inv l' \<and> i < length (acl_rules l)
                 \<and> acl_rules l' = take i (acl_rules l) @ drop (Suc i) (acl_rules l)"
proof -
  from inv obtain rs k where l: "l = rs @ replicate k acl_entry_zero" "acl_rules l = rs"
    and len: "length rs + k = MAX_ACL_ENTRIES" and ok: "\<forall>e \<in> set rs. acl_valid e \<and> acl_premasked e"
    by (rule acl_table_invE)
  show ?thesis
  proof (cases "i < length rs")
    case False
    then have "ae_valid (l ! i) = 0" using i len by (simp add: l nth_append acl_entry_zero_def)
    then show ?thesis using False l by (simp add: acl_table_delete_def)
  next
    case True
    let ?rs' = "take i rs @ drop (Suc i) rs"
    have v: "ae_valid (l ! i) \<noteq> 0" using True ok by (simp add: l nth_append acl_valid_def)
    have "l[i := acl_entry_zero]
        = take i rs @ acl_entry_zero # drop (Suc i) rs @ replicate k acl_entry_zero"
      using True by (simp add: l list_update_append upd_conv_take_nth_drop)
    moreover have "acl_compact i (take i rs @ acl_entry_zero # drop (Suc i) rs @ replicate k acl_entry_zero)
        = take i rs @ drop (Suc i) rs @ replicate (Suc k) acl_entry_zero"
      using acl_compact_shift [of "drop (Suc i) rs" "take i rs" k] True ok len
      by (auto dest: in_set_dropD)
    ultimately have "acl_table_delete l i = Some (?rs' @ replicate (Suc k) acl_entry_zero)"
      using v by (simp add: acl_table_delete_def)
    moreover have "acl_table_inv (?rs' @ replicate (Suc k) acl_entry_zero)
        \<and> acl_rules (?rs' @ replicate (Suc k) acl_entry_zero) = ?rs'"
      using ok True len by (intro acl_table_invI) (auto dest: in_set_takeD in_set_dropD)
    ultimately show ?thesis using True l(2) by simp
  qed
qed

text \<open>The tables implement a bounded list of rules.\<close>

interpretation acl_tab: bounded_table acl_table_inv acl_rules
  "\<lambda>e. acl_valid e \<and> acl_premasked e" acl_table_add acl_table_delete MAX_ACL_ENTRIES
proof (unfold_locales, goal_cases)
  case (1 t) then show ?case by (simp add: acl_table_inv_def)
next
  case (2 t e) then show ?case using acl_table_add_spec [of t e] by simp
next
  case (3 t e t') then show ?case using acl_table_add_spec [of t e] by simp
next
  case (4 t i) then show ?case using acl_table_delete_spec [of t i] by simp
next
  case (5 t i t') then show ?case using acl_table_delete_spec [of t i] by simp
qed

section \<open>Reachable states\<close>

definition acl_inv :: "acl_state \<Rightarrow> bool" where
  "acl_inv s \<longleftrightarrow> length (acl_lists s) = MAX_ACL_LISTS \<and> (\<forall>l \<in> set (acl_lists s). acl_table_inv l)
     \<and> length (acl_stats s) = MAX_ACL_LISTS \<and> length (last_deny_log_time s) = MAX_ACL_LISTS"

inductive acl_step :: "acl_state \<Rightarrow> acl_state \<Rightarrow> bool" where
  step_init: "acl_step s (acl_init s)"
| step_clear: "acl_step s (acl_clear s n)"
| step_clear_stats: "acl_step s (acl_clear_stats s n)"
| step_add: "acl_step s (snd (acl_add s n src sm dst dm pr sp dp al))"
| step_delete: "acl_step s (snd (acl_delete s n i))"
| step_check: "acl_check_packet s n p now = Some (a, s', lg) \<Longrightarrow> acl_step s s'"

inductive acl_reachable :: "acl_state \<Rightarrow> bool" where
  reach_boot: "acl_reachable acl_boot"
| reach_step: "acl_reachable s \<Longrightarrow> acl_step s s' \<Longrightarrow> acl_reachable s'"

lemma acl_inv_nth: "acl_inv s \<Longrightarrow> n < MAX_ACL_LISTS \<Longrightarrow> acl_table_inv (acl_lists s ! n)"
  by (simp add: acl_inv_def)

lemma acl_inv_update:
  "acl_inv s \<Longrightarrow> acl_table_inv l \<Longrightarrow> acl_inv (s\<lparr>acl_lists := (acl_lists s)[n := l]\<rparr>)"
  by (auto simp: acl_inv_def dest!: set_update_subset_insert [THEN subsetD])

lemma acl_inv_stats [simp]: "acl_inv (s\<lparr>acl_stats := (acl_stats s)[n := x]\<rparr>) = acl_inv s"
  by (simp add: acl_inv_def)

lemma acl_inv_times [simp]:
  "acl_inv (s\<lparr>last_deny_log_time := (last_deny_log_time s)[n := x]\<rparr>) = acl_inv s"
  by (simp add: acl_inv_def)

lemma acl_table_inv_map:
  assumes "acl_table_inv l" and "f acl_entry_zero = acl_entry_zero"
    and "\<And>e. acl_valid e \<and> acl_premasked e \<Longrightarrow> acl_valid (f e) \<and> acl_premasked (f e)"
  shows "acl_table_inv (map f l) \<and> acl_rules (map f l) = map f (acl_rules l)"
proof -
  from assms(1) obtain rs k where l: "l = rs @ replicate k acl_entry_zero" "acl_rules l = rs"
    "length rs + k = MAX_ACL_ENTRIES" "\<forall>e \<in> set rs. acl_valid e \<and> acl_premasked e"
    by (rule acl_table_invE)
  then have "map f l = map f rs @ replicate k acl_entry_zero" using assms(2) by simp
  then show ?thesis using l assms(3) acl_table_invI [of "map f rs" k] by auto
qed

lemma acl_table_inv_set:
  assumes "acl_table_inv l" and "acl_valid (l ! i)" and "i < MAX_ACL_ENTRIES"
    and "acl_valid e" and "acl_premasked e"
  shows "acl_table_inv (l[i := e]) \<and> acl_rules (l[i := e]) = (acl_rules l)[i := e]
         \<and> i < length (acl_rules l) \<and> acl_rules l ! i = l ! i"
proof -
  from assms(1) obtain rs k where l: "l = rs @ replicate k acl_entry_zero" "acl_rules l = rs"
    "length rs + k = MAX_ACL_ENTRIES" "\<forall>e \<in> set rs. acl_valid e \<and> acl_premasked e"
    by (rule acl_table_invE)
  have i: "i < length rs" using assms(2,3) l by (auto simp: nth_append split: if_splits)
  then have "l[i := e] = rs[i := e] @ replicate k acl_entry_zero" by (simp add: l list_update_append)
  moreover have "\<forall>x \<in> set (rs[i := e]). acl_valid x \<and> acl_premasked x"
    using l(4) assms(4,5) by (auto dest!: set_update_subset_insert [THEN subsetD])
  ultimately show ?thesis using l i acl_table_invI [of "rs[i := e]" k] by (simp add: nth_append)
qed

lemma acl_mk_entry_ok: "acl_valid (acl_mk_entry a b c d e f g h) \<and> acl_premasked (acl_mk_entry a b c d e f g h)"
  by (simp add: acl_mk_entry_def acl_valid_def acl_premasked_def and.assoc)

lemma acl_rule_matches_valid: "acl_rule_matches v r \<Longrightarrow> acl_valid r"
  by (simp add: acl_rule_matches_def acl_valid_def split: if_splits)

lemma acl_boot_inv: "acl_inv acl_boot"
  by (simp add: acl_inv_def acl_boot_def acl_table_inv_zero)

lemma acl_init_inv: "acl_inv s \<Longrightarrow> acl_inv (acl_init s)"
  by (simp add: acl_inv_def acl_init_def acl_table_inv_zero)

lemma acl_clear_inv: "acl_inv s \<Longrightarrow> acl_inv (acl_clear s n)"
  by (simp add: acl_clear_def acl_inv_update acl_table_inv_zero)

lemma acl_clear_stats_inv:
  assumes "acl_inv s"
  shows "acl_inv (acl_clear_stats s n)"
proof (cases "n < MAX_ACL_LISTS")
  case True
  have "acl_table_inv (map (\<lambda>e. e\<lparr>ae_hit_count := 0\<rparr>) (acl_lists s ! n))"
    using acl_table_inv_map [OF acl_inv_nth [OF assms True], of "\<lambda>e. e\<lparr>ae_hit_count := 0\<rparr>"]
    by (simp add: acl_entry_zero_def acl_valid_def acl_premasked_def)
  from acl_inv_update [OF assms this, of n] show ?thesis
    using True by (simp add: acl_clear_stats_def acl_inv_def)
qed (use assms in \<open>simp add: acl_clear_stats_def\<close>)

lemma acl_add_inv: "acl_inv s \<Longrightarrow> acl_inv (snd (acl_add s n a b c d e f g h))"
  using acl_tab.add_Some [OF acl_inv_nth acl_mk_entry_ok]
  by (auto simp: acl_add_def not_le intro!: acl_inv_update split: option.splits)

lemma acl_delete_inv: "acl_inv s \<Longrightarrow> acl_inv (snd (acl_delete s n i))"
  using acl_tab.del_Some [OF acl_inv_nth]
  by (auto simp: acl_delete_def not_le intro!: acl_inv_update split: option.splits)

text \<open>The entry a matching packet bumps, and what that does to the table.\<close>

lemma acl_hit_inv:
  assumes s: "acl_inv s" and n: "n < MAX_ACL_LISTS"
    and f: "find_index (acl_rule_matches v) (acl_lists s ! n) = Some i"
    and e: "e = (acl_lists s ! n ! i)\<lparr>ae_hit_count := h\<rparr>"
  shows "acl_table_inv ((acl_lists s ! n)[i := e])
       \<and> acl_rules ((acl_lists s ! n)[i := e]) = (acl_rules (acl_lists s ! n))[i := e]
       \<and> i < length (acl_rules (acl_lists s ! n)) \<and> acl_rules (acl_lists s ! n) ! i = acl_lists s ! n ! i"
proof -
  have inv: "acl_table_inv (acl_lists s ! n)" using s n by (rule acl_inv_nth)
  from find_index_Some [OF f] have i: "i < length (acl_lists s ! n)"
    and m: "acl_rule_matches v (acl_lists s ! n ! i)" by auto
  have v: "acl_valid (acl_lists s ! n ! i)" using m by (rule acl_rule_matches_valid)
  moreover from inv v i have "acl_premasked (acl_lists s ! n ! i)"
    by (auto simp: acl_table_inv_def acl_rules_def)
  ultimately show ?thesis
    using inv i e acl_table_inv_length [OF inv]
    by (intro acl_table_inv_set) (simp_all add: acl_valid_def acl_premasked_def)
qed

lemma acl_apply_inv:
  assumes "acl_inv s" and "n < MAX_ACL_LISTS" and "acl_apply s n v now = (a, s', lg)"
  shows "acl_inv s'"
proof (cases "find_index (acl_rule_matches v) (acl_lists s ! n)")
  case None
  then show ?thesis using assms by (auto simp: acl_apply_def Let_def)
next
  case (Some i)
  let ?e = "(acl_lists s ! n ! i)\<lparr>ae_hit_count := ae_hit_count (acl_lists s ! n ! i) + 1\<rparr>"
  let ?l = "(acl_lists s ! n)[i := ?e]"
  have "acl_table_inv ?l" using acl_hit_inv [OF assms(1,2) Some refl] by blast
  then have "acl_inv (s\<lparr>acl_lists := (acl_lists s)[n := ?l]\<rparr>)" by (rule acl_inv_update [OF assms(1)])
  moreover have "acl_lists s' = (acl_lists s)[n := ?l]
      \<and> length (acl_stats s') = length (acl_stats s)
      \<and> length (last_deny_log_time s') = length (last_deny_log_time s)"
    using assms(3) Some by (auto simp: acl_apply_def Let_def split: if_splits)
  ultimately show ?thesis by (simp add: acl_inv_def)
qed

lemma acl_check_packet_inv:
  "acl_inv s \<Longrightarrow> acl_check_packet s n p now = Some (a, s', lg) \<Longrightarrow> acl_inv s'"
  by (auto simp: acl_check_packet_def not_le split: option.splits if_splits acl_parse.splits bind_splits
           dest: acl_apply_inv)

lemma acl_step_inv: "acl_step s s' \<Longrightarrow> acl_inv s \<Longrightarrow> acl_inv s'"
  by (induction rule: acl_step.induct)
     (auto intro: acl_init_inv acl_clear_inv acl_clear_stats_inv acl_add_inv acl_delete_inv
           dest: acl_check_packet_inv)

text \<open>Every read of the parser is inside the packet.\<close>

lemma acl_ports_total: "\<exists>sp dp. acl_ports p off h pr = Some (sp, dp)"
  by (auto simp: acl_ports_def byte_simps)

lemma acl_extract_total: "acl_extract p \<noteq> None"
proof -
  obtain off where off: "acl_ip_offset p = Some off"
    by (cases "14 \<le> length p") (auto simp: acl_ip_offset_def byte_simps)
  show ?thesis
  proof (cases off)
    case None
    then show ?thesis by (simp add: acl_extract_def off)
  next
    case (Some offset)
    show ?thesis
    proof (cases "length p < offset + 20")
      case True
      then show ?thesis by (simp add: acl_extract_def off Some)
    next
      case False
      obtain sp dp where
        "acl_ports p offset (unat (p ! offset AND 15) * 4) (p ! (offset + 9)) = Some (sp, dp)"
        using acl_ports_total by blast
      with False show ?thesis by (simp add: acl_extract_def off Some byte_simps)
    qed
  qed
qed

section \<open>Properties\<close>

text \<open>
  In every state reachable from boot by any sequence of rule additions, deletions,
  clears, re-initialisations and packet checks, each of the four tables is a contiguous prefix
  of valid rules with pre-masked addresses followed by zeroed slots.
\<close>

theorem acl_reachable_inv: "acl_reachable s \<Longrightarrow> acl_inv s"
  by (induction rule: acl_reachable.induct) (auto intro: acl_boot_inv acl_step_inv)

theorem acl_reachable_inv_witness:
  "acl_inv (snd (acl_add acl_boot 2 0x0A0B0C0D 0xFFFFFFFF 0 0 6 0 80 0))"
  by (rule acl_reachable_inv) (rule reach_step [OF reach_boot step_add])

text \<open>
  C40: Any run of additions of well-formed rules and deletions on one ACL table has exactly the
  effect of the same run on a list of at most sixteen rules: an addition appends (or fails on a
  full table), a deletion removes the rule at its index and closes the gap.
\<close>

theorem acl_table_run_refines:
  assumes "acl_table_inv l"
    and "\<forall>x \<in> set ops. op_ok (\<lambda>e. acl_valid e \<and> acl_premasked e) MAX_ACL_ENTRIES x"
  shows "acl_rules (table_run acl_table_add acl_table_delete l ops)
           = list_run MAX_ACL_ENTRIES (acl_rules l) ops"
  using acl_tab.run_refines [OF assms] by simp

theorem acl_table_run_refines_witness:
  "acl_rules (table_run acl_table_add acl_table_delete (replicate MAX_ACL_ENTRIES acl_entry_zero)
     [Inl (acl_mk_entry 1 1 2 2 6 0 80 1), Inl (acl_mk_entry 5 5 0 0 0 0 0 0), Inr 0])
   = [acl_mk_entry 5 5 0 0 0 0 0 0]"
proof -
  have ok: "\<forall>x \<in> set [Inl (acl_mk_entry 1 1 2 2 6 0 80 1), Inl (acl_mk_entry 5 5 0 0 0 0 0 0), Inr 0].
      op_ok (\<lambda>e. acl_valid e \<and> acl_premasked e) MAX_ACL_ENTRIES x"
    using acl_mk_entry_ok by (simp add: acl_consts)
  show ?thesis
    using acl_table_run_refines [OF acl_table_inv_zero ok]
    by (simp add: acl_consts acl_rules_def)
qed

text \<open>
  The packet check never reads outside the packet buffer: for any table, any packet bytes of
  any length (also NULL) and any list number it returns an action, never the undefined result.
\<close>

theorem acl_check_packet_in_bounds: "acl_check_packet s acl_no p now \<noteq> None"
proof (cases p)
  case None
  then show ?thesis by (simp add: acl_check_packet_def)
next
  case (Some q)
  obtain r where "acl_extract q = Some r" using acl_extract_total [of q] by blast
  with Some show ?thesis by (simp add: acl_check_packet_def del: not_None_eq)
qed

text \<open>What a rule covers, said declaratively, and the first-match reading of a rule list.\<close>

definition acl_covers :: "acl_view \<Rightarrow> acl_entry \<Rightarrow> bool" where
  "acl_covers v r \<longleftrightarrow>
     (ae_proto r = 0 \<or> ae_proto r = pk_proto v) \<and>
     pk_src v AND ae_s_mask r = ae_src r \<and> pk_dst v AND ae_d_mask r = ae_dest r \<and>
     (ae_s_port r = 0 \<or> pk_proto v \<in> {6, 17} \<and> pk_sport v = ae_s_port r) \<and>
     (ae_d_port r = 0 \<or> pk_proto v \<in> {6, 17} \<and> pk_dport v = ae_d_port r)"

lemma acl_rule_matches_iff: "acl_rule_matches v r \<longleftrightarrow> acl_valid r \<and> acl_covers v r"
  by (auto simp: acl_rule_matches_def acl_valid_def acl_covers_def)

lemma find_index_rules:
  assumes "acl_table_inv l"
  shows "find_index (acl_rule_matches v) l = find_index (acl_covers v) (acl_rules l)"
proof -
  from assms obtain rs k where l: "l = rs @ replicate k acl_entry_zero" "acl_rules l = rs"
    "\<forall>e \<in> set rs. acl_valid e \<and> acl_premasked e"
    by (rule acl_table_invE)
  have zero: "find_index (acl_rule_matches v) (replicate k acl_entry_zero) = None"
    by (simp add: find_index_None acl_rule_matches_iff)
  have "find_index (acl_rule_matches v) (rs @ replicate k acl_entry_zero) = find_index (acl_covers v) rs"
    using l(3) zero by (induction rs) (auto simp: acl_rule_matches_iff)
  then show ?thesis using l(1,2) by simp
qed

text \<open>
  For an IPv4 packet the check is first-match-wins over the rules of the list: the first
  rule that covers the packet decides (its action bit) and only its hit counter is incremented;
  when none covers it the action is NO_MATCH and no table changes.  Other lists never change.
\<close>

theorem acl_check_first_match:
  assumes "acl_inv s" and "n < MAX_ACL_LISTS" and "acl_extract p = Some (Ipv4 v)"
  shows "\<exists>a s' lg. acl_check_packet s n (Some p) now = Some (a, s', lg) \<and>
     (case find_index (acl_covers v) (acl_rules (acl_lists s ! n)) of
        None \<Rightarrow> a = ACL_NO_MATCH \<and> acl_lists s' = acl_lists s \<and> \<not> lg
      | Some i \<Rightarrow> (let r = acl_rules (acl_lists s ! n) ! i in
          a = ae_allow r AND 1 \<and>
          acl_rules (acl_lists s' ! n)
            = (acl_rules (acl_lists s ! n))[i := r\<lparr>ae_hit_count := ae_hit_count r + 1\<rparr>] \<and>
          (\<forall>m. m \<noteq> n \<longrightarrow> acl_lists s' ! m = acl_lists s ! m)))"
proof -
  have inv: "acl_table_inv (acl_lists s ! n)" using assms(1,2) by (rule acl_inv_nth)
  have n: "n < length (acl_lists s)" using assms(1,2) by (simp add: acl_inv_def)
  show ?thesis
  proof (cases "find_index (acl_rule_matches v) (acl_lists s ! n)")
    case None
    then show ?thesis using assms find_index_rules [OF inv, of v]
      by (auto simp: acl_check_packet_def acl_apply_def Let_def)
  next
    case (Some i)
    from acl_hit_inv [OF assms(1,2) Some refl] Some assms n find_index_rules [OF inv, of v]
    show ?thesis
      by (auto simp: acl_check_packet_def acl_apply_def Let_def)
  qed
qed

definition acl_demo_packet :: bytes where
  "acl_demo_packet = replicate 12 0 @ [8, 0] @ [0x45, 0, 0, 40, 0, 0, 0, 0, 64, 6, 0, 0,
     192, 168, 4, 2, 1, 1, 1, 1] @ [0xC0, 0, 0, 80] @ replicate 16 0"

theorem acl_check_first_match_witness:
  "\<exists>a s' lg. acl_check_packet (snd (acl_add acl_boot 2 0 0 0 0 6 0 80 0)) 2 (Some acl_demo_packet) 0
     = Some (a, s', lg) \<and> a = ACL_DENY"
proof -
  let ?s = "snd (acl_add acl_boot 2 0 0 0 0 6 0 80 0)"
  let ?v = "\<lparr>pk_src = mk32 2 4 168 192, pk_dst = mk32 1 1 1 1, pk_proto = 6,
             pk_sport = mk16 0xC0 0, pk_dport = mk16 0 80\<rparr>"
  have inv: "acl_inv ?s" by (rule acl_add_inv [OF acl_boot_inv])
  have v: "acl_extract acl_demo_packet = Some (Ipv4 ?v)" by code_simp
  have r: "acl_rules (acl_lists ?s ! 2) = [acl_mk_entry 0 0 0 0 6 0 80 0]" by code_simp
  have c: "acl_covers ?v (acl_mk_entry 0 0 0 0 6 0 80 0)"
    by (simp add: acl_covers_def acl_mk_entry_def mk16_def)
  show ?thesis
    using acl_check_first_match [OF inv _ v, of 2 0] r c
    by (auto simp: acl_consts Let_def acl_mk_entry_def)
qed

text \<open>Printing and parsing an address with its prefix length.\<close>

lemma count_ones_mask: "n \<le> 32 \<Longrightarrow> count_ones (mask n) c = c + n"
proof (induction n arbitrary: c)
  case (Suc n)
  have "drop_bit 1 (mask (Suc n) :: u32) = mask n"
    by (rule bit_word_eqI) (use Suc.prems in \<open>auto simp: bit_simps\<close>)
  moreover have "(mask (Suc n) :: u32) AND 1 = 1"
    by (rule bit_word_eqI) (auto simp: bit_simps)
  moreover have "(mask (Suc n) :: u32) \<noteq> 0"
    using calculation(2) by auto
  ultimately show ?case using Suc by (subst count_ones.simps) simp
qed (simp add: count_ones.simps)

lemma count_ones_push_mask:
  "k + n \<le> 32 \<Longrightarrow> count_ones (push_bit k (mask n)) c = c + n"
proof (induction k)
  case (Suc k)
  have d: "drop_bit 1 (push_bit (Suc k) (mask n) :: u32) = push_bit k (mask n)"
    by (rule bit_word_eqI)
      (use Suc.prems in \<open>auto simp: bit_simps Suc_diff_le simp del: push_bit_Suc\<close>)
  have a: "(push_bit (Suc k) (mask n) :: u32) AND 1 = 0"
    by (rule bit_word_eqI) (auto simp: bit_simps simp del: push_bit_Suc)
  show ?case
  proof (cases "push_bit (Suc k) (mask n) = (0 :: u32)")
    case True
    with d have "push_bit k (mask n) = (0 :: u32)" by (metis drop_bit_of_0)
    with True Suc show ?thesis by simp
  next
    case False
    with a d Suc show ?thesis by (subst count_ones.simps) simp
  qed
qed (simp add: count_ones_mask)

lemma count_bits_prefix: "n \<le> 32 \<Longrightarrow> count_bits (htonl (prefix_mask n)) = n"
proof -
  assume n: "n \<le> 32"
  have "prefix_mask n = push_bit (32 - n) (mask n)"
    by (rule bit_word_eqI) (use n in \<open>auto simp: bit_prefix_mask bit_simps\<close>)
  then show ?thesis using n by (simp add: count_bits_def count_ones_push_mask)
qed

lemma prefix_mask_neq_full: "n < 32 \<Longrightarrow> htonl (prefix_mask n) \<noteq> 0xFFFFFFFF"
proof -
  have "\<forall>n \<in> set [0..<32]. htonl (prefix_mask n) \<noteq> 0xFFFFFFFF" by code_simp
  then show "n < 32 \<Longrightarrow> ?thesis" by simp
qed

lemma prefix_mask_full: "htonl (prefix_mask 32) = 0xFFFFFFFF"
  by code_simp

lemma prefix_mask_positive: "0 < n \<Longrightarrow> n \<le> 32 \<Longrightarrow> htonl (prefix_mask n) \<noteq> 0"
proof -
  have "\<forall>n \<in> set [1..<33]. htonl (prefix_mask n) \<noteq> 0" by code_simp
  then show "0 < n \<Longrightarrow> n \<le> 32 \<Longrightarrow> ?thesis" by simp
qed

lemma strcaseeq_refl [simp]: "strcaseeq s s"
  by (simp add: strcaseeq_def)

lemma takeWhile_ip4_str:
  "takeWhile (\<lambda>c. c \<noteq> CHR ''/'') (ip4_str a @ CHR ''/'' # t) = ip4_str a"
  "dropWhile (\<lambda>c. c \<noteq> CHR ''/'') (ip4_str a @ CHR ''/'' # t) = CHR ''/'' # t"
  "takeWhile (\<lambda>c. c \<noteq> CHR ''/'') (ip4_str a) = ip4_str a"
  "dropWhile (\<lambda>c. c \<noteq> CHR ''/'') (ip4_str a) = []"
  using ip4_str_chars by (auto simp: takeWhile_append dropWhile_append)

text \<open>
  Formatting a rule address and parsing the text gives the address and mask back: for
  every prefix length and every address masked with it, \<open>acl_parse_ip\<close> inverts
  \<open>acl_format_ip\<close> with a buffer of at least 20 bytes, including the \<open>any\<close> and the host form.
\<close>

theorem acl_format_parse_roundtrip:
  assumes "n \<le> 32" and "ip AND htonl (prefix_mask n) = ip" and "20 \<le> buf_len"
    and aton: "aton (ip4_str ip) = Some ip"
  shows "acl_parse_ip aton (Some (acl_format_ip ip (htonl (prefix_mask n)) buf_len))
           = Some (ip, htonl (prefix_mask n))"
proof (cases "n = 0")
  case True
  then show ?thesis using assms(2,3)
    by (simp add: acl_format_ip_def acl_parse_ip_def)
next
  case n0: False
  let ?m = "htonl (prefix_mask n)"
  have m0: "?m \<noteq> 0" using n0 assms(1) by (simp add: prefix_mask_positive del: htonl_eq_0)
  have len: "length (ip4_str ip) \<le> 15" by (rule ip4_str_length)
  show ?thesis
  proof (cases "n = 32")
    case True
    have "acl_format_ip ip ?m buf_len = ip4_str ip"
      using True len assms(3) m0 by (simp add: acl_format_ip_def prefix_mask_full)
    moreover have "\<not> strcaseeq (ip4_str ip) ''any''" using ip4_str_not_any [of ip "[]"] by simp
    moreover have "htonl (push_bit 0 0xFFFFFFFF) = ?m" using True by (simp add: prefix_mask_def)
    ultimately show ?thesis
      using len aton assms(2) by (simp add: acl_parse_ip_def takeWhile_ip4_str)
  next
    case False
    with assms(1) have n: "n < 32" by simp
    have "length (dec n) \<le> 2" using n by (intro dec_length) auto
    then have "length (ip4_str ip @ ''/'' @ dec n) \<le> 18" using len by simp
    then have fmt: "acl_format_ip ip ?m buf_len = ip4_str ip @ ''/'' @ dec n"
      and short: "take 31 (ip4_str ip @ ''/'' @ dec n) = ip4_str ip @ ''/'' @ dec n"
      using assms(1,3) m0 prefix_mask_neq_full [OF n] by (simp_all add: acl_format_ip_def count_bits_prefix)
    have "nat (32 - int n) = 32 - n" by simp
    then have "htonl (push_bit (nat (32 - int n)) 0xFFFFFFFF) = ?m" using n0 by (simp add: prefix_mask_def)
    then show ?thesis
      using ip4_str_not_any [of ip "''/'' @ dec n"] aton assms(2) n n0
      unfolding fmt acl_parse_ip_def by (simp add: Let_def short [simplified] takeWhile_ip4_str)
  qed
qed

theorem acl_format_parse_roundtrip_witness:
  "acl_parse_ip (\<lambda>s. if s = ''192.168.4.0'' then Some (mk32 0 4 168 192) else None)
     (Some (acl_format_ip (mk32 0 4 168 192) (htonl (prefix_mask 24)) 24))
   = Some (mk32 0 4 168 192, htonl (prefix_mask 24))"
proof (rule acl_format_parse_roundtrip)
  show "mk32 0 4 168 192 AND htonl (prefix_mask 24) = mk32 0 4 168 192" by code_simp
  show "(if ip4_str (mk32 0 4 168 192) = ''192.168.4.0'' then Some (mk32 0 4 168 192) else None)
      = Some (mk32 0 4 168 192)" by code_simp
qed simp_all

text \<open>Persistence: the four blobs are written under four keys.\<close>

lemma acl_save_lists_other:
  "nvs_lawful api \<Longrightarrow> k \<notin> set (map fst kls) \<Longrightarrow>
   nvs_get_blob api (acl_save_lists api h kls) k cap = nvs_get_blob api h k cap"
proof (induction kls arbitrary: h)
  case (Cons x kls)
  obtain k' l where x: "x = (k', l)" by force
  obtain e h' where "nvs_set_blob api h k' l = (e, h')" by force
  moreover from this have "nvs_get_blob api h' k cap = nvs_get_blob api h k cap"
    using Cons.prems x unfolding nvs_lawful_def by (metis fst_conv list.set_intros(1) list.simps(9))
  ultimately show ?case using Cons x by simp
qed simp

lemma acl_save_lists_get:
  assumes "nvs_lawful api" and "\<forall>h k b. fst (nvs_set_blob api h k b) = ESP_OK"
  shows "distinct (map fst kls) \<Longrightarrow> (k, l) \<in> set kls \<Longrightarrow> length l \<le> cap \<Longrightarrow>
     nvs_get_blob api (acl_save_lists api h kls) k cap = Inr l"
proof (induction kls arbitrary: h)
  case (Cons x kls)
  obtain k' l' where x: "x = (k', l')" by force
  obtain h' where h': "nvs_set_blob api h k' l' = (ESP_OK, h')"
    using assms(2) by (metis prod.collapse)
  show ?case
  proof (cases "(k, l) \<in> set kls")
    case True
    then show ?thesis using Cons x by simp
  next
    case False
    with Cons.prems x have "k = k'" "l = l'" by auto
    moreover have "nvs_get_blob api h' k' cap = Inr l'"
      using assms(1) h' Cons.prems(3) \<open>l = l'\<close> unfolding nvs_lawful_def by blast
    ultimately show ?thesis
      using Cons.prems(1) x h' acl_save_lists_other [OF assms(1), of k' kls h' cap] by simp
  qed
qed simp

lemma acl_load_list_saved:
  assumes "length l = MAX_ACL_ENTRIES" and "nvs_get_blob api h k MAX_ACL_ENTRIES = Inr l"
    and "length rules = MAX_ACL_ENTRIES"
  shows "acl_load_list api h k rules = map (\<lambda>e. if ae_valid e \<noteq> 0 then e\<lparr>ae_hit_count := 0\<rparr> else e) l"
  using assms by (simp add: acl_load_list_def)

text \<open>
  Saving the rules and loading them at the next boot restores all four tables, each rule
  with its hit counter reset, when NVS stores the four blobs.
\<close>

theorem acl_save_load_roundtrip:
  assumes "nvs_lawful api" and "\<forall>h k b. fst (nvs_set_blob api h k b) = ESP_OK"
    and "acl_inv s" and "save_acl_rules api h s = (ESP_OK, h')"
  shows "acl_lists (snd (load_acl_rules api h' s0))
     = map (map (\<lambda>e. if ae_valid e \<noteq> 0 then e\<lparr>ae_hit_count := 0\<rparr> else e)) (acl_lists s)"
proof -
  let ?h1 = "acl_save_lists api h (zip acl_keys (acl_lists s))"
  have len: "length (acl_lists s) = 4" and tab: "\<And>l. l \<in> set (acl_lists s) \<Longrightarrow> length l = MAX_ACL_ENTRIES"
    using assms(3) by (auto simp: acl_inv_def MAX_ACL_LISTS_def dest: acl_table_inv_length)
  from assms(4) have commit: "nvs_commit api ?h1 = (ESP_OK, h')"
    by (auto simp: save_acl_rules_def split: if_splits)
  then have ro: "nvs_open_ro api h' = ESP_OK" and keep: "\<And>k cap. nvs_get_blob api h' k cap = nvs_get_blob api ?h1 k cap"
    using assms(1) unfolding nvs_lawful_def by blast+
  obtain a b c d where l: "acl_lists s = [a, b, c, d]"
    using len by (auto simp: length_Suc_conv numeral_eq_Suc)
  have dist: "distinct (map fst (zip acl_keys (acl_lists s)))" by (simp add: l acl_keys_def)
  have saved: "nvs_get_blob api h' k MAX_ACL_ENTRIES = Inr t"
    if "(k, t) \<in> set (zip acl_keys (acl_lists s))" for k t
    unfolding keep by (rule acl_save_lists_get [OF assms(1,2) dist that])
      (simp add: tab [OF set_zip_rightD [OF that]])
  have "acl_load_list api h' k (replicate MAX_ACL_ENTRIES acl_entry_zero)
      = map (\<lambda>e. if ae_valid e \<noteq> 0 then e\<lparr>ae_hit_count := 0\<rparr> else e) t"
    if "(k, t) \<in> set (zip acl_keys (acl_lists s))" for k t
    using acl_load_list_saved [OF _ saved [OF that]] tab [of t] set_zip_rightD [OF that] by simp
  then show ?thesis
    using ro by (simp add: load_acl_rules_def Let_def acl_init_def l acl_keys_def MAX_ACL_LISTS_def numeral_eq_Suc)
qed

theorem acl_save_load_roundtrip_witness:
  "acl_lists (snd (load_acl_rules map_nvs (snd (save_acl_rules map_nvs Map.empty acl_boot)) acl_boot))
   = acl_lists acl_boot"
proof -
  have set_ok: "\<forall>h k b. fst (nvs_set_blob map_nvs h k (b :: acl_entry list)) = ESP_OK"
    by (simp add: map_nvs_def)
  have save: "save_acl_rules map_nvs Map.empty acl_boot
      = (ESP_OK, snd (save_acl_rules map_nvs Map.empty acl_boot))"
    by (simp add: save_acl_rules_def map_nvs_def)
  show ?thesis
    using acl_save_load_roundtrip [OF map_nvs_lawful set_ok acl_boot_inv save, of acl_boot]
    by (simp add: acl_boot_def acl_entry_zero_def)
qed

text \<open>
  A failing write of the rule tables is not reported: when every \<open>nvs_set_blob\<close> fails
  without storing anything and the commit succeeds, \<open>save_acl_rules\<close> returns ESP_OK although
  the flash is unchanged.
\<close>

theorem acl_save_hides_write_errors:
  assumes "nvs_open_rw api h = ESP_OK" and "\<forall>k b. nvs_set_blob api h k b = (e, h)"
    and "nvs_commit api h = (ESP_OK, h)"
  shows "save_acl_rules api h s = (ESP_OK, h)"
proof -
  have "acl_save_lists api h kls = h" for kls
    by (induction kls) (use assms(2) in auto)
  then show ?thesis using assms by (simp add: save_acl_rules_def)
qed

theorem acl_save_hides_write_errors_witness:
  "save_acl_rules (map_nvs\<lparr>nvs_set_blob := \<lambda>h k b. (ESP_FAIL, h)\<rparr>) Map.empty
     (snd (acl_add acl_boot 0 0 0 0 0 6 0 80 0)) = (ESP_OK, Map.empty)"
  by (rule acl_save_hides_write_errors) (simp_all add: map_nvs_def)

end
