(* ===== verification/Dhcp.thy ===== *)
theory Dhcp
  imports Prelude
begin

text \<open>
  The DHCP server: \<open>components/dhcpserver/dhcpserver.c\<close> and its header, which replace the
  server of ESP-IDF through the linker's \<open>--wrap\<close>.

  Model.  \<open>dhcps\<close> is the server handle; its linked list of leases is a list, a list node is
  named by its position.  Addresses are words in network byte order and are compared as such,
  as the code does.  A message is the byte buffer the handler allocates, every access to it is
  checked: \<open>None\<close> stands for an access outside the buffer, or the use of a null pointer.
  The environment holds what the code calls: the configuration constants, the interfaces of
  lwIP, the reservation lookup the application registers, and whether an allocation and a
  send succeed.  What a handler sends and calls is the list of its actions.
\<close>

section \<open>Constants\<close>

definition DHCPDISCOVER :: u8 where "DHCPDISCOVER = 1"
definition DHCPOFFER :: u8 where "DHCPOFFER = 2"
definition DHCPREQUEST :: u8 where "DHCPREQUEST = 3"
definition DHCPDECLINE :: u8 where "DHCPDECLINE = 4"
definition DHCPACK :: u8 where "DHCPACK = 5"
definition DHCPNAK :: u8 where "DHCPNAK = 6"
definition DHCPRELEASE :: u8 where "DHCPRELEASE = 7"

lemmas dhcp_types = DHCPDISCOVER_def DHCPOFFER_def DHCPREQUEST_def DHCPDECLINE_def DHCPACK_def
  DHCPNAK_def DHCPRELEASE_def

definition DHCPS_STATE_OFFER :: nat where "DHCPS_STATE_OFFER = 1"
definition DHCPS_STATE_DECLINE :: nat where "DHCPS_STATE_DECLINE = 2"
definition DHCPS_STATE_ACK :: nat where "DHCPS_STATE_ACK = 3"
definition DHCPS_STATE_NAK :: nat where "DHCPS_STATE_NAK = 4"
definition DHCPS_STATE_IDLE :: nat where "DHCPS_STATE_IDLE = 5"
definition DHCPS_STATE_RELEASE :: nat where "DHCPS_STATE_RELEASE = 6"

lemmas dhcp_states = DHCPS_STATE_OFFER_def DHCPS_STATE_DECLINE_def DHCPS_STATE_ACK_def
  DHCPS_STATE_NAK_def DHCPS_STATE_IDLE_def DHCPS_STATE_RELEASE_def

definition DHCPS_MAX_LEASE :: u32 where "DHCPS_MAX_LEASE = 100"
definition DHCPS_LEASE_TIME_DEF :: u32 where "DHCPS_LEASE_TIME_DEF = 120"
definition DHCPS_MAX_HOSTNAME_LEN :: nat where "DHCPS_MAX_HOSTNAME_LEN = 32"

text \<open>\<open>sizeof(struct dhcps_msg)\<close>, \<open>sizeof(struct dhcps_pool)\<close>, \<open>sizeof(list_node)\<close>, and field offsets.\<close>

definition dhcps_msg_size :: nat where "dhcps_msg_size = 548"
definition dhcps_pool_size :: nat where "dhcps_pool_size = 48"
definition list_node_size :: nat where "list_node_size = 8"
definition off_flags :: nat where "off_flags = 10"
definition off_ciaddr :: nat where "off_ciaddr = 12"
definition off_yiaddr :: nat where "off_yiaddr = 16"
definition off_giaddr :: nat where "off_giaddr = 24"
definition off_chaddr :: nat where "off_chaddr = 28"
definition off_options :: nat where "off_options = 236"

lemmas msg_layout = dhcps_msg_size_def off_flags_def off_ciaddr_def off_yiaddr_def off_giaddr_def
  off_chaddr_def off_options_def

section \<open>State\<close>

datatype dhcps_handle_state =
  DHCPS_HANDLE_CREATED | DHCPS_HANDLE_STARTED | DHCPS_HANDLE_STOPPED | DHCPS_HANDLE_DELETE_PENDING

record dhcps_pool =
  dp_ip :: u32
  dp_mac :: mac
  dp_lease_timer :: u32
  dp_hostname :: bytes

record dhcps_lease =
  dl_enable :: bool
  dl_start_ip :: u32
  dl_end_ip :: u32

record netif =
  ni_up :: bool
  ni_ip :: u32
  ni_netmask :: u32
  ni_gw :: u32

text \<open>Interfaces, control blocks and callbacks are named by numbers; \<open>None\<close> is NULL.\<close>

record dhcps =
  dhcps_netif :: "nat option"
  broadcast_dhcps :: u32
  server_address :: u32
  dns_server :: "u32 list"
  client_address :: u32
  client_address_plus :: u32
  dhcps_mask :: u32
  plist :: "dhcps_pool list"
  renew :: bool
  dhcps_poll :: dhcps_lease
  dhcps_lease_time :: u32
  dhcps_offer :: u8
  dhcps_dns :: u8
  captiveportal_uri :: "bytes option"
  dhcps_cb :: "nat option"
  dhcps_cb_arg :: nat
  dhcps_pcb :: "nat option"
  dhcps_state :: dhcps_handle_state
  has_declined_ip :: bool
  current_hostname :: bytes

record dhcps_env =
  cfg_lease_unit :: u32
  cfg_max_station :: nat
  cfg_add_dns :: bool
  cfg_static_entries :: bool
  env_netif :: "nat \<Rightarrow> netif"
  env_reservation :: "(mac \<Rightarrow> u32) option"
  env_alloc :: "nat \<Rightarrow> bool"
  env_sendto :: "u32 \<Rightarrow> bytes \<Rightarrow> err"

datatype dhcps_act =
    Arp_add u32 mac
  | Arp_remove u32
  | Udp_sendto u32 u16 bytes
  | Lease_cb nat nat bytes bytes

text \<open>The bytes of an address in memory order (\<open>memcpy\<close> of \<open>addr\<close>, and \<open>dhcps_option_ip\<close>).\<close>

definition dhcps_option_ip :: "u32 \<Rightarrow> bytes" where
  "dhcps_option_ip ip = [byte0 ip, byte1 ip, byte2 ip, byte3 ip]"

definition magic_cookie :: u32 where "magic_cookie = 0x63538263"

definition dhcps_new :: "dhcps_env \<Rightarrow> nat \<Rightarrow> dhcps option" where
  "dhcps_new env sz =
     (if \<not> env_alloc env sz then None
      else Some \<lparr>dhcps_netif = None, broadcast_dhcps = 0, server_address = 0, dns_server = [0, 0],
        client_address = 0, client_address_plus = 0, dhcps_mask = htonl 0xFFFFFF00, plist = [],
        renew = False, dhcps_poll = \<lparr>dl_enable = False, dl_start_ip = 0, dl_end_ip = 0\<rparr>,
        dhcps_lease_time = DHCPS_LEASE_TIME_DEF, dhcps_offer = 0xFF, dhcps_dns = 0,
        captiveportal_uri = None, dhcps_cb = None, dhcps_cb_arg = 0, dhcps_pcb = None,
        dhcps_state = DHCPS_HANDLE_CREATED, has_declined_ip = False, current_hostname = []\<rparr>)"

text \<open>Deletion of a running server is postponed; \<open>None\<close> is a freed handle.\<close>

definition dhcps_delete :: "dhcps \<Rightarrow> dhcps option" where
  "dhcps_delete d = (if dhcps_state d = DHCPS_HANDLE_STARTED
                     then Some (d\<lparr>dhcps_state := DHCPS_HANDLE_DELETE_PENDING\<rparr>) else None)"

section \<open>Options of the handle\<close>

text \<open>
  Option numbers of \<open>dhcpserver_options.h\<close>.  \<open>dhcps_option_info\<close> returns a pointer into the
  handle: the result names the field.
\<close>

datatype option_ref = Ref_lease_time | Ref_poll | Ref_offer | Ref_dns | Ref_mask | Ref_uri

definition dhcps_option_info :: "dhcps option \<Rightarrow> u8 \<Rightarrow> nat \<Rightarrow> option_ref option" where
  "dhcps_option_info d op_id opt_len =
     (if d = None then None
      else if op_id = 51 then (if opt_len = 4 then Some Ref_lease_time else None)
      else if op_id = 50 then (if opt_len = 12 then Some Ref_poll else None)
      else if op_id = 32 then (if opt_len = 1 then Some Ref_offer else None)
      else if op_id = 6 then (if opt_len = 1 then Some Ref_dns else None)
      else if op_id = 1 then (if opt_len = 4 then Some Ref_mask else None)
      else if op_id = 114 then Some Ref_uri
      else None)"

text \<open>
  The option is read from the caller's memory: a \<open>dhcps_lease_t\<close> has its flag at offset 0 and
  the two addresses at 4 and 8; the URI is a string.
\<close>

definition dhcps_set_option_info :: "dhcps \<Rightarrow> u8 \<Rightarrow> bytes option \<Rightarrow> nat \<Rightarrow> (err \<times> dhcps) option" where
  "dhcps_set_option_info d op_id opt_info opt_len =
     (case opt_info of
        None \<Rightarrow> Some (ERR_ARG, d)
      | Some mem \<Rightarrow>
         if op_id = 51 then
           (if opt_len = 4 then do { t \<leftarrow> le32 mem 0; Some (ERR_OK, d\<lparr>dhcps_lease_time := t\<rparr>) }
            else Some (ERR_OK, d))
         else if op_id = 50 then
           (if opt_len = 12 then do {
              e \<leftarrow> rd8 mem 0; a \<leftarrow> le32 mem 4; b \<leftarrow> le32 mem 8;
              Some (ERR_OK, d\<lparr>dhcps_poll := \<lparr>dl_enable = (e \<noteq> 0), dl_start_ip = a, dl_end_ip = b\<rparr>\<rparr>) }
            else Some (ERR_OK, d))
         else if op_id = 32 then
           (if opt_len = 1 then do { v \<leftarrow> rd8 mem 0; Some (ERR_OK, d\<lparr>dhcps_offer := v\<rparr>) }
            else Some (ERR_OK, d))
         else if op_id = 6 then
           (if opt_len = 1 then do { v \<leftarrow> rd8 mem 0; Some (ERR_OK, d\<lparr>dhcps_dns := v\<rparr>) }
            else Some (ERR_OK, d))
         else if op_id = 1 then
           (if opt_len = 4 then do { v \<leftarrow> le32 mem 0; Some (ERR_OK, d\<lparr>dhcps_mask := v\<rparr>) }
            else Some (ERR_OK, d))
         else if op_id = 114 then
           Some (ERR_OK, d\<lparr>captiveportal_uri := Some (takeWhile (\<lambda>c. c \<noteq> 0) mem)\<rparr>)
         else Some (ERR_OK, d))"

section \<open>The lease list\<close>

fun node_insert_to_list :: "dhcps_pool list \<Rightarrow> dhcps_pool \<Rightarrow> dhcps_pool list" where
  "node_insert_to_list [] p = [p]"
| "node_insert_to_list (q # qs) p =
     (if dp_ip p < dp_ip q then p # q # qs else q # node_insert_to_list qs p)"

text \<open>The position at which \<open>node_insert_to_list\<close> puts the node.\<close>

fun insert_pos :: "dhcps_pool list \<Rightarrow> dhcps_pool \<Rightarrow> nat" where
  "insert_pos [] p = 0"
| "insert_pos (q # qs) p = (if dp_ip p < dp_ip q then 0 else Suc (insert_pos qs p))"

text \<open>Nodes are distinct objects, so the removal loop unlinks exactly the node at a position.\<close>

fun node_remove_from_list :: "dhcps_pool list \<Rightarrow> nat \<Rightarrow> dhcps_pool list" where
  "node_remove_from_list [] n = []"
| "node_remove_from_list (q # qs) 0 = qs"
| "node_remove_from_list (q # qs) (Suc n) = q # node_remove_from_list qs n"

section \<open>Building replies\<close>

text \<open>A write of consecutive bytes at \<open>off\<close>; outside the buffer it is undefined behaviour.\<close>

definition put :: "bytes \<Rightarrow> nat \<Rightarrow> bytes \<Rightarrow> bytes option" where
  "put m off bs = (if off + length bs \<le> length m
                   then Some (take off m @ bs @ drop (off + length bs) m) else None)"

definition add_msg_type :: "u8 \<Rightarrow> bytes" where
  "add_msg_type t = [53, 1, t]"

definition get_ip_info :: "dhcps_env \<Rightarrow> nat option \<Rightarrow> u32 \<times> u32 \<times> u32" where
  "get_ip_info env nif =
     (case nif of None \<Rightarrow> (0, 0, 0)
      | Some i \<Rightarrow> let n = env_netif env i in
                  if ni_up n then (ni_ip n, ni_netmask n, ni_gw n) else (0, 0, 0))"

definition add_offer_options :: "dhcps_env \<Rightarrow> dhcps \<Rightarrow> bytes" where
  "add_offer_options env d =
     (let ipadd = server_address d;
          lt = dhcps_lease_time d * cfg_lease_unit env;
          gw = snd (snd (get_ip_info env (dhcps_netif d)));
          backup = dns_server d ! 1;
          bcast = (ipadd AND dhcps_mask d) OR (NOT (dhcps_mask d))
      in [1, 4] @ dhcps_option_ip (dhcps_mask d)
       @ [51, 4] @ [byte3 lt, byte2 lt, byte1 lt, byte0 lt]
       @ [54, 4] @ dhcps_option_ip ipadd
       @ (if dhcps_offer d AND 1 \<noteq> 0 then
            (if gw \<noteq> 0 then [3, 4] @ dhcps_option_ip gw else [])
          else [])
       @ (if dhcps_dns d AND 2 \<noteq> 0 then
            [6, if backup \<noteq> 0 then 8 else 4] @ dhcps_option_ip (dns_server d ! 0)
            @ (if backup \<noteq> 0 then dhcps_option_ip backup else [])
          else if cfg_add_dns env then [6, 4] @ dhcps_option_ip ipadd
          else [])
       @ [28, 4] @ dhcps_option_ip bcast
       @ [26, 2, 0x05, 0xdc]
       @ (case captiveportal_uri d of None \<Rightarrow> []
          | Some uri \<Rightarrow> [114, of_nat (length uri)] @ uri)
       @ [31, 1, 0]
       @ [43, 6, 1, 4, 0, 0, 0, 2])"

definition add_end :: bytes where "add_end = [255]"

definition create_msg :: "dhcps_env \<Rightarrow> dhcps \<Rightarrow> bytes \<Rightarrow> bytes option" where
  "create_msg env d m = do {
     m \<leftarrow> put m 0 [2, 1, 6];
     m \<leftarrow> (if cfg_static_entries env then Some m else put m off_flags [0x80, 0]);
     m \<leftarrow> put m off_yiaddr (dhcps_option_ip (client_address d));
     put m off_options (dhcps_option_ip magic_cookie) }"

text \<open>The destination of an OFFER or ACK and the static ARP entry it needs.\<close>

definition dhcps_response_ip_set :: "dhcps_env \<Rightarrow> dhcps \<Rightarrow> bytes \<Rightarrow> (u32 \<times> dhcps_act list) option" where
  "dhcps_response_ip_set env d m =
     (if cfg_static_entries env then do {
        chaddr \<leftarrow> rdn m off_chaddr 6;
        giaddr \<leftarrow> le32 m off_giaddr;
        ciaddr \<leftarrow> le32 m off_ciaddr;
        yiaddr \<leftarrow> le32 m off_yiaddr;
        flags \<leftarrow> be16 m off_flags;
        Some (if giaddr \<noteq> 0 then (giaddr, [Arp_add giaddr chaddr])
              else if ciaddr \<noteq> 0 then (ciaddr, [Arp_add ciaddr chaddr])
              else if flags AND 0x8000 = 0 then (yiaddr, [Arp_add yiaddr chaddr])
              else (broadcast_dhcps d, [])) }
      else Some (broadcast_dhcps d, []))"

text \<open>The size of the reply buffer and the copy of the message into it; \<open>None\<close> inside: no memory.\<close>

definition dhcps_pbuf_alloc :: "dhcps_env \<Rightarrow> nat \<Rightarrow> bytes \<Rightarrow> bytes option option" where
  "dhcps_pbuf_alloc env len m =
     (let mlen = (if dhcps_msg_size < len then len else dhcps_msg_size) in
      if env_alloc env mlen then map_option Some (rdn m 0 mlen) else Some None)"

definition send_offer :: "dhcps_env \<Rightarrow> dhcps \<Rightarrow> bytes \<Rightarrow> nat \<Rightarrow> dhcps_act list option" where
  "send_offer env d m len = do {
     m \<leftarrow> create_msg env d m;
     m \<leftarrow> put m (off_options + 4) (add_msg_type DHCPOFFER @ add_offer_options env d @ add_end);
     p \<leftarrow> dhcps_pbuf_alloc env len m;
     case p of None \<Rightarrow> Some []
     | Some data \<Rightarrow> do {
         (dst, arp) \<leftarrow> dhcps_response_ip_set env d m;
         Some (arp @ [Udp_sendto dst 68 data]
               @ (if cfg_static_entries env then [Arp_remove dst] else [])) } }"

definition send_nak :: "dhcps_env \<Rightarrow> dhcps \<Rightarrow> bytes \<Rightarrow> nat \<Rightarrow> dhcps_act list option" where
  "send_nak env d m len = do {
     m \<leftarrow> create_msg env d m;
     m \<leftarrow> put m (off_options + 4) (add_msg_type DHCPNAK @ add_end);
     p \<leftarrow> dhcps_pbuf_alloc env len m;
     case p of None \<Rightarrow> Some []
     | Some data \<Rightarrow>
         if cfg_static_entries env then do {
           chaddr \<leftarrow> rdn m off_chaddr 6;
           giaddr \<leftarrow> le32 m off_giaddr;
           Some (if giaddr \<noteq> 0 then [Arp_add giaddr chaddr, Udp_sendto giaddr 68 data, Arp_remove giaddr]
                 else [Udp_sendto (broadcast_dhcps d) 68 data, Arp_remove (broadcast_dhcps d)]) }
         else Some [Udp_sendto (broadcast_dhcps d) 68 data] }"

text \<open>After a successful send the new-lease callback runs; it is not checked for NULL.\<close>

definition send_ack :: "dhcps_env \<Rightarrow> dhcps \<Rightarrow> bytes \<Rightarrow> nat \<Rightarrow> dhcps_act list option" where
  "send_ack env d m len = do {
     m \<leftarrow> create_msg env d m;
     m \<leftarrow> put m (off_options + 4) (add_msg_type DHCPACK @ add_offer_options env d @ add_end);
     p \<leftarrow> dhcps_pbuf_alloc env len m;
     case p of None \<Rightarrow> Some []
     | Some data \<Rightarrow> do {
         (dst, arp) \<leftarrow> dhcps_response_ip_set env d m;
         cb \<leftarrow> (if env_sendto env dst data = ERR_OK then do {
                  f \<leftarrow> dhcps_cb d;
                  yi \<leftarrow> rdn m off_yiaddr 4;
                  ch \<leftarrow> rdn m off_chaddr 6;
                  Some [Lease_cb f (dhcps_cb_arg d) yi ch] }
                else Some []);
         Some (arp @ [Udp_sendto dst 68 data]
               @ (if cfg_static_entries env then [Arp_remove dst] else []) @ cb) } }"

section \<open>Parsing a message\<close>

text \<open>
  The option walk: \<open>pos\<close> is the read pointer, \<open>stop\<close> the end of the options, the accumulator the
  state so far, the message type and the host name (the bytes before its terminator).
\<close>

record opt_acc =
  oa_state :: nat
  oa_type :: u8
  oa_hostname :: bytes

definition opt_one :: "u32 \<Rightarrow> bytes \<Rightarrow> nat \<Rightarrow> u8 \<Rightarrow> nat \<Rightarrow> opt_acc \<Rightarrow> opt_acc option" where
  "opt_one client m pos code opt_len a =
     (if code = 53 then
        (if 1 \<le> opt_len then do { t \<leftarrow> rd8 m (pos + 2); Some (a\<lparr>oa_type := t\<rparr>) } else Some a)
      else if code = 12 then
        (if 0 < opt_len then do {
           h \<leftarrow> rdn m (pos + 2)
                  (if DHCPS_MAX_HOSTNAME_LEN \<le> opt_len then DHCPS_MAX_HOSTNAME_LEN - 1 else opt_len);
           Some (a\<lparr>oa_hostname := h\<rparr>) }
         else Some a)
      else if code = 50 then
        (if 4 \<le> opt_len then do {
           req \<leftarrow> le32 m (pos + 2);
           Some (a\<lparr>oa_state := if client = req then DHCPS_STATE_ACK else DHCPS_STATE_NAK\<rparr>) }
         else Some a)
      else Some a)"

function opt_loop :: "u32 \<Rightarrow> bytes \<Rightarrow> nat \<Rightarrow> nat \<Rightarrow> opt_acc \<Rightarrow> opt_acc option" where
  "opt_loop client m stop pos a =
     (if stop \<le> pos then Some a
      else case rd8 m pos of None \<Rightarrow> None
      | Some code \<Rightarrow>
         if code = 0 then opt_loop client m stop (pos + 1) a
         else if code = 255 then Some a
         else if stop \<le> pos + 1 then Some a
         else case rd8 m (pos + 1) of None \<Rightarrow> None
         | Some l \<Rightarrow>
            if stop < pos + 2 + unat l then Some a
            else case opt_one client m pos code (unat l) a of None \<Rightarrow> None
            | Some a' \<Rightarrow> opt_loop client m stop (pos + unat l + 2) a')"
  by pat_completeness auto
termination
  by (relation "measure (\<lambda>(client, m, stop, pos, a). stop - pos)") auto

declare opt_loop.simps [simp del]

text \<open>\<open>len\<close> is signed: a message without options gives an end before the start.\<close>

definition parse_options :: "dhcps \<Rightarrow> bytes \<Rightarrow> nat \<Rightarrow> int \<Rightarrow> (nat \<times> dhcps) option" where
  "parse_options d m optptr len = do {
     a \<leftarrow> opt_loop (client_address d) m (nat (int optptr + len)) optptr
            \<lparr>oa_state = DHCPS_STATE_IDLE, oa_type = 0, oa_hostname = []\<rparr>;
     let st = (if oa_type a = DHCPDISCOVER then DHCPS_STATE_OFFER
               else if oa_type a = DHCPREQUEST then
                 (if \<not> (oa_state a = DHCPS_STATE_ACK \<or> oa_state a = DHCPS_STATE_NAK) then
                    (if renew d then DHCPS_STATE_ACK else DHCPS_STATE_NAK)
                  else oa_state a)
               else if oa_type a = DHCPDECLINE then DHCPS_STATE_DECLINE
               else if oa_type a = DHCPRELEASE then DHCPS_STATE_RELEASE
               else oa_state a);
     Some (st, d\<lparr>current_hostname := oa_hostname a\<rparr>) }"

text \<open>The successor of an address in network byte order.\<close>

definition ip_succ :: "u32 \<Rightarrow> u32" where "ip_succ a = htonl (htonl a + 1)"

text \<open>
  The walk over the leases: the position of the lease of this client if there is one, with the
  candidate address, the next address and the first unused address on the way.
\<close>

record lease_scan =
  ls_client :: u32
  ls_plus :: u32
  ls_first :: u32
  ls_flag :: bool

fun scan_leases :: "mac \<Rightarrow> dhcps_pool list \<Rightarrow> lease_scan \<Rightarrow> nat option \<times> lease_scan" where
  "scan_leases mac [] s = (None, s)"
| "scan_leases mac (p # ps) s =
     (if dp_mac p = mac then (Some 0, s)
      else let s1 = (if dp_ip p = ls_plus s
                     then s\<lparr>ls_plus := ip_succ (ls_plus s), ls_client := ip_succ (ls_plus s)\<rparr> else s);
               s2 = (if ls_flag s1 then s1
                     else if ls_first s1 < dp_ip p then s1\<lparr>ls_flag := True\<rparr>
                     else s1\<lparr>ls_first := ip_succ (ls_first s1)\<rparr>);
               r = scan_leases mac ps s2
           in (map_option Suc (fst r), snd r))"

text \<open>A new lease for a client without one: pool address, reservation, insertion.\<close>

definition new_lease :: "dhcps_env \<Rightarrow> dhcps \<Rightarrow> mac \<Rightarrow> u32 \<Rightarrow> u32 \<Rightarrow> (nat option \<times> dhcps) option" where
  "new_lease env d mac first_address lease_timer =
     (let c0 = (if dl_end_ip (dhcps_poll d) < client_address_plus d then first_address
                else client_address d);
          reserved_ip = (case env_reservation env of None \<Rightarrow> 0 | Some f \<Rightarrow> f mac);
          c = (if reserved_ip \<noteq> 0 then reserved_ip else c0);
          d1 = d\<lparr>client_address := c\<rparr>
      in if dl_end_ip (dhcps_poll d) < c
         then Some (None, d1\<lparr>client_address_plus := dl_start_ip (dhcps_poll d)\<rparr>)
         else if \<not> env_alloc env dhcps_pool_size \<or> \<not> env_alloc env list_node_size then None
         else let p = \<lparr>dp_ip = c, dp_mac = mac, dp_lease_timer = lease_timer, dp_hostname = []\<rparr>
              in Some (Some (insert_pos (plist d) p),
                   d1\<lparr>plist := node_insert_to_list (plist d) p,
                      client_address_plus := (if c = dl_end_ip (dhcps_poll d)
                                              then dl_start_ip (dhcps_poll d) else ip_succ c)\<rparr>))"

text \<open>The lease of the client, old or new: up to the label \<open>POOL_CHECK\<close>.\<close>

definition find_lease :: "dhcps_env \<Rightarrow> dhcps \<Rightarrow> mac \<Rightarrow> u32 \<Rightarrow> u32 \<Rightarrow> (nat option \<times> dhcps) option" where
  "find_lease env d0 mac ciaddr lease_timer =
     (let d = d0\<lparr>client_address := client_address_plus d0, renew := False\<rparr>;
          first = dl_start_ip (dhcps_poll d)
      in if plist d \<noteq> [] then
           (let d = d\<lparr>has_declined_ip := False\<rparr> in
            case scan_leases mac (plist d) \<lparr>ls_client = client_address d, ls_plus = client_address_plus d,
                                            ls_first = first, ls_flag = False\<rparr> of
              (Some i, s) \<Rightarrow>
                Some (Some i, d\<lparr>renew := (dp_ip (plist d ! i) = ciaddr),
                  client_address := dp_ip (plist d ! i), client_address_plus := ls_plus s,
                  plist := (plist d)[i := (plist d ! i)\<lparr>dp_lease_timer := lease_timer\<rparr>]\<rparr>)
            | (None, s) \<Rightarrow>
                new_lease env (d\<lparr>client_address := ls_client s, client_address_plus := ls_plus s\<rparr>)
                  mac (ls_first s) lease_timer)
         else if has_declined_ip d then new_lease env (d\<lparr>has_declined_ip := False\<rparr>) mac first lease_timer
         else new_lease env (d\<lparr>client_address := dl_start_ip (dhcps_poll d)\<rparr>) mac first lease_timer)"

definition drop_lease :: "dhcps \<Rightarrow> nat option \<Rightarrow> dhcps" where
  "drop_lease d node =
     (case node of None \<Rightarrow> d | Some i \<Rightarrow> d\<lparr>plist := node_remove_from_list (plist d) i\<rparr>)"

text \<open>
  The rest of \<open>parse_msg\<close> after \<open>POOL_CHECK\<close>.  \<open>strncpy\<close> copies the host name up to its first
  NUL, at most 31 bytes.
\<close>

definition pool_check :: "dhcps \<Rightarrow> nat option \<Rightarrow> bytes \<Rightarrow> int \<Rightarrow> (nat \<times> dhcps) option" where
  "pool_check d node m len =
     (if dl_end_ip (dhcps_poll d) < client_address d \<or> client_address d = 0
      then Some (4, drop_lease d node)
      else do {
        (ret, d) \<leftarrow> parse_options d m (off_options + 4) len;
        if ret = DHCPS_STATE_RELEASE \<or> ret = DHCPS_STATE_NAK \<or> ret = DHCPS_STATE_DECLINE
        then (let d = drop_lease d node;
                  d = (if ret = DHCPS_STATE_DECLINE then d\<lparr>has_declined_ip := True\<rparr> else d)
              in Some (ret, d\<lparr>client_address := 0\<rparr>))
        else case node of None \<Rightarrow> Some (ret, d)
             | Some i \<Rightarrow> Some (ret, d\<lparr>plist := (plist d)[i := (plist d ! i)\<lparr>dp_hostname :=
                 take (DHCPS_MAX_HOSTNAME_LEN - 1) (takeWhile (\<lambda>c. c \<noteq> 0) (current_hostname d))\<rparr>]\<rparr>) })"

definition parse_msg :: "dhcps_env \<Rightarrow> dhcps \<Rightarrow> bytes \<Rightarrow> int \<Rightarrow> (nat \<times> dhcps) option" where
  "parse_msg env d m len = do {
     cookie \<leftarrow> le32 m off_options;
     if cookie = magic_cookie then do {
       mac \<leftarrow> rdn m off_chaddr 6;
       ciaddr \<leftarrow> le32 m off_ciaddr;
       (node, d) \<leftarrow> find_lease env d mac ciaddr (dhcps_lease_time d * cfg_lease_unit env);
       pool_check d node m len }
     else Some (0, d) }"

section \<open>The receive handler\<close>

definition s16 :: "int \<Rightarrow> int" where "s16 n = sint (of_int n :: 16 word)"

text \<open>
  \<open>chain\<close> is the packet buffer chain (\<open>None\<close>: no packet); the handler copies its first two
  buffers into a zeroed message of at least \<open>sizeof(struct dhcps_msg)\<close> bytes.  Sizes are kept
  in \<open>s16_t\<close>; the argument of \<open>mem_calloc\<close> is their conversion to \<open>size_t\<close>.
\<close>

definition handle_dhcp :: "dhcps_env \<Rightarrow> dhcps \<Rightarrow> bytes list option \<Rightarrow> (dhcps \<times> dhcps_act list) option" where
  "handle_dhcp env d chain =
     (case chain of
        None \<Rightarrow> Some (d, [])
      | Some bufs \<Rightarrow>
         (let tot_len = int (length (concat bufs));
              malloc_len = (if int dhcps_msg_size < tot_len then s16 tot_len else int dhcps_msg_size);
              size = unat (of_int malloc_len :: u32)
          in if \<not> env_alloc env size then Some (d, [])
             else do {
               m \<leftarrow> put (replicate size 0) 0 (concat (take 2 bufs));
               (state, d) \<leftarrow> parse_msg env d m (s16 (s16 tot_len - 240));
               acts \<leftarrow> (if state = DHCPS_STATE_OFFER then send_offer env d m (nat malloc_len)
                        else if state = DHCPS_STATE_ACK then send_ack env d m (nat malloc_len)
                        else if state = DHCPS_STATE_NAK then send_nak env d m (nat malloc_len)
                        else Some []);
               Some (d, acts) }))"

section \<open>Pool, start and stop\<close>

definition ip4_addr_netcmp :: "u32 \<Rightarrow> u32 \<Rightarrow> u32 \<Rightarrow> bool" where
  "ip4_addr_netcmp a b msk \<longleftrightarrow> a AND msk = b AND msk"

text \<open>The configured pool is kept when it is usable, otherwise one is made up around the server.\<close>

definition poll_usable :: "dhcps \<Rightarrow> u32 \<Rightarrow> bool" where
  "poll_usable d ip =
     (let p = dhcps_poll d; server_ip = htonl ip; start_ip = htonl (dl_start_ip p); end_ip = htonl (dl_end_ip p)
      in dl_enable p \<and> \<not> (start_ip \<le> server_ip \<and> server_ip \<le> end_ip)
         \<and> ip4_addr_netcmp (dl_start_ip p) (server_address d) (dhcps_mask d)
         \<and> ip4_addr_netcmp (dl_end_ip p) (server_address d) (dhcps_mask d)
         \<and> \<not> DHCPS_MAX_LEASE < end_ip - start_ip + 1)"

definition default_range :: "u32 \<Rightarrow> u32 \<Rightarrow> u32 \<times> u32" where
  "default_range server_ip msk =
     (let net = server_ip AND msk; bcast = net OR (NOT msk);
          lower = bcast - server_ip < server_ip - net;
          range_start = (if lower then net + 1 else server_ip + 1);
          range_end = (if lower then server_ip - 1 else bcast - 1)
      in (range_start, if DHCPS_MAX_LEASE < range_end - range_start + 1
                       then range_start + DHCPS_MAX_LEASE - 1 else range_end))"

definition dhcps_poll_set :: "dhcps \<Rightarrow> u32 \<Rightarrow> dhcps" where
  "dhcps_poll_set d ip =
     (if poll_usable d ip then d
      else (let r = default_range (htonl ip) (htonl (dhcps_mask d))
            in d\<lparr>dhcps_poll := \<lparr>dl_enable = True, dl_start_ip = htonl (fst r), dl_end_ip = htonl (snd r)\<rparr>\<rparr>))"

definition dhcps_set_new_lease_cb :: "dhcps \<Rightarrow> nat option \<Rightarrow> nat \<Rightarrow> err \<times> dhcps" where
  "dhcps_set_new_lease_cb d cb arg = (ERR_OK, d\<lparr>dhcps_cb := cb, dhcps_cb_arg := arg\<rparr>)"

definition IS_INVALID_SUBNET_MASK :: "u32 \<Rightarrow> bool" where
  "IS_INVALID_SUBNET_MASK x \<longleftrightarrow> (x - 1) OR x \<noteq> 0xFFFFFFFF"

text \<open>\<open>new_pcb\<close> is the result of \<open>udp_new\<close>.\<close>

definition dhcps_start :: "dhcps \<Rightarrow> nat option \<Rightarrow> u32 \<Rightarrow> nat option \<Rightarrow> err \<times> dhcps" where
  "dhcps_start d nif ip new_pcb =
     (if nif = None then (ERR_ARG, d)
      else let d = d\<lparr>dhcps_netif := nif, dhcps_pcb := new_pcb\<rparr> in
        if new_pcb = None \<or> ip = 0 then (ERR_ARG, d)
        else let d = d\<lparr>broadcast_dhcps := 0xFFFFFFFF, server_address := ip\<rparr>;
                 msk = htonl (dhcps_mask d);
                 start_ip = htonl ip AND msk
          in if IS_INVALID_SUBNET_MASK msk then (ERR_ARG, d)
             else if htonl ip = (start_ip OR (NOT msk)) \<or> htonl ip = start_ip then (ERR_ARG, d)
             else let d = dhcps_poll_set d (server_address d)
               in (ERR_OK, d\<lparr>client_address_plus := dl_start_ip (dhcps_poll d),
                             dhcps_state := DHCPS_HANDLE_STARTED\<rparr>))"

fun remove_all :: "dhcps_pool list \<Rightarrow> dhcps_pool list" where
  "remove_all [] = []"
| "remove_all (p # ps) = remove_all (node_remove_from_list (p # ps) 0)"

definition dhcps_stop :: "dhcps \<Rightarrow> nat option \<Rightarrow> err \<times> dhcps" where
  "dhcps_stop d nif =
     (if nif = None \<or> dhcps_netif d \<noteq> nif then (ERR_ARG, d)
      else (ERR_OK, d\<lparr>dhcps_pcb := None, plist := remove_all (plist d),
                      dhcps_state := DHCPS_HANDLE_STOPPED\<rparr>))"

section \<open>The lease timer\<close>

text \<open>The position of the first lease with the smallest remaining time.\<close>

fun oldest :: "dhcps_pool list \<Rightarrow> nat \<Rightarrow> nat \<times> u32 \<Rightarrow> nat" where
  "oldest [] n best = fst best"
| "oldest (p # ps) n best =
     oldest ps (n + 1) (if dp_lease_timer p < snd best then (n, dp_lease_timer p) else best)"

definition kill_oldest_dhcps_pool :: "dhcps_pool list \<Rightarrow> dhcps_pool list" where
  "kill_oldest_dhcps_pool l =
     (case l of [] \<Rightarrow> l | [p] \<Rightarrow> l
      | p # ps \<Rightarrow> node_remove_from_list l (oldest ps 1 (0, dp_lease_timer p)))"

text \<open>One pass: every counter is decremented, a lease that reaches zero is removed.\<close>

fun tick_leases :: "dhcps_pool list \<Rightarrow> u8 \<Rightarrow> dhcps_pool list \<times> u8" where
  "tick_leases [] n = ([], n)"
| "tick_leases (p # ps) n =
     (let t = dp_lease_timer p - 1 in
      if t = 0 then tick_leases ps n
      else (let r = tick_leases ps (n + 1) in (p\<lparr>dp_lease_timer := t\<rparr> # fst r, snd r)))"

text \<open>The timer callback; \<open>None\<close>: the handle was freed.  The flag says whether it re-arms itself.\<close>

definition dhcps_tmr :: "dhcps_env \<Rightarrow> dhcps \<Rightarrow> dhcps option \<times> bool" where
  "dhcps_tmr env d =
     (if dhcps_state d = DHCPS_HANDLE_DELETE_PENDING then (None, False)
      else if dhcps_state d \<noteq> DHCPS_HANDLE_STARTED then (Some d, False)
      else (let r = tick_leases (plist d) 0;
                l = (if cfg_max_station env < unat (snd r) then kill_oldest_dhcps_pool (fst r) else fst r)
            in (Some (d\<lparr>plist := l\<rparr>), True)))"

section \<open>Queries\<close>

definition dhcp_search_ip_on_mac :: "dhcps option \<Rightarrow> mac \<Rightarrow> u32 option" where
  "dhcp_search_ip_on_mac d mac =
     (case d of None \<Rightarrow> None
      | Some d \<Rightarrow> map_option dp_ip (find (\<lambda>p. dp_mac p = mac) (plist d)))"

definition dhcps_dns_setserver_by_type :: "dhcps \<Rightarrow> u32 option \<Rightarrow> nat \<Rightarrow> err \<times> dhcps" where
  "dhcps_dns_setserver_by_type d dnsserver typ =
     (if 2 \<le> typ then (ERR_VAL, d)
      else (ERR_OK, d\<lparr>dns_server := (dns_server d)[typ := (case dnsserver of None \<Rightarrow> 0 | Some a \<Rightarrow> a)]\<rparr>))"

definition dhcps_dns_setserver :: "dhcps \<Rightarrow> u32 option \<Rightarrow> err \<times> dhcps" where
  "dhcps_dns_setserver d dnsserver = dhcps_dns_setserver_by_type d dnsserver 0"

definition dhcps_dns_getserver_by_type :: "dhcps \<Rightarrow> nat \<Rightarrow> err + u32" where
  "dhcps_dns_getserver_by_type d typ = (if 2 \<le> typ then Inl ERR_VAL else Inr (dns_server d ! typ))"

definition dhcps_dns_getserver :: "dhcps \<Rightarrow> err + u32" where
  "dhcps_dns_getserver d = dhcps_dns_getserver_by_type d 0"

text \<open>\<open>g\<close> is the running server; the host name is cut at 31 characters.\<close>

definition dhcps_get_active_leases :: "dhcps option \<Rightarrow> int \<Rightarrow> dhcps_pool list" where
  "dhcps_get_active_leases g max_leases =
     (if max_leases \<le> 0 then []
      else case g of None \<Rightarrow> []
      | Some d \<Rightarrow> map (\<lambda>p. p\<lparr>dp_hostname := take 31 (dp_hostname p)\<rparr>) (take (nat max_leases) (plist d)))"

end
