(* ===== verification/Dhcp_Msg.thy ===== *)
theory Dhcp_Msg
  imports Dhcp
begin

text \<open>
  The DHCP message handler: no access outside a message, what a reply contains, and what it
  promises the client.
\<close>

section \<open>Accesses stay inside the message\<close>

lemma rdn_Some [byte_simps]: "off + n \<le> length m \<Longrightarrow> rdn m off n = Some (take n (drop off m))"
  by (simp add: rdn_def)

lemma rdn_length: "rdn m off n = Some b \<Longrightarrow> length b = n"
  by (auto simp: rdn_def split: if_splits)

lemma put_Some [byte_simps]:
  "off + length bs \<le> length m \<Longrightarrow> put m off bs = Some (take off m @ bs @ drop (off + length bs) m)"
  by (simp add: put_def)

lemma put_length: "put m off bs = Some m' \<Longrightarrow> length m' = length m"
  by (auto simp: put_def split: if_splits)

lemma put_ex: "off + length bs \<le> length m \<Longrightarrow> \<exists>m'. put m off bs = Some m' \<and> length m' = length m"
  by (simp add: put_def)

lemma opt_one_total:
  assumes "pos + 2 + opt_len \<le> length m"
  shows "opt_one client m pos code opt_len a \<noteq> None"
  using assms by (auto simp: opt_one_def DHCPS_MAX_HOSTNAME_LEN_def byte_simps simp del: not_None_eq)

lemma opt_loop_total: "stop \<le> length m \<Longrightarrow> opt_loop client m stop pos a \<noteq> None"
proof (induction client m stop pos a rule: opt_loop.induct)
  case (1 client m stop pos a)
  show ?case
  proof (cases "stop \<le> pos")
    case True
    then show ?thesis by (simp add: opt_loop.simps)
  next
    case False
    with "1.prems" obtain code where code: "rd8 m pos = Some code" by (cases "rd8 m pos") auto
    note IH = "1.IH" [OF False code]
    consider "code = 0" | "code = 255" | "code \<noteq> 0" "code \<noteq> 255" "stop \<le> pos + 1"
      | "code \<noteq> 0" "code \<noteq> 255" "\<not> stop \<le> pos + 1" by blast
    then show ?thesis
    proof cases
      case 1
      then show ?thesis using False code IH(1) "1.prems"
        by (subst opt_loop.simps) (simp del: not_None_eq)
    next
      case 4
      with "1.prems" obtain l where l: "rd8 m (pos + 1) = Some l" by (cases "rd8 m (pos + 1)") auto
      show ?thesis
      proof (cases "stop < pos + 2 + unat l")
        case True
        then show ?thesis using 4 False code l by (subst opt_loop.simps) simp
      next
        case in_range: False
        with "1.prems" have "pos + 2 + unat l \<le> length m" by simp
        from opt_one_total [OF this] obtain a' where a': "opt_one client m pos code (unat l) a = Some a'"
          by blast
        show ?thesis
          using 4 False code l in_range a' IH(2) [OF 4 l in_range a'] "1.prems"
          by (subst opt_loop.simps) (simp del: not_None_eq)
      qed
    next
      case 2
      then show ?thesis using False code by (subst opt_loop.simps) simp
    next
      case 3
      then show ?thesis using False code by (subst opt_loop.simps) simp
    qed
  qed
qed

lemma parse_options_total:
  "nat (int optptr + len) \<le> length m \<Longrightarrow> \<exists>r d'. parse_options d m optptr len = Some (r, d')"
proof -
  assume "nat (int optptr + len) \<le> length m"
  from opt_loop_total [OF this] obtain a where
    "opt_loop (client_address d) m (nat (int optptr + len)) optptr
       \<lparr>oa_state = DHCPS_STATE_IDLE, oa_type = 0, oa_hostname = []\<rparr> = Some a" by blast
  then show ?thesis by (simp add: parse_options_def Let_def)
qed

lemma find_lease_total:
  assumes "env_alloc env dhcps_pool_size" and "env_alloc env list_node_size"
  shows "\<exists>node d'. find_lease env d mac ci t = Some (node, d')"
proof -
  have new: "\<exists>node d'. new_lease env d mac f t = Some (node, d')" for d f
    using assms by (auto simp: new_lease_def Let_def)
  then show ?thesis
    by (auto simp: find_lease_def Let_def split: prod.splits option.splits)
qed

text \<open>What the handler does not touch: the set-up of the handle.\<close>

definition same_setup :: "dhcps \<Rightarrow> dhcps \<Rightarrow> bool" where
  "same_setup d d' \<longleftrightarrow>
     dhcps_netif d' = dhcps_netif d \<and> broadcast_dhcps d' = broadcast_dhcps d \<and>
     server_address d' = server_address d \<and> dns_server d' = dns_server d \<and>
     dhcps_mask d' = dhcps_mask d \<and> dhcps_poll d' = dhcps_poll d \<and>
     dhcps_lease_time d' = dhcps_lease_time d \<and> dhcps_offer d' = dhcps_offer d \<and>
     dhcps_dns d' = dhcps_dns d \<and> captiveportal_uri d' = captiveportal_uri d \<and>
     dhcps_cb d' = dhcps_cb d \<and> dhcps_cb_arg d' = dhcps_cb_arg d \<and>
     dhcps_pcb d' = dhcps_pcb d \<and> dhcps_state d' = dhcps_state d"

lemma same_setup_refl [simp]: "same_setup d d"
  by (simp add: same_setup_def)

lemma same_setup_trans: "same_setup a b \<Longrightarrow> same_setup b c \<Longrightarrow> same_setup a c"
  by (simp add: same_setup_def)

lemma parse_options_setup:
  "parse_options d m p len = Some (r, d') \<Longrightarrow>
   d' = d\<lparr>current_hostname := current_hostname d'\<rparr>"
  by (cases "opt_loop (client_address d) m (nat (int p + len)) p
        \<lparr>oa_state = DHCPS_STATE_IDLE, oa_type = 0, oa_hostname = []\<rparr>")
     (auto simp: parse_options_def Let_def)

lemma new_lease_setup: "new_lease env d mac f t = Some (node, d') \<Longrightarrow> same_setup d d'"
  by (auto simp: new_lease_def same_setup_def Let_def split: if_splits)

lemma find_lease_setup: "find_lease env d mac ci t = Some (node, d') \<Longrightarrow> same_setup d d'"
  by (auto simp: find_lease_def Let_def split: if_splits option.splits prod.splits
      dest!: new_lease_setup simp: same_setup_def)

lemma drop_lease_setup [simp]: "same_setup d (drop_lease d node)"
  by (auto simp: drop_lease_def same_setup_def split: option.splits)

lemma pool_check_setup: "pool_check d node m len = Some (r, d') \<Longrightarrow> same_setup d d'"
proof -
  assume a: "pool_check d node m len = Some (r, d')"
  show ?thesis
  proof (cases "dl_end_ip (dhcps_poll d) < client_address d \<or> client_address d = 0")
    case True
    with a show ?thesis by (auto simp: pool_check_def)
  next
    case False
    with a obtain r1 d1 where p: "parse_options d m (off_options + 4) len = Some (r1, d1)"
      by (cases "parse_options d m (off_options + 4) len") (auto simp: pool_check_def)
    have "same_setup d d1" by (subst parse_options_setup [OF p]) (simp add: same_setup_def)
    moreover have "same_setup d1 d'"
      using a False p by (auto simp: pool_check_def Let_def drop_lease_def same_setup_def
          split: if_splits option.splits)
    ultimately show ?thesis by (rule same_setup_trans)
  qed
qed

lemma parse_msg_setup: "parse_msg env d m len = Some (r, d') \<Longrightarrow> same_setup d d'"
proof -
  assume a: "parse_msg env d m len = Some (r, d')"
  then obtain cookie where c: "le32 m off_options = Some cookie"
    by (cases "le32 m off_options") (auto simp: parse_msg_def)
  show ?thesis
  proof (cases "cookie = magic_cookie")
    case True
    with a c obtain mac ci node d1 where
      f: "find_lease env d mac ci (dhcps_lease_time d * cfg_lease_unit env) = Some (node, d1)"
      and p: "pool_check d1 node m len = Some (r, d')"
      by (auto simp: parse_msg_def Option.bind_eq_Some_conv)
    show ?thesis
      using find_lease_setup [OF f] pool_check_setup [OF p] by (rule same_setup_trans)
  next
    case False
    with a c show ?thesis by (simp add: parse_msg_def)
  qed
qed

lemma parse_msg_total:
  assumes "dhcps_msg_size \<le> length m" and "nat (int (off_options + 4) + len) \<le> length m"
    and "env_alloc env dhcps_pool_size" and "env_alloc env list_node_size"
  shows "\<exists>r d'. parse_msg env d m len = Some (r, d')"
proof -
  have pc: "\<exists>r d'. pool_check d1 node m len = Some (r, d')" for d1 node
    using parse_options_total [OF assms(2), of d1]
    by (auto simp: pool_check_def Let_def split: option.splits)
  obtain node d1 where f: "find_lease env d (take 6 (drop off_chaddr m))
      (mk32 (m ! (off_ciaddr + 3)) (m ! (off_ciaddr + 2)) (m ! (off_ciaddr + 1)) (m ! off_ciaddr))
      (dhcps_lease_time d * cfg_lease_unit env) = Some (node, d1)"
    using find_lease_total [OF assms(3,4)] by blast
  show ?thesis
    using assms(1) f pc [of d1 node]
    by (simp add: parse_msg_def byte_simps msg_layout)
qed

section \<open>Writes into the reply\<close>

lemma put_nth: "put m off bs = Some m' \<Longrightarrow> i < length m \<Longrightarrow>
    m' ! i = (if off \<le> i \<and> i < off + length bs then bs ! (i - off) else m ! i)"
  by (auto simp: put_def nth_append split: if_splits)

lemma put_at: "put m off bs = Some m' \<Longrightarrow> take (length bs) (drop off m') = bs"
  by (auto simp: put_def split: if_splits)

lemma put_range_other:
  assumes p: "put m off bs = Some m'" and d: "i + n \<le> off \<or> off + length bs \<le> i"
  shows "take n (drop i m') = take n (drop i m)"
proof (rule nth_equalityI)
  have l: "length m' = length m" by (rule put_length [OF p])
  then show "length (take n (drop i m')) = length (take n (drop i m))" by simp
  fix j assume "j < length (take n (drop i m'))"
  then have "j < n" "i + j < length m" using l by auto
  then show "take n (drop i m') ! j = take n (drop i m) ! j"
    using put_nth [OF p, of "i + j"] d l by auto
qed

lemma dhcps_option_ip_length [simp]: "length (dhcps_option_ip a) = 4"
  by (simp add: dhcps_option_ip_def)

lemma dhcps_option_ip_inject [simp]: "dhcps_option_ip a = dhcps_option_ip b \<longleftrightarrow> a = b"
  by (metis dhcps_option_ip_def list.inject mk32_bytes)

lemma le32_option_ip: "take 4 (drop i m) = dhcps_option_ip a \<Longrightarrow> le32 m i = Some a"
proof -
  assume a: "take 4 (drop i m) = dhcps_option_ip a"
  then have "length (take 4 (drop i m)) = 4" by simp
  then have len: "i + 3 < length m" by simp
  have n: "m ! (i + k) = dhcps_option_ip a ! k" if "k < 4" for k
    using that len nth_take [of k 4 "drop i m"] a by simp
  show ?thesis
    using len n [of 0] n [of 1] n [of 2] n [of 3]
    by (simp add: le32_Some dhcps_option_ip_def numeral_eq_Suc)
qed

lemma create_msg_total:
  "dhcps_msg_size \<le> length m \<Longrightarrow> \<exists>m'. create_msg env d m = Some m' \<and> length m' = length m"
  by (auto simp: create_msg_def put_def msg_layout)

text \<open>
  The message that \<open>create_msg\<close> and the options leave: reply header, address and cookie are
  set; transaction id, client address, relay address and hardware address stay.
\<close>

lemma reply_fields:
  assumes c: "create_msg env d m = Some m1" and o: "put m1 (off_options + 4) opts = Some m2"
  shows "m2 ! 0 = 2" and "take 4 (drop off_yiaddr m2) = dhcps_option_ip (client_address d)"
    and "take 4 (drop off_options m2) = dhcps_option_ip magic_cookie"
    and "take (length opts) (drop (off_options + 4) m2) = opts"
    and "take 4 (drop 4 m2) = take 4 (drop 4 m)"
    and "take 6 (drop off_chaddr m2) = take 6 (drop off_chaddr m)"
    and "length m2 = length m"
proof -
  let ?fl = "\<lambda>m. if cfg_static_entries env then Some m else put m off_flags [0x80, 0]"
  from c obtain a b e where a: "put m 0 [2, 1, 6] = Some a" and b: "?fl a = Some b"
    and e: "put b off_yiaddr (dhcps_option_ip (client_address d)) = Some e"
    and m1: "put e off_options (dhcps_option_ip magic_cookie) = Some m1"
    by (auto simp: create_msg_def Option.bind_eq_Some_conv)
  have fl: "take n (drop i b) = take n (drop i a) \<and> length b = length a"
    if "i + n \<le> off_flags \<or> off_flags + 2 \<le> i" for i n
    using b that by (auto split: if_splits dest: put_range_other put_length)
  note L = msg_layout
  have len: "length a = length m" "length b = length m" "length e = length m" "length m1 = length m"
    using put_length [OF a] put_length [OF e] put_length [OF m1] fl [of 0 0] by auto
  show "length m2 = length m" using len put_length [OF o] by simp
  have keep: "take n (drop i m2) = take n (drop i m)"
    if "i + n \<le> off_options" "3 \<le> i" "i + n \<le> off_flags \<or> off_yiaddr + 4 \<le> i" for i n
    using that put_range_other [OF a, of i n] fl [of i n] put_range_other [OF e, of i n]
      put_range_other [OF m1, of i n] put_range_other [OF o, of i n] by (auto simp: L)
  show "take 4 (drop 4 m2) = take 4 (drop 4 m)" by (rule keep) (simp_all add: L)
  show "take 6 (drop off_chaddr m2) = take 6 (drop off_chaddr m)" by (rule keep) (simp_all add: L)
  show "take (length opts) (drop (off_options + 4) m2) = opts" by (rule put_at [OF o])
  show "take 4 (drop off_options m2) = dhcps_option_ip magic_cookie"
    using put_at [OF m1] put_range_other [OF o, of off_options 4] by simp
  show "take 4 (drop off_yiaddr m2) = dhcps_option_ip (client_address d)"
    using put_at [OF e] put_range_other [OF m1, of off_yiaddr 4]
      put_range_other [OF o, of off_yiaddr 4] by (simp add: L)
  have "take 1 (drop 0 m2) = take 1 (drop 0 a)"
    using fl [of 0 1] put_range_other [OF e, of 0 1] put_range_other [OF m1, of 0 1]
      put_range_other [OF o, of 0 1] by (simp add: L)
  moreover have ne: "3 \<le> length m" using a by (auto simp: put_def split: if_splits)
  ultimately have "m2 ! 0 = a ! 0"
    using len \<open>length m2 = length m\<close> by (cases m2; cases a) auto
  also have "a ! 0 = 2" using put_nth [OF a, of 0] ne by (cases m) auto
  finally show "m2 ! 0 = 2" .
qed

lemma response_ip_total:
  "dhcps_msg_size \<le> length m \<Longrightarrow> \<exists>dst acts. dhcps_response_ip_set env d m = Some (dst, acts)"
  by (simp add: dhcps_response_ip_set_def byte_simps msg_layout)

lemma offer_options_length:
  "length (add_offer_options env d)
     \<le> 55 + (case captiveportal_uri d of None \<Rightarrow> 0 | Some u \<Rightarrow> 2 + length u)"
  by (auto simp: add_offer_options_def Let_def split: option.splits)

definition uri_fits :: "dhcps \<Rightarrow> bool" where
  "uri_fits d \<longleftrightarrow> (case captiveportal_uri d of None \<Rightarrow> True | Some u \<Rightarrow> length u \<le> 247)"

lemma options_fit:
  "uri_fits d \<Longrightarrow> dhcps_msg_size \<le> length m \<Longrightarrow>
   off_options + 4 + length (add_msg_type t @ add_offer_options env d @ add_end) \<le> length m"
  using offer_options_length [of env d]
  by (auto simp: uri_fits_def msg_layout add_msg_type_def add_end_def split: option.splits)

lemma pbuf_alloc_total:
  "length m = (if dhcps_msg_size < len then len else dhcps_msg_size) \<Longrightarrow>
   dhcps_pbuf_alloc env len m = Some None \<or> dhcps_pbuf_alloc env len m = Some (Some m)"
  by (auto simp: dhcps_pbuf_alloc_def rdn_def Let_def)

lemma send_offer_total:
  assumes "uri_fits d" and "length m = (if dhcps_msg_size < len then len else dhcps_msg_size)"
  shows "\<exists>acts. send_offer env d m len = Some acts"
proof -
  have big: "dhcps_msg_size \<le> length m" using assms(2) by (simp split: if_splits)
  obtain m1 where m1: "create_msg env d m = Some m1" "length m1 = length m"
    using create_msg_total [OF big] by blast
  obtain m2 where m2: "put m1 (off_options + 4) (add_msg_type DHCPOFFER @ add_offer_options env d @ add_end) = Some m2"
    "length m2 = length m1"
    using put_ex [OF options_fit [OF assms(1)]] big m1(2) by metis
  obtain dst arp where "dhcps_response_ip_set env d m2 = Some (dst, arp)"
    using response_ip_total [of m2 env d] big m1 m2 by auto
  then show ?thesis
    using m1 m2 pbuf_alloc_total [of m2 len env] assms(2) by (auto simp: send_offer_def)
qed

lemma send_ack_total:
  assumes "uri_fits d" and "length m = (if dhcps_msg_size < len then len else dhcps_msg_size)"
    and "dhcps_cb d \<noteq> None"
  shows "\<exists>acts. send_ack env d m len = Some acts"
proof -
  have big: "dhcps_msg_size \<le> length m" using assms(2) by (simp split: if_splits)
  obtain m1 where m1: "create_msg env d m = Some m1" "length m1 = length m"
    using create_msg_total [OF big] by blast
  obtain m2 where m2: "put m1 (off_options + 4) (add_msg_type DHCPACK @ add_offer_options env d @ add_end) = Some m2"
    "length m2 = length m1"
    using put_ex [OF options_fit [OF assms(1)]] big m1(2) by metis
  obtain dst arp where "dhcps_response_ip_set env d m2 = Some (dst, arp)"
    using response_ip_total [of m2 env d] big m1 m2 by auto
  then show ?thesis
    using m1 m2 big pbuf_alloc_total [of m2 len env] assms(2,3)
    by (auto simp: send_ack_def byte_simps msg_layout)
qed

lemma send_nak_total:
  assumes "length m = (if dhcps_msg_size < len then len else dhcps_msg_size)"
  shows "\<exists>acts. send_nak env d m len = Some acts"
proof -
  have big: "dhcps_msg_size \<le> length m" using assms by (simp split: if_splits)
  obtain m1 where m1: "create_msg env d m = Some m1" "length m1 = length m"
    using create_msg_total [OF big] by blast
  have "off_options + 4 + length (add_msg_type DHCPNAK @ add_end) \<le> length m1"
    using big m1(2) by (simp add: msg_layout add_msg_type_def add_end_def)
  from put_ex [OF this] obtain m2 where
    m2: "put m1 (off_options + 4) (add_msg_type DHCPNAK @ add_end) = Some m2" "length m2 = length m1"
    by blast
  then show ?thesis
    using m1 big pbuf_alloc_total [of m2 len env] assms
    by (auto simp: send_nak_def byte_simps msg_layout)
qed

section \<open>Totality of the handler\<close>

lemma s16_id: "- 32768 \<le> n \<Longrightarrow> n < 32768 \<Longrightarrow> s16 n = n"
  by (simp add: s16_def signed_take_bit_int_eq_self_iff signed_of_int)

lemma s16_small: "0 \<le> n \<Longrightarrow> n < 32768 \<Longrightarrow> s16 n = n"
  by (simp add: s16_id)

lemma s16_options: "0 \<le> n \<Longrightarrow> n < 32768 \<Longrightarrow> s16 (s16 n - 240) = n - 240"
  by (simp add: s16_id)

lemma msg_alloc_size: "0 \<le> n \<Longrightarrow> n < 32768 \<Longrightarrow> unat (of_int n :: u32) = nat n"
  by (simp add: unsigned_of_int take_bit_int_eq_self)

text \<open>The message the handler works on: the first two buffers, padded with zeroes.\<close>

definition dhcp_message :: "bytes list \<Rightarrow> bytes" where
  "dhcp_message bufs =
     concat (take 2 bufs) @ replicate (max dhcps_msg_size (length (concat bufs)) - length (concat (take 2 bufs))) 0"

lemma take2_length: "length (concat (take 2 bufs)) \<le> length (concat bufs)"
proof -
  have "concat bufs = concat (take 2 bufs) @ concat (drop 2 bufs)" by (metis append_take_drop_id concat_append)
  then show ?thesis by simp
qed

lemma dhcp_message_length [simp]:
  "length (dhcp_message bufs) = max dhcps_msg_size (length (concat bufs))"
  using take2_length [of bufs] by (simp add: dhcp_message_def)

lemma handle_dhcp_eq:
  assumes "length (concat bufs) < 32768"
  shows "handle_dhcp env d (Some bufs) =
    (if \<not> env_alloc env (max dhcps_msg_size (length (concat bufs))) then Some (d, [])
     else do {
       (state, d) \<leftarrow> parse_msg env d (dhcp_message bufs) (int (length (concat bufs)) - 240);
       acts \<leftarrow> (if state = DHCPS_STATE_OFFER then send_offer env d (dhcp_message bufs) (max dhcps_msg_size (length (concat bufs)))
                else if state = DHCPS_STATE_ACK then send_ack env d (dhcp_message bufs) (max dhcps_msg_size (length (concat bufs)))
                else if state = DHCPS_STATE_NAK then send_nak env d (dhcp_message bufs) (max dhcps_msg_size (length (concat bufs)))
                else Some []);
       Some (d, acts) })"
proof -
  let ?t = "length (concat bufs)"
  let ?ml = "if int dhcps_msg_size < int ?t then s16 (int ?t) else int dhcps_msg_size"
  have ml: "?ml = int (max dhcps_msg_size ?t)" using assms by (simp add: s16_small)
  have sz: "unat (of_int (int (max dhcps_msg_size ?t)) :: u32) = max dhcps_msg_size ?t"
    using assms by (subst msg_alloc_size) (auto simp: dhcps_msg_size_def)
  have put: "put (replicate (max dhcps_msg_size ?t) 0) 0 (concat (take 2 bufs)) = Some (dhcp_message bufs)"
    using take2_length [of bufs] by (simp add: put_def dhcp_message_def)
  have opt: "s16 (s16 (int ?t) - 240) = int ?t - 240" using assms by (simp add: s16_options)
  show ?thesis
    unfolding handle_dhcp_def option.case Let_def ml sz opt nat_int by (simp add: put)
qed

text \<open>
  C30: The handler never touches memory outside the message it allocates and never loops: for any
  received packet of less than 32768 bytes, in any chain of buffers and with any content, it
  returns, provided the lease nodes can be allocated, the new-lease callback is registered and
  a captive-portal URI, when configured, has at most 247 characters.
\<close>

theorem handle_dhcp_in_bounds:
  assumes "length (concat bufs) < 32768"
    and "env_alloc env dhcps_pool_size" and "env_alloc env list_node_size"
    and "uri_fits d" and "dhcps_cb d \<noteq> None"
  shows "\<exists>d' acts. handle_dhcp env d (Some bufs) = Some (d', acts)"
proof (cases "env_alloc env (max dhcps_msg_size (length (concat bufs)))")
  case False
  then show ?thesis using assms(1) by (simp add: handle_dhcp_eq)
next
  case True
  let ?m = "dhcp_message bufs" and ?len = "max dhcps_msg_size (length (concat bufs))"
  have big: "dhcps_msg_size \<le> length ?m" by simp
  have opt: "nat (int (off_options + 4) + (int (length (concat bufs)) - 240)) \<le> length ?m"
    by (simp add: msg_layout)
  obtain r d' where pm: "parse_msg env d ?m (int (length (concat bufs)) - 240) = Some (r, d')"
    using parse_msg_total [OF big opt assms(2,3)] by blast
  have su: "uri_fits d'" "dhcps_cb d' \<noteq> None"
    using parse_msg_setup [OF pm] assms(4,5) by (simp_all add: same_setup_def uri_fits_def)
  have m: "length ?m = (if dhcps_msg_size < ?len then ?len else dhcps_msg_size)" by simp
  show ?thesis
    using True pm send_offer_total [OF su(1) m, of env] send_ack_total [OF su(1) m su(2), of env]
      send_nak_total [OF m, of env d']
    by (auto simp: handle_dhcp_eq [OF assms(1)])
qed

section \<open>What a reply says\<close>

lemma insert_pos_nth:
  "insert_pos l p < length (node_insert_to_list l p)"
  "node_insert_to_list l p ! insert_pos l p = p"
  by (induction l) auto

lemma scan_leases_hit:
  "scan_leases mac l s = (Some i, s') \<Longrightarrow> i < length l \<and> dp_mac (l ! i) = mac"
proof (induction l arbitrary: s i)
  case (Cons p ps)
  show ?case
  proof (cases "dp_mac p = mac")
    case True
    with Cons.prems show ?thesis by simp
  next
    case False
    with Cons.prems obtain s1 j where "scan_leases mac ps s1 = (Some j, s')" "i = Suc j"
      by (auto simp: Let_def prod_eq_iff)
    with Cons.IH show ?thesis by auto
  qed
qed simp

lemma new_lease_node:
  "new_lease env d mac f t = Some (Some i, d') \<Longrightarrow>
   i < length (plist d') \<and> dp_mac (plist d' ! i) = mac \<and> dp_ip (plist d' ! i) = client_address d'"
  by (auto simp: new_lease_def Let_def insert_pos_nth split: if_splits)

lemma new_lease_none:
  "new_lease env d mac f t = Some (None, d') \<Longrightarrow> dl_end_ip (dhcps_poll d') < client_address d'"
  by (auto simp: new_lease_def Let_def split: if_splits)

lemma find_lease_cases:
  assumes "find_lease env d mac ci t = Some (node, d')"
  obtains (old) i where "node = Some i" "i < length (plist d)" "dp_mac (plist d ! i) = mac"
      "plist d' = (plist d)[i := (plist d ! i)\<lparr>dp_lease_timer := t\<rparr>]"
      "client_address d' = dp_ip (plist d ! i)"
  | (new) d1 f where "new_lease env d1 mac f t = Some (node, d')" "plist d1 = plist d"
  using assms
  by (auto simp: find_lease_def Let_def split: if_splits prod.splits option.splits dest!: scan_leases_hit)

lemma find_lease_node:
  assumes "find_lease env d mac ci t = Some (Some i, d')"
  shows "i < length (plist d') \<and> dp_mac (plist d' ! i) = mac \<and> dp_ip (plist d' ! i) = client_address d'"
  using assms by (cases rule: find_lease_cases) (auto dest: new_lease_node)

lemma find_lease_none:
  assumes "find_lease env d mac ci t = Some (None, d')"
  shows "dl_end_ip (dhcps_poll d') < client_address d'"
  using assms by (cases rule: find_lease_cases) (auto dest: new_lease_none)

definition has_lease :: "dhcps \<Rightarrow> mac \<Rightarrow> u32 \<Rightarrow> bool" where
  "has_lease d mac ip \<longleftrightarrow> (\<exists>p \<in> set (plist d). dp_mac p = mac \<and> dp_ip p = ip)"

lemma pool_check_grant:
  assumes p: "pool_check d (Some i) m len = Some (r, d')"
    and r: "r = DHCPS_STATE_OFFER \<or> r = DHCPS_STATE_ACK"
    and i: "i < length (plist d)" "dp_mac (plist d ! i) = mac" "dp_ip (plist d ! i) = client_address d"
  shows "has_lease d' mac (client_address d')" and "client_address d' \<noteq> 0"
    and "client_address d' \<le> dl_end_ip (dhcps_poll d')"
proof -
  have ok: "\<not> (dl_end_ip (dhcps_poll d) < client_address d \<or> client_address d = 0)"
    using p r by (auto simp: pool_check_def dhcp_states)
  with p obtain r1 d1 where o: "parse_options d m (off_options + 4) len = Some (r1, d1)"
    by (cases "parse_options d m (off_options + 4) len") (auto simp: pool_check_def)
  obtain h where d1: "d1 = d\<lparr>current_hostname := h\<rparr>" using parse_options_setup [OF o] by blast
  from p r ok o obtain h' where d': "d' = d1\<lparr>plist := (plist d1)[i := (plist d1 ! i)\<lparr>dp_hostname := h'\<rparr>]\<rparr>"
    by (auto simp: pool_check_def dhcp_states Let_def split: if_splits)
  have "plist d' ! i \<in> set (plist d')" using i(1) by (simp add: d' d1 set_update_memI)
  then show "has_lease d' mac (client_address d')"
    using i unfolding has_lease_def by (intro bexI [of _ "plist d' ! i"]) (simp_all add: d' d1)
  show "client_address d' \<noteq> 0" and "client_address d' \<le> dl_end_ip (dhcps_poll d')"
    using ok by (simp_all add: d' d1 not_less)
qed

lemma parse_msg_grant:
  assumes "parse_msg env d m len = Some (r, d')" and r: "r = DHCPS_STATE_OFFER \<or> r = DHCPS_STATE_ACK"
  shows "\<exists>mac. rdn m off_chaddr 6 = Some mac \<and> has_lease d' mac (client_address d')
           \<and> client_address d' \<noteq> 0 \<and> client_address d' \<le> dl_end_ip (dhcps_poll d')"
proof -
  from assms obtain mac ci node d1 where mac: "rdn m off_chaddr 6 = Some mac"
    and f: "find_lease env d mac ci (dhcps_lease_time d * cfg_lease_unit env) = Some (node, d1)"
    and p: "pool_check d1 node m len = Some (r, d')"
    by (auto simp: parse_msg_def Option.bind_eq_Some_conv dhcp_states split: if_splits)
  show ?thesis
  proof (cases node)
    case None
    have "dl_end_ip (dhcps_poll d1) < client_address d1" using find_lease_none f None by blast
    with p r show ?thesis by (auto simp: pool_check_def dhcp_states)
  next
    case (Some i)
    have "i < length (plist d1) \<and> dp_mac (plist d1 ! i) = mac \<and> dp_ip (plist d1 ! i) = client_address d1"
      using find_lease_node f Some by blast
    with pool_check_grant [OF p [unfolded Some] r] mac show ?thesis by blast
  qed
qed

text \<open>The datagram of a send function.\<close>

definition reply_to :: "dhcps \<Rightarrow> bytes \<Rightarrow> bytes \<Rightarrow> bytes \<Rightarrow> bool" where
  "reply_to d m opts data \<longleftrightarrow>
     data ! 0 = 2 \<and> le32 data off_options = Some magic_cookie \<and>
     le32 data off_yiaddr = Some (client_address d) \<and>
     take 4 (drop 4 data) = take 4 (drop 4 m) \<and>
     take 6 (drop off_chaddr data) = take 6 (drop off_chaddr m) \<and>
     (\<exists>rest. drop (off_options + 4) data = opts @ rest)"

lemma reply_to_fields:
  assumes "create_msg env d m = Some m1" and "put m1 (off_options + 4) opts = Some m2"
    and "dhcps_pbuf_alloc env len m2 = Some (Some data)"
    and "length m = (if dhcps_msg_size < len then len else dhcps_msg_size)"
  shows "reply_to d m opts data"
proof -
  note R = reply_fields [OF assms(1,2)]
  have "data = m2" using pbuf_alloc_total [of m2 len env] assms(3,4) R(7) by auto
  moreover have "drop (off_options + 4) m2 = opts @ drop (length opts) (drop (off_options + 4) m2)"
    using R(4) by (metis append_take_drop_id)
  ultimately show ?thesis
    using R le32_option_ip [OF R(2)] le32_option_ip [OF R(3)] by (auto simp: reply_to_def)
qed

lemma response_ip_acts:
  "dhcps_response_ip_set env d m = Some (dst, acts) \<Longrightarrow> Udp_sendto a b c \<notin> set acts"
  by (auto simp: dhcps_response_ip_set_def Option.bind_eq_Some_conv split: if_splits)

lemma send_offer_data:
  assumes "send_offer env d m len = Some acts" and "Udp_sendto dst port data \<in> set acts"
    and "length m = (if dhcps_msg_size < len then len else dhcps_msg_size)"
  shows "port = 68 \<and> reply_to d m (add_msg_type DHCPOFFER @ add_offer_options env d @ add_end) data"
proof -
  from assms(1) obtain m1 m2 p where m: "create_msg env d m = Some m1"
    "put m1 (off_options + 4) (add_msg_type DHCPOFFER @ add_offer_options env d @ add_end) = Some m2"
    "dhcps_pbuf_alloc env len m2 = Some p"
    by (auto simp: send_offer_def Option.bind_eq_Some_conv)
  show ?thesis
  proof (cases p)
    case None
    with assms(1,2) m show ?thesis by (simp add: send_offer_def)
  next
    case (Some b)
    with assms(1,2) m obtain arp e where "dhcps_response_ip_set env d m2 = Some (e, arp)"
      "acts = arp @ [Udp_sendto e 68 b] @ (if cfg_static_entries env then [Arp_remove e] else [])"
      by (auto simp: send_offer_def Option.bind_eq_Some_conv)
    with assms(2) have "port = 68" "data = b" by (auto dest: response_ip_acts split: if_splits)
    then show ?thesis using reply_to_fields [OF m(1,2) _ assms(3)] m(3) Some by simp
  qed
qed

lemma send_offer_sends:
  assumes "send_offer env d m len = Some acts" and "\<forall>n. env_alloc env n"
  shows "\<exists>dst data. Udp_sendto dst 68 data \<in> set acts"
proof -
  from assms obtain m1 m2 p where m: "create_msg env d m = Some m1"
    "put m1 (off_options + 4) (add_msg_type DHCPOFFER @ add_offer_options env d @ add_end) = Some m2"
    "dhcps_pbuf_alloc env len m2 = Some p"
    by (auto simp: send_offer_def Option.bind_eq_Some_conv)
  with assms(2) obtain b where "p = Some b" by (auto simp: dhcps_pbuf_alloc_def Let_def)
  with m assms(1) obtain e arp where "acts = arp @ Udp_sendto e 68 b # (if cfg_static_entries env then [Arp_remove e] else [])"
    by (auto simp: send_offer_def Option.bind_eq_Some_conv)
  then have "Udp_sendto e 68 b \<in> set acts" by simp
  then show ?thesis by blast
qed

lemma send_nak_data:
  assumes "send_nak env d m len = Some acts" and "Udp_sendto dst port data \<in> set acts"
    and "length m = (if dhcps_msg_size < len then len else dhcps_msg_size)"
  shows "port = 68 \<and> reply_to d m (add_msg_type DHCPNAK @ add_end) data"
proof -
  from assms(1) obtain m1 m2 p where m: "create_msg env d m = Some m1"
    "put m1 (off_options + 4) (add_msg_type DHCPNAK @ add_end) = Some m2"
    "dhcps_pbuf_alloc env len m2 = Some p"
    by (auto simp: send_nak_def Option.bind_eq_Some_conv)
  show ?thesis
  proof (cases p)
    case None
    with assms(1,2) m show ?thesis by (simp add: send_nak_def)
  next
    case (Some b)
    with assms(1,2) m have "port = 68" "data = b"
      by (auto simp: send_nak_def Option.bind_eq_Some_conv split: if_splits)
    then show ?thesis using reply_to_fields [OF m(1,2) _ assms(3)] m(3) Some by simp
  qed
qed

lemma send_ack_acts:
  assumes "send_ack env d m len = Some acts"
    and m: "create_msg env d m = Some m1"
    "put m1 (off_options + 4) (add_msg_type DHCPACK @ add_offer_options env d @ add_end) = Some m2"
    "dhcps_pbuf_alloc env len m2 = Some (Some b)"
  obtains e arp cb where "dhcps_response_ip_set env d m2 = Some (e, arp)"
    "acts = arp @ [Udp_sendto e 68 b] @ (if cfg_static_entries env then [Arp_remove e] else []) @ cb"
    "cb = [] \<or> (\<exists>f yi ch. dhcps_cb d = Some f \<and> rdn m2 off_yiaddr 4 = Some yi \<and> rdn m2 off_chaddr 6 = Some ch
                  \<and> cb = [Lease_cb f (dhcps_cb_arg d) yi ch])"
proof -
  obtain e arp where r: "dhcps_response_ip_set env d m2 = Some (e, arp)"
    using assms by (cases "dhcps_response_ip_set env d m2") (auto simp: send_ack_def)
  show ?thesis
  proof (cases "env_sendto env e b = ERR_OK")
    case False
    with assms r show ?thesis by (intro that [OF r, of "[]"]) (auto simp: send_ack_def)
  next
    case True
    with assms r obtain f yi ch where c: "dhcps_cb d = Some f" "rdn m2 off_yiaddr 4 = Some yi"
      "rdn m2 off_chaddr 6 = Some ch"
      by (auto simp: send_ack_def Option.bind_eq_Some_conv)
    show ?thesis
      by (rule that [OF r, of "[Lease_cb f (dhcps_cb_arg d) yi ch]"])
        (use assms r c True in \<open>simp_all add: send_ack_def\<close>)
  qed
qed

lemma send_ack_data:
  assumes "send_ack env d m len = Some acts" and "Udp_sendto dst port data \<in> set acts"
    and "length m = (if dhcps_msg_size < len then len else dhcps_msg_size)"
  shows "port = 68 \<and> reply_to d m (add_msg_type DHCPACK @ add_offer_options env d @ add_end) data"
proof -
  from assms(1) obtain m1 m2 p where m: "create_msg env d m = Some m1"
    "put m1 (off_options + 4) (add_msg_type DHCPACK @ add_offer_options env d @ add_end) = Some m2"
    "dhcps_pbuf_alloc env len m2 = Some p"
    by (auto simp: send_ack_def Option.bind_eq_Some_conv)
  show ?thesis
  proof (cases p)
    case None
    with assms(1,2) m show ?thesis by (simp add: send_ack_def)
  next
    case (Some b)
    obtain e arp cb where r: "dhcps_response_ip_set env d m2 = Some (e, arp)"
      and a: "acts = arp @ [Udp_sendto e 68 b] @ (if cfg_static_entries env then [Arp_remove e] else []) @ cb"
      and cb: "Udp_sendto dst port data \<notin> set cb"
      by (rule send_ack_acts [OF assms(1) m(1,2) m(3) [unfolded Some]]) auto
    have "port = 68" "data = b"
      using assms(2) cb response_ip_acts [OF r] unfolding a by (auto split: if_splits)
    then show ?thesis using reply_to_fields [OF m(1,2) _ assms(3)] m(3) Some by simp
  qed
qed

section \<open>The options as a client decodes them\<close>

text \<open>A reference decoder of the option area (RFC 2132): code, length, value, up to END.\<close>

function tlvs :: "bytes \<Rightarrow> (u8 \<times> bytes) list option" where
  "tlvs [] = None"
| "tlvs (c # r) =
     (if c = 255 then Some []
      else if c = 0 then tlvs r
      else case r of [] \<Rightarrow> None
      | l # v \<Rightarrow> if length v < unat l then None
                else map_option (Cons (c, take (unat l) v)) (tlvs (drop (unat l) v)))"
  by pat_completeness auto
termination
  by (relation "measure length") auto

definition opt_enc :: "u8 \<times> bytes \<Rightarrow> bytes" where
  "opt_enc x = fst x # of_nat (length (snd x)) # snd x"

lemma tlvs_enc:
  "\<forall>x \<in> set os. fst x \<noteq> 0 \<and> fst x \<noteq> 255 \<and> length (snd x) < 256 \<Longrightarrow>
   tlvs (concat (map opt_enc os) @ 255 # rest) = Some os"
  by (induction os) (auto simp: opt_enc_def unat_of_nat)

definition sent_options :: "dhcps_env \<Rightarrow> dhcps \<Rightarrow> u8 \<Rightarrow> (u8 \<times> bytes) list" where
  "sent_options env d t =
     (let ipadd = server_address d;
          lt = dhcps_lease_time d * cfg_lease_unit env;
          gw = snd (snd (get_ip_info env (dhcps_netif d)));
          backup = dns_server d ! 1
      in [(53, [t]), (1, dhcps_option_ip (dhcps_mask d)), (51, [byte3 lt, byte2 lt, byte1 lt, byte0 lt]),
          (54, dhcps_option_ip ipadd)]
       @ (if dhcps_offer d AND 1 \<noteq> 0 \<and> gw \<noteq> 0 then [(3, dhcps_option_ip gw)] else [])
       @ (if dhcps_dns d AND 2 \<noteq> 0 then
            [(6, dhcps_option_ip (dns_server d ! 0) @ (if backup \<noteq> 0 then dhcps_option_ip backup else []))]
          else if cfg_add_dns env then [(6, dhcps_option_ip ipadd)] else [])
       @ [(28, dhcps_option_ip ((ipadd AND dhcps_mask d) OR (NOT (dhcps_mask d)))), (26, [0x05, 0xdc])]
       @ (case captiveportal_uri d of None \<Rightarrow> [] | Some uri \<Rightarrow> [(114, uri)])
       @ [(31, [0]), (43, [1, 4, 0, 0, 0, 2])])"

lemma sent_options_enc:
  "add_msg_type t @ add_offer_options env d = concat (map opt_enc (sent_options env d t))"
  by (simp add: add_msg_type_def add_offer_options_def sent_options_def opt_enc_def Let_def
      split: option.splits)

lemma sent_options_decode:
  assumes "uri_fits d"
  shows "tlvs (add_msg_type t @ add_offer_options env d @ add_end @ rest) = Some (sent_options env d t)"
proof -
  have "\<forall>x \<in> set (sent_options env d t). fst x \<noteq> 0 \<and> fst x \<noteq> 255 \<and> length (snd x) < 256"
    using assms by (auto simp: sent_options_def Let_def uri_fits_def split: option.splits if_splits)
  from tlvs_enc [OF this, of rest] show ?thesis
    using sent_options_enc [of t env d] by (simp add: add_end_def flip: append_assoc)
qed

lemma sent_options_map:
  "map_of (sent_options env d t) 53 = Some [t]"
  "map_of (sent_options env d t) 1 = Some (dhcps_option_ip (dhcps_mask d))"
  "map_of (sent_options env d t) 54 = Some (dhcps_option_ip (server_address d))"
  "map_of (sent_options env d t) 51 =
     Some (rev (dhcps_option_ip (dhcps_lease_time d * cfg_lease_unit env)))"
  by (simp_all add: sent_options_def Let_def dhcps_option_ip_def)

text \<open>
  C27: Every datagram the handler sends goes to the client port, is a BOOTP reply with the DHCP
  cookie and repeats the transaction id and hardware address of the request; it is a NAK, or an
  OFFER or ACK of an address that is leased, in the resulting state, to that hardware address,
  that is neither zero nor above the end of the pool, and whose options decode to the server
  identifier, subnet mask and lease time of the server.
\<close>

theorem dhcp_reply_is_leased:
  assumes "length (concat bufs) < 32768" and "uri_fits d"
    and "handle_dhcp env d (Some bufs) = Some (d', acts)"
    and "Udp_sendto dst port data \<in> set acts"
  shows "port = 68 \<and> data ! 0 = 2 \<and> le32 data off_options = Some magic_cookie \<and>
     take 4 (drop 4 data) = take 4 (drop 4 (dhcp_message bufs)) \<and>
     take 6 (drop off_chaddr data) = take 6 (drop off_chaddr (dhcp_message bufs)) \<and>
     (tlvs (drop (off_options + 4) data) = Some [(53, [DHCPNAK])] \<or>
      (\<exists>ip t os. le32 data off_yiaddr = Some ip \<and> has_lease d' (take 6 (drop off_chaddr data)) ip \<and>
         ip \<noteq> 0 \<and> ip \<le> dl_end_ip (dhcps_poll d) \<and>
         tlvs (drop (off_options + 4) data) = Some os \<and> t \<in> {DHCPOFFER, DHCPACK} \<and>
         map_of os 53 = Some [t] \<and> map_of os 1 = Some (dhcps_option_ip (dhcps_mask d)) \<and>
         map_of os 54 = Some (dhcps_option_ip (server_address d)) \<and>
         map_of os 51 = Some (rev (dhcps_option_ip (dhcps_lease_time d * cfg_lease_unit env)))))"
proof -
  let ?m = "dhcp_message bufs" and ?len = "max dhcps_msg_size (length (concat bufs))"
  have m: "length ?m = (if dhcps_msg_size < ?len then ?len else dhcps_msg_size)" by simp
  from assms(3,4) obtain r where pm: "parse_msg env d ?m (int (length (concat bufs)) - 240) = Some (r, d')"
    and sent: "(if r = DHCPS_STATE_OFFER then send_offer env d' ?m ?len
         else if r = DHCPS_STATE_ACK then send_ack env d' ?m ?len
         else if r = DHCPS_STATE_NAK then send_nak env d' ?m ?len else Some []) = Some acts"
    by (auto simp: handle_dhcp_eq [OF assms(1)] Option.bind_eq_Some_conv split: if_splits)
  note su = parse_msg_setup [OF pm]
  have grant: ?thesis
    if p: "port = 68 \<and> reply_to d' ?m (add_msg_type t @ add_offer_options env d' @ add_end) data"
      and t: "t \<in> {DHCPOFFER, DHCPACK}" and r: "r = DHCPS_STATE_OFFER \<or> r = DHCPS_STATE_ACK" for t
  proof -
    from parse_msg_grant [OF pm r] have lease: "has_lease d' (take 6 (drop off_chaddr ?m)) (client_address d')"
      "client_address d' \<noteq> 0" "client_address d' \<le> dl_end_ip (dhcps_poll d')"
      by (auto simp: rdn_def split: if_splits)
    have "uri_fits d'" using su assms(2) by (simp add: same_setup_def uri_fits_def)
    with p have "tlvs (drop (off_options + 4) data) = Some (sent_options env d' t)"
      by (auto simp: reply_to_def sent_options_decode)
    then show ?thesis
      using p lease t su sent_options_map [of env d' t] unfolding reply_to_def same_setup_def by auto
  qed
  consider "r = DHCPS_STATE_OFFER" | "r = DHCPS_STATE_ACK" | "r = DHCPS_STATE_NAK"
    using sent assms(4) by (auto split: if_splits)
  then show ?thesis
  proof cases
    case 1
    then have "send_offer env d' ?m ?len = Some acts" using sent by simp
    from send_offer_data [OF this assms(4) m] show ?thesis by (rule grant) (simp_all add: 1)
  next
    case 2
    then have "send_ack env d' ?m ?len = Some acts" using sent by (simp add: dhcp_states)
    from send_ack_data [OF this assms(4) m] show ?thesis by (rule grant) (simp_all add: 2)
  next
    case 3
    then have "send_nak env d' ?m ?len = Some acts" using sent by (simp add: dhcp_states)
    from send_nak_data [OF this assms(4) m] show ?thesis
      by (auto simp: reply_to_def add_msg_type_def add_end_def)
  qed
qed

text \<open>
  The length of the captive-portal URI is not checked: with a URI of more than 263
  characters building an OFFER in a message of the standard size writes behind its end.
\<close>

theorem dhcp_uri_overflow:
  assumes "captiveportal_uri d = Some uri" and "263 < length uri" and "length m = dhcps_msg_size"
  shows "send_offer env d m len = None"
proof -
  obtain m1 where m1: "create_msg env d m = Some m1" "length m1 = length m"
    using create_msg_total [of m env d] assms(3) by auto
  have "41 + length uri \<le> length (add_offer_options env d)"
    using assms(1) by (simp add: add_offer_options_def Let_def)
  then have "put m1 (off_options + 4) (add_msg_type DHCPOFFER @ add_offer_options env d @ add_end) = None"
    using m1 assms(2,3) by (simp add: put_def msg_layout add_msg_type_def add_end_def)
  then show ?thesis using m1 by (simp add: send_offer_def)
qed

section \<open>A running server\<close>

definition idf_env :: "(mac \<Rightarrow> u32) option \<Rightarrow> dhcps_env" where
  "idf_env resv = \<lparr>cfg_lease_unit = 60, cfg_max_station = 16, cfg_add_dns = True,
     cfg_static_entries = True,
     env_netif = (\<lambda>_. \<lparr>ni_up = True, ni_ip = mk32 1 4 168 192, ni_netmask = mk32 0 255 255 255,
                       ni_gw = mk32 1 4 168 192\<rparr>),
     env_reservation = resv, env_alloc = (\<lambda>_. True), env_sendto = (\<lambda>_ _. ERR_OK)\<rparr>"

text \<open>The server on 192.168.4.1/24, created, given its callback and started.\<close>

definition demo_server :: dhcps where
  "demo_server = snd (dhcps_start (snd (dhcps_set_new_lease_cb (the (dhcps_new (idf_env None) 240)) (Some 0) 0))
     (Some 0) (mk32 1 4 168 192) (Some 0))"

definition demo_request :: "u8 \<Rightarrow> mac \<Rightarrow> bytes \<Rightarrow> bytes" where
  "demo_request t mac opts =
     [1, 1, 6, 0, 0xDE, 0xAD, 0xBE, 0xEF] @ replicate 20 0 @ mac @ replicate 202 0
     @ [0x63, 0x82, 0x53, 0x63] @ [53, 1, t] @ opts @ [255]"

definition mac_a :: mac where "mac_a = [2, 0, 0, 0, 0, 0xA]"
definition mac_b :: mac where "mac_b = [2, 0, 0, 0, 0, 0xB]"

lemma demo_request_length: "length (demo_request t mac_a []) = 244"
  by (simp add: demo_request_def mac_a_def)

theorem handle_dhcp_in_bounds_witness:
  "\<exists>d' acts. handle_dhcp (idf_env None) demo_server (Some [demo_request 1 mac_a []]) = Some (d', acts)"
proof (rule handle_dhcp_in_bounds)
  show "length (concat [demo_request 1 mac_a []]) < 32768" by (simp add: demo_request_length)
  show "uri_fits demo_server" by code_simp
  show "dhcps_cb demo_server \<noteq> None" by code_simp
qed (simp_all add: idf_env_def)

theorem dhcp_uri_overflow_witness:
  "send_offer (idf_env None) (demo_server\<lparr>captiveportal_uri := Some (replicate 300 65)\<rparr>) (replicate 548 0) 548 = None"
  by (rule dhcp_uri_overflow [of _ "replicate 300 65"]) (simp_all add: msg_layout)

text \<open>The run of the handler on one DISCOVER, evaluated in its two stages.\<close>

definition demo_discover :: bytes where
  "demo_discover = dhcp_message [demo_request 1 mac_a []]"

definition demo_parsed :: "nat \<times> dhcps" where
  "demo_parsed = the (parse_msg (idf_env None) demo_server demo_discover 4)"

definition demo_offer :: "dhcps \<times> dhcps_act list" where
  "demo_offer = (snd demo_parsed, the (send_offer (idf_env None) (snd demo_parsed) demo_discover 548))"

lemma demo_offer_run:
  "handle_dhcp (idf_env None) demo_server (Some [demo_request 1 mac_a []]) = Some (fst demo_offer, snd demo_offer)"
proof -
  let ?pm = "parse_msg (idf_env None) demo_server demo_discover 4"
  let ?so = "send_offer (idf_env None) (snd demo_parsed) demo_discover 548"
  have "\<not> Option.is_none ?pm" "fst demo_parsed = DHCPS_STATE_OFFER" "\<not> Option.is_none ?so"
    by code_simp+
  then obtain acts where "?pm = Some (DHCPS_STATE_OFFER, snd demo_parsed)" "?so = Some acts"
    by (auto simp: Option.is_none_def demo_parsed_def)
  moreover from this have "demo_offer = (snd demo_parsed, acts)" by (simp add: demo_offer_def)
  moreover have "env_alloc (idf_env None) n" for n by (simp add: idf_env_def)
  ultimately show ?thesis
    by (simp add: handle_dhcp_eq demo_request_length dhcps_msg_size_def flip: demo_discover_def)
qed

lemma demo_offer_sends: "\<exists>dst data. Udp_sendto dst 68 data \<in> set (snd demo_offer)"
proof -
  let ?so = "send_offer (idf_env None) (snd demo_parsed) demo_discover 548"
  have "\<not> Option.is_none ?so" by code_simp
  then obtain acts where "?so = Some acts" by (auto simp: Option.is_none_def)
  moreover from this have "snd demo_offer = acts" by (simp add: demo_offer_def)
  ultimately show ?thesis
    using send_offer_sends [of "idf_env None" "snd demo_parsed" demo_discover 548] by (simp add: idf_env_def)
qed

theorem dhcp_reply_is_leased_witness:
  "\<exists>dst data. Udp_sendto dst 68 data \<in> set (snd demo_offer) \<and> data ! 0 = 2
     \<and> le32 data off_options = Some magic_cookie"
proof -
  obtain dst data where sent: "Udp_sendto dst 68 data \<in> set (snd demo_offer)"
    using demo_offer_sends by blast
  have "length (concat [demo_request 1 mac_a []]) < 32768" by (simp add: demo_request_length)
  moreover have "uri_fits demo_server" by code_simp
  ultimately show ?thesis using dhcp_reply_is_leased [OF _ _ demo_offer_run sent] sent by blast
qed

end
