(* ===== verification/Dhcp_Pool.thy ===== *)
theory Dhcp_Pool
  imports Dhcp
begin

text \<open>
  The address pool of the DHCP server: subnet masks, the range the server makes up, and the
  pool a successful start leaves behind.
\<close>

section \<open>Subnet masks\<close>

lemma nat_succ_and_self: "(n + 1) AND n = (0 :: nat) \<Longrightarrow> \<exists>k. n = mask k"
proof (induction n rule: less_induct)
  case (less n)
  show ?case
  proof (cases "n = 0")
    case True
    then show ?thesis by (metis mask_0)
  next
    case n0: False
    have "drop_bit 1 (n + 1) AND drop_bit 1 n = drop_bit 1 ((n + 1) AND n)" by (simp only: drop_bit_and)
    also have "\<dots> = 0" by (simp only: less.prems drop_bit_of_0)
    finally have half: "((n + 1) div 2) AND (n div 2) = 0" by (simp add: drop_bit_eq_div)
    show ?thesis
    proof (cases "even n")
      case True
      then obtain z where z: "n = 2 * z" by blast
      with half have "z AND z = 0" by simp
      with z n0 show ?thesis by simp
    next
      case False
      then obtain z where z: "n = 2 * z + 1" by (elim oddE)
      then have "(n + 1) div 2 = z + 1" "n div 2 = z" by simp_all
      with half have "(z + 1) AND z = 0" by (simp only:)
      with less.IH [of z] z obtain k where "z = mask k" by auto
      moreover have "1 \<le> (2 :: nat) ^ k" by simp
      ultimately have "n = mask (Suc k)" unfolding z mask_eq_exp_minus_1 power_Suc by linarith
      then show ?thesis by blast
    qed
  qed
qed

lemma not_prefix_mask: "n \<le> 32 \<Longrightarrow> NOT (prefix_mask n) = mask (32 - n)"
  by (rule bit_word_eqI) (auto simp: bit_prefix_mask bit_simps)

text \<open>The check of \<open>dhcps_start\<close> accepts exactly the contiguous masks, /0 to /32.\<close>

lemma valid_mask_iff: "(\<not> IS_INVALID_SUBNET_MASK x) \<longleftrightarrow> (\<exists>n. n \<le> 32 \<and> x = prefix_mask n)"
proof -
  have full: "(0xFFFFFFFF :: u32) = - 1" by simp
  have "\<not> IS_INVALID_SUBNET_MASK x \<longleftrightarrow> NOT (x - 1) AND NOT x = 0"
  proof -
    have "((x - 1) OR x = - 1) = (NOT ((x - 1) OR x) = NOT (- 1))" by (simp only: bit.compl_eq_compl_iff)
    also have "NOT ((x - 1) OR x) = NOT (x - 1) AND NOT x" by (rule bit.de_Morgan_disj)
    finally show ?thesis by (simp add: IS_INVALID_SUBNET_MASK_def full)
  qed
  also have "NOT (x - 1) = NOT x + 1" by (simp add: not_eq_complement)
  finally have 1: "\<not> IS_INVALID_SUBNET_MASK x \<longleftrightarrow> (NOT x + 1) AND NOT x = 0" .
  show ?thesis
  proof
    assume "\<not> IS_INVALID_SUBNET_MASK x"
    with 1 have z: "(NOT x + 1) AND NOT x = 0" by simp
    show "\<exists>n. n \<le> 32 \<and> x = prefix_mask n"
    proof (cases "NOT x = - 1")
      case True
      have "NOT (NOT x) = NOT (- 1)" by (simp only: True)
      then have "x = prefix_mask 0" by simp
      then show ?thesis by blast
    next
      case False
      then have "1 + NOT x \<noteq> 0" by (simp add: add_eq_0_iff)
      from unatSuc [OF this] have "unat (NOT x + 1) = unat (NOT x) + 1" by (simp add: add.commute)
      moreover have "unat ((NOT x + 1) AND NOT x) = 0" by (simp only: z unsigned_0)
      ultimately have "(unat (NOT x) + 1) AND unat (NOT x) = 0" by (simp only: unsigned_and_eq)
      from nat_succ_and_self [OF this] obtain k where k: "unat (NOT x) = mask k" by blast
      have "k \<le> 32"
      proof (rule ccontr)
        assume "\<not> k \<le> 32"
        then have "(2 :: nat) ^ 32 < 2 ^ k" by (intro power_strict_increasing) auto
        moreover have "unat (NOT x) < 2 ^ 32" using unsigned_less [of "NOT x", where ?'a = nat] by simp
        ultimately show False using k by (simp add: mask_eq_exp_minus_1)
      qed
      have "NOT x = mask k"
      proof (rule bit_word_eqI)
        fix i assume "i < LENGTH(32)"
        then have "bit (NOT x) i = bit (unat (NOT x)) i" by (simp add: bit_unsigned_iff)
        also have "\<dots> = bit (mask k :: u32) i" using \<open>i < LENGTH(32)\<close> by (simp add: k bit_mask_iff)
        finally show "bit (NOT x) i = bit (mask k :: u32) i" .
      qed
      then have "x = prefix_mask (32 - k)"
        using not_prefix_mask [of "32 - k"] \<open>k \<le> 32\<close> by (metis bit.double_compl diff_diff_cancel diff_le_self)
      then show ?thesis by (metis diff_le_self)
    qed
  next
    assume "\<exists>n. n \<le> 32 \<and> x = prefix_mask n"
    then obtain n where "n \<le> 32" "NOT x = mask (32 - n)" using not_prefix_mask by blast
    then have "NOT x + 1 = 2 ^ (32 - n)" by (simp add: mask_eq_exp_minus_1)
    then have "(NOT x + 1) AND NOT x = 0"
      using \<open>NOT x = mask (32 - n)\<close>
      by (intro bit_word_eqI) (auto simp: bit_simps)
    with 1 show "\<not> IS_INVALID_SUBNET_MASK x" by simp
  qed
qed

section \<open>Addresses as numbers\<close>

lemma unat_u32_less: "unat (x :: u32) < 2 ^ 32"
  using unsigned_less [of x, where ?'a = nat] by simp

lemma unat_mask32: "m \<le> 32 \<Longrightarrow> unat (mask m :: u32) = mask m"
  by (rule bit_eqI) (auto simp: bit_unsigned_iff bit_mask_iff)

lemma unat_and_prefix: "n \<le> 32 \<Longrightarrow> unat (x AND prefix_mask n) = unat x div 2 ^ (32 - n) * 2 ^ (32 - n)"
proof -
  assume n: "n \<le> 32"
  have "x AND prefix_mask n = push_bit (32 - n) (drop_bit (32 - n) x)"
    by (rule bit_word_eqI) (use n in \<open>auto simp: bit_prefix_mask bit_simps\<close>)
  moreover have "take_bit 32 (unat x) = unat x" by (rule take_bit_nat_eq_self) (rule unat_u32_less)
  ultimately have "unat (x AND prefix_mask n) = take_bit 32 (unat x div 2 ^ (32 - n) * 2 ^ (32 - n))"
    by (simp only: unsigned_push_bit_eq unsigned_drop_bit_eq)
      (simp add: push_bit_eq_mult drop_bit_eq_div)
  also have "\<dots> = unat x div 2 ^ (32 - n) * 2 ^ (32 - n)"
  proof (rule take_bit_nat_eq_self)
    have "unat x div 2 ^ (32 - n) * 2 ^ (32 - n) \<le> unat x" by (rule div_times_less_eq_dividend)
    also have "unat x < 2 ^ 32" using unsigned_less [of x, where ?'a = nat] by simp
    finally show "unat x div 2 ^ (32 - n) * 2 ^ (32 - n) < 2 ^ 32" .
  qed
  finally show ?thesis .
qed

lemma unat_or_hosts:
  assumes n: "n \<le> 32"
  shows "unat ((x AND prefix_mask n) OR (NOT (prefix_mask n))) = unat (x AND prefix_mask n) + (2 ^ (32 - n) - 1)"
proof -
  have "(x AND prefix_mask n) OR (NOT (prefix_mask n)) = (x AND prefix_mask n) + mask (32 - n)"
    unfolding not_prefix_mask [OF n]
    by (rule disjunctive_add [symmetric]) (use n in \<open>auto simp: bit_prefix_mask bit_simps\<close>)
  moreover have "unat (x AND prefix_mask n) + (2 ^ (32 - n) - 1) < 2 ^ 32"
  proof -
    let ?q = "unat x div 2 ^ (32 - n)"
    have "unat x < 2 ^ n * 2 ^ (32 - n)"
      using unsigned_less [of x, where ?'a = nat] n by (simp flip: power_add)
    then have "?q < 2 ^ n" by (simp add: div_less_iff_less_mult)
    then have "?q * 2 ^ (32 - n) + 2 ^ (32 - n) \<le> 2 ^ n * 2 ^ (32 - n)"
      by (metis Suc_leI add.commute mult_Suc mult_le_mono1)
    also have "\<dots> = (2 :: nat) ^ 32" using n by (simp flip: power_add)
    finally show ?thesis using unat_and_prefix [OF n, of x] by simp
  qed
  moreover have "unat (mask (32 - n) :: u32) = 2 ^ (32 - n) - 1"
    using unat_mask32 [of "32 - n"] by (simp only: mask_eq_exp_minus_1)
  ultimately show ?thesis by (simp add: unat_add_lem [THEN iffD1])
qed

lemma bcast_and: "((s AND m) OR (NOT m)) AND m = s AND (m :: u32)"
  by (rule bit_word_eqI) (auto simp: bit_simps)

text \<open>Addresses between two addresses of a subnet are in the subnet.\<close>

lemma subnet_convex:
  assumes n: "n \<le> 32" and "a AND prefix_mask n = s" and "b AND prefix_mask n = s"
    and "a \<le> x" and "x \<le> b"
  shows "x AND prefix_mask n = s"
proof -
  let ?k = "2 ^ (32 - n) :: nat"
  have eq: "u AND prefix_mask n = v AND prefix_mask n \<longleftrightarrow> unat u div ?k = unat v div ?k" for u v
    using unat_and_prefix [OF n, of u] unat_and_prefix [OF n, of v] by (simp add: word_unat_eq_iff)
  have "unat a div ?k \<le> unat x div ?k" "unat x div ?k \<le> unat b div ?k"
    using assms(4,5) by (simp_all add: div_le_mono word_le_nat_alt)
  moreover have "unat a div ?k = unat b div ?k" using eq [of a b] assms(2,3) by simp
  ultimately have "unat x div ?k = unat a div ?k" by simp
  then show ?thesis using eq [of x a] assms(2) by simp
qed

section \<open>The pool\<close>

text \<open>The range made up by the server: on one side of its own address, inside the subnet.\<close>

lemma range_size:
  assumes "(a :: u32) \<le> b" and "unat b - unat a + 1 < 2 ^ 32"
  shows "unat (b - a + 1) = unat b - unat a + 1"
proof -
  have "unat (b - a) = unat b - unat a" using assms(1) by (rule unat_sub)
  then show ?thesis using assms(2) by (simp add: unat_word_ariths)
qed

lemma default_range_spec:
  assumes net: "net = s AND msk" and bc: "bc = net OR (NOT msk)" and lt: "net < s" "s < bc"
    and three: "unat bc - unat net \<noteq> 2" and r: "(a, b) = default_range s msk"
  shows "net < a" and "a \<le> b" and "b < bc" and "unat b - unat a + 1 \<le> 100" and "\<not> (a \<le> s \<and> s \<le> b)"
proof -
  let ?lower = "bc - s < s - net"
  define a0 where "a0 = (if ?lower then net + 1 else s + 1)"
  define b0 where "b0 = (if ?lower then s - 1 else bc - 1)"
  have sz: "a = a0" "b = (if DHCPS_MAX_LEASE < b0 - a0 + 1 then a0 + DHCPS_MAX_LEASE - 1 else b0)"
    using r by (simp_all add: default_range_def Let_def a0_def b0_def flip: net bc)
  have nums: "unat net < unat s" "unat s < unat bc" "unat bc < 2 ^ 32"
    using lt unat_u32_less [of bc] by (simp_all add: word_less_nat_alt)
  have lower: "?lower \<longleftrightarrow> unat bc - unat s < unat s - unat net"
    using lt by (simp add: word_less_nat_alt unat_sub order_less_imp_le)
  have a0: "unat a0 = (if ?lower then unat net + 1 else unat s + 1)"
    using nums by (simp add: a0_def unat_word_ariths)
  have s1: "(1 :: u32) \<le> s" "(1 :: u32) \<le> bc" using nums by (simp_all add: word_le_nat_alt)
  have b0: "unat b0 = (if ?lower then unat s - 1 else unat bc - 1)"
    using unat_sub [OF s1(1)] unat_sub [OF s1(2)] by (simp add: b0_def)
  have ab: "unat a0 \<le> unat b0" using a0 b0 nums lower three by (auto split: if_splits)
  have size: "unat (b0 - a0 + 1) = unat b0 - unat a0 + 1"
  proof (rule range_size)
    show "a0 \<le> b0" using ab by (simp add: word_le_nat_alt)
    show "unat b0 - unat a0 + 1 < 2 ^ 32" using a0 b0 nums by (auto split: if_splits)
  qed
  have big: "DHCPS_MAX_LEASE < b0 - a0 + 1 \<longleftrightarrow> 100 < unat b0 - unat a0 + 1"
    using size by (simp add: word_less_nat_alt DHCPS_MAX_LEASE_def)
  have top: "unat (a0 + DHCPS_MAX_LEASE - 1) = unat a0 + 99" if "100 < unat b0 - unat a0 + 1"
  proof -
    have "unat a0 + 99 < 2 ^ 32" using that unat_u32_less [of b0] by linarith
    moreover have "DHCPS_MAX_LEASE = 99 + 1" by (simp add: DHCPS_MAX_LEASE_def)
    then have eq: "a0 + DHCPS_MAX_LEASE - 1 = a0 + 99" by (metis add.assoc add_diff_cancel_right')
    ultimately show ?thesis unfolding eq by (simp add: unat_word_ariths)
  qed
  have b: "unat b = (if 100 < unat b0 - unat a0 + 1 then unat a0 + 99 else unat b0)"
    using sz(2) big top by simp
  have le: "unat b \<le> unat b0" "unat a \<le> unat b" "unat a = unat a0" using b ab sz(1) by auto
  show "net < a" and "a \<le> b" and "b < bc" and "unat b - unat a + 1 \<le> 100" and "\<not> (a \<le> s \<and> s \<le> b)"
    unfolding word_less_nat_alt word_le_nat_alt
    using le a0 b0 b nums by (auto split: if_splits)
qed

lemma poll_usable_range:
  assumes u: "poll_usable d ip" and msk: "htonl (dhcps_mask d) = prefix_mask n" "n \<le> 32"
    and srv: "server_address d = ip"
    and x: "htonl (dl_start_ip (dhcps_poll d)) \<le> x" "x \<le> htonl (dl_end_ip (dhcps_poll d))"
  shows "x AND prefix_mask n = htonl ip AND prefix_mask n" and "x \<noteq> htonl ip"
proof -
  have "dl_start_ip (dhcps_poll d) AND dhcps_mask d = ip AND dhcps_mask d"
    "dl_end_ip (dhcps_poll d) AND dhcps_mask d = ip AND dhcps_mask d"
    and out: "\<not> (htonl (dl_start_ip (dhcps_poll d)) \<le> htonl ip \<and> htonl ip \<le> htonl (dl_end_ip (dhcps_poll d)))"
    using u srv by (auto simp: poll_usable_def ip4_addr_netcmp_def Let_def)
  then have "htonl (dl_start_ip (dhcps_poll d)) AND prefix_mask n = htonl ip AND prefix_mask n"
    "htonl (dl_end_ip (dhcps_poll d)) AND prefix_mask n = htonl ip AND prefix_mask n"
    by (simp_all flip: htonl_and msk(1))
  from subnet_convex [OF msk(2) this x] show "x AND prefix_mask n = htonl ip AND prefix_mask n" .
  show "x \<noteq> htonl ip" using out x by blast
qed

lemma usable_size:
  "poll_usable d ip \<Longrightarrow>
   unat (htonl (dl_end_ip (dhcps_poll d)) - htonl (dl_start_ip (dhcps_poll d)) + 1) \<le> 100"
  by (auto simp: poll_usable_def DHCPS_MAX_LEASE_def Let_def word_less_nat_alt not_less)

lemma subnet_bounds:
  assumes "n \<le> 32" and "s \<noteq> (s AND prefix_mask n) OR (NOT (prefix_mask n))" and "s \<noteq> s AND prefix_mask n"
  shows "s AND prefix_mask n < s" and "s < (s AND prefix_mask n) OR (NOT (prefix_mask n))"
    and "unat ((s AND prefix_mask n) OR (NOT (prefix_mask n))) - unat (s AND prefix_mask n) \<noteq> 2"
proof -
  let ?k = "2 ^ (32 - n) :: nat"
  have N: "unat (s AND prefix_mask n) = unat s div ?k * ?k" by (rule unat_and_prefix [OF assms(1)])
  have B: "unat ((s AND prefix_mask n) OR (NOT (prefix_mask n))) = unat s div ?k * ?k + (?k - 1)"
    using unat_or_hosts [OF assms(1), of s] N by simp
  have "unat s mod ?k < ?k" by simp
  moreover have "unat s = unat s div ?k * ?k + unat s mod ?k" by (rule div_mult_mod_eq [symmetric])
  ultimately have le: "unat (s AND prefix_mask n) \<le> unat s"
    "unat s \<le> unat ((s AND prefix_mask n) OR (NOT (prefix_mask n)))" unfolding N B by linarith+
  then show "s AND prefix_mask n < s" and "s < (s AND prefix_mask n) OR (NOT (prefix_mask n))"
    using assms(2,3) by (metis word_le_nat_alt order_le_neq_trans)+
  have "?k \<noteq> 3"
  proof
    assume "?k = 3"
    moreover have "?k = 1 \<or> even ?k" by (cases "32 - n") auto
    ultimately show False by auto
  qed
  then show "unat ((s AND prefix_mask n) OR (NOT (prefix_mask n))) - unat (s AND prefix_mask n) \<noteq> 2"
    unfolding N B by linarith
qed

text \<open>
  A successful start leaves a pool of at most 100 addresses that all lie in the subnet of
  the server and never contain the server's own address, whether the pool was configured or
  made up; a made-up pool is not empty and excludes the network and the broadcast address.  The
  next candidate is the first address of the pool.
\<close>

theorem dhcps_start_pool:
  assumes "dhcps_start d nif ip pcb = (ERR_OK, d')"
  shows "dhcps_state d' = DHCPS_HANDLE_STARTED \<and> client_address_plus d' = dl_start_ip (dhcps_poll d') \<and>
    (let msk = htonl (dhcps_mask d); s = htonl ip;
         a = htonl (dl_start_ip (dhcps_poll d')); b = htonl (dl_end_ip (dhcps_poll d'))
     in unat (b - a + 1) \<le> 100 \<and>
        (\<forall>x. a \<le> x \<and> x \<le> b \<longrightarrow> x AND msk = s AND msk \<and> x \<noteq> s) \<and>
        (\<not> dl_enable (dhcps_poll d) \<longrightarrow> s AND msk < a \<and> a \<le> b \<and> b < (s AND msk) OR (NOT msk)))"
proof -
  let ?msk = "htonl (dhcps_mask d)" and ?s = "htonl ip"
  define d1 where "d1 = d\<lparr>dhcps_netif := nif, dhcps_pcb := pcb, broadcast_dhcps := 0xFFFFFFFF, server_address := ip\<rparr>"
  define d2 where "d2 = dhcps_poll_set d1 ip"
  have valid: "\<not> IS_INVALID_SUBNET_MASK ?msk" and ends: "?s \<noteq> (?s AND ?msk) OR (NOT ?msk)" "?s \<noteq> ?s AND ?msk"
    and d': "d' = d2\<lparr>client_address_plus := dl_start_ip (dhcps_poll d2), dhcps_state := DHCPS_HANDLE_STARTED\<rparr>"
    using assms by (auto simp: dhcps_start_def Let_def d1_def d2_def split: if_splits)
  from valid obtain n where n: "n \<le> 32" "?msk = prefix_mask n" using valid_mask_iff by blast
  show ?thesis
  proof (cases "poll_usable d1 ip")
    case True
    then have "d2 = d1" and "dl_enable (dhcps_poll d)"
      by (simp_all add: d2_def dhcps_poll_set_def poll_usable_def Let_def d1_def)
    moreover have m1: "htonl (dhcps_mask d1) = prefix_mask n" "server_address d1 = ip"
      using n(2) by (simp_all add: d1_def)
    ultimately show ?thesis
      using poll_usable_range [OF True m1(1) n(1) m1(2)] usable_size [OF True] n(2)
      by (simp add: d' Let_def)
  next
    case False
    obtain a b where r: "(a, b) = default_range ?s ?msk" by (metis surj_pair)
    then have p: "htonl (dl_start_ip (dhcps_poll d')) = a" "htonl (dl_end_ip (dhcps_poll d')) = b"
      using False by (simp_all add: d' d2_def dhcps_poll_set_def Let_def d1_def prod_eq_iff)
    note sb = subnet_bounds [OF n(1), of ?s, folded n(2), OF ends]
    note R = default_range_spec [OF refl refl sb r]
    have sz: "unat (b - a + 1) = unat b - unat a + 1"
      by (rule range_size [OF R(2)]) (use R(4) in simp)
    have inside: "x AND ?msk = ?s AND ?msk" if "a \<le> x" "x \<le> b" for x
    proof -
      have "?s AND ?msk \<le> x" "x \<le> (?s AND ?msk) OR (NOT ?msk)" using R(1,3) that by auto
      then show ?thesis
        using subnet_convex [OF n(1), of "?s AND ?msk" "?s AND ?msk" "(?s AND ?msk) OR (NOT ?msk)" x]
        unfolding n(2) [symmetric] by (simp add: bcast_and)
    qed
    have "x \<noteq> ?s" if "a \<le> x" "x \<le> b" for x using R(5) that by blast
    then show ?thesis using inside R sz by (simp add: p Let_def) (simp add: d')
  qed
qed

theorem dhcps_start_pool_witness:
  "\<exists>d d'. dhcps_start d (Some 0) (mk32 1 4 168 192) (Some 0) = (ERR_OK, d')
     \<and> dl_start_ip (dhcps_poll d') = mk32 2 4 168 192 \<and> dl_end_ip (dhcps_poll d') = mk32 101 4 168 192
     \<and> client_address_plus d' = dl_start_ip (dhcps_poll d')"
proof -
  let ?e = "\<lparr>cfg_lease_unit = 60, cfg_max_station = 16, cfg_add_dns = True, cfg_static_entries = True,
     env_netif = (\<lambda>_. \<lparr>ni_up = True, ni_ip = 0, ni_netmask = 0, ni_gw = 0\<rparr>),
     env_reservation = None, env_alloc = (\<lambda>_. True), env_sendto = (\<lambda>_ _. ERR_OK)\<rparr>"
  let ?d = "the (dhcps_new ?e 240)"
  let ?r = "dhcps_start ?d (Some 0) (mk32 1 4 168 192) (Some 0)"
  have "fst ?r = ERR_OK" "dl_start_ip (dhcps_poll (snd ?r)) = mk32 2 4 168 192"
    "dl_end_ip (dhcps_poll (snd ?r)) = mk32 101 4 168 192"
    by code_simp+
  moreover from this have run: "?r = (ERR_OK, snd ?r)" by (metis prod.collapse)
  ultimately show ?thesis using dhcps_start_pool [OF run] by blast
qed

end
