(* ===== verification/Dhcp_Lease.thy ===== *)
theory Dhcp_Lease
  imports Dhcp_Msg Dhcp_Pool
begin

text \<open>
  Address allocation.  Addresses are compared as words in network byte order, whose most
  significant byte is the last octet; inside one /24 that order is the order of the last octets,
  and the theory abstracts the leases of such a pool to their last octets (\<open>host\<close>).  There the
  server never leases an address twice and keeps its list sorted; the section on reservations
  shows what a reservation outside that discipline does.
\<close>

section \<open>Last octets\<close>

definition host :: "u32 \<Rightarrow> nat \<Rightarrow> u32" where
  "host base h = mk32 (of_nat h) (byte2 base) (byte1 base) (byte0 base)"

lemma unat_mk32:
  "unat (mk32 a b c d) = unat a * 2 ^ 24 + unat b * 2 ^ 16 + unat c * 2 ^ 8 + unat d"
proof -
  have "mk32 a b c d = push_bit 24 (ucast a) + push_bit 16 (ucast b) + push_bit 8 (ucast c) + ucast d"
    unfolding mk32_def
    by (subst disjunctive_add, force simp: bit_simps dest: bit_imp_le_length)+
      (rule bit_word_eqI, auto simp: bit_simps)
  also have "\<dots> = of_nat (unat a * 2 ^ 24 + unat b * 2 ^ 16 + unat c * 2 ^ 8 + unat d)"
    by (simp add: push_bit_eq_mult)
  finally have eq: "mk32 a b c d = of_nat (unat a * 2 ^ 24 + unat b * 2 ^ 16 + unat c * 2 ^ 8 + unat d)" .
  have "unat (mk32 a b c d) = take_bit 32 (unat a * 2 ^ 24 + unat b * 2 ^ 16 + unat c * 2 ^ 8 + unat d)"
    unfolding eq by (simp only: unsigned_of_nat) simp
  also have "\<dots> = unat a * 2 ^ 24 + unat b * 2 ^ 16 + unat c * 2 ^ 8 + unat d"
    using unat_u8_less [of a] unat_u8_less [of b] unat_u8_less [of c] unat_u8_less [of d]
    by (intro take_bit_nat_eq_self) (simp del: unat_u8_less)
  finally show ?thesis .
qed

lemma unat_host: "h < 256 \<Longrightarrow> unat (host base h) = h * 2 ^ 24 + unat (mk32 0 (byte2 base) (byte1 base) (byte0 base))"
  by (simp add: host_def unat_mk32 unat_of_nat)

lemma host_less: "h < 256 \<Longrightarrow> k < 256 \<Longrightarrow> host base h < host base k \<longleftrightarrow> h < k"
  by (simp add: word_less_nat_alt unat_host)

lemma host_eq: "h < 256 \<Longrightarrow> k < 256 \<Longrightarrow> host base h = host base k \<longleftrightarrow> h = k"
  by (simp add: word_unat_eq_iff unat_host)

lemma mk32_succ: "unat d < 255 \<Longrightarrow> mk32 a b c d + 1 = mk32 a b c (d + 1)"
proof -
  assume d: "unat d < 255"
  then have "unat (d + 1) = unat d + 1" by (simp add: unat_word_ariths)
  then have "unat (mk32 a b c (d + 1)) = unat (mk32 a b c d) + 1" by (simp add: unat_mk32)
  moreover have "unat (mk32 a b c d) + 1 < 2 ^ 32"
    using d unat_u8_less [of a] unat_u8_less [of b] unat_u8_less [of c]
    by (simp add: unat_mk32 del: unat_u8_less)
  ultimately show ?thesis by (simp add: word_unat_eq_iff unat_word_ariths)
qed

lemma ip_succ_host: "h < 255 \<Longrightarrow> ip_succ (host base h) = host base (Suc h)"
proof -
  assume h: "h < 255"
  then have "unat (of_nat h :: u8) < 255" by (simp add: unat_of_nat)
  from mk32_succ [OF this, of "byte0 base" "byte1 base" "byte2 base"]
  have "mk32 (byte0 base) (byte1 base) (byte2 base) (of_nat h) + 1
      = mk32 (byte0 base) (byte1 base) (byte2 base) (of_nat (Suc h))" by (simp add: add.commute)
  then show ?thesis by (simp add: ip_succ_def host_def del: of_nat_Suc)
qed

section \<open>The scan on last octets\<close>

text \<open>\<open>next_free hs k\<close>: the first number from \<open>k\<close> on that is not in the sorted list.\<close>

fun next_free :: "nat list \<Rightarrow> nat \<Rightarrow> nat" where
  "next_free [] k = k"
| "next_free (h # hs) k = next_free hs (if h = k then Suc k else k)"

lemma next_free_ge: "k \<le> next_free hs k"
  by (induction hs arbitrary: k) (auto intro: Suc_leD)

lemma next_free_stay: "\<forall>h \<in> set hs. k < h \<Longrightarrow> next_free hs k = k"
  by (induction hs) auto

lemma next_free_notin: "sorted_wrt (<) hs \<Longrightarrow> next_free hs k \<notin> set hs"
proof (induction hs arbitrary: k)
  case (Cons h hs)
  consider "h = k" | "h < k" | "k < h" by linarith
  then show ?case
  proof cases
    case 1
    then show ?thesis using Cons next_free_ge [of "Suc k" hs] by auto
  next
    case 2
    then show ?thesis using Cons next_free_ge [of k hs] by auto
  next
    case 3
    then have "next_free hs k = k" using Cons.prems by (intro next_free_stay) force
    then show ?thesis using 3 Cons by auto
  qed
qed simp

lemma next_free_le: "\<forall>h \<in> set hs. h \<le> e \<Longrightarrow> k \<le> Suc e \<Longrightarrow> next_free hs k \<le> Suc e"
  by (induction hs arbitrary: k) auto

text \<open>The first unused address, computed in the same pass, is the same function from the start.\<close>

lemma scan_first_flag:
  "scan_leases mac l s = (None, s') \<Longrightarrow> ls_flag s \<Longrightarrow> ls_first s' = ls_first s"
  by (induction l arbitrary: s) (auto simp: Let_def prod_eq_iff split: if_splits)

lemma scan_leases_none:
  assumes "scan_leases mac l s = (None, s')" and "map dp_ip l = map (host base) hs"
    and "sorted_wrt (<) hs" and "\<forall>h \<in> set hs. h \<le> e" and "e < 255"
    and "ls_plus s = host base k" and "k \<le> Suc e"
  shows "ls_plus s' = host base (next_free hs k)"
    and "ls_client s = host base k \<Longrightarrow> ls_client s' = ls_plus s'"
    and "mac \<notin> dp_mac ` set l"
  using assms
proof (induction l arbitrary: s hs k)
  case Nil
  { case 1 then show ?case by simp }
  { case 2 then show ?case by simp }
  { case 3 then show ?case by simp }
next
  case (Cons p ps)
  have step: "\<exists>s2 h hs'. scan_leases mac ps s2 = (None, s') \<and> hs = h # hs' \<and> dp_ip p = host base h \<and>
      map dp_ip ps = map (host base) hs' \<and> h \<le> e \<and> dp_mac p \<noteq> mac \<and>
      ls_plus s2 = host base (if h = k then Suc k else k) \<and> (if h = k then Suc k else k) \<le> Suc e \<and>
      (ls_client s = host base k \<longrightarrow> ls_client s2 = host base (if h = k then Suc k else k))"
    if a: "scan_leases mac (p # ps) s = (None, s')" "map dp_ip (p # ps) = map (host base) hs"
      "\<forall>h \<in> set hs. h \<le> e" "ls_plus s = host base k" "k \<le> Suc e" for s hs k
  proof -
    from a(2) obtain h hs' where hs: "hs = h # hs'" "dp_ip p = host base h" "map dp_ip ps = map (host base) hs'"
      by (cases hs) auto
    have h: "h \<le> e" using a(3) hs(1) by simp
    have eq: "dp_ip p = ls_plus s \<longleftrightarrow> h = k" using hs(2) a(4,5) h \<open>e < 255\<close> by (simp add: host_eq)
    have suc: "h = k \<Longrightarrow> ip_succ (host base k) = host base (Suc k)" using h \<open>e < 255\<close> by (simp add: ip_succ_host)
    have mac: "dp_mac p \<noteq> mac" using a(1) by (auto split: if_splits)
    let ?s1 = "if dp_ip p = ls_plus s
         then s\<lparr>ls_plus := ip_succ (ls_plus s), ls_client := ip_succ (ls_plus s)\<rparr> else s"
    let ?s2 = "if ls_flag ?s1 then ?s1
         else if ls_first ?s1 < dp_ip p then ?s1\<lparr>ls_flag := True\<rparr>
         else ?s1\<lparr>ls_first := ip_succ (ls_first ?s1)\<rparr>"
    have "scan_leases mac ps ?s2 = (None, s')"
      using a(1) mac by (simp add: Let_def prod_eq_iff)
    moreover have "ls_plus ?s2 = ls_plus ?s1" "ls_client ?s2 = ls_client ?s1" by simp_all
    moreover have "ls_plus ?s1 = host base (if h = k then Suc k else k)" using eq suc a(4) by simp
    moreover have "ls_client s = host base k \<longrightarrow> ls_client ?s1 = host base (if h = k then Suc k else k)"
      using eq suc a(4) by simp
    ultimately show ?thesis using hs h mac a(5) by (intro exI [of _ ?s2]) auto
  qed
  { case 1
    from step [OF 1(1,2,4,6,7)] obtain s2 h hs' where
      "scan_leases mac ps s2 = (None, s')" "hs = h # hs'" "map dp_ip ps = map (host base) hs'"
      "ls_plus s2 = host base (if h = k then Suc k else k)" "(if h = k then Suc k else k) \<le> Suc e" by blast
    then show ?case using Cons.IH(1) [of s2 hs' "if h = k then Suc k else k"] 1 by simp }
  { case 2
    from step [OF 2(2,3,5,7,8)] obtain s2 h hs' where
      "scan_leases mac ps s2 = (None, s')" "hs = h # hs'" "map dp_ip ps = map (host base) hs'"
      "ls_plus s2 = host base (if h = k then Suc k else k)" "(if h = k then Suc k else k) \<le> Suc e"
      "ls_client s2 = host base (if h = k then Suc k else k)" using 2(1) by blast
    then show ?case using Cons.IH(2) [of s2 "if h = k then Suc k else k" hs'] 2 by simp }
  { case 3
    from step [OF 3(1,2,4,6,7)] obtain s2 h hs' where
      "scan_leases mac ps s2 = (None, s')" "hs = h # hs'" "map dp_ip ps = map (host base) hs'" "dp_mac p \<noteq> mac"
      "ls_plus s2 = host base (if h = k then Suc k else k)" "(if h = k then Suc k else k) \<le> Suc e" by blast
    then show ?case using Cons.IH(3) [of s2 hs' "if h = k then Suc k else k"] 3 by auto }
qed

lemma scan_first_none:
  assumes "scan_leases mac l s = (None, s')" and "map dp_ip l = map (host base) hs"
    and "sorted_wrt (<) hs" and "\<forall>h \<in> set hs. f \<le> h \<and> h \<le> e" and "e < 255"
    and "ls_first s = host base f" and "\<not> ls_flag s"
  shows "ls_first s' = host base (next_free hs f)"
  using assms
proof (induction l arbitrary: s hs f)
  case (Cons p ps)
  from Cons.prems(2) obtain h hs' where hs: "hs = h # hs'" "dp_ip p = host base h" "map dp_ip ps = map (host base) hs'"
    by (cases hs) auto
  have h: "f \<le> h" "h \<le> e" using Cons.prems(4) hs(1) by auto
  let ?s1 = "if dp_ip p = ls_plus s
       then s\<lparr>ls_plus := ip_succ (ls_plus s), ls_client := ip_succ (ls_plus s)\<rparr> else s"
  let ?s2 = "if ls_flag ?s1 then ?s1
       else if ls_first ?s1 < dp_ip p then ?s1\<lparr>ls_flag := True\<rparr>
       else ?s1\<lparr>ls_first := ip_succ (ls_first ?s1)\<rparr>"
  have r: "scan_leases mac ps ?s2 = (None, s')"
    using Cons.prems(1) by (simp add: Let_def prod_eq_iff split: if_splits)
  have s1: "ls_first ?s1 = host base f" "\<not> ls_flag ?s1" using Cons.prems(6,7) by simp_all
  have less: "ls_first ?s1 < dp_ip p \<longleftrightarrow> f < h"
    using s1(1) hs(2) h Cons.prems(5) by (simp add: host_less del: if_split)
  show ?case
  proof (cases "f < h")
    case True
    then have "next_free hs f = f" using Cons.prems(3) hs(1) by (intro next_free_stay) force
    moreover have "ls_flag ?s2" "ls_first ?s2 = host base f" using s1 less True by simp_all
    ultimately show ?thesis using scan_first_flag [OF r] by simp
  next
    case False
    then have f: "f = h" using h by simp
    have "ls_first ?s2 = host base (Suc f)" "\<not> ls_flag ?s2"
      using s1 less False f h Cons.prems(5) by (simp_all add: ip_succ_host)
    moreover have "sorted_wrt (<) hs'" "\<forall>x \<in> set hs'. Suc f \<le> x \<and> x \<le> e"
      using Cons.prems(3,4) hs(1) f by auto
    ultimately show ?thesis using Cons.IH [OF r hs(3)] Cons.prems(5) f hs(1) by simp
  qed
qed simp

lemma scan_leases_some:
  assumes "scan_leases mac l s = (Some i, s')" and "map dp_ip l = map (host base) hs"
    and "\<forall>h \<in> set hs. h \<le> e" and "e < 255" and "ls_plus s = host base k" and "b \<le> k" and "k \<le> Suc e"
  shows "\<exists>k'. ls_plus s' = host base k' \<and> b \<le> k' \<and> k' \<le> Suc e"
  using assms
proof (induction l arbitrary: s hs k i)
  case (Cons p ps)
  from Cons.prems(2) obtain h hs' where hs: "hs = h # hs'" "dp_ip p = host base h" "map dp_ip ps = map (host base) hs'"
    by (cases hs) auto
  show ?case
  proof (cases "dp_mac p = mac")
    case True
    then show ?thesis using Cons.prems by auto
  next
    case False
    let ?s1 = "if dp_ip p = ls_plus s
         then s\<lparr>ls_plus := ip_succ (ls_plus s), ls_client := ip_succ (ls_plus s)\<rparr> else s"
    let ?s2 = "if ls_flag ?s1 then ?s1
         else if ls_first ?s1 < dp_ip p then ?s1\<lparr>ls_flag := True\<rparr>
         else ?s1\<lparr>ls_first := ip_succ (ls_first ?s1)\<rparr>"
    obtain j where r: "scan_leases mac ps ?s2 = (Some j, s')"
      using Cons.prems(1) False by (auto simp: Let_def prod_eq_iff)
    have h: "h \<le> e" using Cons.prems(3) hs(1) by simp
    have eq: "dp_ip p = ls_plus s \<longleftrightarrow> h = k" using hs(2) Cons.prems(4,5,7) h by (simp add: host_eq)
    have "ls_plus ?s2 = host base (if h = k then Suc k else k)"
      using eq h Cons.prems(4,5) by (simp add: ip_succ_host)
    then show ?thesis
      using Cons.IH [OF r hs(3), of "if h = k then Suc k else k"] Cons.prems h hs(1)
      by (auto split: if_splits)
  qed
qed simp

section \<open>The lease list\<close>

text \<open>Strictly sorted by address, inside the pool, one lease per hardware address.\<close>

definition leases_ok :: "u32 \<Rightarrow> nat \<Rightarrow> nat \<Rightarrow> dhcps_pool list \<Rightarrow> bool" where
  "leases_ok base s e l \<longleftrightarrow>
     sorted_wrt (<) (map dp_ip l) \<and> set (map dp_ip l) \<subseteq> host base ` {s..e} \<and> distinct (map dp_mac l)"

lemma leases_ok_Nil [simp]: "leases_ok base s e []"
  by (simp add: leases_ok_def)

lemma leases_ok_cong:
  "map dp_ip l' = map dp_ip l \<Longrightarrow> map dp_mac l' = map dp_mac l \<Longrightarrow> leases_ok base s e l \<Longrightarrow> leases_ok base s e l'"
  by (simp only: leases_ok_def)

lemma map_update_same: "f x = f (l ! i) \<Longrightarrow> map f (l[i := x]) = map f l"
  by (cases "i < length l") (auto simp: map_update list_update_same_conv list_update_beyond)

lemma leases_ok_update:
  "leases_ok base s e l \<Longrightarrow> dp_ip x = dp_ip (l ! i) \<Longrightarrow> dp_mac x = dp_mac (l ! i) \<Longrightarrow>
   leases_ok base s e (l[i := x])"
  by (erule leases_ok_cong [rotated 2]) (simp_all add: map_update_same)

lemma leases_ok_filter: "leases_ok base s e l \<Longrightarrow> leases_ok base s e (filter P l)"
  by (auto simp: leases_ok_def sorted_wrt_map sorted_wrt_filter distinct_map_filter)

lemma node_remove_eq: "node_remove_from_list l i = take i l @ drop (Suc i) l"
  by (induction l i rule: node_remove_from_list.induct) auto

lemma sorted_wrt_remove: "sorted_wrt R l \<Longrightarrow> sorted_wrt R (take i l @ drop (Suc i) l)"
proof (cases "i < length l")
  case True
  assume "sorted_wrt R l"
  then have "sorted_wrt R (take i l @ l ! i # drop (Suc i) l)" using id_take_nth_drop [OF True] by simp
  then show ?thesis by (simp add: sorted_wrt_append)
qed simp

lemma leases_ok_remove: "leases_ok base s e l \<Longrightarrow> leases_ok base s e (node_remove_from_list l i)"
proof -
  assume ok: "leases_ok base s e l"
  have "distinct (take i xs @ drop (Suc i) xs)" if "distinct xs" for xs :: "mac list"
    using that by (auto simp: set_take_disj_set_drop_if_distinct)
  moreover have "set (take i xs @ drop (Suc i) xs) \<subseteq> set xs" for xs :: "u32 list"
    by (auto dest: in_set_takeD in_set_dropD)
  ultimately show ?thesis
    using ok sorted_wrt_remove [of "(<)" "map dp_ip l" i]
    unfolding leases_ok_def node_remove_eq map_append take_map [symmetric] drop_map [symmetric] by blast
qed

lemma leases_hosts:
  assumes ok: "leases_ok base s e l" and e: "e < 255"
  obtains hs where "map dp_ip l = map (host base) hs" "sorted_wrt (<) hs" "\<forall>h \<in> set hs. s \<le> h \<and> h \<le> e"
proof -
  from ok have "\<forall>a \<in> set (map dp_ip l). \<exists>h. a = host base h \<and> s \<le> h \<and> h \<le> e"
    by (fastforce simp: leases_ok_def)
  then have "\<exists>hs. map dp_ip l = map (host base) hs \<and> (\<forall>h \<in> set hs. s \<le> h \<and> h \<le> e)"
  proof (induction "map dp_ip l" arbitrary: l)
    case (Cons a as)
    then obtain p l' where l: "l = p # l'" "as = map dp_ip l'" "a = dp_ip p" by (cases l) auto
    with Cons obtain hs h where "map dp_ip l' = map (host base) hs" "\<forall>h \<in> set hs. s \<le> h \<and> h \<le> e"
      "a = host base h" "s \<le> h" "h \<le> e" by fastforce
    with l show ?case by (intro exI [of _ "h # hs"]) simp
  qed simp
  then obtain hs where hs: "map dp_ip l = map (host base) hs" "\<forall>h \<in> set hs. s \<le> h \<and> h \<le> e" by blast
  have "sorted_wrt (\<lambda>h k. host base h < host base k) hs"
    using ok hs(1) by (simp add: leases_ok_def sorted_wrt_map)
  moreover have "x < y" if "x \<in> set hs" "y \<in> set hs" "host base x < host base y" for x y
  proof -
    have "x \<le> e" "y \<le> e" using hs(2) that(1,2) by auto
    then show ?thesis using that(3) e by (simp add: host_less)
  qed
  ultimately have "sorted_wrt (<) hs" by (rule sorted_wrt_mono_rel [rotated])
  from that [OF hs(1) this hs(2)] show ?thesis .
qed

lemma node_insert_set [simp]: "set (node_insert_to_list l p) = insert p (set l)"
  by (induction l) auto

lemma node_insert_sorted:
  "sorted_wrt (<) (map dp_ip l) \<Longrightarrow> dp_ip p \<notin> dp_ip ` set l \<Longrightarrow>
   sorted_wrt (<) (map dp_ip (node_insert_to_list l p))"
proof (induction l)
  case (Cons q qs)
  then show ?case by (auto simp: not_less dest: order_le_imp_less_or_eq)
qed simp

lemma node_insert_distinct:
  "distinct (map dp_mac l) \<Longrightarrow> dp_mac p \<notin> dp_mac ` set l \<Longrightarrow> distinct (map dp_mac (node_insert_to_list l p))"
  by (induction l) auto

lemma leases_ok_insert:
  assumes "leases_ok base s e l" and "dp_ip p = host base h" and "s \<le> h" and "h \<le> e"
    and "dp_ip p \<notin> dp_ip ` set l" and "dp_mac p \<notin> dp_mac ` set l"
  shows "leases_ok base s e (node_insert_to_list l p)"
  using assms by (auto simp: leases_ok_def node_insert_sorted node_insert_distinct)

lemma tick_leases_eq:
  "fst (tick_leases l n) = map (\<lambda>p. p\<lparr>dp_lease_timer := dp_lease_timer p - 1\<rparr>) (filter (\<lambda>p. dp_lease_timer p \<noteq> 1) l)"
  "snd (tick_leases l n) = n + of_nat (length (filter (\<lambda>p. dp_lease_timer p \<noteq> 1) l))"
  by (induction l arbitrary: n) (auto simp: Let_def add.commute)

lemma leases_ok_tick: "leases_ok base s e l \<Longrightarrow> leases_ok base s e (fst (tick_leases l n))"
  unfolding tick_leases_eq
  by (rule leases_ok_cong [OF _ _ leases_ok_filter [of base s e l "\<lambda>p. dp_lease_timer p \<noteq> 1"]]) simp_all

lemma kill_oldest_eq:
  "\<exists>i. kill_oldest_dhcps_pool l = l \<or> kill_oldest_dhcps_pool l = node_remove_from_list l i"
  by (auto simp: kill_oldest_dhcps_pool_def split: list.splits)

section \<open>The invariant of a running server\<close>

definition lease_inv :: "u32 \<Rightarrow> nat \<Rightarrow> nat \<Rightarrow> dhcps \<Rightarrow> bool" where
  "lease_inv base s e d \<longleftrightarrow>
     s \<le> Suc e \<and> e < 255 \<and> dl_start_ip (dhcps_poll d) = host base s \<and> dl_end_ip (dhcps_poll d) = host base e \<and>
     leases_ok base s e (plist d) \<and> (\<exists>k. client_address_plus d = host base k \<and> s \<le> k \<and> k \<le> Suc e)"

lemma new_lease_inv:
  assumes inv: "lease_inv base s e d" and r: "env_reservation env = None"
    and c: "client_address d = host base c" "s \<le> c" "c \<le> Suc e" "client_address d \<notin> dp_ip ` set (plist d)"
    and f: "first = host base f" "s \<le> f" "f \<le> Suc e" "first \<notin> dp_ip ` set (plist d)"
    and m: "mac \<notin> dp_mac ` set (plist d)" and n: "new_lease env d mac first t = Some (node, d')"
  shows "lease_inv base s e d'"
proof -
  define a where "a = (if dl_end_ip (dhcps_poll d) < client_address_plus d then first else client_address d)"
  obtain h where h: "a = host base h" "s \<le> h" "h \<le> Suc e" "a \<notin> dp_ip ` set (plist d)"
    using c f by (cases "dl_end_ip (dhcps_poll d) < client_address_plus d") (simp_all add: a_def)
  have e: "e < 255" "dl_end_ip (dhcps_poll d) = host base e" "dl_start_ip (dhcps_poll d) = host base s"
    "s \<le> Suc e" "leases_ok base s e (plist d)" using inv by (auto simp: lease_inv_def)
  have out: "dl_end_ip (dhcps_poll d) < a \<longleftrightarrow> e < h" using e(1,2) h by (simp add: host_less)
  let ?p = "\<lparr>dp_ip = a, dp_mac = mac, dp_lease_timer = t, dp_hostname = []\<rparr>"
  show ?thesis
  proof (cases "e < h")
    case True
    then have "d' = d\<lparr>client_address := a, client_address_plus := dl_start_ip (dhcps_poll d)\<rparr>"
      using n r out by (simp add: new_lease_def Let_def a_def [symmetric])
    then show ?thesis using e by (auto simp: lease_inv_def)
  next
    case False
    then have d': "d' = d\<lparr>client_address := a, plist := node_insert_to_list (plist d) ?p,
        client_address_plus := (if a = dl_end_ip (dhcps_poll d) then dl_start_ip (dhcps_poll d) else ip_succ a)\<rparr>"
      using n r out by (auto simp: new_lease_def Let_def a_def [symmetric] split: if_splits)
    have "leases_ok base s e (node_insert_to_list (plist d) ?p)"
      using e(5) h False m by (intro leases_ok_insert [of _ _ _ _ _ h]) simp_all
    moreover have "\<exists>k. client_address_plus d' = host base k \<and> s \<le> k \<and> k \<le> Suc e"
    proof (cases "a = dl_end_ip (dhcps_poll d)")
      case True
      then show ?thesis using e(3,4) by (auto simp: d')
    next
      case a: False
      then have "client_address_plus d' = host base (Suc h)"
        using h(1) False e(1) by (simp add: d' ip_succ_host)
      then show ?thesis using h(2) False by (intro exI [of _ "Suc h"]) simp
    qed
    ultimately show ?thesis using e by (simp add: lease_inv_def d')
  qed
qed

lemma lease_inv_same:
  "lease_inv base s e d \<Longrightarrow> dhcps_poll d' = dhcps_poll d \<Longrightarrow>
   client_address_plus d' = client_address_plus d \<Longrightarrow> plist d' = plist d \<Longrightarrow> lease_inv base s e d'"
  by (simp add: lease_inv_def)

lemma find_lease_inv:
  assumes inv: "lease_inv base s e d" and r: "env_reservation env = None"
    and f: "find_lease env d mac ci t = Some (node, d')"
  shows "lease_inv base s e d'"
proof -
  have I: "s \<le> Suc e" "e < 255" "dl_start_ip (dhcps_poll d) = host base s" "dl_end_ip (dhcps_poll d) = host base e"
    "leases_ok base s e (plist d)" using inv by (auto simp: lease_inv_def)
  obtain k where k: "client_address_plus d = host base k" "s \<le> k" "k \<le> Suc e" using inv by (auto simp: lease_inv_def)
  obtain hs where hs: "map dp_ip (plist d) = map (host base) hs" "sorted_wrt (<) hs" "\<forall>h \<in> set hs. s \<le> h \<and> h \<le> e"
    using leases_hosts [OF I(5,2)] by blast
  have notin: "host base h \<notin> dp_ip ` set (plist d)" if "h \<notin> set hs" "h \<le> Suc e" for h
  proof
    assume "host base h \<in> dp_ip ` set (plist d)"
    also have "dp_ip ` set (plist d) = host base ` set hs" using hs(1) by (metis set_map)
    finally obtain x where "x \<in> set hs" "host base h = host base x" by auto
    moreover from this have "x \<le> e" using hs(3) by auto
    ultimately have "h = x" using I(2) that(2) by (simp add: host_eq)
    then show False using \<open>x \<in> set hs\<close> that(1) by simp
  qed
  let ?s0 = "\<lparr>ls_client = client_address_plus d, ls_plus = client_address_plus d,
              ls_first = dl_start_ip (dhcps_poll d), ls_flag = False\<rparr>"
  show ?thesis
  proof (cases "plist d = []")
    case True
    then obtain d1 c where n: "new_lease env d1 mac (dl_start_ip (dhcps_poll d)) t = Some (node, d')"
      and d1: "dhcps_poll d1 = dhcps_poll d" "client_address_plus d1 = client_address_plus d" "plist d1 = []"
      "client_address d1 = host base c" "s \<le> c" "c \<le> Suc e"
      using f k I(1,3) by (auto simp: find_lease_def Let_def split: if_splits)
    show ?thesis
      by (rule new_lease_inv [OF _ r d1(4-6) _ I(3) _ _ _ _ n])
        (use True d1 I inv in \<open>auto intro: lease_inv_same\<close>)
  next
    case False
    show ?thesis
    proof (cases "scan_leases mac (plist d) ?s0")
      case (Pair res s1)
      show ?thesis
      proof (cases res)
        case None
        note sc = Pair [unfolded None]
        have le: "\<forall>h \<in> set hs. h \<le> e" "\<forall>h \<in> set hs. s \<le> h \<and> h \<le> e" using hs(3) by auto
        have p: "ls_plus s1 = host base (next_free hs k)"
          by (rule scan_leases_none(1) [OF sc hs(1,2) le(1) I(2)]) (simp_all add: k)
        have c: "ls_client s1 = ls_plus s1"
          by (rule scan_leases_none(2) [OF sc hs(1,2) le(1) I(2), of k]) (simp_all add: k)
        have m: "mac \<notin> dp_mac ` set (plist d)"
          by (rule scan_leases_none(3) [OF sc hs(1,2) le(1) I(2), of k]) (simp_all add: k)
        have fi: "ls_first s1 = host base (next_free hs s)"
          by (rule scan_first_none [OF sc hs(1,2) le(2) I(2)]) (simp_all add: I)
        have kk: "s \<le> next_free hs k" "next_free hs k \<le> Suc e" "next_free hs k \<notin> set hs"
          using next_free_ge [of k hs] next_free_le [OF le(1) k(3)] next_free_notin [OF hs(2)] k(2) by auto
        have ff: "s \<le> next_free hs s" "next_free hs s \<le> Suc e" "next_free hs s \<notin> set hs"
          using next_free_ge [of s hs] next_free_le [OF le(1) I(1)] next_free_notin [OF hs(2)] by auto
        let ?d1 = "d\<lparr>renew := False, has_declined_ip := False, client_address := ls_client s1,
                     client_address_plus := ls_plus s1\<rparr>"
        have n: "new_lease env ?d1 mac (ls_first s1) t = Some (node, d')"
          using f False sc by (simp add: find_lease_def Let_def)
        show ?thesis
        proof (rule new_lease_inv [OF _ r _ kk(1,2) _ fi ff(1,2) _ _ n])
          show "lease_inv base s e ?d1" using I kk(1,2) p by (auto simp: lease_inv_def)
          show "client_address ?d1 = host base (next_free hs k)" using c p by simp
          show "client_address ?d1 \<notin> dp_ip ` set (plist ?d1)" using c p notin [OF kk(3,2)] by simp
          show "ls_first s1 \<notin> dp_ip ` set (plist ?d1)" using fi notin [OF ff(3,2)] by simp
          show "mac \<notin> dp_mac ` set (plist ?d1)" using m by simp
        qed
      next
        case (Some i)
        note sc = Pair [unfolded Some]
        obtain k' where k': "ls_plus s1 = host base k'" "s \<le> k'" "k' \<le> Suc e"
          using scan_leases_some [OF sc hs(1) _ I(2), of k s] k hs(3) by auto
        have "plist d' = (plist d)[i := (plist d ! i)\<lparr>dp_lease_timer := t\<rparr>]"
          "client_address_plus d' = ls_plus s1" "dhcps_poll d' = dhcps_poll d"
          using f False sc by (auto simp: find_lease_def Let_def)
        with I k' show ?thesis by (auto simp: lease_inv_def leases_ok_update)
      qed
    qed
  qed
qed

lemma drop_lease_inv: "lease_inv base s e d \<Longrightarrow> lease_inv base s e (drop_lease d node)"
  by (auto simp: lease_inv_def drop_lease_def leases_ok_remove split: option.splits)

lemma pool_check_inv:
  assumes "lease_inv base s e d" and "pool_check d node m len = Some (r, d')"
  shows "lease_inv base s e d'"
proof (cases "dl_end_ip (dhcps_poll d) < client_address d \<or> client_address d = 0")
  case True
  with assms show ?thesis by (auto simp: pool_check_def drop_lease_inv)
next
  case False
  with assms(2) obtain r1 d1 where o: "parse_options d m (off_options + 4) len = Some (r1, d1)"
    by (cases "parse_options d m (off_options + 4) len") (auto simp: pool_check_def)
  obtain h where "d1 = d\<lparr>current_hostname := h\<rparr>" using parse_options_setup [OF o] by blast
  then have inv: "lease_inv base s e d1" using assms(1) by (simp add: lease_inv_def)
  from drop_lease_inv [OF this] show ?thesis
    using assms(2) False o inv
    by (auto simp: pool_check_def Let_def lease_inv_def leases_ok_update split: if_splits option.splits)
qed

lemma parse_msg_inv:
  assumes "lease_inv base s e d" and "env_reservation env = None" and "parse_msg env d m len = Some (r, d')"
  shows "lease_inv base s e d'"
proof -
  from assms(3) obtain cookie where c: "le32 m off_options = Some cookie"
    by (cases "le32 m off_options") (auto simp: parse_msg_def)
  show ?thesis
  proof (cases "cookie = magic_cookie")
    case True
    with assms(3) c obtain mac ci node d1 where
      f: "find_lease env d mac ci (dhcps_lease_time d * cfg_lease_unit env) = Some (node, d1)"
      and p: "pool_check d1 node m len = Some (r, d')"
      by (auto simp: parse_msg_def Option.bind_eq_Some_conv)
    show ?thesis using pool_check_inv [OF find_lease_inv [OF assms(1,2) f] p] .
  next
    case False
    with assms(1,3) c show ?thesis by (simp add: parse_msg_def)
  qed
qed

lemma handle_dhcp_inv:
  assumes "lease_inv base s e d" and "env_reservation env = None"
    and "handle_dhcp env d chain = Some (d', acts)"
  shows "lease_inv base s e d'"
proof (cases chain)
  case None
  with assms show ?thesis by (simp add: handle_dhcp_def)
next
  case (Some bufs)
  with assms(3) consider "d' = d" | m len r where "parse_msg env d m len = Some (r, d')"
    by (auto simp: handle_dhcp_def Let_def Option.bind_eq_Some_conv split: if_splits)
  then show ?thesis using assms(1) parse_msg_inv [OF assms(1,2)] by cases auto
qed

lemma dhcps_tmr_inv:
  assumes "lease_inv base s e d" and "dhcps_tmr env d = (Some d', b)"
  shows "lease_inv base s e d'"
proof -
  have "leases_ok base s e (kill_oldest_dhcps_pool l)" if "leases_ok base s e l" for l
    using kill_oldest_eq [of l] that leases_ok_remove by metis
  then show ?thesis using assms
    by (auto simp: dhcps_tmr_def lease_inv_def Let_def leases_ok_tick split: if_splits)
qed

section \<open>Safety of the allocation\<close>

text \<open>What happens to a running server: packets, timer ticks, changes of its DNS addresses.\<close>

inductive dhcps_reach :: "dhcps_env \<Rightarrow> dhcps \<Rightarrow> dhcps \<Rightarrow> bool" for env d0 where
  dr_start: "dhcps_reach env d0 d0"
| dr_packet: "dhcps_reach env d0 d \<Longrightarrow> handle_dhcp env d chain = Some (d', acts) \<Longrightarrow> dhcps_reach env d0 d'"
| dr_tick: "dhcps_reach env d0 d \<Longrightarrow> dhcps_tmr env d = (Some d', b) \<Longrightarrow> dhcps_reach env d0 d'"
| dr_dns: "dhcps_reach env d0 d \<Longrightarrow> dhcps_reach env d0 (snd (dhcps_dns_setserver_by_type d a typ))"

lemma setserver_inv: "lease_inv base s e d \<Longrightarrow> lease_inv base s e (snd (dhcps_dns_setserver_by_type d a typ))"
  by (simp add: dhcps_dns_setserver_by_type_def lease_inv_def)

lemma reach_inv:
  "dhcps_reach env d0 d \<Longrightarrow> env_reservation env = None \<Longrightarrow> lease_inv base s e d0 \<Longrightarrow> lease_inv base s e d"
  by (induction rule: dhcps_reach.induct)
    (blast intro: handle_dhcp_inv dhcps_tmr_inv setserver_inv)+

lemma start_fields:
  assumes "dhcps_start d nif ip pcb = (ERR_OK, d')"
  shows "client_address_plus d' = dl_start_ip (dhcps_poll d')" and "plist d' = plist d"
  using assms by (auto simp: dhcps_start_def dhcps_poll_set_def Let_def split: if_splits)

lemma same_octets_host:
  assumes "take 3 (dhcps_option_ip a) = take 3 (dhcps_option_ip b)"
  shows "a = host b (unat (byte3 a))"
  using assms by (simp add: host_def dhcps_option_ip_def) (metis mk32_bytes)

text \<open>
  C24: Without reservations, a server whose pool lies in one /24 never leases an address twice:
  in every state reachable from its start by any packets, timer ticks and DNS changes, the
  leases have distinct addresses and distinct hardware addresses, every address is in the pool,
  and so there are at most as many leases as addresses in the pool.
\<close>

theorem dhcp_no_double_lease:
  assumes "dhcps_start d nif ip pcb = (ERR_OK, d0)" and "plist d = []" and "env_reservation env = None"
    and pool: "a = dl_start_ip (dhcps_poll d0)" "b = dl_end_ip (dhcps_poll d0)"
      "take 3 (dhcps_option_ip a) = take 3 (dhcps_option_ip b)" "byte3 a \<le> byte3 b" "byte3 b < 255"
    and "dhcps_reach env d0 d'"
  shows "distinct (map dp_ip (plist d')) \<and> distinct (map dp_mac (plist d')) \<and>
    (\<forall>p \<in> set (plist d'). a \<le> dp_ip p \<and> dp_ip p \<le> b) \<and>
    length (plist d') \<le> unat (byte3 b) - unat (byte3 a) + 1"
proof -
  let ?s = "unat (byte3 a)" and ?e = "unat (byte3 b)"
  have se: "?s \<le> ?e" "?e < 255" using pool(4,5) by (simp_all add: word_le_nat_alt word_less_nat_alt)
  have ab: "a = host b ?s" "b = host b ?e" using same_octets_host [OF pool(3)] by (simp_all add: host_def)
  have "lease_inv b ?s ?e d0"
    using se ab pool(1,2) start_fields [OF assms(1)] assms(2) by (auto simp: lease_inv_def intro: exI [of _ ?s])
  from reach_inv [OF assms(9,3) this] have ok: "leases_ok b ?s ?e (plist d')" by (simp add: lease_inv_def)
  then have dist: "distinct (map dp_ip (plist d'))" "distinct (map dp_mac (plist d'))"
    and sub: "set (map dp_ip (plist d')) \<subseteq> host b ` {?s..?e}"
    by (simp_all add: leases_ok_def strict_sorted_iff)
  have "a \<le> dp_ip p \<and> dp_ip p \<le> b" if "p \<in> set (plist d')" for p
  proof -
    from sub that obtain h where "dp_ip p = host b h" "?s \<le> h" "h \<le> ?e" by fastforce
    then have "\<not> dp_ip p < host b ?s" "\<not> host b ?e < dp_ip p" using se by (simp_all add: host_less)
    then show ?thesis using ab by (simp add: not_less)
  qed
  moreover have "length (plist d') \<le> ?e - ?s + 1"
  proof -
    have "length (plist d') = card (set (map dp_ip (plist d')))" using distinct_card [OF dist(1)] by simp
    also have "\<dots> \<le> card (host b ` {?s..?e})" using sub by (intro card_mono) auto
    also have "\<dots> \<le> card {?s..?e}" by (rule card_image_le) simp
    finally show ?thesis using se(1) by simp
  qed
  ultimately show ?thesis using dist by blast
qed

theorem dhcp_no_double_lease_witness:
  "distinct (map dp_ip (plist (fst demo_offer))) \<and> length (plist (fst demo_offer)) \<le> 100"
proof -
  let ?d = "snd (dhcps_set_new_lease_cb (the (dhcps_new (idf_env None) 240)) (Some 0) 0)"
  let ?r = "dhcps_start ?d (Some 0) (mk32 1 4 168 192) (Some 0)"
  have "fst ?r = ERR_OK" by code_simp
  then have run: "?r = (ERR_OK, demo_server)" unfolding demo_server_def by (metis prod.collapse)
  have empty: "plist ?d = []" by code_simp
  have pool: "dl_start_ip (dhcps_poll demo_server) = mk32 2 4 168 192" "dl_end_ip (dhcps_poll demo_server) = mk32 101 4 168 192"
    by code_simp+
  have reach: "dhcps_reach (idf_env None) demo_server (fst demo_offer)"
    by (rule dr_packet [OF dr_start demo_offer_run])
  have "env_reservation (idf_env None) = None" by (simp add: idf_env_def)
  from dhcp_no_double_lease [OF run empty this pool [symmetric] _ _ _ reach]
  show ?thesis by (simp add: dhcps_option_ip_def)
qed

section \<open>Refusals and releases\<close>

lemma scan_none_mac: "scan_leases mac l s = (None, s') \<Longrightarrow> mac \<notin> dp_mac ` set l"
  by (induction l arbitrary: s) (auto simp: Let_def prod_eq_iff split: if_splits)

lemma new_lease_macs:
  "new_lease env d mac f t = Some (node, d') \<Longrightarrow> mac \<notin> dp_mac ` set (plist d) \<Longrightarrow> distinct (map dp_mac (plist d)) \<Longrightarrow>
   distinct (map dp_mac (plist d')) \<and> (node = None \<longrightarrow> mac \<notin> dp_mac ` set (plist d'))"
  by (auto simp: new_lease_def Let_def node_insert_distinct split: if_splits)

lemma find_lease_macs:
  assumes "find_lease env d mac ci t = Some (node, d')" and "distinct (map dp_mac (plist d))"
  shows "distinct (map dp_mac (plist d')) \<and> (node = None \<longrightarrow> mac \<notin> dp_mac ` set (plist d'))"
proof -
  have nl: "\<exists>d1 f. new_lease env d1 mac f t = Some (node, d') \<and> plist d1 = plist d"
    if "plist d = [] \<or> mac \<notin> dp_mac ` set (plist d)"
    using assms(1) that
    by (auto simp: find_lease_def Let_def split: if_splits prod.splits option.splits dest: scan_leases_hit)
  show ?thesis
  proof (cases "mac \<in> dp_mac ` set (plist d)")
    case False
    with nl obtain d1 f where "new_lease env d1 mac f t = Some (node, d')" "plist d1 = plist d" by blast
    then show ?thesis using new_lease_macs [of env d1 mac f t node d'] False assms(2) by simp
  next
    case True
    then have "plist d \<noteq> []" by auto
    with assms(1) True obtain i where "node = Some i" "plist d' = (plist d)[i := (plist d ! i)\<lparr>dp_lease_timer := t\<rparr>]"
      by (auto simp: find_lease_def Let_def split: if_splits prod.splits option.splits dest: scan_none_mac)
    then show ?thesis using assms(2) by (simp add: map_update_same)
  qed
qed

lemma remove_frees:
  assumes "distinct (map dp_mac l)" and "i < length l"
  shows "dp_mac (l ! i) \<notin> dp_mac ` set (node_remove_from_list l i)"
proof -
  have "map dp_mac l = take i (map dp_mac l) @ map dp_mac l ! i # drop (Suc i) (map dp_mac l)"
    by (rule id_take_nth_drop) (simp add: assms(2))
  then have "distinct (take i (map dp_mac l) @ map dp_mac l ! i # drop (Suc i) (map dp_mac l))"
    using assms(1) by simp
  then show ?thesis using assms(2) by (auto simp: node_remove_eq take_map drop_map)
qed

text \<open>
  A client that is refused (NAK), releases its address or declines it holds no lease
  afterwards: its entry leaves the list, whichever of its paths the handler took.
\<close>

theorem dhcp_refusal_frees:
  assumes "parse_msg env d m len = Some (r, d')" and "distinct (map dp_mac (plist d))"
    and "r \<in> {DHCPS_STATE_NAK, DHCPS_STATE_RELEASE, DHCPS_STATE_DECLINE}"
  shows "\<forall>p \<in> set (plist d'). dp_mac p \<noteq> take 6 (drop off_chaddr m)"
proof -
  from assms(1,3) obtain mac ci node d1 where mac: "rdn m off_chaddr 6 = Some mac"
    and f: "find_lease env d mac ci (dhcps_lease_time d * cfg_lease_unit env) = Some (node, d1)"
    and p: "pool_check d1 node m len = Some (r, d')"
    by (auto simp: parse_msg_def Option.bind_eq_Some_conv dhcp_states split: if_splits)
  have m: "mac = take 6 (drop off_chaddr m)" using mac by (simp add: rdn_def split: if_splits)
  note fm = find_lease_macs [OF f assms(2)]
  have drop: "mac \<notin> dp_mac ` set (plist (drop_lease d2 node))" if "plist d2 = plist d1" for d2
    using fm find_lease_node [of env d mac ci _ _ d1] f remove_frees [of "plist d1"] that
    by (auto simp: drop_lease_def split: option.splits)
  have "mac \<notin> dp_mac ` set (plist d')"
  proof (cases "dl_end_ip (dhcps_poll d1) < client_address d1 \<or> client_address d1 = 0")
    case True
    then show ?thesis using p drop [of d1] by (auto simp: pool_check_def)
  next
    case False
    with p obtain r1 d2 where o: "parse_options d1 m (off_options + 4) len = Some (r1, d2)"
      by (cases "parse_options d1 m (off_options + 4) len") (auto simp: pool_check_def)
    obtain h where "d2 = d1\<lparr>current_hostname := h\<rparr>" using parse_options_setup [OF o] by blast
    then have "plist d2 = plist d1" by simp
    from drop [OF this] show ?thesis
      using p False o assms(3) by (auto simp: pool_check_def Let_def split: if_splits option.splits)
  qed
  then show ?thesis using m by (auto simp: image_iff)
qed

definition demo_release :: "nat \<times> dhcps" where
  "demo_release = the (parse_msg (idf_env None) demo_server (dhcp_message [demo_request 7 mac_a []]) 4)"

theorem dhcp_refusal_frees_witness:
  "take 6 (drop off_chaddr (dhcp_message [demo_request 7 mac_a []])) \<notin> dp_mac ` set (plist (snd demo_release))"
proof -
  have "\<not> Option.is_none (parse_msg (idf_env None) demo_server (dhcp_message [demo_request 7 mac_a []]) 4)"
    by code_simp
  then have "parse_msg (idf_env None) demo_server (dhcp_message [demo_request 7 mac_a []]) 4
      = Some (fst demo_release, snd demo_release)"
    by (auto simp: demo_release_def Option.is_none_def)
  moreover have "distinct (map dp_mac (plist demo_server))" by code_simp
  moreover have "fst demo_release = DHCPS_STATE_RELEASE" by code_simp
  ultimately show ?thesis using dhcp_refusal_frees [of "idf_env None" demo_server] by fastforce
qed

section \<open>Reservations and wide pools\<close>

lemma new_lease_full:
  "dl_end_ip (dhcps_poll d) < (case env_reservation env of None \<Rightarrow> 0 | Some f \<Rightarrow> f mac) \<Longrightarrow>
   \<exists>d'. new_lease env d mac f t = Some (None, d') \<and> dl_end_ip (dhcps_poll d') < client_address d'"
  by (auto simp: new_lease_def Let_def)

lemma find_lease_new:
  assumes "mac \<notin> dp_mac ` set (plist d)"
  obtains d1 f where "find_lease env d mac ci t = new_lease env d1 mac f t" "dhcps_poll d1 = dhcps_poll d"
    "plist d1 = plist d"
proof -
  let ?s0 = "\<lparr>ls_client = client_address_plus d, ls_plus = client_address_plus d,
              ls_first = dl_start_ip (dhcps_poll d), ls_flag = False\<rparr>"
  have "fst (scan_leases mac (plist d) ?s0) = None"
  proof (cases "fst (scan_leases mac (plist d) ?s0)")
    case (Some i)
    then have "scan_leases mac (plist d) ?s0 = (Some i, snd (scan_leases mac (plist d) ?s0))" by (simp add: prod_eq_iff)
    from scan_leases_hit [OF this] show ?thesis using assms by (metis image_eqI nth_mem)
  qed
  then obtain s1 where s1: "scan_leases mac (plist d) ?s0 = (None, s1)" by (metis prod.collapse)
  show ?thesis
  proof (cases "plist d = []")
    case True
    let ?d1 = "d\<lparr>client_address := client_address_plus d, renew := False, has_declined_ip := False\<rparr>"
    let ?d2 = "d\<lparr>renew := False, client_address := dl_start_ip (dhcps_poll d)\<rparr>"
    show ?thesis
    proof (cases "has_declined_ip d")
      case True
      then show ?thesis using \<open>plist d = []\<close>
        by (intro that [of ?d1 "dl_start_ip (dhcps_poll d)"]) (simp_all add: find_lease_def Let_def)
    next
      case False
      then show ?thesis using \<open>plist d = []\<close>
        by (intro that [of ?d2 "dl_start_ip (dhcps_poll d)"]) (simp_all add: find_lease_def Let_def)
    qed
  next
    case False
    let ?d3 = "d\<lparr>renew := False, has_declined_ip := False, client_address := ls_client s1,
                 client_address_plus := ls_plus s1\<rparr>"
    show ?thesis using s1 False
      by (intro that [of ?d3 "ls_first s1"]) (simp_all add: find_lease_def Let_def)
  qed
qed

text \<open>
  A reservation is not used \<open>regardless of pool range\<close>: a client without a lease whose
  reserved address compares above the end of the pool gets a NAK on every message.
\<close>

theorem reservation_above_pool_refused:
  assumes "le32 m off_options = Some magic_cookie" and "rdn m off_chaddr 6 = Some mac" and "le32 m off_ciaddr = Some ci"
    and "env_reservation env = Some f" and "dl_end_ip (dhcps_poll d) < f mac"
    and "mac \<notin> dp_mac ` set (plist d)"
  shows "\<exists>d'. parse_msg env d m len = Some (DHCPS_STATE_NAK, d')"
proof -
  obtain d1 first where n: "find_lease env d mac ci (dhcps_lease_time d * cfg_lease_unit env)
      = new_lease env d1 mac first (dhcps_lease_time d * cfg_lease_unit env)" "dhcps_poll d1 = dhcps_poll d"
    by (rule find_lease_new [OF assms(6), of env ci "dhcps_lease_time d * cfg_lease_unit env"])
  obtain d2 where "new_lease env d1 mac first (dhcps_lease_time d * cfg_lease_unit env) = Some (None, d2)"
    "dl_end_ip (dhcps_poll d2) < client_address d2"
    using new_lease_full [of d1 mac env first "dhcps_lease_time d * cfg_lease_unit env"] n(2) assms(4,5) by auto
  then show ?thesis using assms(1-3) n(1)
    by (simp add: parse_msg_def pool_check_def drop_lease_def DHCPS_STATE_NAK_def)
qed

theorem reservation_above_pool_refused_witness:
  "\<exists>d'. parse_msg (idf_env (Some (\<lambda>_. mk32 200 4 168 192))) demo_server
     (dhcp_message [demo_request 1 mac_a []]) 4 = Some (DHCPS_STATE_NAK, d')"
proof (rule reservation_above_pool_refused)
  show "le32 (dhcp_message [demo_request 1 mac_a []]) off_options = Some magic_cookie" by code_simp
  show "rdn (dhcp_message [demo_request 1 mac_a []]) off_chaddr 6 = Some mac_a" by code_simp
  show "le32 (dhcp_message [demo_request 1 mac_a []]) off_ciaddr = Some 0" by code_simp
  show "env_reservation (idf_env (Some (\<lambda>_. mk32 200 4 168 192))) = Some (\<lambda>_. mk32 200 4 168 192)"
    by (simp add: idf_env_def)
  show "dl_end_ip (dhcps_poll demo_server) < mk32 200 4 168 192" by code_simp
  have "plist demo_server = []" by code_simp
  then show "mac_a \<notin> dp_mac ` set (plist demo_server)" by simp
qed

text \<open>
  A reservation inside the pool is handed out even while another client holds the address:
  both then have a lease of it.
\<close>

theorem reservation_double_lease:
  assumes "find_lease env d mac ci t = Some (node, d')" and "env_reservation env = Some f" and "f mac \<noteq> 0"
    and "f mac \<le> dl_end_ip (dhcps_poll d)" and "mac \<notin> dp_mac ` set (plist d)" and "has_lease d other (f mac)"
  shows "has_lease d' other (f mac) \<and> has_lease d' mac (f mac)"
proof -
  obtain d1 first where n: "find_lease env d mac ci t = new_lease env d1 mac first t"
    "dhcps_poll d1 = dhcps_poll d" "plist d1 = plist d"
    by (rule find_lease_new [OF assms(5)])
  have "\<not> dl_end_ip (dhcps_poll d1) < f mac" using assms(4) n(2) by (simp add: not_less)
  then have "\<exists>p. plist d' = node_insert_to_list (plist d) p \<and> dp_ip p = f mac \<and> dp_mac p = mac"
    using assms(1-3) n by (auto simp: new_lease_def Let_def split: if_splits)
  then show ?thesis using assms(6) by (auto simp: has_lease_def)
qed

theorem reservation_double_lease_witness:
  "\<exists>node d'. find_lease (idf_env (Some (\<lambda>_. mk32 2 4 168 192)))
       (demo_server\<lparr>plist := [\<lparr>dp_ip = mk32 2 4 168 192, dp_mac = mac_a, dp_lease_timer = 60, dp_hostname = []\<rparr>]\<rparr>)
       mac_b 0 7200 = Some (node, d')
     \<and> has_lease d' mac_a (mk32 2 4 168 192) \<and> has_lease d' mac_b (mk32 2 4 168 192)"
proof -
  let ?e = "idf_env (Some (\<lambda>_. mk32 2 4 168 192))"
  let ?d = "demo_server\<lparr>plist := [\<lparr>dp_ip = mk32 2 4 168 192, dp_mac = mac_a, dp_lease_timer = 60, dp_hostname = []\<rparr>]\<rparr>"
  obtain node d' where f: "find_lease ?e ?d mac_b 0 7200 = Some (node, d')"
    using find_lease_total [of ?e ?d mac_b 0 7200] by (auto simp: idf_env_def)
  have "mk32 2 4 168 192 \<le> dl_end_ip (dhcps_poll demo_server)" "(mk32 2 4 168 192 :: u32) \<noteq> 0" by code_simp+
  then have "has_lease d' mac_a (mk32 2 4 168 192) \<and> has_lease d' mac_b (mk32 2 4 168 192)"
    using reservation_double_lease [OF f, of "\<lambda>_. mk32 2 4 168 192" mac_a]
    by (simp add: idf_env_def has_lease_def mac_a_def mac_b_def)
  with f show ?thesis by blast
qed

text \<open>
  A pool that spans two values of the third octet can compare as empty, because addresses
  are compared in network byte order: then the first client, and every later one, gets a NAK.
\<close>

theorem wide_pool_refuses_all:
  assumes "le32 m off_options = Some magic_cookie" and "rdn m off_chaddr 6 = Some mac" and "le32 m off_ciaddr = Some ci"
    and "env_reservation env = None" and "plist d = []"
    and "dl_end_ip (dhcps_poll d) < dl_start_ip (dhcps_poll d)" and "client_address_plus d = dl_start_ip (dhcps_poll d)"
  shows "\<exists>d'. parse_msg env d m len = Some (DHCPS_STATE_NAK, d') \<and> plist d' = [] \<and>
     client_address_plus d' = dl_start_ip (dhcps_poll d') \<and> dhcps_poll d' = dhcps_poll d"
  using assms
  by (cases "has_declined_ip d")
    (simp_all add: parse_msg_def find_lease_def new_lease_def Let_def pool_check_def drop_lease_def DHCPS_STATE_NAK_def)

text \<open>The server on 10.0.0.200/16 makes up the pool 10.0.0.201 to 10.0.1.44.\<close>

definition demo_wide :: dhcps where
  "demo_wide = snd (dhcps_start ((the (dhcps_new (idf_env None) 240))\<lparr>dhcps_mask := mk32 0 0 255 255\<rparr>)
     (Some 0) (mk32 200 0 0 10) (Some 0))"

theorem wide_pool_refuses_all_witness:
  "dhcps_state demo_wide = DHCPS_HANDLE_STARTED \<and>
   (\<exists>d'. parse_msg (idf_env None) demo_wide (dhcp_message [demo_request 1 mac_a []]) 4 = Some (DHCPS_STATE_NAK, d'))"
proof -
  let ?m = "dhcp_message [demo_request 1 mac_a []]"
  have "le32 ?m off_options = Some magic_cookie" "rdn ?m off_chaddr 6 = Some mac_a" "le32 ?m off_ciaddr = Some 0"
    and d: "plist demo_wide = []" "dl_end_ip (dhcps_poll demo_wide) < dl_start_ip (dhcps_poll demo_wide)"
      "client_address_plus demo_wide = dl_start_ip (dhcps_poll demo_wide)" "dhcps_state demo_wide = DHCPS_HANDLE_STARTED"
    by code_simp+
  from wide_pool_refuses_all [OF this(1-3) _ d(1-3), of "idf_env None" 4] d(4)
  show ?thesis by (auto simp: idf_env_def)
qed

section \<open>Expiry\<close>

lemma oldest_bound: "fst best < n \<Longrightarrow> oldest ps n best < n + length ps"
proof (induction ps arbitrary: n best)
  case (Cons p ps)
  have "fst (if dp_lease_timer p < snd best then (n, dp_lease_timer p) else best) < n + 1"
    using Cons.prems by simp
  from Cons.IH [OF this] show ?case by simp
qed simp

lemma oldest_min:
  assumes "fst best < n" and "l = pre @ ps" and "length pre = n" and "dp_lease_timer (l ! fst best) = snd best"
    and "\<forall>q \<in> set pre. snd best \<le> dp_lease_timer q"
  shows "\<forall>q \<in> set l. dp_lease_timer (l ! oldest ps n best) \<le> dp_lease_timer q"
  using assms
proof (induction ps arbitrary: n best pre)
  case (Cons p ps)
  let ?b = "if dp_lease_timer p < snd best then (n, dp_lease_timer p) else best"
  have "l ! n = p" using Cons.prems(2,3) by (simp add: nth_append)
  have b5: "\<forall>q \<in> set (pre @ [p]). snd ?b \<le> dp_lease_timer q"
  proof
    fix q assume "q \<in> set (pre @ [p])"
    then consider "q \<in> set pre" | "q = p" by auto
    then show "snd ?b \<le> dp_lease_timer q"
    proof cases
      case 1
      then have "snd best \<le> dp_lease_timer q" using Cons.prems(5) by blast
      then show ?thesis by (cases "dp_lease_timer p < snd best") auto
    qed (auto simp: not_less)
  qed
  have b: "fst ?b < n + 1" "l = (pre @ [p]) @ ps" "length (pre @ [p]) = n + 1"
    "dp_lease_timer (l ! fst ?b) = snd ?b"
    using Cons.prems \<open>l ! n = p\<close> by simp_all
  show ?case unfolding oldest.simps by (rule Cons.IH [OF b b5])
qed simp

text \<open>
  Each tick takes one second from every lease and removes exactly those whose time is up;
  then, when more leases remain than stations are allowed, one more goes, and it is one with the
  least remaining time.
\<close>

theorem dhcps_tmr_expires:
  assumes "dhcps_state d = DHCPS_HANDLE_STARTED" and "length (plist d) < 256"
    and l: "l = map (\<lambda>p. p\<lparr>dp_lease_timer := dp_lease_timer p - 1\<rparr>) (filter (\<lambda>p. dp_lease_timer p \<noteq> 1) (plist d))"
  shows "\<exists>l'. dhcps_tmr env d = (Some (d\<lparr>plist := l'\<rparr>), True) \<and>
    (if cfg_max_station env < length l \<and> 2 \<le> length l
     then \<exists>i < length l. (\<forall>q \<in> set l. dp_lease_timer (l ! i) \<le> dp_lease_timer q) \<and> l' = take i l @ drop (Suc i) l
     else l' = l)"
proof -
  have len: "length l < 256"
    unfolding l length_map using assms(2) by (rule le_less_trans [OF length_filter_le])
  have t: "tick_leases (plist d) 0 = (l, of_nat (length l))"
    using tick_leases_eq [of "plist d" 0] by (simp add: l prod_eq_iff)
  have n: "unat (of_nat (length l) :: u8) = length l" using len by (simp add: unat_of_nat)
  define l' where "l' = (if cfg_max_station env < length l then kill_oldest_dhcps_pool l else l)"
  have run: "dhcps_tmr env d = (Some (d\<lparr>plist := l'\<rparr>), True)"
    using assms(1) by (simp add: dhcps_tmr_def t n l'_def)
  show ?thesis
  proof (cases "cfg_max_station env < length l \<and> 2 \<le> length l")
    case True
    then obtain p q ps where pq: "l = p # q # ps" by (auto simp: Suc_le_length_iff numeral_eq_Suc)
    let ?i = "oldest (q # ps) 1 (0, dp_lease_timer p)"
    have "?i < length l" using oldest_bound [of "(0, dp_lease_timer p)" 1 "q # ps"] by (simp add: pq)
    moreover have "\<forall>x \<in> set l. dp_lease_timer (l ! ?i) \<le> dp_lease_timer x"
      by (rule oldest_min [of _ _ _ "[p]"]) (simp_all add: pq)
    moreover have "l' = take ?i l @ drop (Suc ?i) l"
      using True by (simp add: l'_def kill_oldest_dhcps_pool_def node_remove_eq pq del: oldest.simps)
    ultimately have "\<exists>i < length l. (\<forall>q \<in> set l. dp_lease_timer (l ! i) \<le> dp_lease_timer q)
        \<and> l' = take i l @ drop (Suc i) l" by blast
    with run True show ?thesis by (intro exI [of _ l']) simp
  next
    case False
    then have "l' = l" by (cases l; cases "tl l") (auto simp: l'_def kill_oldest_dhcps_pool_def)
    with run False show ?thesis by (intro exI [of _ l']) (simp only: if_False)
  qed
qed

theorem dhcps_tmr_expires_witness:
  "\<exists>l'. dhcps_tmr (idf_env None) (demo_server\<lparr>plist := [\<lparr>dp_ip = 1, dp_mac = mac_a, dp_lease_timer = 1, dp_hostname = []\<rparr>,
        \<lparr>dp_ip = 2, dp_mac = mac_b, dp_lease_timer = 9, dp_hostname = []\<rparr>]\<rparr>)
     = (Some (demo_server\<lparr>plist := l'\<rparr>), True) \<and> l' = [\<lparr>dp_ip = 2, dp_mac = mac_b, dp_lease_timer = 8, dp_hostname = []\<rparr>]"
proof -
  let ?d = "demo_server\<lparr>plist := [\<lparr>dp_ip = 1, dp_mac = mac_a, dp_lease_timer = 1, dp_hostname = []\<rparr>,
        \<lparr>dp_ip = 2, dp_mac = mac_b, dp_lease_timer = 9, dp_hostname = []\<rparr>]\<rparr>"
  have "dhcps_state demo_server = DHCPS_HANDLE_STARTED" by code_simp
  then show ?thesis
    using dhcps_tmr_expires [OF _ _ refl, of ?d "idf_env None"] by simp
qed

end
