(* ===== verification/Slot_Table.thy ===== *)
theory Slot_Table
  imports Nvs_Api
begin

text \<open>
  The table modules.  \<open>mac_deny.c\<close>, \<open>dhcp_reservations.c\<close>, \<open>portmap.c\<close> and \<open>wol.c\<close> each keep a
  fixed array of slots with a \<open>valid\<close> flag, a count and a \<open>loaded\<close> flag, load it from one NVS
  blob, and replace it as a whole and write it back.  This theory has the state and the pieces
  the four share; each module instantiates them with its entry type, filter and key.  The locale
  \<open>slot_store\<close> states what the users of a table rely on; every module interprets it.
\<close>

record 'e slot_tab =
  st_table :: "'e list"
  st_count :: nat
  st_loaded :: bool

text \<open>The state of the static variables at boot.\<close>

definition slot_boot :: "nat \<Rightarrow> 'e \<Rightarrow> 'e slot_tab" where
  "slot_boot N zero = \<lparr>st_table = replicate N zero, st_count = 0, st_loaded = False\<rparr>"

text \<open>Loading: the blob is used when it has exactly the size of the table.\<close>

definition slot_load ::
  "nat \<Rightarrow> 'e \<Rightarrow> ('e \<Rightarrow> bool) \<Rightarrow> string \<Rightarrow> ('h, 'e) nvs_api \<Rightarrow> 'h \<Rightarrow> 'e slot_tab" where
  "slot_load N zero valid key api h =
     (let empty = \<lparr>st_table = replicate N zero, st_count = 0, st_loaded = True\<rparr> in
      if nvs_open_ro api h \<noteq> ESP_OK then empty
      else case nvs_get_blob api h key N of
             Inl _ \<Rightarrow> empty
           | Inr b \<Rightarrow> if length b = N
                     then \<lparr>st_table = b, st_count = length (filter valid b), st_loaded = True\<rparr>
                     else empty)"

definition slot_get :: "nat \<Rightarrow> ('e \<Rightarrow> bool) \<Rightarrow> 'e slot_tab \<Rightarrow> int \<Rightarrow> 'e option" where
  "slot_get N valid s i =
     (if i < 0 \<or> int N \<le> i then None
      else if \<not> valid (st_table s ! nat i) then None else Some (st_table s ! nat i))"

text \<open>\<open>clear_cache\<close> and the copy loop over the first \<open>count\<close> entries, clamped to the table.\<close>

definition clamp_count :: "nat \<Rightarrow> int \<Rightarrow> nat" where
  "clamp_count N count = (if count < 0 then 0 else if int N < count then N else nat count)"

definition slot_replace ::
  "nat \<Rightarrow> 'e \<Rightarrow> ('e \<Rightarrow> bool) \<Rightarrow> ('e \<Rightarrow> 'e) \<Rightarrow> 'e slot_tab \<Rightarrow> 'e list \<Rightarrow> int \<Rightarrow> 'e slot_tab" where
  "slot_replace N zero keep mk s arr count =
     (let r = slot_fill keep mk (take (clamp_count N count) arr) (replicate N zero, 0)
      in s\<lparr>st_table := fst r, st_count := snd r\<rparr>)"

text \<open>Writing back; when the store cannot be opened the function returns before it sets \<open>loaded\<close>.\<close>

definition slot_save ::
  "string \<Rightarrow> ('h, 'e) nvs_api \<Rightarrow> 'h \<Rightarrow> 'e slot_tab \<Rightarrow> esp_err \<times> 'h \<times> 'e slot_tab" where
  "slot_save key api h s =
     (if nvs_open_rw api h \<noteq> ESP_OK then (nvs_open_rw api h, h, s)
      else case nvs_store api h key (st_table s) of (e, h') \<Rightarrow> (e, h', s\<lparr>st_loaded := True\<rparr>))"

definition slot_entries :: "('e \<Rightarrow> bool) \<Rightarrow> 'e slot_tab \<Rightarrow> 'e list" where
  "slot_entries valid s = filter valid (st_table s)"

definition slot_inv :: "nat \<Rightarrow> ('e \<Rightarrow> bool) \<Rightarrow> 'e slot_tab \<Rightarrow> bool" where
  "slot_inv N valid s \<longleftrightarrow> length (st_table s) = N \<and> st_count s = length (slot_entries valid s)"

section \<open>Effects\<close>

lemma slot_replace_table:
  "st_table (slot_replace N zero keep mk s arr count) =
     map mk (filter keep (take (clamp_count N count) arr))
       @ replicate (N - length (filter keep (take (clamp_count N count) arr))) zero"
  "st_count (slot_replace N zero keep mk s arr count) = length (filter keep (take (clamp_count N count) arr))"
  "st_loaded (slot_replace N zero keep mk s arr count) = st_loaded s"
proof -
  have "length (take (clamp_count N count) arr) \<le> N" by (auto simp: clamp_count_def)
  then show "st_table (slot_replace N zero keep mk s arr count) =
     map mk (filter keep (take (clamp_count N count) arr))
       @ replicate (N - length (filter keep (take (clamp_count N count) arr))) zero"
    "st_count (slot_replace N zero keep mk s arr count) = length (filter keep (take (clamp_count N count) arr))"
    "st_loaded (slot_replace N zero keep mk s arr count) = st_loaded s"
    by (simp_all add: slot_replace_def slot_fill_clear Let_def)
qed

lemma slot_replace_entries [table_simps]:
  assumes "\<not> valid zero" and "\<forall>e. valid (mk e)"
  shows "slot_entries valid (slot_replace N zero keep mk s arr count) = map mk (filter keep (take (clamp_count N count) arr))"
  using assms by (simp add: slot_entries_def slot_replace_table filter_empty_conv)

lemma slot_replace_inv:
  assumes "\<not> valid zero" and "\<forall>e. valid (mk e)"
  shows "slot_inv N valid (slot_replace N zero keep mk s arr count)"
proof -
  have "length (filter keep (take (clamp_count N count) arr)) \<le> clamp_count N count"
    using length_filter_le [of keep "take (clamp_count N count) arr"] by simp
  also have "clamp_count N count \<le> N" by (auto simp: clamp_count_def)
  finally show ?thesis
    using slot_replace_entries [OF assms, of N keep s arr count] by (simp add: slot_inv_def slot_replace_table)
qed

lemma slot_save_state:
  "slot_save key api h s = (e, h', s') \<Longrightarrow> st_table s' = st_table s \<and> st_count s' = st_count s"
  by (auto simp: slot_save_def split: if_splits prod.splits)

lemma slot_load_inv: "\<not> valid zero \<Longrightarrow> slot_inv N valid (slot_load N zero valid key api h)"
  by (auto simp: slot_inv_def slot_load_def slot_entries_def Let_def split: sum.splits)

lemma slot_save_load:
  assumes "nvs_lawful api" and "slot_save key api h s = (ESP_OK, h', s')" and "slot_inv N valid s"
  shows "slot_load N zero valid key api h' = s'"
proof -
  from assms(2) have st: "nvs_store api h key (st_table s) = (ESP_OK, h')" "s' = s\<lparr>st_loaded := True\<rparr>"
    by (auto simp: slot_save_def split: if_splits prod.splits)
  have "length (st_table s) \<le> N" using assms(3) by (simp add: slot_inv_def)
  from nvs_store_get [OF assms(1) st(1) this] show ?thesis
    using assms(3) by (simp add: slot_load_def st(2) slot_inv_def slot_entries_def)
qed

section \<open>The contract\<close>

text \<open>
  \<open>set_all\<close> replaces the entries by \<open>clean es\<close> when it succeeds, and loading the flash it left
  gives the same table.  A save of what is stored changes nothing.
\<close>

locale slot_store =
  fixes boot :: "('h, 'e) nvs_api \<Rightarrow> 'h \<Rightarrow> 's" and entries :: "'s \<Rightarrow> 'e list" and clean :: "'e list \<Rightarrow> 'e list"
    and set_all :: "('h, 'e) nvs_api \<Rightarrow> 'h \<Rightarrow> 's \<Rightarrow> 'e list \<Rightarrow> esp_err \<times> 'h \<times> 's"
  assumes set_entries: "set_all api h s es = (ESP_OK, h', s') \<Longrightarrow> entries s' = clean es"
    and set_boot: "nvs_lawful api \<Longrightarrow> set_all api h s es = (ESP_OK, h', s') \<Longrightarrow> boot api h' = s'"
    and clean_clean: "clean (clean es) = clean es"
begin

lemma survives_reboot:
  assumes "nvs_lawful api" and "set_all api h s es = (ESP_OK, h', s')"
  shows "entries (boot api h') = clean es"
  using set_boot [OF assms] set_entries [OF assms(2)] by simp

lemma save_again:
  assumes "nvs_lawful api" and "set_all api h s es = (ESP_OK, h', s')"
    and "set_all api h' s' (entries s') = (ESP_OK, h'', s'')"
  shows "entries (boot api h'') = entries s'"
  using survives_reboot [OF assms(1,3)] set_entries [OF assms(2)] clean_clean by simp

end

end
