(* ===== verification/Tables.thy ===== *)
theory Tables
  imports Slot_Table
begin

text \<open>
  Three table modules: the MAC deny list (\<open>main/mac_deny.c\<close>), the DHCP reservations
  (\<open>main/dhcp_reservations.c\<close>), whose lookup the DHCP server calls, and the Wake-on-LAN devices
  (\<open>main/wol.c\<close>).  Each lookup loads the table first when it has not been loaded.
\<close>

definition mac_is_zero :: "mac \<Rightarrow> bool" where
  "mac_is_zero m \<longleftrightarrow> (\<forall>b \<in> set m. b = 0)"

section \<open>The MAC deny list\<close>

record mac_deny_entry =
  md_mac :: mac
  md_valid :: u8
  md_name :: string

definition MAC_DENY_MAX :: nat where "MAC_DENY_MAX = 16"

definition mac_deny_zero :: mac_deny_entry where
  "mac_deny_zero = \<lparr>md_mac = replicate 6 0, md_valid = 0, md_name = []\<rparr>"

type_synonym mac_deny_state = "mac_deny_entry slot_tab"

definition md_used :: "mac_deny_entry \<Rightarrow> bool" where "md_used e \<longleftrightarrow> md_valid e \<noteq> 0"

definition mac_deny_init :: "('h, mac_deny_entry) nvs_api \<Rightarrow> 'h \<Rightarrow> mac_deny_state" where
  "mac_deny_init api h = slot_load MAC_DENY_MAX mac_deny_zero md_used ''mac_deny'' api h"

definition mac_deny_loaded :: "('h, mac_deny_entry) nvs_api \<Rightarrow> 'h \<Rightarrow> mac_deny_state \<Rightarrow> mac_deny_state" where
  "mac_deny_loaded api h s = (if st_loaded s then s else mac_deny_init api h)"

definition mac_deny_count :: "('h, mac_deny_entry) nvs_api \<Rightarrow> 'h \<Rightarrow> mac_deny_state \<Rightarrow> nat \<times> mac_deny_state" where
  "mac_deny_count api h s = (let s = mac_deny_loaded api h s in (st_count s, s))"

definition mac_deny_get ::
  "('h, mac_deny_entry) nvs_api \<Rightarrow> 'h \<Rightarrow> mac_deny_state \<Rightarrow> int \<Rightarrow> mac_deny_entry option \<times> mac_deny_state" where
  "mac_deny_get api h s i = (let s = mac_deny_loaded api h s in (slot_get MAC_DENY_MAX md_used s i, s))"

definition mac_deny_set_all ::
  "('h, mac_deny_entry) nvs_api \<Rightarrow> 'h \<Rightarrow> mac_deny_state \<Rightarrow> mac_deny_entry list option \<Rightarrow> int
   \<Rightarrow> esp_err \<times> 'h \<times> mac_deny_state" where
  "mac_deny_set_all api h s arr count =
     (case arr of None \<Rightarrow> (ESP_ERR_INVALID_ARG, h, s)
      | Some es \<Rightarrow> slot_save ''mac_deny'' api h
          (slot_replace MAC_DENY_MAX mac_deny_zero (\<lambda>e. \<not> mac_is_zero (md_mac e)) (\<lambda>e. e\<lparr>md_valid := 1\<rparr>) s es count))"

definition mac_deny_is_blocked ::
  "('h, mac_deny_entry) nvs_api \<Rightarrow> 'h \<Rightarrow> mac_deny_state \<Rightarrow> mac option \<Rightarrow> bool \<times> mac_deny_state" where
  "mac_deny_is_blocked api h s m =
     (let s = mac_deny_loaded api h s in
      (case m of None \<Rightarrow> False
       | Some m \<Rightarrow> list_ex (\<lambda>e. md_used e \<and> md_mac e = m) (st_table s), s))"

text \<open>What the table is meant to hold after saving \<open>es\<close>.\<close>

definition mac_deny_clean :: "mac_deny_entry list \<Rightarrow> mac_deny_entry list" where
  "mac_deny_clean es = map (\<lambda>e. e\<lparr>md_valid := 1\<rparr>) (filter (\<lambda>e. \<not> mac_is_zero (md_mac e)) (take MAC_DENY_MAX es))"

lemma clamp_length [simp]: "take (clamp_count N (int (length es))) es = take N es"
  by (auto simp: clamp_count_def)

lemma md_facts [simp]: "\<not> md_used mac_deny_zero" "md_used (e\<lparr>md_valid := 1\<rparr>)"
  by (simp_all add: md_used_def mac_deny_zero_def)

lemma mac_deny_set_Some:
  assumes "mac_deny_set_all api h s (Some es) (int (length es)) = (ESP_OK, h', s')"
  obtains t where "slot_save ''mac_deny'' api h t = (ESP_OK, h', s')" "slot_inv MAC_DENY_MAX md_used t"
    "slot_entries md_used t = mac_deny_clean es"
proof (rule that)
  let ?t = "slot_replace MAC_DENY_MAX mac_deny_zero (\<lambda>e. \<not> mac_is_zero (md_mac e)) (\<lambda>e. e\<lparr>md_valid := 1\<rparr>) s es (int (length es))"
  show "slot_save ''mac_deny'' api h ?t = (ESP_OK, h', s')" using assms by (simp add: mac_deny_set_all_def)
  show "slot_inv MAC_DENY_MAX md_used ?t" by (rule slot_replace_inv) simp_all
  show "slot_entries md_used ?t = mac_deny_clean es" by (simp add: slot_replace_entries mac_deny_clean_def)
qed

interpretation md: slot_store mac_deny_init "slot_entries md_used" mac_deny_clean
    "\<lambda>api h s es. mac_deny_set_all api h s (Some es) (int (length es))"
proof
  fix api :: "('h, mac_deny_entry) nvs_api" and h s es h' s'
  assume a: "mac_deny_set_all api h s (Some es) (int (length es)) = (ESP_OK, h', s')"
  from a obtain t where t: "slot_save ''mac_deny'' api h t = (ESP_OK, h', s')" "slot_inv MAC_DENY_MAX md_used t"
    "slot_entries md_used t = mac_deny_clean es" by (rule mac_deny_set_Some)
  show "slot_entries md_used s' = mac_deny_clean es"
    using slot_save_state [OF t(1)] t(3) by (simp add: slot_entries_def)
  show "mac_deny_init api h' = s'" if "nvs_lawful api"
    unfolding mac_deny_init_def by (rule slot_save_load [OF that t(1,2)])
next
  show "mac_deny_clean (mac_deny_clean es) = mac_deny_clean es" for es
  proof -
    have "length (mac_deny_clean es) \<le> MAC_DENY_MAX"
      using length_filter_le [of "\<lambda>e. \<not> mac_is_zero (md_mac e)" "take MAC_DENY_MAX es"] by (simp add: mac_deny_clean_def)
    then have "take MAC_DENY_MAX (mac_deny_clean es) = mac_deny_clean es" by simp
    moreover have "filter (\<lambda>e. \<not> mac_is_zero (md_mac e)) (mac_deny_clean es) = mac_deny_clean es"
      by (simp add: mac_deny_clean_def filter_map comp_def)
    moreover have "map (\<lambda>e. e\<lparr>md_valid := 1\<rparr>) (mac_deny_clean es) = mac_deny_clean es"
      by (simp add: mac_deny_clean_def)
    ultimately show ?thesis by (metis mac_deny_clean_def)
  qed
qed

lemma mac_deny_blocked_entries:
  "fst (mac_deny_is_blocked api h s (Some m))
     = (m \<in> md_mac ` set (slot_entries md_used (mac_deny_loaded api h s)))"
  by (auto simp: mac_deny_is_blocked_def Let_def list_ex_iff slot_entries_def)

text \<open>
  After a list was saved successfully, a client is blocked exactly when its non-zero MAC is
  among the first sixteen entries saved, in the running system and after any reboot.
\<close>

theorem mac_deny_blocks_saved:
  assumes "nvs_lawful api" and "mac_deny_set_all api h s (Some es) (int (length es)) = (ESP_OK, h', s')"
  shows "fst (mac_deny_is_blocked api h' s' (Some m)) = (\<not> mac_is_zero m \<and> m \<in> md_mac ` set (take MAC_DENY_MAX es)) \<and>
    fst (mac_deny_is_blocked api h' (slot_boot MAC_DENY_MAX mac_deny_zero) (Some m))
      = (\<not> mac_is_zero m \<and> m \<in> md_mac ` set (take MAC_DENY_MAX es))"
proof -
  have clean: "m \<in> md_mac ` set (mac_deny_clean es) \<longleftrightarrow> \<not> mac_is_zero m \<and> m \<in> md_mac ` set (take MAC_DENY_MAX es)"
    by (auto simp: mac_deny_clean_def image_iff)
  have "st_loaded s'" using md.set_boot [OF assms] by (auto simp: mac_deny_init_def slot_load_def Let_def split: sum.splits)
  then have "mac_deny_loaded api h' s' = s'" by (simp add: mac_deny_loaded_def)
  moreover have "mac_deny_loaded api h' (slot_boot MAC_DENY_MAX mac_deny_zero) = mac_deny_init api h'"
    by (simp add: mac_deny_loaded_def slot_boot_def)
  ultimately show ?thesis
    using md.set_entries [OF assms(2)] md.survives_reboot [OF assms] clean
    by (simp add: mac_deny_blocked_entries)
qed

theorem mac_deny_blocks_saved_witness:
  "fst (mac_deny_is_blocked map_nvs (fst (snd (mac_deny_set_all map_nvs Map.empty (slot_boot MAC_DENY_MAX mac_deny_zero)
      (Some [\<lparr>md_mac = [2, 0, 0, 0, 0, 0xA], md_valid = 0, md_name = ''tv''\<rparr>]) 1)))
     (slot_boot MAC_DENY_MAX mac_deny_zero) (Some [2, 0, 0, 0, 0, 0xA]))"
proof -
  let ?es = "[\<lparr>md_mac = [2, 0, 0, 0, 0, 0xA], md_valid = 0, md_name = ''tv''\<rparr>]"
  let ?r = "mac_deny_set_all map_nvs Map.empty (slot_boot MAC_DENY_MAX mac_deny_zero) (Some ?es) (int (length ?es))"
  have "fst ?r = ESP_OK" by (simp add: mac_deny_set_all_def slot_save_def nvs_store_def map_nvs_def)
  then have "?r = (ESP_OK, fst (snd ?r), snd (snd ?r))" by (metis prod.collapse)
  from mac_deny_blocks_saved [OF map_nvs_lawful this, of "[2, 0, 0, 0, 0, 0xA]"] show ?thesis
    by (simp add: MAC_DENY_MAX_def mac_is_zero_def)
qed

section \<open>DHCP reservations\<close>

record dhcp_reservation =
  dr_mac :: mac
  dr_ip :: u32
  dr_name :: string
  dr_valid :: u8

definition DHCP_RESERVATIONS_MAX :: nat where "DHCP_RESERVATIONS_MAX = 16"

definition dhcp_reservation_zero :: dhcp_reservation where
  "dhcp_reservation_zero = \<lparr>dr_mac = replicate 6 0, dr_ip = 0, dr_name = [], dr_valid = 0\<rparr>"

type_synonym dhcp_reservations_state = "dhcp_reservation slot_tab"

definition dr_used :: "dhcp_reservation \<Rightarrow> bool" where "dr_used e \<longleftrightarrow> dr_valid e \<noteq> 0"

definition dhcp_reservations_init :: "('h, dhcp_reservation) nvs_api \<Rightarrow> 'h \<Rightarrow> dhcp_reservations_state" where
  "dhcp_reservations_init api h = slot_load DHCP_RESERVATIONS_MAX dhcp_reservation_zero dr_used ''dhcp_res'' api h"

definition dhcp_reservations_loaded ::
  "('h, dhcp_reservation) nvs_api \<Rightarrow> 'h \<Rightarrow> dhcp_reservations_state \<Rightarrow> dhcp_reservations_state" where
  "dhcp_reservations_loaded api h s = (if st_loaded s then s else dhcp_reservations_init api h)"

definition dhcp_reservations_count ::
  "('h, dhcp_reservation) nvs_api \<Rightarrow> 'h \<Rightarrow> dhcp_reservations_state \<Rightarrow> nat \<times> dhcp_reservations_state" where
  "dhcp_reservations_count api h s = (let s = dhcp_reservations_loaded api h s in (st_count s, s))"

definition dhcp_reservations_get ::
  "('h, dhcp_reservation) nvs_api \<Rightarrow> 'h \<Rightarrow> dhcp_reservations_state \<Rightarrow> int
   \<Rightarrow> dhcp_reservation option \<times> dhcp_reservations_state" where
  "dhcp_reservations_get api h s i =
     (let s = dhcp_reservations_loaded api h s in (slot_get DHCP_RESERVATIONS_MAX dr_used s i, s))"

definition dhcp_reservations_set_all ::
  "('h, dhcp_reservation) nvs_api \<Rightarrow> 'h \<Rightarrow> dhcp_reservations_state \<Rightarrow> dhcp_reservation list option \<Rightarrow> int
   \<Rightarrow> esp_err \<times> 'h \<times> dhcp_reservations_state" where
  "dhcp_reservations_set_all api h s arr count =
     (case arr of None \<Rightarrow> (ESP_ERR_INVALID_ARG, h, s)
      | Some es \<Rightarrow> slot_save ''dhcp_res'' api h
          (slot_replace DHCP_RESERVATIONS_MAX dhcp_reservation_zero (\<lambda>e. \<not> mac_is_zero (dr_mac e))
             (\<lambda>e. e\<lparr>dr_valid := 1\<rparr>) s es count))"

text \<open>The lookup the DHCP server calls; 0 is \<open>no reservation\<close>.\<close>

definition dhcp_reservations_lookup ::
  "('h, dhcp_reservation) nvs_api \<Rightarrow> 'h \<Rightarrow> dhcp_reservations_state \<Rightarrow> mac option \<Rightarrow> u32 \<times> dhcp_reservations_state" where
  "dhcp_reservations_lookup api h s m =
     (let s = dhcp_reservations_loaded api h s in
      (case m of None \<Rightarrow> 0
       | Some m \<Rightarrow> (case find (\<lambda>e. dr_used e \<and> dr_mac e = m) (st_table s) of None \<Rightarrow> 0 | Some e \<Rightarrow> dr_ip e), s))"

definition dhcp_reservations_lookup_name_by_mac ::
  "('h, dhcp_reservation) nvs_api \<Rightarrow> 'h \<Rightarrow> dhcp_reservations_state \<Rightarrow> mac option \<Rightarrow> string option \<times> dhcp_reservations_state" where
  "dhcp_reservations_lookup_name_by_mac api h s m =
     (let s = dhcp_reservations_loaded api h s in
      (case m of None \<Rightarrow> None
       | Some m \<Rightarrow> map_option dr_name (find (\<lambda>e. dr_used e \<and> dr_mac e = m \<and> dr_name e \<noteq> []) (st_table s)), s))"

definition dhcp_reservations_lookup_name_by_ip ::
  "('h, dhcp_reservation) nvs_api \<Rightarrow> 'h \<Rightarrow> dhcp_reservations_state \<Rightarrow> u32 \<Rightarrow> string option \<times> dhcp_reservations_state" where
  "dhcp_reservations_lookup_name_by_ip api h s ip =
     (let s = dhcp_reservations_loaded api h s in
      (if ip = 0 then None
       else map_option dr_name (find (\<lambda>e. dr_used e \<and> dr_ip e = ip \<and> dr_name e \<noteq> []) (st_table s)), s))"

definition dhcp_reservations_clean :: "dhcp_reservation list \<Rightarrow> dhcp_reservation list" where
  "dhcp_reservations_clean es =
     map (\<lambda>e. e\<lparr>dr_valid := 1\<rparr>) (filter (\<lambda>e. \<not> mac_is_zero (dr_mac e)) (take DHCP_RESERVATIONS_MAX es))"

lemma dr_facts [simp]: "\<not> dr_used dhcp_reservation_zero" "dr_used (e\<lparr>dr_valid := 1\<rparr>)"
  by (simp_all add: dr_used_def dhcp_reservation_zero_def)

lemma dhcp_reservations_set_Some:
  assumes "dhcp_reservations_set_all api h s (Some es) (int (length es)) = (ESP_OK, h', s')"
  obtains t where "slot_save ''dhcp_res'' api h t = (ESP_OK, h', s')" "slot_inv DHCP_RESERVATIONS_MAX dr_used t"
    "slot_entries dr_used t = dhcp_reservations_clean es"
proof (rule that)
  let ?t = "slot_replace DHCP_RESERVATIONS_MAX dhcp_reservation_zero (\<lambda>e. \<not> mac_is_zero (dr_mac e))
      (\<lambda>e. e\<lparr>dr_valid := 1\<rparr>) s es (int (length es))"
  show "slot_save ''dhcp_res'' api h ?t = (ESP_OK, h', s')" using assms by (simp add: dhcp_reservations_set_all_def)
  show "slot_inv DHCP_RESERVATIONS_MAX dr_used ?t" by (rule slot_replace_inv) simp_all
  show "slot_entries dr_used ?t = dhcp_reservations_clean es"
    by (simp add: slot_replace_entries dhcp_reservations_clean_def)
qed

interpretation dr: slot_store dhcp_reservations_init "slot_entries dr_used" dhcp_reservations_clean
    "\<lambda>api h s es. dhcp_reservations_set_all api h s (Some es) (int (length es))"
proof
  fix api :: "('h, dhcp_reservation) nvs_api" and h s es h' s'
  assume "dhcp_reservations_set_all api h s (Some es) (int (length es)) = (ESP_OK, h', s')"
  then obtain t where t: "slot_save ''dhcp_res'' api h t = (ESP_OK, h', s')" "slot_inv DHCP_RESERVATIONS_MAX dr_used t"
    "slot_entries dr_used t = dhcp_reservations_clean es" by (rule dhcp_reservations_set_Some)
  show "slot_entries dr_used s' = dhcp_reservations_clean es"
    using slot_save_state [OF t(1)] t(3) by (simp add: slot_entries_def)
  show "dhcp_reservations_init api h' = s'" if "nvs_lawful api"
    unfolding dhcp_reservations_init_def by (rule slot_save_load [OF that t(1,2)])
next
  show "dhcp_reservations_clean (dhcp_reservations_clean es) = dhcp_reservations_clean es" for es
  proof -
    have "length (dhcp_reservations_clean es) \<le> DHCP_RESERVATIONS_MAX"
      using length_filter_le [of "\<lambda>e. \<not> mac_is_zero (dr_mac e)" "take DHCP_RESERVATIONS_MAX es"]
      by (simp add: dhcp_reservations_clean_def)
    then have "take DHCP_RESERVATIONS_MAX (dhcp_reservations_clean es) = dhcp_reservations_clean es" by simp
    moreover have "filter (\<lambda>e. \<not> mac_is_zero (dr_mac e)) (dhcp_reservations_clean es) = dhcp_reservations_clean es"
      by (simp add: dhcp_reservations_clean_def filter_map comp_def)
    moreover have "map (\<lambda>e. e\<lparr>dr_valid := 1\<rparr>) (dhcp_reservations_clean es) = dhcp_reservations_clean es"
      by (simp add: dhcp_reservations_clean_def)
    ultimately show ?thesis by (metis dhcp_reservations_clean_def)
  qed
qed

lemma find_filter: "find (\<lambda>e. P e \<and> Q e) l = find Q (filter P l)"
  by (induction l) auto

text \<open>The address the reservations give a client: that of the first saved entry with its MAC.\<close>

definition reserved_address :: "dhcp_reservation list \<Rightarrow> mac \<Rightarrow> u32" where
  "reserved_address es m =
     (if mac_is_zero m then 0
      else case find (\<lambda>e. dr_mac e = m) (take DHCP_RESERVATIONS_MAX es) of None \<Rightarrow> 0 | Some e \<Rightarrow> dr_ip e)"

lemma find_clean:
  "find (\<lambda>e. dr_mac e = m) (map (\<lambda>e. e\<lparr>dr_valid := 1\<rparr>) (filter (\<lambda>e. \<not> mac_is_zero (dr_mac e)) l)) =
     (if mac_is_zero m then None else map_option (\<lambda>e. e\<lparr>dr_valid := 1\<rparr>) (find (\<lambda>e. dr_mac e = m) l))"
  by (induction l) auto

text \<open>
  After reservations were saved successfully, the lookup of the DHCP server gives every
  client the address of the first saved entry with its MAC, and 0 (no reservation) to all
  others, in the running system and after any reboot.
\<close>

theorem reservations_lookup_saved:
  assumes "nvs_lawful api" and "dhcp_reservations_set_all api h s (Some es) (int (length es)) = (ESP_OK, h', s')"
  shows "fst (dhcp_reservations_lookup api h' s' (Some m)) = reserved_address es m \<and>
    fst (dhcp_reservations_lookup api h' (slot_boot DHCP_RESERVATIONS_MAX dhcp_reservation_zero) (Some m))
      = reserved_address es m"
proof -
  have look: "fst (dhcp_reservations_lookup api h' t (Some m)) = reserved_address es m"
    if "slot_entries dr_used (dhcp_reservations_loaded api h' t) = dhcp_reservations_clean es" for t
    using that find_clean [of m "take DHCP_RESERVATIONS_MAX es"]
    by (auto simp: dhcp_reservations_lookup_def Let_def find_filter slot_entries_def reserved_address_def
        dhcp_reservations_clean_def split: option.splits)
  have "st_loaded s'"
    using dr.set_boot [OF assms] by (auto simp: dhcp_reservations_init_def slot_load_def Let_def split: sum.splits)
  then have "dhcp_reservations_loaded api h' s' = s'" by (simp add: dhcp_reservations_loaded_def)
  moreover have "dhcp_reservations_loaded api h' (slot_boot DHCP_RESERVATIONS_MAX dhcp_reservation_zero)
      = dhcp_reservations_init api h'"
    by (simp add: dhcp_reservations_loaded_def slot_boot_def)
  ultimately show ?thesis
    using look dr.set_entries [OF assms(2)] dr.survives_reboot [OF assms] by simp
qed

theorem reservations_lookup_saved_witness:
  "fst (dhcp_reservations_lookup map_nvs (fst (snd (dhcp_reservations_set_all map_nvs Map.empty
        (slot_boot DHCP_RESERVATIONS_MAX dhcp_reservation_zero)
        (Some [\<lparr>dr_mac = [2, 0, 0, 0, 0, 0xA], dr_ip = 77, dr_name = [], dr_valid = 0\<rparr>]) 1)))
     (slot_boot DHCP_RESERVATIONS_MAX dhcp_reservation_zero) (Some [2, 0, 0, 0, 0, 0xA])) = 77"
proof -
  let ?es = "[\<lparr>dr_mac = [2, 0, 0, 0, 0, 0xA], dr_ip = 77, dr_name = [], dr_valid = 0\<rparr>]"
  let ?r = "dhcp_reservations_set_all map_nvs Map.empty (slot_boot DHCP_RESERVATIONS_MAX dhcp_reservation_zero)
      (Some ?es) (int (length ?es))"
  have "fst ?r = ESP_OK" by (simp add: dhcp_reservations_set_all_def slot_save_def nvs_store_def map_nvs_def)
  then have "?r = (ESP_OK, fst (snd ?r), snd (snd ?r))" by (metis prod.collapse)
  from reservations_lookup_saved [OF map_nvs_lawful this, of "[2, 0, 0, 0, 0, 0xA]"] show ?thesis
    by (simp add: reserved_address_def DHCP_RESERVATIONS_MAX_def mac_is_zero_def)
qed

section \<open>Wake-on-LAN devices\<close>

record wol_device =
  wd_name :: string
  wd_mac :: mac
  wd_valid :: u8
  wd_broadcast :: string
  wd_port :: u16

definition WOL_MAX_DEVICES :: nat where "WOL_MAX_DEVICES = 12"

definition wol_zero :: wol_device where
  "wol_zero = \<lparr>wd_name = [], wd_mac = replicate 6 0, wd_valid = 0, wd_broadcast = [], wd_port = 0\<rparr>"

type_synonym wol_state = "wol_device slot_tab"

definition wd_used :: "wol_device \<Rightarrow> bool" where "wd_used d \<longleftrightarrow> wd_valid d \<noteq> 0"

definition wol_default_port :: "wol_device \<Rightarrow> wol_device" where
  "wol_default_port d = (if wd_port d = 0 then d\<lparr>wd_port := 9\<rparr> else d)"

text \<open>
  Loading reads the blob straight into the array: a shorter blob stays there, though its
  devices are not counted.
\<close>

definition wol_init :: "('h, wol_device) nvs_api \<Rightarrow> 'h \<Rightarrow> wol_state" where
  "wol_init api h =
     (let empty = replicate WOL_MAX_DEVICES wol_zero in
      if nvs_open_ro api h \<noteq> ESP_OK then \<lparr>st_table = empty, st_count = 0, st_loaded = True\<rparr>
      else case nvs_get_blob api h ''wol_devices'' WOL_MAX_DEVICES of
        Inl _ \<Rightarrow> \<lparr>st_table = empty, st_count = 0, st_loaded = True\<rparr>
      | Inr b \<Rightarrow>
          if length b = WOL_MAX_DEVICES
          then \<lparr>st_table = map (\<lambda>d. if wd_used d then wol_default_port d else d) b,
                st_count = length (filter wd_used b), st_loaded = True\<rparr>
          else \<lparr>st_table = b @ drop (length b) empty, st_count = 0, st_loaded = True\<rparr>)"

definition wol_loaded :: "('h, wol_device) nvs_api \<Rightarrow> 'h \<Rightarrow> wol_state \<Rightarrow> wol_state" where
  "wol_loaded api h s = (if st_loaded s then s else wol_init api h)"

definition wol_count :: "('h, wol_device) nvs_api \<Rightarrow> 'h \<Rightarrow> wol_state \<Rightarrow> nat \<times> wol_state" where
  "wol_count api h s = (let s = wol_loaded api h s in (st_count s, s))"

text \<open>Devices are numbered by their position among the used slots.\<close>

fun wol_nth_used :: "wol_device list \<Rightarrow> nat \<Rightarrow> nat \<Rightarrow> wol_device option" where
  "wol_nth_used [] logical index = None"
| "wol_nth_used (d # ds) logical index =
     (if \<not> wd_used d then wol_nth_used ds logical index
      else if logical = index then Some d else wol_nth_used ds (logical + 1) index)"

definition wol_get :: "('h, wol_device) nvs_api \<Rightarrow> 'h \<Rightarrow> wol_state \<Rightarrow> int \<Rightarrow> wol_device option \<times> wol_state" where
  "wol_get api h s index =
     (let s = wol_loaded api h s in
      (if index < 0 then None else wol_nth_used (st_table s) 0 (nat index), s))"

text \<open>Unlike the other tables, the device table counts as loaded even when NVS cannot be opened.\<close>

definition wol_set_all ::
  "('h, wol_device) nvs_api \<Rightarrow> 'h \<Rightarrow> wol_state \<Rightarrow> wol_device list option \<Rightarrow> int \<Rightarrow> esp_err \<times> 'h \<times> wol_state" where
  "wol_set_all api h s devices count =
     (if devices = None \<and> 0 < count then (ESP_ERR_INVALID_ARG, h, s)
      else (let t = slot_replace WOL_MAX_DEVICES wol_zero (\<lambda>d. \<not> mac_is_zero (wd_mac d))
                     (\<lambda>d. wol_default_port (d\<lparr>wd_valid := 1\<rparr>)) s
                     (case devices of None \<Rightarrow> [] | Some ds \<Rightarrow> ds) count;
                r = nvs_store api h ''wol_devices'' (st_table t)
            in (fst r, snd r, t\<lparr>st_loaded := True\<rparr>)))"

definition hex_digit :: "nat \<Rightarrow> char" where
  "hex_digit n = char_of (if n < 10 then 48 + n else 87 + n)"

definition wol_hex :: "u8 \<Rightarrow> string" where
  "wol_hex b = [hex_digit (unat b div 16), hex_digit (unat b mod 16)]"

definition wol_format_mac :: "mac \<Rightarrow> string" where
  "wol_format_mac m = wol_hex (m ! 0) @ '':'' @ wol_hex (m ! 1) @ '':'' @ wol_hex (m ! 2) @ '':''
     @ wol_hex (m ! 3) @ '':'' @ wol_hex (m ! 4) @ '':'' @ wol_hex (m ! 5)"

text \<open>The magic packet: six bytes 0xFF and sixteen copies of the address.\<close>

definition wol_packet :: "mac \<Rightarrow> bytes" where
  "wol_packet m = replicate 6 0xFF @ concat (replicate 16 m)"

text \<open>
  The network the sender calls: the station's address and mask, \<open>inet_pton\<close>, the creation and
  set-up of the socket, and the result of each of up to three sends.
\<close>

record wol_net =
  wn_sta :: "(u32 \<times> u32) option"
  wn_pton :: "string \<Rightarrow> u32 option"
  wn_socket :: bool
  wn_broadcast_ok :: bool
  wn_send :: "nat \<Rightarrow> nat"

definition derive_sta_broadcast :: "wol_net \<Rightarrow> string option" where
  "derive_sta_broadcast net =
     (case wn_sta net of None \<Rightarrow> None
      | Some (ip, netmask) \<Rightarrow> if ip = 0 then None else Some (ip4_str (ip OR (NOT netmask))))"

text \<open>The sends made: destination, port and packet of each attempt, and whether all were complete.\<close>

fun wol_attempts :: "wol_net \<Rightarrow> bytes \<Rightarrow> nat \<Rightarrow> nat \<Rightarrow> nat \<times> bool" where
  "wol_attempts net packet 0 attempt = (attempt, True)"
| "wol_attempts net packet (Suc left) attempt =
     (if wn_send net attempt \<noteq> length packet then (attempt + 1, False)
      else wol_attempts net packet left (attempt + 1))"

definition wol_send_mac :: "wol_net \<Rightarrow> mac option \<Rightarrow> string option \<Rightarrow> u16 \<Rightarrow> esp_err \<times> (u32 \<times> u16 \<times> bytes) list" where
  "wol_send_mac net m broadcast port =
     (case m of None \<Rightarrow> (ESP_ERR_INVALID_ARG, [])
      | Some m \<Rightarrow>
        (let target = (if broadcast = None \<or> broadcast = Some [] then derive_sta_broadcast net else broadcast) in
         case target of None \<Rightarrow> (ESP_ERR_INVALID_STATE, [])
         | Some b \<Rightarrow>
             (let port = (if port = 0 then 9 else port) in
              case wn_pton net b of None \<Rightarrow> (ESP_ERR_INVALID_ARG, [])
              | Some dst \<Rightarrow>
                  if \<not> wn_socket net then (ESP_FAIL, [])
                  else if \<not> wn_broadcast_ok net then (ESP_FAIL, [])
                  else (let r = wol_attempts net (wol_packet m) 3 0
                        in (if snd r then ESP_OK else ESP_FAIL,
                            replicate (fst r) (dst, port, wol_packet m))))))"

definition wol_send_index ::
  "('h, wol_device) nvs_api \<Rightarrow> 'h \<Rightarrow> wol_net \<Rightarrow> wol_state \<Rightarrow> int \<Rightarrow> esp_err \<times> (u32 \<times> u16 \<times> bytes) list" where
  "wol_send_index api h net s index =
     (case fst (wol_get api h s index) of None \<Rightarrow> (ESP_ERR_NOT_FOUND, [])
      | Some d \<Rightarrow> wol_send_mac net (Some (wd_mac d)) (Some (wd_broadcast d)) (wd_port d))"

definition wol_clean :: "wol_device list \<Rightarrow> wol_device list" where
  "wol_clean ds = map (\<lambda>d. wol_default_port (d\<lparr>wd_valid := 1\<rparr>)) (filter (\<lambda>d. \<not> mac_is_zero (wd_mac d)) (take WOL_MAX_DEVICES ds))"

lemma wol_facts [simp]:
  "\<not> wd_used wol_zero" "wd_used (wol_default_port (d\<lparr>wd_valid := 1\<rparr>))"
  "wol_default_port (wol_default_port d) = wol_default_port d" "wd_port (wol_default_port d) \<noteq> 0"
  "wd_mac (wol_default_port d) = wd_mac d" "wd_valid (wol_default_port d) = wd_valid d"
  by (simp_all add: wd_used_def wol_zero_def wol_default_port_def)

lemma wol_default_port_id: "wd_port d \<noteq> 0 \<Longrightarrow> wol_default_port d = d"
  by (simp add: wol_default_port_def)

lemma wol_set_Some:
  assumes "wol_set_all api h s (Some ds) (int (length ds)) = (ESP_OK, h', s')"
  shows "nvs_store api h ''wol_devices'' (st_table s') = (ESP_OK, h')" and "st_loaded s'"
    and "slot_inv WOL_MAX_DEVICES wd_used s'" and "slot_entries wd_used s' = wol_clean ds"
    and "map (\<lambda>d. if wd_used d then wol_default_port d else d) (st_table s') = st_table s'"
proof -
  let ?t = "slot_replace WOL_MAX_DEVICES wol_zero (\<lambda>d. \<not> mac_is_zero (wd_mac d))
      (\<lambda>d. wol_default_port (d\<lparr>wd_valid := 1\<rparr>)) s ds (int (length ds))"
  have s': "s' = ?t\<lparr>st_loaded := True\<rparr>" and st: "nvs_store api h ''wol_devices'' (st_table ?t) = (ESP_OK, h')"
    using assms by (auto simp: wol_set_all_def Let_def prod_eq_iff)
  show "nvs_store api h ''wol_devices'' (st_table s') = (ESP_OK, h')" "st_loaded s'" using s' st by simp_all
  have "slot_inv WOL_MAX_DEVICES wd_used ?t" by (rule slot_replace_inv) simp_all
  then show "slot_inv WOL_MAX_DEVICES wd_used s'" by (simp add: s' slot_inv_def slot_entries_def)
  have "slot_entries wd_used ?t = wol_clean ds" by (simp add: slot_replace_entries wol_clean_def)
  then show "slot_entries wd_used s' = wol_clean ds" by (simp add: s' slot_entries_def)
  show "map (\<lambda>d. if wd_used d then wol_default_port d else d) (st_table s') = st_table s'"
    by (simp add: s' slot_replace_table comp_def map_replicate)
qed

interpretation wd: slot_store wol_init "slot_entries wd_used" wol_clean
    "\<lambda>api h s ds. wol_set_all api h s (Some ds) (int (length ds))"
proof
  fix api :: "('h, wol_device) nvs_api" and h s ds h' s'
  assume a: "wol_set_all api h s (Some ds) (int (length ds)) = (ESP_OK, h', s')"
  show "slot_entries wd_used s' = wol_clean ds" by (rule wol_set_Some(4) [OF a])
  show "wol_init api h' = s'" if "nvs_lawful api"
  proof -
    have inv: "length (st_table s') = WOL_MAX_DEVICES" "st_count s' = length (filter wd_used (st_table s'))"
      using wol_set_Some(3) [OF a] by (simp_all add: slot_inv_def slot_entries_def)
    have "nvs_get_blob api h' ''wol_devices'' WOL_MAX_DEVICES = Inr (st_table s') \<and> nvs_open_ro api h' = ESP_OK"
      by (rule nvs_store_get [OF that wol_set_Some(1) [OF a]]) (simp add: inv)
    then show ?thesis using inv wol_set_Some(2,5) [OF a] by (simp add: wol_init_def Let_def)
  qed
next
  show "wol_clean (wol_clean ds) = wol_clean ds" for ds
  proof -
    have "length (wol_clean ds) \<le> WOL_MAX_DEVICES"
      using length_filter_le [of "\<lambda>d. \<not> mac_is_zero (wd_mac d)" "take WOL_MAX_DEVICES ds"] by (simp add: wol_clean_def)
    then have "take WOL_MAX_DEVICES (wol_clean ds) = wol_clean ds" by simp
    moreover have "filter (\<lambda>d. \<not> mac_is_zero (wd_mac d)) (wol_clean ds) = wol_clean ds"
      by (simp add: wol_clean_def filter_map comp_def)
    moreover have "map (\<lambda>d. wol_default_port (d\<lparr>wd_valid := 1\<rparr>)) (wol_clean ds) = wol_clean ds"
    proof -
      have "(wol_default_port x)\<lparr>wd_valid := 1\<rparr> = wol_default_port (x\<lparr>wd_valid := 1\<rparr>)" for x
        by (simp add: wol_default_port_def)
      then show ?thesis by (simp add: wol_clean_def comp_def)
    qed
    ultimately show ?thesis by (metis wol_clean_def)
  qed
qed

lemma wol_nth_used_eq: "logical \<le> index \<Longrightarrow>
    wol_nth_used ds logical index =
      (if index - logical < length (filter wd_used ds) then Some (filter wd_used ds ! (index - logical)) else None)"
proof (induction ds arbitrary: logical)
  case (Cons d ds)
  show ?case
  proof (cases "wd_used d \<and> logical < index")
    case True
    then have "index - logical = Suc (index - Suc logical)" by (simp add: Suc_diff_Suc)
    then show ?thesis using Cons.IH [of "Suc logical"] True by simp
  next
    case False
    then show ?thesis using Cons by auto
  qed
qed simp

lemma wol_attempts_ok: "snd (wol_attempts net packet left n) \<Longrightarrow> fst (wol_attempts net packet left n) = n + left"
  by (induction left arbitrary: n) (auto split: if_splits)

text \<open>
  After the device list was saved, waking device \<open>i\<close> with success means that three datagrams
  were sent, each the 102-byte magic packet (six 0xFF, sixteen copies of the MAC) of the
  \<open>i\<close>-th saved device with a non-zero MAC, to its port or port 9, also after a reboot.
\<close>

theorem wol_wakes_saved_device:
  assumes "nvs_lawful api" and "wol_set_all api h s (Some ds) (int (length ds)) = (ESP_OK, h', s')"
    and "t = s' \<or> t = slot_boot WOL_MAX_DEVICES wol_zero"
    and "wol_send_index api h' net t (int i) = (ESP_OK, sent)"
  shows "i < length (wol_clean ds) \<and> wd_port (wol_clean ds ! i) \<noteq> 0 \<and>
    (\<exists>dst. sent = replicate 3 (dst, wd_port (wol_clean ds ! i), wol_packet (wd_mac (wol_clean ds ! i))))
    \<and> length (wol_packet (wd_mac (wol_clean ds ! i))) = 6 + 16 * length (wd_mac (wol_clean ds ! i))"
proof -
  have "wol_loaded api h' t = s'"
    using assms(3) wol_set_Some(2) [OF assms(2)] wd.set_boot [OF assms(1,2)] by (auto simp: wol_loaded_def slot_boot_def)
  then have get: "fst (wol_get api h' t (int i)) = (if i < length (wol_clean ds) then Some (wol_clean ds ! i) else None)"
    using wol_set_Some(4) [OF assms(2)] by (simp add: wol_get_def Let_def wol_nth_used_eq slot_entries_def)
  then have i: "i < length (wol_clean ds)" using assms(4) by (auto simp: wol_send_index_def split: if_splits)
  have "wol_clean ds ! i \<in> set (wol_clean ds)" using i by (rule nth_mem)
  then have p: "wd_port (wol_clean ds ! i) \<noteq> 0" by (auto simp: wol_clean_def)
  have "wol_send_mac net (Some (wd_mac (wol_clean ds ! i))) (Some (wd_broadcast (wol_clean ds ! i)))
      (wd_port (wol_clean ds ! i)) = (ESP_OK, sent)"
    using assms(4) get i by (simp add: wol_send_index_def)
  then have "\<exists>dst. sent = replicate 3 (dst, wd_port (wol_clean ds ! i), wol_packet (wd_mac (wol_clean ds ! i)))"
    using p by (auto simp: wol_send_mac_def Let_def wol_attempts_ok split: option.splits if_splits simp del: wol_attempts.simps replicate.simps)
  moreover have "length (wol_packet m) = 6 + 16 * length m" for m
    by (simp add: wol_packet_def length_concat sum_list_replicate)
  ultimately show ?thesis using i p by blast
qed

theorem wol_wakes_saved_device_witness:
  "snd (wol_send_index map_nvs (fst (snd (wol_set_all map_nvs Map.empty (slot_boot WOL_MAX_DEVICES wol_zero)
        (Some [\<lparr>wd_name = [], wd_mac = [2, 0, 0, 0, 0, 1], wd_valid = 0, wd_broadcast = ''b'', wd_port = 0\<rparr>]) 1)))
      \<lparr>wn_sta = None, wn_pton = \<lambda>_. Some 5, wn_socket = True, wn_broadcast_ok = True, wn_send = \<lambda>_. 102\<rparr>
      (slot_boot WOL_MAX_DEVICES wol_zero) 0)
    = replicate 3 (5, 9, wol_packet [2, 0, 0, 0, 0, 1])"
proof -
  let ?d = "\<lparr>wd_name = [], wd_mac = [2, 0, 0, 0, 0, 1], wd_valid = 0, wd_broadcast = ''b'', wd_port = 0\<rparr>"
  let ?r = "wol_set_all map_nvs Map.empty (slot_boot WOL_MAX_DEVICES wol_zero) (Some [?d]) (int (length [?d]))"
  let ?net = "\<lparr>wn_sta = None, wn_pton = \<lambda>_. Some 5, wn_socket = True, wn_broadcast_ok = True, wn_send = \<lambda>_. 102\<rparr>"
  let ?w = "wol_send_index map_nvs (fst (snd ?r)) ?net (slot_boot WOL_MAX_DEVICES wol_zero) (int 0)"
  have "fst ?r = ESP_OK" by (simp add: wol_set_all_def nvs_store_def map_nvs_def Let_def)
  then have r: "?r = (ESP_OK, fst (snd ?r), snd (snd ?r))" by (metis prod.collapse)
  have run: "?w = (ESP_OK, replicate 3 (5, 9, wol_packet [2, 0, 0, 0, 0, 1]))" by code_simp
  from wol_wakes_saved_device [OF map_nvs_lawful r _ run] run show ?thesis by simp
qed

end
