(* ===== verification/Forwarding.thy ===== *)
theory Forwarding
  imports Slot_Table
begin

text \<open>
  Port forwarding: AP-side port maps (\<open>main/portmap.c\<close>) and LAN-to-tailnet forwards
  (\<open>main/tailnet_forward.c\<close>).  The two modules call each other, share lwIP's port-map table and
  must not listen on the same port as each other or as the web UI; the state \<open>fw_state\<close> holds
  both.  lwIP's table and the DNS/netmap resolution of microlink are parameters.
\<close>

section \<open>State\<close>

record portmap_entry =
  pm_proto :: u8
  pm_valid :: u8
  pm_ext_port :: u16
  pm_int_port :: u16
  pm_int_ip :: u32
  pm_name :: string

record tn_rule =
  tr_valid :: u8
  tr_enabled :: u8
  tr_proto :: u8
  tr_source_prefix :: u8
  tr_listen_port :: u16
  tr_destination_port :: u16
  tr_source_network :: u32
  tr_name :: string
  tr_destination :: string

record tn_runtime =
  rt_installed :: bool
  rt_resolved_ip :: u32
  rt_accepted_packets :: u32
  rt_blocked_packets :: u32
  rt_error :: string

definition PORTMAP_MAX :: nat where "PORTMAP_MAX = 16"
definition TAILNET_FORWARD_MAX :: nat where "TAILNET_FORWARD_MAX = 8"
definition TAILNET_FORWARD_DEST_LEN :: nat where "TAILNET_FORWARD_DEST_LEN = 96"

definition portmap_zero :: portmap_entry where
  "portmap_zero = \<lparr>pm_proto = 0, pm_valid = 0, pm_ext_port = 0, pm_int_port = 0, pm_int_ip = 0, pm_name = []\<rparr>"

definition tn_rule_zero :: tn_rule where
  "tn_rule_zero = \<lparr>tr_valid = 0, tr_enabled = 0, tr_proto = 0, tr_source_prefix = 0, tr_listen_port = 0,
     tr_destination_port = 0, tr_source_network = 0, tr_name = [], tr_destination = []\<rparr>"

definition tn_runtime_zero :: tn_runtime where
  "tn_runtime_zero = \<lparr>rt_installed = False, rt_resolved_ip = 0, rt_accepted_packets = 0,
     rt_blocked_packets = 0, rt_error = []\<rparr>"

record fw_state =
  fw_maps :: "portmap_entry slot_tab"
  fw_installed :: "(u8 \<times> u16) list"
  tn_rules :: "tn_rule list"
  tn_runtimes :: "tn_runtime list"
  tn_count :: nat
  tn_loaded :: bool

text \<open>
  What the modules call: whether the tailnet is up and a microlink handle exists, its name
  resolution (0: unknown), \<open>ip4addr_aton\<close>, and the configured port of the web UI.
\<close>

record fw_env =
  fe_connected :: bool
  fe_microlink :: bool
  fe_resolve :: "string \<Rightarrow> u32"
  fe_aton :: "string \<Rightarrow> u32 option"
  fe_web_port :: u16

text \<open>lwIP's port-map table: adding fails when it is full.\<close>

record 'w lwip_portmap =
  lp_add :: "'w \<Rightarrow> u8 \<Rightarrow> u32 \<Rightarrow> u16 \<Rightarrow> u32 \<Rightarrow> u16 \<Rightarrow> bool \<times> 'w"
  lp_remove :: "'w \<Rightarrow> u8 \<Rightarrow> u16 \<Rightarrow> 'w"

section \<open>Text\<close>

definition cgnat :: "u32 \<Rightarrow> bool" where
  "cgnat hbo \<longleftrightarrow> hbo AND 0xFFC00000 = 0x64400000"

definition is_alnum :: "char \<Rightarrow> bool" where
  "is_alnum c \<longleftrightarrow> is_digit c \<or> (65 \<le> (of_char c :: nat) \<and> (of_char c :: nat) \<le> 90)
     \<or> (97 \<le> (of_char c :: nat) \<and> (of_char c :: nat) \<le> 122)"

definition hostname_valid :: "string \<Rightarrow> bool" where
  "hostname_valid s \<longleftrightarrow> s \<noteq> [] \<and> length s < TAILNET_FORWARD_DEST_LEN \<and>
     list_all (\<lambda>c. is_alnum c \<or> c = CHR ''-'' \<or> c = CHR ''.'') s \<and> hd s \<noteq> CHR ''.'' \<and> last s \<noteq> CHR ''.''"

text \<open>\<open>strtol\<close> in base 10: the number and the text behind it; without digits nothing is consumed.\<close>

definition c_strtol :: "string \<Rightarrow> int \<times> string" where
  "c_strtol s =
     (let t = dropWhile is_space s;
          neg = (t \<noteq> [] \<and> hd t = CHR ''-'');
          u = (if t \<noteq> [] \<and> (hd t = CHR ''-'' \<or> hd t = CHR ''+'') then tl t else t)
      in if u \<noteq> [] \<and> is_digit (hd u)
         then ((if neg then - int (digits_val 0 u) else int (digits_val 0 u)), dropWhile is_digit u)
         else (0, s))"

definition tailnet_forward_parse_cidr :: "(string \<Rightarrow> u32 option) \<Rightarrow> string option \<Rightarrow> (u32 \<times> u8) option" where
  "tailnet_forward_parse_cidr aton text =
     (case text of None \<Rightarrow> None
      | Some t \<Rightarrow>
          (let copy = take 31 t;
               host = takeWhile (\<lambda>c. c \<noteq> CHR ''/'') copy;
               rest = dropWhile (\<lambda>c. c \<noteq> CHR ''/'') copy
           in if rest = [] then None
              else (let slash = tl rest; r = c_strtol slash; p = fst r in
                    if slash = [] \<or> snd r \<noteq> [] \<or> p < 0 \<or> 32 < p then None
                    else case aton host of None \<Rightarrow> None
                    | Some a \<Rightarrow>
                        (let h = htonl a;
                             msk = (if p = 0 then 0 else if p = 32 then 0xFFFFFFFF
                                    else push_bit (nat (32 - p)) 0xFFFFFFFF)
                         in Some (h AND msk, of_int p)))))"

definition tailnet_forward_format_cidr :: "u32 \<Rightarrow> u8 \<Rightarrow> nat \<Rightarrow> string" where
  "tailnet_forward_format_cidr n p z =
     take (z - 1) (dec (unat (byte3 n)) @ ''.'' @ dec (unat (byte2 n)) @ ''.'' @ dec (unat (byte1 n)) @ ''.''
       @ dec (unat (byte0 n)) @ ''/'' @ dec (unat p))"

section \<open>Resolution of forward rules\<close>

definition tn_down :: "tn_runtime \<Rightarrow> string \<Rightarrow> tn_runtime" where
  "tn_down rt e = rt\<lparr>rt_resolved_ip := 0, rt_installed := False, rt_error := e\<rparr>"

definition resolve_rule :: "fw_env \<Rightarrow> tn_rule \<Rightarrow> tn_runtime \<Rightarrow> bool \<times> tn_runtime" where
  "resolve_rule env r rt =
     (if tr_enabled r = 0 then (False, tn_down rt ''disabled'')
      else if \<not> fe_connected env \<or> \<not> fe_microlink env then (False, tn_down rt ''Tailnet offline'')
      else (let h = (case fe_aton env (tr_destination r) of Some a \<Rightarrow> htonl a
                     | None \<Rightarrow> fe_resolve env (tr_destination r))
            in if \<not> cgnat h then (False, tn_down rt ''not a Tailnet IPv4 address'')
               else (True, rt\<lparr>rt_resolved_ip := h, rt_error := [],
                              rt_installed := (rt_resolved_ip rt = h \<and> rt_installed rt)\<rparr>)))"

fun resolve_all :: "fw_env \<Rightarrow> nat \<Rightarrow> tn_rule list \<Rightarrow> tn_runtime list \<Rightarrow> tn_runtime list" where
  "resolve_all env (Suc n) (r # rs) (rt # rts) = snd (resolve_rule env r rt) # resolve_all env n rs rts"
| "resolve_all env _ _ rts = rts"

text \<open>One round of the manager task: resolve, then reinstall when an address changed.\<close>

definition manager_round :: "fw_env \<Rightarrow> fw_state \<Rightarrow> bool \<times> fw_state" where
  "manager_round env s =
     (let rts = resolve_all env (tn_count s) (tn_rules s) (tn_runtimes s)
      in (map rt_resolved_ip rts \<noteq> map rt_resolved_ip (tn_runtimes s), s\<lparr>tn_runtimes := rts\<rparr>))"

section \<open>Listening ports\<close>

definition pm_used :: "portmap_entry \<Rightarrow> bool" where "pm_used e \<longleftrightarrow> pm_valid e \<noteq> 0"

definition portmap_listen_conflicts :: "fw_state \<Rightarrow> u8 \<Rightarrow> u16 \<Rightarrow> bool" where
  "portmap_listen_conflicts s proto port =
     list_ex (\<lambda>e. pm_used e \<and> pm_proto e = proto \<and> pm_ext_port e = port) (st_table (fw_maps s))"

definition tailnet_forward_listen_conflicts :: "fw_state \<Rightarrow> u8 \<Rightarrow> u16 \<Rightarrow> bool" where
  "tailnet_forward_listen_conflicts s proto port =
     list_ex (\<lambda>r. tr_valid r \<noteq> 0 \<and> tr_enabled r \<noteq> 0 \<and> tr_proto r = proto \<and> tr_listen_port r = port)
       (take (tn_count s) (tn_rules s))"

section \<open>Port maps\<close>

definition portmap_init :: "('h, portmap_entry) nvs_api \<Rightarrow> 'h \<Rightarrow> portmap_entry slot_tab" where
  "portmap_init api h = slot_load PORTMAP_MAX portmap_zero pm_used ''portmap'' api h"

definition portmap_loaded :: "('h, portmap_entry) nvs_api \<Rightarrow> 'h \<Rightarrow> portmap_entry slot_tab \<Rightarrow> portmap_entry slot_tab" where
  "portmap_loaded api h t = (if st_loaded t then t else portmap_init api h)"

definition portmap_count :: "('h, portmap_entry) nvs_api \<Rightarrow> 'h \<Rightarrow> portmap_entry slot_tab \<Rightarrow> nat \<times> portmap_entry slot_tab" where
  "portmap_count api h t = (let t = portmap_loaded api h t in (st_count t, t))"

definition portmap_get ::
  "('h, portmap_entry) nvs_api \<Rightarrow> 'h \<Rightarrow> portmap_entry slot_tab \<Rightarrow> int \<Rightarrow> portmap_entry option \<times> portmap_entry slot_tab" where
  "portmap_get api h t i = (let t = portmap_loaded api h t in (slot_get PORTMAP_MAX pm_used t i, t))"

definition entry_is_filled :: "portmap_entry \<Rightarrow> bool" where
  "entry_is_filled e \<longleftrightarrow> pm_ext_port e \<noteq> 0 \<and> pm_int_port e \<noteq> 0 \<and> pm_int_ip e \<noteq> 0
     \<and> (pm_proto e = 6 \<or> pm_proto e = 17)"

text \<open>The check loop: \<open>prev\<close> are the entries before the current one.\<close>

fun portmap_check :: "fw_env \<Rightarrow> fw_state \<Rightarrow> portmap_entry list \<Rightarrow> portmap_entry list \<Rightarrow> bool" where
  "portmap_check env s prev [] = True"
| "portmap_check env s prev (e # es) =
     (if \<not> entry_is_filled e then portmap_check env s (prev @ [e]) es
      else if tailnet_forward_listen_conflicts s (pm_proto e) (pm_ext_port e) then False
      else if pm_proto e = 6 \<and> pm_ext_port e = fe_web_port env then False
      else if list_ex (\<lambda>p. entry_is_filled p \<and> pm_proto p = pm_proto e \<and> pm_ext_port p = pm_ext_port e) prev then False
      else portmap_check env s (prev @ [e]) es)"

text \<open>The result says also whether the live table is to be rebuilt.\<close>

definition portmap_set_all ::
  "fw_env \<Rightarrow> ('h, portmap_entry) nvs_api \<Rightarrow> 'h \<Rightarrow> fw_state \<Rightarrow> portmap_entry list option \<Rightarrow> int
   \<Rightarrow> esp_err \<times> 'h \<times> fw_state \<times> bool" where
  "portmap_set_all env api h s arr count =
     (case arr of None \<Rightarrow> (ESP_ERR_INVALID_ARG, h, s, False)
      | Some es \<Rightarrow>
          if \<not> portmap_check env s [] (take (clamp_count PORTMAP_MAX count) es)
          then (ESP_ERR_INVALID_STATE, h, s, False)
          else (let t = slot_replace PORTMAP_MAX portmap_zero entry_is_filled (\<lambda>e. e\<lparr>pm_valid := 1\<rparr>) (fw_maps s) es count
                in case slot_save ''portmap'' api h t of
                     (err, h', t') \<Rightarrow> (err, h', s\<lparr>fw_maps := t'\<rparr>, err = ESP_OK)))"

section \<open>Installation into lwIP\<close>

definition tailnet_forward_get_mapping :: "fw_state \<Rightarrow> int \<Rightarrow> (u8 \<times> u16 \<times> u32 \<times> u16) option" where
  "tailnet_forward_get_mapping s i =
     (if 0 \<le> i \<and> i < int (tn_count s) \<and> tr_valid (tn_rules s ! nat i) \<noteq> 0 \<and> tr_enabled (tn_rules s ! nat i) \<noteq> 0
         \<and> rt_resolved_ip (tn_runtimes s ! nat i) \<noteq> 0
      then Some (tr_proto (tn_rules s ! nat i), tr_listen_port (tn_rules s ! nat i),
                 htonl (rt_resolved_ip (tn_runtimes s ! nat i)), tr_destination_port (tn_rules s ! nat i))
      else None)"

definition tailnet_forward_prepare_install :: "fw_state \<Rightarrow> fw_state" where
  "tailnet_forward_prepare_install s =
     s\<lparr>tn_runtimes := map (\<lambda>rt. rt\<lparr>rt_installed := False\<rparr>) (take (tn_count s) (tn_runtimes s))
                       @ drop (tn_count s) (tn_runtimes s)\<rparr>"

definition tailnet_forward_mark_installed :: "fw_state \<Rightarrow> int \<Rightarrow> bool \<Rightarrow> string option \<Rightarrow> fw_state" where
  "tailnet_forward_mark_installed s i ok err =
     (if 0 \<le> i \<and> i < int (tn_count s)
      then (let rt = tn_runtimes s ! nat i in
            s\<lparr>tn_runtimes := (tn_runtimes s)[nat i :=
               rt\<lparr>rt_installed := ok,
                  rt_error := (case err of Some e \<Rightarrow> take 63 e | None \<Rightarrow> if ok then [] else rt_error rt)\<rparr>]\<rparr>)
      else s)"

fun install_maps :: "'w lwip_portmap \<Rightarrow> u32 \<Rightarrow> portmap_entry list \<Rightarrow> 'w \<times> (u8 \<times> u16) list \<Rightarrow> 'w \<times> (u8 \<times> u16) list" where
  "install_maps lp bind_ip [] st = st"
| "install_maps lp bind_ip (e # es) (w, inst) =
     (if \<not> pm_used e then install_maps lp bind_ip es (w, inst)
      else (let r = lp_add lp w (pm_proto e) bind_ip (pm_ext_port e) (pm_int_ip e) (pm_int_port e)
            in install_maps lp bind_ip es (snd r, if fst r then inst @ [(pm_proto e, pm_ext_port e)] else inst)))"

fun install_forwards :: "'w lwip_portmap \<Rightarrow> u32 \<Rightarrow> nat list \<Rightarrow> 'w \<times> (u8 \<times> u16) list \<times> fw_state
    \<Rightarrow> 'w \<times> (u8 \<times> u16) list \<times> fw_state" where
  "install_forwards lp bind_ip [] st = st"
| "install_forwards lp bind_ip (i # is) (w, inst, s) =
     (case tailnet_forward_get_mapping s (int i) of
        None \<Rightarrow> install_forwards lp bind_ip is (w, inst, s)
      | Some (proto, listen, destination, dport) \<Rightarrow>
          (let r = lp_add lp w proto bind_ip listen destination dport
           in install_forwards lp bind_ip is
                (snd r, if fst r then inst @ [(proto, listen)] else inst,
                 tailnet_forward_mark_installed s (int i) (fst r)
                   (if fst r then None else Some ''lwIP port-map table full''))))"

text \<open>\<open>sta\<close> is the address of the station interface, if it is up and has one.\<close>

definition portmap_install_cb ::
  "'w lwip_portmap \<Rightarrow> ('h, portmap_entry) nvs_api \<Rightarrow> 'h \<Rightarrow> u32 option \<Rightarrow> 'w \<times> fw_state \<Rightarrow> 'w \<times> fw_state" where
  "portmap_install_cb lp api h sta ws =
     (let w = fst ws; s = (snd ws)\<lparr>fw_maps := portmap_loaded api h (fw_maps (snd ws))\<rparr> in
      case sta of None \<Rightarrow> (w, s)
      | Some bind_ip \<Rightarrow>
          if bind_ip = 0 then (w, s)
          else (let w0 = fold (\<lambda>(proto, port) w. lp_remove lp w proto port) (fw_installed s) w;
                    s0 = tailnet_forward_prepare_install s;
                    wm = install_maps lp bind_ip (st_table (fw_maps s0)) (w0, []);
                    r = install_forwards lp bind_ip [0..<TAILNET_FORWARD_MAX] (fst wm, snd wm, s0)
                in (fst r, (snd (snd r))\<lparr>fw_installed := fst (snd r)\<rparr>)))"

section \<open>Forward rules\<close>

text \<open>The blob of the rules carries a magic number; \<open>Some\<close> is a blob with the right one.\<close>

definition tailnet_forward_init :: "('h, nat \<times> tn_rule list) nvs_api \<Rightarrow> 'h \<Rightarrow> nat \<Rightarrow> fw_state \<Rightarrow> fw_state" where
  "tailnet_forward_init api h magic s =
     (if tn_loaded s then s
      else (let s0 = s\<lparr>tn_rules := replicate TAILNET_FORWARD_MAX tn_rule_zero,
                        tn_runtimes := replicate TAILNET_FORWARD_MAX tn_runtime_zero\<rparr>;
                s1 = (if nvs_open_ro api h \<noteq> ESP_OK then s0
                      else case nvs_get_blob api h ''tn_fwd'' 1 of
                        Inr [(m, rules)] \<Rightarrow>
                          if m = magic \<and> length rules = TAILNET_FORWARD_MAX
                          then s0\<lparr>tn_rules := rules,
                                  tn_count := tn_count s + length (filter (\<lambda>r. tr_valid r \<noteq> 0) rules)\<rparr>
                          else s0
                      | _ \<Rightarrow> s0)
            in s1\<lparr>tn_loaded := True\<rparr>))"

definition tailnet_forward_get :: "fw_state \<Rightarrow> int \<Rightarrow> (tn_rule \<times> tn_runtime) option" where
  "tailnet_forward_get s i =
     (if 0 \<le> i \<and> i < int (tn_count s) \<and> tr_valid (tn_rules s ! nat i) \<noteq> 0
      then Some (tn_rules s ! nat i, tn_runtimes s ! nat i) else None)"

fun tn_check :: "fw_env \<Rightarrow> fw_state \<Rightarrow> tn_rule list \<Rightarrow> tn_rule list \<Rightarrow> esp_err" where
  "tn_check env s prev [] = ESP_OK"
| "tn_check env s prev (r # rs) =
     (if tr_valid r = 0 \<or> (tr_proto r \<noteq> 6 \<and> tr_proto r \<noteq> 17) \<or> tr_listen_port r = 0 \<or> tr_destination_port r = 0
         \<or> 32 < tr_source_prefix r \<or> \<not> hostname_valid (tr_destination r) then ESP_ERR_INVALID_ARG
      else if (case fe_aton env (tr_destination r) of None \<Rightarrow> False | Some a \<Rightarrow> \<not> cgnat (htonl a)) then ESP_ERR_INVALID_ARG
      else if list_ex (\<lambda>q. tr_enabled q \<noteq> 0 \<and> tr_enabled r \<noteq> 0 \<and> tr_proto q = tr_proto r
                            \<and> tr_listen_port q = tr_listen_port r) prev then ESP_ERR_INVALID_STATE
      else if tr_enabled r \<noteq> 0 \<and> portmap_listen_conflicts s (tr_proto r) (tr_listen_port r) then ESP_ERR_INVALID_STATE
      else if tr_enabled r \<noteq> 0 \<and> tr_proto r = 6 \<and> tr_listen_port r = fe_web_port env then ESP_ERR_INVALID_STATE
      else tn_check env s (prev @ [r]) rs)"

text \<open>The store is written before the rules change, so a failed write leaves them alone.\<close>

definition tailnet_forward_set_all ::
  "fw_env \<Rightarrow> ('h, nat \<times> tn_rule list) nvs_api \<Rightarrow> 'h \<Rightarrow> nat \<Rightarrow> fw_state \<Rightarrow> tn_rule list option \<Rightarrow> int
   \<Rightarrow> esp_err \<times> 'h \<times> fw_state" where
  "tailnet_forward_set_all env api h magic s rules count =
     (case rules of None \<Rightarrow> (ESP_ERR_INVALID_ARG, h, s)
      | Some rs \<Rightarrow>
         if count < 0 \<or> int TAILNET_FORWARD_MAX < count then (ESP_ERR_INVALID_ARG, h, s)
         else (let n = nat count; rs = take n rs; e = tn_check env s [] rs;
                   tab = rs @ replicate (TAILNET_FORWARD_MAX - n) tn_rule_zero
               in if e \<noteq> ESP_OK then (e, h, s)
                  else (let st = nvs_store api h ''tn_fwd'' [(magic, tab)]
                        in if fst st \<noteq> ESP_OK then (fst st, snd st, s)
                           else (ESP_OK, snd st,
                                 s\<lparr>tn_rules := tab, tn_count := n,
                                   tn_runtimes := resolve_all env n tab
                                     (replicate TAILNET_FORWARD_MAX tn_runtime_zero)\<rparr>))))"

definition tailnet_forward_set_enabled ::
  "fw_env \<Rightarrow> ('h, nat \<times> tn_rule list) nvs_api \<Rightarrow> 'h \<Rightarrow> nat \<Rightarrow> fw_state \<Rightarrow> int \<Rightarrow> bool \<Rightarrow> esp_err \<times> 'h \<times> fw_state" where
  "tailnet_forward_set_enabled env api h magic s i enabled =
     (if i < 0 \<or> int (tn_count s) \<le> i then (ESP_ERR_INVALID_ARG, h, s)
      else tailnet_forward_set_all env api h magic s
             (Some ((tn_rules s)[nat i := (tn_rules s ! nat i)\<lparr>tr_enabled := (if enabled then 1 else 0)\<rparr>]))
             (int (tn_count s)))"

definition tailnet_forward_totals :: "fw_state \<Rightarrow> nat \<times> nat \<times> u32 \<times> u32" where
  "tailnet_forward_totals s =
     (let rs = take (tn_count s) (tn_rules s); rts = take (tn_count s) (tn_runtimes s)
      in (length (filter (\<lambda>r. tr_enabled r \<noteq> 0) rs), length (filter rt_installed rts),
          sum_list (map rt_accepted_packets rts), sum_list (map rt_blocked_packets rts)))"

section \<open>Packets\<close>

text \<open>Source (host order), protocol and destination port; the inner \<open>None\<close> is \<open>false\<close>.\<close>

definition packet_fields :: "bytes option \<Rightarrow> bool \<Rightarrow> (u32 \<times> u8 \<times> u16) option option" where
  "packet_fields p eth =
     (let off = (if eth then 14 else 0) in
      case p of None \<Rightarrow> Some None
      | Some b \<Rightarrow>
         if length b < off + 24 then Some None
         else do {
           t0 \<leftarrow> (if eth then rd8 b 12 else Some 8);
           t1 \<leftarrow> (if eth then rd8 b 13 else Some 0);
           if eth \<and> (t0 \<noteq> 8 \<or> t1 \<noteq> 0) then Some None
           else do {
             vhl \<leftarrow> rd8 b off;
             frag \<leftarrow> be16 b (off + 6);
             if drop_bit 4 vhl \<noteq> 4 \<or> frag AND 0x1FFF \<noteq> 0 then Some None
             else (let ihl = unat (vhl AND 15) * 4 in
               if ihl < 20 \<or> length b < off + ihl + 4 then Some None
               else do {
                 proto \<leftarrow> rd8 b (off + 9);
                 if proto \<noteq> 6 \<and> proto \<noteq> 17 then Some None
                 else do {
                   dport \<leftarrow> be16 b (off + ihl + 2);
                   src \<leftarrow> be32 b (off + 12);
                   Some (Some (src, proto, dport)) } }) } })"

definition source_mask :: "u8 \<Rightarrow> u32" where
  "source_mask p = (if p = 0 then 0 else if p = 32 then 0xFFFFFFFF else push_bit (nat (32 - int (unat p))) 0xFFFFFFFF)"

text \<open>The first enabled rule that listens on the port decides, and counts the packet.\<close>

definition tailnet_forward_allow_uplink_packet :: "fw_state \<Rightarrow> bytes option \<Rightarrow> (bool \<times> fw_state) option" where
  "tailnet_forward_allow_uplink_packet s p = do {
     f \<leftarrow> packet_fields p True;
     Some (case f of None \<Rightarrow> (True, s)
       | Some (src, proto, dp) \<Rightarrow>
          (case find_index (\<lambda>r. tr_valid r \<noteq> 0 \<and> tr_enabled r \<noteq> 0 \<and> tr_proto r = proto \<and> tr_listen_port r = dp)
                  (take (tn_count s) (tn_rules s)) of
             None \<Rightarrow> (True, s)
           | Some i \<Rightarrow>
              (let r = tn_rules s ! i; rt = tn_runtimes s ! i;
                   ok = (rt_installed rt \<and> src AND source_mask (tr_source_prefix r) = tr_source_network r);
                   rt' = (if ok then rt\<lparr>rt_accepted_packets := rt_accepted_packets rt + 1\<rparr>
                          else rt\<lparr>rt_blocked_packets := rt_blocked_packets rt + 1\<rparr>)
               in (ok, s\<lparr>tn_runtimes := (tn_runtimes s)[i := rt']\<rparr>)))) }"

definition tailnet_forward_allow_non_uplink_packet :: "fw_state \<Rightarrow> bytes option \<Rightarrow> bool \<Rightarrow> bool option" where
  "tailnet_forward_allow_non_uplink_packet s p eth = do {
     f \<leftarrow> packet_fields p eth;
     Some (case f of None \<Rightarrow> True | Some (src, proto, dp) \<Rightarrow> \<not> tailnet_forward_listen_conflicts s proto dp) }"

definition tailnet_forward_is_routed_target :: "fw_state \<Rightarrow> u8 \<Rightarrow> u32 \<Rightarrow> u16 \<Rightarrow> bool" where
  "tailnet_forward_is_routed_target s proto dst port =
     list_ex (\<lambda>(r, rt). rt_installed rt \<and> tr_proto r = proto \<and> rt_resolved_ip rt = htonl dst
                        \<and> tr_destination_port r = port)
       (zip (take (tn_count s) (tn_rules s)) (take (tn_count s) (tn_runtimes s)))"

definition tailnet_forward_is_routed_response :: "fw_state \<Rightarrow> u8 \<Rightarrow> u32 \<Rightarrow> u16 \<Rightarrow> bool" where
  "tailnet_forward_is_routed_response s proto src port = tailnet_forward_is_routed_target s proto src port"

section \<open>No two listeners on one port\<close>

lemma packet_fields_total: "\<exists>r. packet_fields p eth = Some r"
proof (cases p)
  case None
  then show ?thesis by (simp add: packet_fields_def)
next
  case (Some b)
  define off :: nat where "off = (if eth then 14 else 0)"
  show ?thesis
  proof (cases "length b < off + 24")
    case True
    with Some show ?thesis by (simp add: packet_fields_def off_def)
  next
    case False
    then have r: "rd8 b off = Some (b ! off)" "be16 b (off + 6) = Some (mk16 (b ! (off + 6)) (b ! (off + 6 + 1)))"
      "rd8 b (off + 9) = Some (b ! (off + 9))" "\<exists>w. be32 b (off + 12) = Some w"
      "eth \<Longrightarrow> rd8 b 12 = Some (b ! 12)" "eth \<Longrightarrow> rd8 b 13 = Some (b ! 13)"
      using False by (auto simp: byte_simps off_def)
    define ihl where "ihl = unat ((b ! off) AND 15) * 4"
    have d: "\<not> length b < off + ihl + 4 \<Longrightarrow> \<exists>w. be16 b (off + ihl + 2) = Some w"
      using False by (simp add: byte_simps)
    show ?thesis
      using Some False r d unfolding packet_fields_def Let_def off_def [symmetric]
      by (cases eth) (auto simp: Let_def ihl_def [symmetric])
  qed
qed

definition pm_port :: "portmap_entry \<Rightarrow> u8 \<times> u16" where "pm_port e = (pm_proto e, pm_ext_port e)"
definition tn_port :: "tn_rule \<Rightarrow> u8 \<times> u16" where "tn_port r = (tr_proto r, tr_listen_port r)"

definition pm_listens :: "fw_state \<Rightarrow> (u8 \<times> u16) list" where
  "pm_listens s = map pm_port (filter pm_used (st_table (fw_maps s)))"

definition tn_active :: "fw_state \<Rightarrow> tn_rule list" where
  "tn_active s = filter (\<lambda>r. tr_valid r \<noteq> 0 \<and> tr_enabled r \<noteq> 0) (take (tn_count s) (tn_rules s))"

definition tn_listens :: "fw_state \<Rightarrow> (u8 \<times> u16) list" where
  "tn_listens s = map tn_port (tn_active s)"

definition listeners :: "fw_env \<Rightarrow> fw_state \<Rightarrow> (u8 \<times> u16) list" where
  "listeners env s = (6, fe_web_port env) # pm_listens s @ tn_listens s"

lemma pm_conflicts_iff: "portmap_listen_conflicts s proto port \<longleftrightarrow> (proto, port) \<in> set (pm_listens s)"
  by (auto simp: portmap_listen_conflicts_def pm_listens_def pm_port_def list_ex_iff)

lemma tn_conflicts_iff: "tailnet_forward_listen_conflicts s proto port \<longleftrightarrow> (proto, port) \<in> set (tn_listens s)"
  by (auto simp: tailnet_forward_listen_conflicts_def tn_listens_def tn_active_def tn_port_def list_ex_iff)

lemma portmap_check_ports:
  "portmap_check env s prev es \<Longrightarrow>
   distinct (map pm_port (filter entry_is_filled es)) \<and>
   set (map pm_port (filter entry_is_filled es)) \<inter> set (map pm_port (filter entry_is_filled prev)) = {} \<and>
   set (map pm_port (filter entry_is_filled es)) \<inter> set (tn_listens s) = {} \<and>
   (6, fe_web_port env) \<notin> set (map pm_port (filter entry_is_filled es))"
proof (induction es arbitrary: prev)
  case (Cons e es)
  show ?case
  proof (cases "entry_is_filled e")
    case False
    then show ?thesis using Cons.IH [of "prev @ [e]"] Cons.prems by simp
  next
    case True
    with Cons.prems have c: "pm_port e \<notin> set (tn_listens s)" "pm_port e \<noteq> (6, fe_web_port env)"
      "pm_port e \<notin> set (map pm_port (filter entry_is_filled prev))" "portmap_check env s (prev @ [e]) es"
      by (auto simp: tn_conflicts_iff pm_port_def list_ex_iff split: if_splits)
    from Cons.IH [OF c(4)] c(1-3) True show ?thesis by auto
  qed
qed simp

lemma tn_check_ports:
  "tn_check env s prev rs = ESP_OK \<Longrightarrow>
   (\<forall>r \<in> set rs. tr_valid r \<noteq> 0) \<and>
   distinct (map tn_port (filter (\<lambda>r. tr_enabled r \<noteq> 0) rs)) \<and>
   set (map tn_port (filter (\<lambda>r. tr_enabled r \<noteq> 0) rs)) \<inter> set (map tn_port (filter (\<lambda>r. tr_enabled r \<noteq> 0) prev)) = {} \<and>
   set (map tn_port (filter (\<lambda>r. tr_enabled r \<noteq> 0) rs)) \<inter> set (pm_listens s) = {} \<and>
   (6, fe_web_port env) \<notin> set (map tn_port (filter (\<lambda>r. tr_enabled r \<noteq> 0) rs))"
proof (induction rs arbitrary: prev)
  case (Cons r rs)
  from Cons.prems have v: "tr_valid r \<noteq> 0" and more: "tn_check env s (prev @ [r]) rs = ESP_OK"
    by (auto split: if_splits option.splits)
  show ?case
  proof (cases "tr_enabled r = 0")
    case True
    then show ?thesis using Cons.IH [OF more] v by simp
  next
    case False
    with Cons.prems have c: "tn_port r \<notin> set (pm_listens s)" "tn_port r \<noteq> (6, fe_web_port env)"
      "tn_port r \<notin> set (map tn_port (filter (\<lambda>r. tr_enabled r \<noteq> 0) prev))"
      by (auto simp: pm_conflicts_iff tn_port_def list_ex_iff split: if_splits option.splits)
    from Cons.IH [OF more] c v False show ?thesis by auto
  qed
qed simp

text \<open>The operations that change a table, with any outcome of the store.\<close>

inductive fw_step ::
  "fw_env \<Rightarrow> ('h, portmap_entry) nvs_api \<Rightarrow> ('k, nat \<times> tn_rule list) nvs_api \<Rightarrow> fw_state \<Rightarrow> fw_state \<Rightarrow> bool"
  for env papi tapi where
  fs_maps: "portmap_set_all env papi h s arr count = (e, h', s', b) \<Longrightarrow> fw_step env papi tapi s s'"
| fs_rules: "tailnet_forward_set_all env tapi k magic s rules count = (e, k', s') \<Longrightarrow> fw_step env papi tapi s s'"
| fs_enable: "tailnet_forward_set_enabled env tapi k magic s i on = (e, k', s') \<Longrightarrow> fw_step env papi tapi s s'"
| fs_round: "manager_round env s = (b, s') \<Longrightarrow> fw_step env papi tapi s s'"
| fs_uplink: "tailnet_forward_allow_uplink_packet s p = Some (v, s') \<Longrightarrow> fw_step env papi tapi s s'"

inductive fw_reach ::
  "fw_env \<Rightarrow> ('h, portmap_entry) nvs_api \<Rightarrow> ('k, nat \<times> tn_rule list) nvs_api \<Rightarrow> fw_state \<Rightarrow> fw_state \<Rightarrow> bool"
  for env papi tapi s0 where
  fr_start: "fw_reach env papi tapi s0 s0"
| fr_step: "fw_reach env papi tapi s0 s \<Longrightarrow> fw_step env papi tapi s s' \<Longrightarrow> fw_reach env papi tapi s0 s'"

lemma set_maps_listeners:
  assumes "portmap_set_all env api h s arr count = (e, h', s', b)" and "distinct (listeners env s)"
  shows "distinct (listeners env s')"
proof (cases arr)
  case None
  with assms show ?thesis by (simp add: portmap_set_all_def)
next
  case (Some es)
  show ?thesis
  proof (cases "portmap_check env s [] (take (clamp_count PORTMAP_MAX count) es)")
    case False
    with assms Some show ?thesis by (simp add: portmap_set_all_def)
  next
    case True
    let ?t = "slot_replace PORTMAP_MAX portmap_zero entry_is_filled (\<lambda>e. e\<lparr>pm_valid := 1\<rparr>) (fw_maps s) es count"
    from True assms(1) Some obtain t' where t': "slot_save ''portmap'' api h ?t = (e, h', t')" "s' = s\<lparr>fw_maps := t'\<rparr>"
      by (auto simp: portmap_set_all_def Let_def split: prod.splits)
    have "slot_entries pm_used ?t = map (\<lambda>e. e\<lparr>pm_valid := 1\<rparr>) (filter entry_is_filled (take (clamp_count PORTMAP_MAX count) es))"
      by (rule slot_replace_entries) (simp_all add: pm_used_def portmap_zero_def)
    then have "pm_listens s' = map pm_port (filter entry_is_filled (take (clamp_count PORTMAP_MAX count) es))"
      using slot_save_state [OF t'(1)] t'(2) by (simp add: pm_listens_def slot_entries_def pm_port_def comp_def)
    moreover have "tn_listens s' = tn_listens s" by (simp add: t'(2) tn_listens_def tn_active_def)
    ultimately show ?thesis using portmap_check_ports [OF True] assms(2) by (auto simp: listeners_def)
  qed
qed

lemma set_rules_listeners:
  assumes "tailnet_forward_set_all env api h magic s rules count = (e, h', s')" and "distinct (listeners env s)"
  shows "distinct (listeners env s')"
proof (cases "s' = s")
  case True
  with assms show ?thesis by simp
next
  case False
  with assms(1) obtain rs where rs: "rules = Some rs" "0 \<le> count" "count \<le> int TAILNET_FORWARD_MAX"
    and ok: "tn_check env s [] (take (nat count) rs) = ESP_OK"
    and s': "tn_rules s' = take (nat count) rs @ replicate (TAILNET_FORWARD_MAX - nat count) tn_rule_zero"
      "tn_count s' = nat count" "fw_maps s' = fw_maps s"
    by (auto simp: tailnet_forward_set_all_def Let_def split: option.splits if_splits)
  let ?rs = "take (nat count) rs"
  have "filter (\<lambda>r. tr_valid r \<noteq> 0 \<and> tr_enabled r \<noteq> 0) (replicate k tn_rule_zero) = []" for k
    by (simp add: filter_empty_conv tn_rule_zero_def)
  then have "tn_active s' = filter (\<lambda>r. tr_enabled r \<noteq> 0) ?rs"
    using tn_check_ports [OF ok] by (auto simp: tn_active_def s' take_replicate intro!: filter_cong)
  then have "tn_listens s' = map tn_port (filter (\<lambda>r. tr_enabled r \<noteq> 0) ?rs)" by (simp add: tn_listens_def)
  moreover have "pm_listens s' = pm_listens s" by (simp add: pm_listens_def s')
  ultimately show ?thesis using tn_check_ports [OF ok] assms(2) by (auto simp: listeners_def)
qed

lemma fw_step_listeners: "fw_step env papi tapi s s' \<Longrightarrow> distinct (listeners env s) \<Longrightarrow> distinct (listeners env s')"
proof (induction rule: fw_step.induct)
  case (fs_maps h s arr count e h' s' b)
  then show ?case by (rule set_maps_listeners)
next
  case (fs_rules k magic s rules count e k' s')
  then show ?case by (rule set_rules_listeners)
next
  case (fs_enable k magic s i on e k' s')
  then show ?case
    by (auto simp: tailnet_forward_set_enabled_def split: if_splits dest: set_rules_listeners)
next
  case (fs_round s b s')
  then have "fw_maps s' = fw_maps s \<and> tn_rules s' = tn_rules s \<and> tn_count s' = tn_count s"
    by (auto simp: manager_round_def Let_def)
  with fs_round show ?case by (simp add: listeners_def pm_listens_def tn_listens_def tn_active_def)
next
  case (fs_uplink s p v s')
  from packet_fields_total obtain f where f: "packet_fields p True = Some f" by blast
  have "fw_maps s' = fw_maps s \<and> tn_rules s' = tn_rules s \<and> tn_count s' = tn_count s"
  proof (cases f)
    case None
    with fs_uplink f show ?thesis by (simp add: tailnet_forward_allow_uplink_packet_def)
  next
    case (Some a)
    obtain x y z where a: "a = (x, y, z)" by (cases a)
    show ?thesis
    proof (cases "find_index (\<lambda>r. tr_valid r \<noteq> 0 \<and> tr_enabled r \<noteq> 0 \<and> tr_proto r = y \<and> tr_listen_port r = z)
        (take (tn_count s) (tn_rules s))")
      case None
      with fs_uplink f Some a show ?thesis by (simp add: tailnet_forward_allow_uplink_packet_def)
    next
      case (Some i)
      with fs_uplink f \<open>f = Some a\<close> a show ?thesis
        by (auto simp: tailnet_forward_allow_uplink_packet_def Let_def)
    qed
  qed
  with fs_uplink show ?case by (simp add: listeners_def pm_listens_def tn_listens_def tn_active_def)
qed

text \<open>
  The web UI, the AP-side port maps and the enabled tailnet forwards never listen on the
  same protocol and port: this holds for the empty tables and in every state that saving maps,
  saving rules, enabling or disabling a rule (each with any outcome of the flash), the manager
  task and packets can reach, whatever the requests contain.
\<close>

theorem forwarding_ports_disjoint:
  assumes "fw_reach env papi tapi s0 s" and "pm_listens s0 = []" and "tn_listens s0 = []"
  shows "distinct ((6, fe_web_port env) # pm_listens s @ tn_listens s)"
proof -
  have "distinct (listeners env s)" using assms(1)
  proof (induction rule: fw_reach.induct)
    case fr_start
    then show ?case using assms(2,3) by (simp add: listeners_def)
  next
    case (fr_step s s')
    then show ?case by (blast intro: fw_step_listeners)
  qed
  then show ?thesis by (simp only: listeners_def)
qed

definition fw_boot :: fw_state where
  "fw_boot = \<lparr>fw_maps = slot_boot PORTMAP_MAX portmap_zero, fw_installed = [],
     tn_rules = replicate TAILNET_FORWARD_MAX tn_rule_zero,
     tn_runtimes = replicate TAILNET_FORWARD_MAX tn_runtime_zero, tn_count = 0, tn_loaded = False\<rparr>"

definition fw_demo_env :: fw_env where
  "fw_demo_env = \<lparr>fe_connected = True, fe_microlink = True, fe_resolve = (\<lambda>_. 0x64400001),
     fe_aton = (\<lambda>_. None), fe_web_port = 80\<rparr>"

definition fw_demo_rule :: tn_rule where
  "fw_demo_rule = \<lparr>tr_valid = 1, tr_enabled = 1, tr_proto = 6, tr_source_prefix = 24, tr_listen_port = 8080,
     tr_destination_port = 80, tr_source_network = 0xC0A80100, tr_name = [], tr_destination = ''nas''\<rparr>"

definition fw_demo :: fw_state where
  "fw_demo = snd (snd (tailnet_forward_set_all fw_demo_env map_nvs Map.empty 1 fw_boot (Some [fw_demo_rule]) 1))"

lemma fw_demo_reach: "fw_reach fw_demo_env papi map_nvs fw_boot fw_demo"
proof -
  let ?r = "tailnet_forward_set_all fw_demo_env map_nvs Map.empty 1 fw_boot (Some [fw_demo_rule]) 1"
  have "?r = (fst ?r, fst (snd ?r), fw_demo)" by (simp add: fw_demo_def)
  from fr_step [OF fr_start fs_rules [OF this]] show ?thesis .
qed

theorem forwarding_ports_disjoint_witness:
  "distinct ((6, fe_web_port fw_demo_env) # pm_listens fw_demo @ tn_listens fw_demo) \<and> tn_listens fw_demo = [(6, 8080)]"
proof -
  have "pm_listens fw_boot = []" "tn_listens fw_boot = []" "tn_listens fw_demo = [(6, 8080)]" by code_simp+
  then show ?thesis using forwarding_ports_disjoint [OF fw_demo_reach] by blast
qed

section \<open>Admission of packets\<close>

text \<open>
  Admission of uplink packets never reads outside the packet, and for a TCP or UDP packet to
  a port on which an enabled rule listens the verdict is that rule's: pass exactly when the rule
  is installed and the source lies in its network; a packet to any other port passes.
\<close>

theorem uplink_admission:
  assumes "fw_reach env papi tapi s0 s" and "pm_listens s0 = []" and "tn_listens s0 = []"
  shows "\<exists>v s'. tailnet_forward_allow_uplink_packet s p = Some (v, s') \<and>
    (case packet_fields p True of
       Some (Some (src, proto, dp)) \<Rightarrow>
         if (proto, dp) \<notin> set (tn_listens s) then v \<and> s' = s
         else \<exists>i < tn_count s. tn_port (tn_rules s ! i) = (proto, dp) \<and> tr_enabled (tn_rules s ! i) \<noteq> 0 \<and>
           v = (rt_installed (tn_runtimes s ! i) \<and>
                src AND source_mask (tr_source_prefix (tn_rules s ! i)) = tr_source_network (tn_rules s ! i))
     | _ \<Rightarrow> v \<and> s' = s)"
proof -
  obtain f where f: "packet_fields p True = Some f" using packet_fields_total by blast
  show ?thesis
  proof (cases f)
    case None
    with f show ?thesis by (auto simp: tailnet_forward_allow_uplink_packet_def)
  next
    case (Some a)
    obtain src proto dp where a: "a = (src, proto, dp)" by (cases a)
    let ?P = "\<lambda>r. tr_valid r \<noteq> 0 \<and> tr_enabled r \<noteq> 0 \<and> tr_proto r = proto \<and> tr_listen_port r = dp"
    show ?thesis
    proof (cases "find_index ?P (take (tn_count s) (tn_rules s))")
      case None
      then have "(proto, dp) \<notin> set (tn_listens s)"
        by (auto simp: find_index_None tn_listens_def tn_active_def tn_port_def)
      with f Some a None show ?thesis by (auto simp: tailnet_forward_allow_uplink_packet_def)
    next
      case (Some i)
      from find_index_Some [OF Some] have i: "i < tn_count s" "i < length (tn_rules s)" "?P (tn_rules s ! i)" by auto
      then have "tn_rules s ! i \<in> set (take (tn_count s) (tn_rules s))" by (auto simp: in_set_conv_nth)
      then have mem: "(proto, dp) \<in> set (tn_listens s)"
        using i(3) by (force simp: tn_listens_def tn_active_def tn_port_def)
      show ?thesis
        using f \<open>f = Some a\<close> a Some i mem
        by (auto simp: tailnet_forward_allow_uplink_packet_def Let_def tn_port_def)
    qed
  qed
qed

text \<open>A TCP packet from 192.168.1.7 to port 8080 of the router, as the uplink delivers it.\<close>

definition fw_demo_packet :: bytes where
  "fw_demo_packet = replicate 12 0 @ [8, 0] @ [0x45, 0, 0, 40, 0, 0, 0, 0, 64, 6, 0, 0, 192, 168, 1, 7, 10, 0, 0, 2]
     @ [0xC0, 0, 0x1F, 0x90]"

theorem uplink_admission_witness:
  "\<exists>v s'. tailnet_forward_allow_uplink_packet fw_demo (Some fw_demo_packet) = Some (v, s') \<and> \<not> v"
proof -
  have b: "pm_listens fw_boot = []" "tn_listens fw_boot = []" by code_simp+
  have f: "packet_fields (Some fw_demo_packet) True = Some (Some (0xC0A80107, 6, 8080))" by code_simp
  have l: "tn_listens fw_demo = [(6, 8080)]" "tn_count fw_demo = 1" by code_simp+
  have r: "rt_installed (tn_runtimes fw_demo ! 0) = False" by code_simp
  show ?thesis
    using uplink_admission [OF fw_demo_reach b, of "Some fw_demo_packet"] f l r by auto
qed

section \<open>A failed save and a reboot\<close>

text \<open>A flash that cannot be opened for writing, for the port maps only.\<close>

definition ro_nvs :: "(string \<rightharpoonup> portmap_entry list, portmap_entry) nvs_api" where
  "ro_nvs = map_nvs\<lparr>nvs_open_rw := (\<lambda>_. ESP_FAIL)\<rparr>"

definition fw_reboot ::
  "('h, portmap_entry) nvs_api \<Rightarrow> 'h \<Rightarrow> ('k, nat \<times> tn_rule list) nvs_api \<Rightarrow> 'k \<Rightarrow> nat \<Rightarrow> fw_state" where
  "fw_reboot papi h tapi k magic =
     tailnet_forward_init tapi k magic (fw_boot\<lparr>fw_maps := portmap_init papi h\<rparr>)"

definition fw_demo_map :: portmap_entry where
  "fw_demo_map = \<lparr>pm_proto = 6, pm_valid = 1, pm_ext_port = 8080, pm_int_port = 80, pm_int_ip = 0x0204A8C0, pm_name = []\<rparr>"

text \<open>
  Replacing the port maps is not atomic: the live table is replaced before the flash is
  written, so after a failed save the two differ.  A map of TCP port 8080 is saved, then
  deleting it fails to reach the flash; saving a tailnet forward on port 8080 is accepted, and
  after a reboot the map and the forward listen on the same port.
\<close>

theorem failed_save_reboot_conflict:
  "let h = Map.empty(''portmap'' \<mapsto> fw_demo_map # replicate 15 portmap_zero);
       s1 = fw_boot\<lparr>fw_maps := portmap_init map_nvs h\<rparr>;
       del = portmap_set_all fw_demo_env ro_nvs h s1 (Some []) 0;
       s2 = fst (snd (snd del));
       fwd = tailnet_forward_set_all fw_demo_env map_nvs Map.empty 1 s2 (Some [fw_demo_rule]) 1;
       r = fw_reboot map_nvs (fst (snd del)) map_nvs (fst (snd fwd)) 1
   in pm_listens s1 = [(6, 8080)] \<and> fst del = ESP_FAIL \<and> pm_listens s2 = [] \<and> fst fwd = ESP_OK
      \<and> pm_listens r = [(6, 8080)] \<and> tn_listens r = [(6, 8080)]"
  by code_simp

end
