(* ===== verification/Route_Hook.thy ===== *)
theory Route_Hook
  imports Forwarding
begin

text \<open>
  Routing (\<open>main/lwip_route_hook.c\<close>): the hook that lwIP asks for the output interface of every
  packet, the explanation of a route that the web UI shows, the supervisor task that moves the
  default route and rebuilds the accepted subnet routes, and the wrapper of lwIP's NAPT.

  lwIP's interface list is a list of records; \<open>ni_ptr\<close> stands for the address of the
  \<open>struct netif\<close>.  The hook of ESP-IDF that the wrapper falls back to, lwIP's NAPT, microlink
  and the ping sessions are parameters.  The throttled log lines are not modelled.
\<close>

section \<open>Interfaces\<close>

record lw_netif =
  ni_ptr :: nat
  ni_name :: "char \<times> char"
  ni_num :: u8
  ni_addr :: u32
  ni_mask :: u32
  ni_up :: bool
  ni_link :: bool
  ni_napt :: u8

definition ip_in_cgnat :: "u32 \<Rightarrow> bool" where
  "ip_in_cgnat ip \<longleftrightarrow> ip AND 0xFFC00000 = 0x64400000"

text \<open>The tunnel is recognised by its address: the first interface with one in 100.64.0.0/10.\<close>

definition find_wg_netif :: "lw_netif list \<Rightarrow> lw_netif option" where
  "find_wg_netif nl = find (\<lambda>n. ni_addr n \<noteq> 0 \<and> ip_in_cgnat (htonl (ni_addr n))) nl"

definition netif_is_ap :: "lw_netif \<Rightarrow> bool" where "netif_is_ap n \<longleftrightarrow> ni_name n = (CHR ''a'', CHR ''p'')"
definition netif_is_sta :: "lw_netif \<Rightarrow> bool" where "netif_is_sta n \<longleftrightarrow> ni_name n = (CHR ''s'', CHR ''t'')"

definition find_sta_netif :: "lw_netif list \<Rightarrow> lw_netif option" where
  "find_sta_netif nl = find (\<lambda>n. netif_is_sta n \<and> ni_up n \<and> ni_link n) nl"

text \<open>A peer of the netmap: its tailnet address, name and advertised subnets (host order).\<close>

record ml_peer =
  mp_vpn_ip :: u32
  mp_hostname :: string
  mp_routes :: "(u32 \<times> u8) list"

text \<open>
  What a routing decision reads: the interfaces, the default one, the settings, the accepted
  routes and the peers (\<open>None\<close>: no microlink; an unreadable peer is \<open>None\<close> in the list).
\<close>

record route_env =
  re_netifs :: "lw_netif list"
  re_default :: "lw_netif option"
  re_exit_node :: u32
  re_lan_bypass :: bool
  re_accept_routes :: bool
  re_routes :: "(u32 \<times> u8) list"
  re_snat :: bool
  re_advertise_exit :: bool
  re_peers :: "ml_peer option list option"

section \<open>The hook\<close>

definition is_private :: "u32 \<Rightarrow> bool" where
  "is_private d \<longleftrightarrow> d AND 0xFF000000 = 0x0A000000 \<or> d AND 0xFFF00000 = 0xAC100000 \<or> d AND 0xFFFF0000 = 0xC0A80000"

definition route_mask :: "u8 \<Rightarrow> u32" where
  "route_mask plen = (if plen = 32 then 0xFFFFFFFF else push_bit (nat (32 - int (unat plen))) 0xFFFFFFFF)"

definition src_is_local :: "lw_netif list \<Rightarrow> u32 \<Rightarrow> bool" where
  "src_is_local nl src \<longleftrightarrow> list_ex (\<lambda>n. src = ni_addr n) nl"

fun accept_match :: "(u32 \<times> u8) list \<Rightarrow> u32 \<Rightarrow> bool" where
  "accept_match [] dst = False"
| "accept_match ((network, plen) # rs) dst =
     (if plen = 0 \<or> 32 < plen then accept_match rs dst
      else if dst AND route_mask plen = network AND route_mask plen then True
      else accept_match rs dst)"

definition accept_route_applies :: "route_env \<Rightarrow> u32 option \<Rightarrow> u32 \<Rightarrow> bool" where
  "accept_route_applies env src dst \<longleftrightarrow>
     re_accept_routes env \<and> re_routes env \<noteq> [] \<and>
     (case src of None \<Rightarrow> False
      | Some s \<Rightarrow> s \<noteq> 0 \<and> \<not> src_is_local (re_netifs env) s \<and> accept_match (re_routes env) dst)"

text \<open>Step 2: an interface whose prefix holds the destination, else the first usable station.\<close>

fun lan_scan :: "u32 \<Rightarrow> lw_netif option \<Rightarrow> lw_netif list \<Rightarrow> lw_netif + lw_netif option" where
  "lan_scan d sta [] = Inr sta"
| "lan_scan d sta (n # ns) =
     (if ni_addr n = 0 then lan_scan d sta ns
      else if ip_in_cgnat (htonl (ni_addr n)) then lan_scan d sta ns
      else if d AND ni_mask n = ni_addr n AND ni_mask n then Inl n
      else lan_scan d (if sta = None \<and> netif_is_sta n \<and> ni_up n \<and> ni_link n then Some n else sta) ns)"

definition lan_bypass :: "route_env \<Rightarrow> u32 \<Rightarrow> lw_netif option" where
  "lan_bypass env d =
     (if re_exit_node env \<noteq> 0 \<and> re_lan_bypass env
      then case lan_scan d None (re_netifs env) of
             Inl n \<Rightarrow> Some n
           | Inr sta \<Rightarrow> if is_private (htonl d) \<and> sta \<noteq> None then sta else None
      else None)"

text \<open>Step 3: the router's own traffic to the station, forwarded traffic into the tunnel.\<close>

definition src_is_self :: "lw_netif list \<Rightarrow> u32 option \<Rightarrow> bool" where
  "src_is_self nl src = (case src of None \<Rightarrow> True | Some s \<Rightarrow> s = 0 \<or> src_is_local nl s)"

definition exit_split :: "route_env \<Rightarrow> u32 option \<Rightarrow> u32 \<Rightarrow> lw_netif option" where
  "exit_split env src dst =
     (if re_exit_node env = 0 then None
      else if src_is_self (re_netifs env) src
      then (if \<not> is_private dst then find (\<lambda>n. netif_is_sta n \<and> ni_up n \<and> ni_link n) (re_netifs env) else None)
      else if \<not> is_private dst
      then (case find_wg_netif (re_netifs env) of
              Some wg \<Rightarrow> if ni_up wg then Some wg else None
            | None \<Rightarrow> None)
      else None)"

text \<open>The wrapper; addresses are in network byte order and \<open>None\<close> is \<open>NULL\<close>.\<close>

definition ip4_route_src_hook ::
  "route_env \<Rightarrow> (u32 option \<Rightarrow> u32 option \<Rightarrow> lw_netif option) \<Rightarrow> u32 option \<Rightarrow> u32 option \<Rightarrow> lw_netif option" where
  "ip4_route_src_hook env real src dest =
     (case dest of None \<Rightarrow> None
      | Some d \<Rightarrow>
         (let dst = htonl d in
          if ip_in_cgnat dst then find_wg_netif (re_netifs env)
          else if accept_route_applies env src dst then find_wg_netif (re_netifs env)
          else case lan_bypass env d of Some n \<Rightarrow> Some n
          | None \<Rightarrow>
             (case exit_split env src dst of Some n \<Rightarrow> Some n
              | None \<Rightarrow> real src dest)))"

section \<open>The explanation\<close>

definition netif_label :: "lw_netif \<Rightarrow> string" where
  "netif_label n = [fst (ni_name n), snd (ni_name n)] @ dec (unat (ni_num n))"

definition name_netif :: "lw_netif option \<Rightarrow> nat \<Rightarrow> string" where
  "name_netif n z = take (z - 1) (case n of None \<Rightarrow> ''no-route'' | Some n \<Rightarrow> netif_label n)"

definition short_peer_name :: "string \<Rightarrow> nat \<Rightarrow> string" where
  "short_peer_name src z =
     take (z - 1) (if src = [] then ''(unnamed)'' else takeWhile (\<lambda>c. c \<noteq> CHR ''.'') src)"

text \<open>The UTF-8 arrow of the texts.\<close>

definition arrow :: string where "arrow = [CHR 0xE2, CHR 0x86, CHR 0x92]"

definition explain_self :: "lw_netif list \<Rightarrow> u32 \<Rightarrow> bool" where
  "explain_self nl src_hbo =
     (if src_hbo = 0 then True else list_ex (\<lambda>n. htonl (ni_addr n) = src_hbo) nl)"

fun peer_of_route :: "ml_peer option list \<Rightarrow> u32 \<Rightarrow> u8 \<Rightarrow> string option" where
  "peer_of_route [] nw plen = None"
| "peer_of_route (None # ps) nw plen = peer_of_route ps nw plen"
| "peer_of_route (Some p # ps) nw plen =
     (if list_ex (\<lambda>r. fst r = nw \<and> snd r = plen) (mp_routes p) then Some (short_peer_name (mp_hostname p) 40)
      else peer_of_route ps nw plen)"

fun peer_of_ip :: "ml_peer option list \<Rightarrow> u32 \<Rightarrow> string option" where
  "peer_of_ip [] ip = None"
| "peer_of_ip (None # ps) ip = peer_of_ip ps ip"
| "peer_of_ip (Some p # ps) ip =
     (if mp_vpn_ip p = ip then Some (short_peer_name (mp_hostname p) 40) else peer_of_ip ps ip)"

definition or_else :: "'a option \<Rightarrow> 'a \<Rightarrow> 'a" where
  "or_else x d = (case x of None \<Rightarrow> d | Some v \<Rightarrow> v)"

definition exit_host :: "route_env \<Rightarrow> string" where
  "exit_host env = or_else (Option.bind (re_peers env) (\<lambda>ps. peer_of_ip ps (re_exit_node env))) ''exit-node peer''"

text \<open>Step 1b of the explanation: the text of the first accepted route that matches.\<close>

fun explain_routes :: "ml_peer option list option \<Rightarrow> u32 \<Rightarrow> (u32 \<times> u8) list \<Rightarrow> string option" where
  "explain_routes peers dst [] = None"
| "explain_routes peers dst ((nw, plen) # rs) =
     (if plen = 0 \<or> 32 < plen then explain_routes peers dst rs
      else if dst AND route_mask plen = nw AND route_mask plen
      then Some (''matches accepted route '' @ ip4_str (htonl nw) @ ''/'' @ dec (unat plen) @ '' '' @ arrow
             @ '' WG tunnel via '' @ or_else (Option.bind peers (\<lambda>ps. peer_of_route ps nw plen)) ''unknown peer'')
      else explain_routes peers dst rs)"

fun explain_prefix :: "u32 \<Rightarrow> lw_netif list \<Rightarrow> lw_netif option \<Rightarrow> lw_netif option \<times> lw_netif option" where
  "explain_prefix d [] sta = (None, sta)"
| "explain_prefix d (n # ns) sta =
     (if ni_addr n = 0 \<or> ip_in_cgnat (htonl (ni_addr n)) then explain_prefix d ns sta
      else if d AND ni_mask n = ni_addr n AND ni_mask n then (Some n, sta)
      else explain_prefix d ns (case sta of Some m \<Rightarrow> Some m
             | None \<Rightarrow> if netif_is_sta n \<and> ni_up n \<and> ni_link n then Some n else None))"

definition explain_lan :: "route_env \<Rightarrow> u32 \<Rightarrow> (lw_netif option \<times> string) option" where
  "explain_lan env dst_hbo =
     (if re_exit_node env \<noteq> 0 \<and> re_lan_bypass env
      then case explain_prefix (htonl dst_hbo) (re_netifs env) None of
             (Some n, _) \<Rightarrow> Some (Some n, ''netif prefix match (lan-bypass step 2a, exit-node on)'')
           | (None, sta) \<Rightarrow>
               if is_private dst_hbo \<and> sta \<noteq> None
               then Some (sta, ''RFC1918 destination, lan-bypass '' @ arrow @ '' STA upstream'') else None
      else None)"

definition explain_exit :: "route_env \<Rightarrow> u32 \<Rightarrow> u32 \<Rightarrow> (lw_netif option \<times> string) option" where
  "explain_exit env src_hbo dst_hbo =
     (if re_exit_node env \<noteq> 0 \<and> \<not> is_private dst_hbo
      then if explain_self (re_netifs env) src_hbo
           then map_option (\<lambda>n. (Some n, ''self-origin public dst '' @ arrow
                    @ '' STA (bypassing exit-node to break chicken-and-egg)''))
                  (find (\<lambda>n. netif_is_sta n \<and> ni_up n \<and> ni_link n) (re_netifs env))
           else (case find_wg_netif (re_netifs env) of
                   None \<Rightarrow> None
                 | Some wg \<Rightarrow> if ni_up wg
                     then Some (Some wg, ''forwarded public dst '' @ arrow @ '' WG tunnel via exit-node '' @ exit_host env)
                     else None)
      else None)"

text \<open>What lwIP does when no hook decides: an interface whose prefix matches, then the default.\<close>

definition explain_default :: "route_env \<Rightarrow> u32 \<Rightarrow> lw_netif option \<times> string" where
  "explain_default env dst_hbo =
     (case find (\<lambda>n. ni_addr n \<noteq> 0 \<and> ni_up n \<and> ni_link n \<and>
                     htonl dst_hbo AND ni_mask n = ni_addr n AND ni_mask n) (re_netifs env) of
        Some n \<Rightarrow> (Some n, ''subnet match on '' @ netif_label n @ [CHR 0x27] @ ''s own prefix'')
      | None \<Rightarrow>
         (case re_default env of
            None \<Rightarrow> (None, ''no route'')
          | Some n \<Rightarrow> (Some n,
              if re_exit_node env \<noteq> 0 \<and> Some (ni_ptr n) = map_option ni_ptr (find_wg_netif (re_netifs env))
              then ''exit-node default route '' @ arrow @ '' WG tunnel via '' @ exit_host env
              else ''netif_default fallback'')))"

text \<open>Label and reason, cut to the sizes of the caller's buffers; addresses in host order.\<close>

definition route_explain :: "route_env \<Rightarrow> u32 \<Rightarrow> u32 \<Rightarrow> nat \<Rightarrow> nat \<Rightarrow> string \<times> string" where
  "route_explain env src_hbo dst_hbo netif_size out_size =
     (let self = explain_self (re_netifs env) src_hbo;
          r = (if ip_in_cgnat dst_hbo
               then (find_wg_netif (re_netifs env), ''CGNAT (100.64.0.0/10) '' @ arrow @ '' WG tunnel (Phase 1.5c built-in)'')
               else case (if \<not> self \<and> re_accept_routes env \<and> re_routes env \<noteq> []
                          then explain_routes (re_peers env) dst_hbo (re_routes env) else None) of
                 Some text \<Rightarrow> (find_wg_netif (re_netifs env), text)
               | None \<Rightarrow>
                  (case explain_lan env dst_hbo of Some x \<Rightarrow> x
                   | None \<Rightarrow>
                      (case explain_exit env src_hbo dst_hbo of Some x \<Rightarrow> x
                       | None \<Rightarrow> explain_default env dst_hbo)))
      in (name_netif (fst r) netif_size, take (out_size - 1) (snd r)))"

section \<open>The explanation follows the hook\<close>

lemma explain_self_iff: "explain_self nl (htonl s) \<longleftrightarrow> src_is_self nl (Some s)"
  by (auto simp: explain_self_def src_is_self_def src_is_local_def list_ex_iff)

lemma explain_self_0: "explain_self nl 0" by (simp add: explain_self_def)

lemma explain_routes_iff: "(explain_routes peers dst rs = None) = (\<not> accept_match rs dst)"
  by (induction rs dst rule: accept_match.induct) auto

lemma sta_choice: "(case sta of Some m \<Rightarrow> Some m | None \<Rightarrow> if P then Some n else None) = (if sta = None \<and> P then Some n else sta)"
  by (cases sta) auto

lemma explain_prefix_scan:
  "lan_scan d sta nl = Inl n \<Longrightarrow> fst (explain_prefix d nl sta) = Some n"
  "lan_scan d sta nl = Inr m \<Longrightarrow> explain_prefix d nl sta = (None, m)"
proof (induction nl arbitrary: sta)
  case (Cons k ks)
  {
    case 1
    with Cons.IH(1) show ?case by (simp only: lan_scan.simps explain_prefix.simps sta_choice) (auto split: if_split_asm)
  next
    case 2
    with Cons.IH(2) show ?case by (simp only: lan_scan.simps explain_prefix.simps sta_choice) (auto split: if_split_asm)
  }
qed simp_all

lemma explain_lan_bypass:
  "map_option fst (explain_lan env (htonl d)) = map_option Some (lan_bypass env d)"
proof (cases "lan_scan d None (re_netifs env)")
  case (Inl n)
  then obtain m where "explain_prefix d (re_netifs env) None = (Some n, m)"
    using explain_prefix_scan(1) [of d None "re_netifs env" n] by (metis prod.collapse)
  with Inl show ?thesis by (simp add: explain_lan_def lan_bypass_def)
next
  case (Inr m)
  from explain_prefix_scan(2) [OF this] Inr show ?thesis
    by (cases m) (simp_all add: explain_lan_def lan_bypass_def)
qed

lemma explain_exit_split:
  "explain_self (re_netifs env) s = src_is_self (re_netifs env) src \<Longrightarrow>
   map_option fst (explain_exit env s dst) = map_option Some (exit_split env src dst)"
  by (auto simp: explain_exit_def exit_split_def option.map_comp comp_def split: option.splits)

text \<open>The source the hook sees when the explanation is asked for \<open>s\<close> (0: the router itself).\<close>

definition hook_src :: "u32 \<Rightarrow> u32 option" where
  "hook_src s = (if s = 0 then None else Some (htonl s))"

lemma explain_self_hook_src: "explain_self nl s = src_is_self nl (hook_src s)"
  using explain_self_iff [of nl "htonl s"] by (simp add: hook_src_def explain_self_0 src_is_self_def)

lemma accept_route_applies_hook_src:
  "accept_route_applies env (hook_src s) dst \<longleftrightarrow>
     \<not> explain_self (re_netifs env) s \<and> re_accept_routes env \<and> re_routes env \<noteq> [] \<and> accept_match (re_routes env) dst"
  by (auto simp: accept_route_applies_def explain_self_hook_src src_is_self_def hook_src_def)

text \<open>The hook decides by itself when its answer is the same whatever the hook of ESP-IDF says.\<close>

definition hook_decides :: "route_env \<Rightarrow> u32 option \<Rightarrow> u32 \<Rightarrow> bool" where
  "hook_decides env src d \<longleftrightarrow>
     ip_in_cgnat (htonl d) \<or> accept_route_applies env src (htonl d) \<or> lan_bypass env d \<noteq> None
     \<or> exit_split env src (htonl d) \<noteq> None"

lemma hook_decides_iff:
  "hook_decides env src d \<longleftrightarrow>
     (\<exists>r. \<forall>real. ip4_route_src_hook env real src (Some d) = r)"
proof
  assume "hook_decides env src d"
  then have "ip4_route_src_hook env real src (Some d) = ip4_route_src_hook env (\<lambda>_ _. None) src (Some d)" for real
    by (cases "lan_bypass env d") (auto simp: hook_decides_def ip4_route_src_hook_def Let_def)
  then show "\<exists>r. \<forall>real. ip4_route_src_hook env real src (Some d) = r" by blast
next
  assume ex: "\<exists>r. \<forall>real. ip4_route_src_hook env real src (Some d) = r"
  show "hook_decides env src d"
  proof (rule ccontr)
    assume "\<not> hook_decides env src d"
    then have "ip4_route_src_hook env real src (Some d) = real src (Some d)" for real
      by (simp add: hook_decides_def ip4_route_src_hook_def Let_def)
    with ex have "\<exists>r. \<forall>real :: u32 option \<Rightarrow> u32 option \<Rightarrow> lw_netif option. real src (Some d) = r" by simp
    then obtain r where r: "\<And>real :: u32 option \<Rightarrow> u32 option \<Rightarrow> lw_netif option. real src (Some d) = r" by blast
    from r [of "\<lambda>_ _. None"] r [of "\<lambda>_ _. Some undefined"] show False by simp
  qed
qed

text \<open>
  C28: The route lookup of the web UI does not drift from the live hook: for every source and
  destination for which the hook's answer does not depend on the fallback of ESP-IDF, the
  interface that \<open>route_explain\<close> names is the one the hook returns (or \<open>no-route\<close> for none).
\<close>

theorem route_explain_agrees:
  assumes "\<And>real. ip4_route_src_hook env real (hook_src s) (Some (htonl dst)) = r"
  shows "fst (route_explain env s dst z z') = name_netif r z"
proof -
  have "hook_decides env (hook_src s) (htonl dst)" using hook_decides_iff assms by blast
  then consider "ip_in_cgnat dst"
    | "\<not> ip_in_cgnat dst" "accept_route_applies env (hook_src s) dst"
    | n where "\<not> ip_in_cgnat dst" "\<not> accept_route_applies env (hook_src s) dst" "lan_bypass env (htonl dst) = Some n"
    | n where "\<not> ip_in_cgnat dst" "\<not> accept_route_applies env (hook_src s) dst" "lan_bypass env (htonl dst) = None"
        "exit_split env (hook_src s) dst = Some n"
    by (auto simp: hook_decides_def)
  then show ?thesis
  proof cases
    case 1
    then show ?thesis using assms by (simp add: ip4_route_src_hook_def route_explain_def Let_def)
  next
    case 2
    then have "r = find_wg_netif (re_netifs env)" using assms by (simp add: ip4_route_src_hook_def Let_def)
    with 2 show ?thesis using explain_routes_iff [of "re_peers env" dst "re_routes env"]
      by (auto simp: accept_route_applies_hook_src route_explain_def Let_def)
  next
    case 3
    then have r: "r = Some n" using assms by (simp add: ip4_route_src_hook_def Let_def)
    from 3 explain_lan_bypass [of env "htonl dst"] obtain t where t: "explain_lan env dst = Some (Some n, t)" by auto
    from 3(2) have "(if \<not> explain_self (re_netifs env) s \<and> re_accept_routes env \<and> re_routes env \<noteq> []
        then explain_routes (re_peers env) dst (re_routes env) else None) = None"
      by (auto simp: accept_route_applies_hook_src explain_routes_iff)
    with 3(1) r t show ?thesis by (simp add: route_explain_def Let_def)
  next
    case 4
    then have r: "r = Some n" using assms by (simp add: ip4_route_src_hook_def Let_def)
    from 4(3) explain_lan_bypass [of env "htonl dst"] have l: "explain_lan env dst = None" by simp
    from 4(4) explain_exit_split [OF explain_self_hook_src, of env s dst] obtain t
      where t: "explain_exit env s dst = Some (Some n, t)" by auto
    from 4(2) have "(if \<not> explain_self (re_netifs env) s \<and> re_accept_routes env \<and> re_routes env \<noteq> []
        then explain_routes (re_peers env) dst (re_routes env) else None) = None"
      by (auto simp: accept_route_applies_hook_src explain_routes_iff)
    with 4(1) r l t show ?thesis by (simp add: route_explain_def Let_def)
  qed
qed

text \<open>A router with a station, an access point and the tunnel; peer \<open>nas\<close> is the exit node.\<close>

definition demo_sta :: lw_netif where
  "demo_sta = \<lparr>ni_ptr = 1, ni_name = (CHR ''s'', CHR ''t''), ni_num = 1, ni_addr = 0x3201A8C0, ni_mask = 0x00FFFFFF,
     ni_up = True, ni_link = True, ni_napt = 0\<rparr>"

definition demo_ap :: lw_netif where
  "demo_ap = \<lparr>ni_ptr = 2, ni_name = (CHR ''a'', CHR ''p''), ni_num = 2, ni_addr = 0x0104A8C0, ni_mask = 0x00FFFFFF,
     ni_up = True, ni_link = True, ni_napt = 1\<rparr>"

definition demo_wg :: lw_netif where
  "demo_wg = \<lparr>ni_ptr = 3, ni_name = (CHR ''w'', CHR ''g''), ni_num = 0, ni_addr = 0x05004064, ni_mask = 0x0000C0FF,
     ni_up = True, ni_link = True, ni_napt = 0\<rparr>"

definition demo_env :: route_env where
  "demo_env = \<lparr>re_netifs = [demo_wg, demo_ap, demo_sta], re_default = Some demo_sta, re_exit_node = 0x64400009,
     re_lan_bypass = True, re_accept_routes = True, re_routes = [(0x0A090000, 16)], re_snat = False,
     re_advertise_exit = False,
     re_peers = Some [Some \<lparr>mp_vpn_ip = 0x64400009, mp_hostname = ''nas.example.ts.net'', mp_routes = [(0x0A090000, 16)]\<rparr>]\<rparr>"

theorem route_explain_agrees_witness:
  "fst (route_explain demo_env 0xC0A80402 0x08080808 16 96) = name_netif (Some demo_wg) 16
   \<and> snd (route_explain demo_env 0xC0A80402 0x08080808 16 96)
      = ''forwarded public dst '' @ arrow @ '' WG tunnel via exit-node nas''"
proof -
  have e: "exit_split demo_env (hook_src 0xC0A80402) 0x08080808 = Some demo_wg" by code_simp
  have l: "lan_bypass demo_env (htonl 0x08080808) = None" by code_simp
  have a: "\<not> accept_route_applies demo_env (hook_src 0xC0A80402) 0x08080808" by code_simp
  have c: "\<not> ip_in_cgnat 0x08080808" by code_simp
  have r: "ip4_route_src_hook demo_env real (hook_src 0xC0A80402) (Some (htonl 0x08080808)) = Some demo_wg" for real
    using e l a c by (simp add: ip4_route_src_hook_def Let_def)
  from route_explain_agrees [OF r, of 16 96] show ?thesis by code_simp
qed

section \<open>What the exit node sees\<close>

lemma find_wg_cgnat: "find_wg_netif nl = Some n \<Longrightarrow> n \<in> set nl \<and> ip_in_cgnat (htonl (ni_addr n))"
  by (auto simp: find_wg_netif_def find_Some_iff)

lemma find_sta: "find (\<lambda>n. netif_is_sta n \<and> ni_up n \<and> ni_link n) nl = Some n \<Longrightarrow> n \<in> set nl \<and> netif_is_sta n"
  by (auto simp: find_Some_iff)

lemma lan_scan_not_tunnel:
  "lan_scan d sta nl = Inl n \<Longrightarrow> \<not> ip_in_cgnat (htonl (ni_addr n))"
  "lan_scan d sta nl = Inr (Some n) \<Longrightarrow> sta = Some n \<or> \<not> ip_in_cgnat (htonl (ni_addr n))"
  by (induction d sta nl rule: lan_scan.induct) (auto split: if_split_asm)

lemma lan_bypass_not_tunnel: "lan_bypass env d = Some n \<Longrightarrow> \<not> ip_in_cgnat (htonl (ni_addr n))"
  using lan_scan_not_tunnel [of d None "re_netifs env"]
  by (auto simp: lan_bypass_def split: if_split_asm sum.splits)

text \<open>
  C26: The router's own traffic never loops into the tunnel while an exit node is selected: for a
  self-originated packet (no source, the unspecified source or the address of an interface) to a
  destination outside the tailnet range, an interface the hook chooses by itself is never one
  with a tailnet address, provided the station has none.
\<close>

theorem self_origin_avoids_tunnel:
  assumes "src_is_self (re_netifs env) src" and "\<not> ip_in_cgnat (htonl d)"
    and "\<And>n. n \<in> set (re_netifs env) \<Longrightarrow> netif_is_sta n \<Longrightarrow> \<not> ip_in_cgnat (htonl (ni_addr n))"
  shows "ip4_route_src_hook env real src (Some d) = real src (Some d) \<or>
    (\<exists>n. ip4_route_src_hook env real src (Some d) = Some n \<and> \<not> ip_in_cgnat (htonl (ni_addr n)))"
proof -
  have a: "\<not> accept_route_applies env src (htonl d)"
    using assms(1) by (auto simp: accept_route_applies_def src_is_self_def split: option.splits)
  show ?thesis
  proof (cases "lan_bypass env d")
    case (Some n)
    then show ?thesis
      using a assms(2) lan_bypass_not_tunnel [OF Some] by (simp add: ip4_route_src_hook_def Let_def)
  next
    case None
    show ?thesis
    proof (cases "exit_split env src (htonl d)")
      case None
      then show ?thesis using \<open>lan_bypass env d = None\<close> a assms(2) by (simp add: ip4_route_src_hook_def Let_def)
    next
      case (Some n)
      then have "find (\<lambda>n. netif_is_sta n \<and> ni_up n \<and> ni_link n) (re_netifs env) = Some n"
        using assms(1) by (simp add: exit_split_def split: if_split_asm)
      from find_sta [OF this] have "\<not> ip_in_cgnat (htonl (ni_addr n))" using assms(3) by blast
      then show ?thesis using Some None a assms(2) by (simp add: ip4_route_src_hook_def Let_def)
    qed
  qed
qed

theorem self_origin_avoids_tunnel_witness:
  "ip4_route_src_hook demo_env (\<lambda>_ _. Some demo_wg) None (Some 0x08080808) = Some demo_wg \<or>
   (\<exists>n. ip4_route_src_hook demo_env (\<lambda>_ _. Some demo_wg) None (Some 0x08080808) = Some n
        \<and> \<not> ip_in_cgnat (htonl (ni_addr n)))"
proof -
  have s: "src_is_self (re_netifs demo_env) None" by (simp add: src_is_self_def)
  have c: "\<not> ip_in_cgnat (htonl 0x08080808)" by code_simp
  have "list_all (\<lambda>n. netif_is_sta n \<longrightarrow> \<not> ip_in_cgnat (htonl (ni_addr n))) (re_netifs demo_env)" by code_simp
  then have n: "netif_is_sta n \<Longrightarrow> \<not> ip_in_cgnat (htonl (ni_addr n))" if "n \<in> set (re_netifs demo_env)" for n
    using that by (auto simp: list_all_iff)
  from self_origin_avoids_tunnel [OF s c n, of "\<lambda>_ _. Some demo_wg"] show ?thesis by simp
qed





end
