(* ===== verification/Route_Super.thy ===== *)
theory Route_Super
  imports Route_Hook
begin

text \<open>
  The rest of \<open>main/lwip_route_hook.c\<close>: one round of the supervisor task, which moves the default
  route, pins the tunnel's socket, keeps the exit node's session warm and rebuilds the accepted
  routes, and the wrapper of lwIP's NAPT.
\<close>

section \<open>The supervisor\<close>

text \<open>
  The static variables, \<open>netif_default\<close> and the accepted routes.  A ping session is there or not
  (its handle is not used otherwise).
\<close>

record sup_state =
  sv_default :: "nat option"
  sv_original :: "nat option"
  sv_pinned :: bool
  sv_ping :: bool
  sv_target :: u32
  sv_routes :: "(u32 \<times> u8) list"

text \<open>
  What a round observes: interfaces, settings, peers (\<open>None\<close>: no microlink), whether pinning the
  tunnel's socket succeeds and whether a ping session can be created and started.
\<close>

record sup_env =
  se_netifs :: "lw_netif list"
  se_exit_node :: u32
  se_accept_routes :: bool
  se_peers :: "ml_peer option list option"
  se_pin_ok :: bool
  se_ping_new :: bool
  se_ping_start :: bool

definition TAILSCALE_ACCEPTED_ROUTES_MAX :: nat where "TAILSCALE_ACCEPTED_ROUTES_MAX = 32"

definition keepalive_stop :: "sup_state \<Rightarrow> sup_state" where
  "keepalive_stop s = s\<lparr>sv_ping := False, sv_target := 0\<rparr>"

definition keepalive_start :: "sup_env \<Rightarrow> u32 \<Rightarrow> sup_state \<Rightarrow> sup_state" where
  "keepalive_start e target s =
     (if sv_target s = target \<and> sv_ping s then s
      else (let s = keepalive_stop s in
            if se_ping_new e \<and> se_ping_start e then s\<lparr>sv_ping := True, sv_target := target\<rparr>
            else s\<lparr>sv_ping := False\<rparr>))"

text \<open>The two nested loops that fill the table of accepted routes up to its size.\<close>

fun add_routes :: "(u32 \<times> u8) list \<Rightarrow> (u32 \<times> u8) list \<Rightarrow> (u32 \<times> u8) list" where
  "add_routes [] acc = acc"
| "add_routes (r # rs) acc =
     (if length acc < TAILSCALE_ACCEPTED_ROUTES_MAX then add_routes rs (acc @ [r]) else acc)"

fun collect_routes :: "ml_peer option list \<Rightarrow> (u32 \<times> u8) list \<Rightarrow> (u32 \<times> u8) list" where
  "collect_routes [] acc = acc"
| "collect_routes (p # ps) acc =
     (if \<not> length acc < TAILSCALE_ACCEPTED_ROUTES_MAX then acc
      else case p of None \<Rightarrow> collect_routes ps acc
           | Some p \<Rightarrow> collect_routes ps (add_routes (mp_routes p) acc))"

definition rebuild_routes :: "sup_env \<Rightarrow> sup_state \<Rightarrow> sup_state" where
  "rebuild_routes e s =
     (if se_accept_routes e
      then s\<lparr>sv_routes := collect_routes (case se_peers e of None \<Rightarrow> [] | Some ps \<Rightarrow> ps) []\<rparr>
      else if sv_routes s \<noteq> [] then s\<lparr>sv_routes := []\<rparr> else s)"

definition route_supervisor_round :: "sup_env \<Rightarrow> sup_state \<Rightarrow> sup_state" where
  "route_supervisor_round e s =
     (let wg = find_wg_netif (se_netifs e);
          sta = find_sta_netif (se_netifs e);
          wg_ready = (case wg of None \<Rightarrow> False | Some n \<Rightarrow> ni_up n);
          s1 = (if sv_original s = None \<and> sv_default s \<noteq> None \<and> (wg = None \<or> sv_default s \<noteq> map_option ni_ptr wg)
                then s\<lparr>sv_original := sv_default s\<rparr> else s);
          r = (if se_exit_node e \<noteq> 0
               then (if wg_ready \<and> sta \<noteq> None
                     then (map_option ni_ptr wg,
                           keepalive_start e (se_exit_node e)
                             (if \<not> sv_pinned s1 \<and> se_peers e \<noteq> None \<and> se_pin_ok e
                              then s1\<lparr>sv_pinned := True\<rparr> else s1))
                     else (None, s1))
               else (sv_original s1,
                     keepalive_stop (if sv_pinned s1 then s1\<lparr>sv_pinned := False\<rparr> else s1)));
          want = fst r;
          s2 = (if want \<noteq> None \<and> want \<noteq> sv_default (snd r) then (snd r)\<lparr>sv_default := want\<rparr> else snd r)
      in rebuild_routes e s2)"

section \<open>Accepted routes\<close>

lemma add_routes_take:
  "length acc \<le> TAILSCALE_ACCEPTED_ROUTES_MAX \<Longrightarrow>
   add_routes rs acc = take TAILSCALE_ACCEPTED_ROUTES_MAX (acc @ rs)"
  by (induction rs acc rule: add_routes.induct) auto

definition advertised :: "ml_peer option list \<Rightarrow> (u32 \<times> u8) list" where
  "advertised ps = concat (map (\<lambda>p. case p of None \<Rightarrow> [] | Some p \<Rightarrow> mp_routes p) ps)"

lemma advertised_simps [simp]:
  "advertised [] = []" "advertised (None # ps) = advertised ps" "advertised (Some p # ps) = mp_routes p @ advertised ps"
  by (simp_all add: advertised_def)

lemma take_take_append: "take n (take n xs @ ys) = take n (xs @ ys)"
  by (cases "length xs \<le> n") auto

lemma collect_routes_take:
  "length acc \<le> TAILSCALE_ACCEPTED_ROUTES_MAX \<Longrightarrow>
   collect_routes ps acc = take TAILSCALE_ACCEPTED_ROUTES_MAX (acc @ advertised ps)"
proof (induction ps arbitrary: acc)
  case (Cons p ps)
  show ?case
  proof (cases "length acc < TAILSCALE_ACCEPTED_ROUTES_MAX")
    case False
    with Cons.prems have "length acc = TAILSCALE_ACCEPTED_ROUTES_MAX" by simp
    then show ?thesis by simp
  next
    case True
    show ?thesis
    proof (cases p)
      case None
      with True Cons show ?thesis by simp
    next
      case (Some q)
      have "collect_routes (p # ps) acc = collect_routes ps (take TAILSCALE_ACCEPTED_ROUTES_MAX (acc @ mp_routes q))"
        using True Some Cons.prems by (simp add: add_routes_take)
      also have "\<dots> = take TAILSCALE_ACCEPTED_ROUTES_MAX (take TAILSCALE_ACCEPTED_ROUTES_MAX (acc @ mp_routes q) @ advertised ps)"
        by (rule Cons.IH) simp
      also have "\<dots> = take TAILSCALE_ACCEPTED_ROUTES_MAX ((acc @ mp_routes q) @ advertised ps)"
        by (rule take_take_append)
      finally show ?thesis using Some by simp
    qed
  qed
qed simp

lemma round_routes:
  "sv_routes (route_supervisor_round e s) =
     (if se_accept_routes e
      then take TAILSCALE_ACCEPTED_ROUTES_MAX (advertised (case se_peers e of None \<Rightarrow> [] | Some ps \<Rightarrow> ps)) else [])"
proof -
  have *: "sv_routes (rebuild_routes e t) = (if se_accept_routes e
      then take TAILSCALE_ACCEPTED_ROUTES_MAX (advertised (case se_peers e of None \<Rightarrow> [] | Some ps \<Rightarrow> ps)) else [])" for t
    by (simp add: rebuild_routes_def collect_routes_take)
  show ?thesis unfolding route_supervisor_round_def Let_def by (rule *)
qed

lemma accept_match_iff:
  "accept_match rs dst \<longleftrightarrow>
     (\<exists>network plen. (network, plen) \<in> set rs \<and> 0 < plen \<and> plen \<le> 32 \<and>
        dst AND route_mask plen = network AND route_mask plen)"
  by (induction rs dst rule: accept_match.induct) (auto simp: not_less word_gt_0)

text \<open>
  C29: Composition of supervisor and hook.  After a round of the supervisor with accept-routes on,
  a forwarded packet whose destination lies in a subnet that a peer advertises (among the first
  32 routes of the readable peers, prefix length 1 to 32) is routed into the tunnel; with
  accept-routes off the table is empty after the round and no packet is routed by it.
\<close>

theorem accepted_subnet_routed:
  assumes "re_routes env = sv_routes (route_supervisor_round e s)" and "re_accept_routes env = se_accept_routes e"
    and "src \<noteq> 0" and "\<not> src_is_self (re_netifs env) (Some src)"
  shows "if se_accept_routes e
    then (\<forall>network plen. (network, plen) \<in> set (take TAILSCALE_ACCEPTED_ROUTES_MAX
              (advertised (case se_peers e of None \<Rightarrow> [] | Some ps \<Rightarrow> ps))) \<and> 0 < plen \<and> plen \<le> 32 \<and>
            htonl d AND route_mask plen = network AND route_mask plen \<longrightarrow>
            ip4_route_src_hook env real (Some src) (Some d) = find_wg_netif (re_netifs env))
    else re_routes env = [] \<and> \<not> accept_route_applies env (Some src) (htonl d)"
proof (cases "se_accept_routes e")
  case True
  have "ip4_route_src_hook env real (Some src) (Some d) = find_wg_netif (re_netifs env)"
    if m: "(network, plen) \<in> set (re_routes env)" "0 < plen" "plen \<le> 32"
      "htonl d AND route_mask plen = network AND route_mask plen" for network plen
  proof -
    have "accept_match (re_routes env) (htonl d)" using m accept_match_iff by blast
    moreover have "re_routes env \<noteq> []" using m(1) by auto
    ultimately have "accept_route_applies env (Some src) (htonl d)"
      using True assms(2-4) by (simp add: accept_route_applies_def src_is_self_def)
    then show ?thesis by (simp add: ip4_route_src_hook_def Let_def)
  qed
  with True show ?thesis by (simp only: assms(1) round_routes if_True) blast
next
  case False
  then show ?thesis by (simp add: assms(1) round_routes accept_route_applies_def)
qed

definition demo_sup :: sup_state where
  "demo_sup = \<lparr>sv_default = Some 1, sv_original = None, sv_pinned = False, sv_ping = False, sv_target = 0, sv_routes = []\<rparr>"

definition demo_sup_env :: sup_env where
  "demo_sup_env = \<lparr>se_netifs = re_netifs demo_env, se_exit_node = 0x64400009, se_accept_routes = True,
     se_peers = re_peers demo_env, se_pin_ok = True, se_ping_new = True, se_ping_start = True\<rparr>"

theorem accepted_subnet_routed_witness:
  "ip4_route_src_hook demo_env (\<lambda>_ _. None) (Some 0x0204A8C0) (Some (htonl 0x0A090102)) = Some demo_wg"
proof -
  have a: "re_routes demo_env = sv_routes (route_supervisor_round demo_sup_env demo_sup)"
    "re_accept_routes demo_env = se_accept_routes demo_sup_env" "\<not> src_is_self (re_netifs demo_env) (Some 0x0204A8C0)"
    by code_simp+
  have m: "se_accept_routes demo_sup_env"
    "(0x0A090000, 16) \<in> set (take TAILSCALE_ACCEPTED_ROUTES_MAX (advertised (case se_peers demo_sup_env of None \<Rightarrow> [] | Some ps \<Rightarrow> ps)))"
    "(0 :: u8) < 16 \<and> (16 :: u8) \<le> 32" "htonl (htonl 0x0A090102) AND route_mask 16 = 0x0A090000 AND route_mask 16"
    by code_simp+
  have "(0x0204A8C0 :: u32) \<noteq> 0" by simp
  from accepted_subnet_routed [OF a(1,2) this a(3), of "htonl 0x0A090102" "\<lambda>_ _. None", unfolded if_P [OF m(1)]] m(2-4)
  have "ip4_route_src_hook demo_env (\<lambda>_ _. None) (Some 0x0204A8C0) (Some (htonl 0x0A090102)) = find_wg_netif (re_netifs demo_env)"
    by blast
  also have "find_wg_netif (re_netifs demo_env) = Some demo_wg" by code_simp
  finally show ?thesis .
qed

section \<open>The exit node switch\<close>



section \<open>NAPT\<close>

text \<open>The fields of the IP header the wrapper reads; addresses are in network byte order.\<close>

record ip_hdr =
  ih_proto :: u8
  ih_hl :: nat
  ih_src :: u32
  ih_dest :: u32

definition set_napt :: "nat \<Rightarrow> u8 \<Rightarrow> lw_netif list \<Rightarrow> lw_netif list" where
  "set_napt ptr v nl = map (\<lambda>n. if ni_ptr n = ptr then n\<lparr>ni_napt := v\<rparr> else n) nl"

definition netif_at :: "nat \<Rightarrow> lw_netif list \<Rightarrow> lw_netif option" where
  "netif_at ptr nl = find (\<lambda>n. ni_ptr n = ptr) nl"

text \<open>Source and destination port, 0 when the packet has none; the payload starts at the IP header.\<close>

definition l4_ports :: "bytes option \<Rightarrow> ip_hdr \<Rightarrow> (u16 \<times> u16) option" where
  "l4_ports p h =
     (if (ih_proto h = 6 \<or> ih_proto h = 17) \<and> p \<noteq> None \<and> ih_hl h * 4 + 4 \<le> length (the p)
      then do { a \<leftarrow> be16 (the p) (ih_hl h * 4); b \<leftarrow> be16 (the p) (ih_hl h * 4 + 2); Some (a, b) }
      else Some (0, 0))"

text \<open>
  \<open>real\<close> is lwIP's NAPT: it may change the packet and the interfaces.  \<open>with_napt\<close> calls it with
  the flag of the input interface set and restores the flag.
\<close>

type_synonym 'w napt = "ip_hdr option \<Rightarrow> nat option \<Rightarrow> nat option \<Rightarrow> lw_netif list \<times> 'w \<Rightarrow> err \<times> lw_netif list \<times> 'w"

definition with_napt :: "'w napt \<Rightarrow> ip_hdr \<Rightarrow> nat \<Rightarrow> nat \<Rightarrow> lw_netif list \<times> 'w \<Rightarrow> err \<times> lw_netif list \<times> 'w" where
  "with_napt real h i out st =
     (let saved = (case netif_at i (fst st) of None \<Rightarrow> 0 | Some n \<Rightarrow> ni_napt n);
          r = real (Some h) (Some i) (Some out) (set_napt i 1 (fst st), snd st)
      in (fst r, set_napt i saved (fst (snd r)), snd (snd r)))"

definition is_sta_at :: "nat \<Rightarrow> lw_netif list \<Rightarrow> bool" where
  "is_sta_at ptr nl = (case netif_at ptr nl of None \<Rightarrow> False | Some n \<Rightarrow> netif_is_sta n)"

definition is_tunnel :: "nat \<Rightarrow> lw_netif list \<Rightarrow> bool" where
  "is_tunnel ptr nl \<longleftrightarrow> map_option ni_ptr (find_wg_netif nl) = Some ptr"

definition routed_flow :: "fw_state \<Rightarrow> lw_netif list \<Rightarrow> ip_hdr \<Rightarrow> u16 \<times> u16 \<Rightarrow> nat \<Rightarrow> nat \<Rightarrow> bool" where
  "routed_flow fw nl h ports i out \<longleftrightarrow>
     i \<noteq> out \<and> ih_proto h \<noteq> 0 \<and>
     ((is_sta_at i nl \<and> is_tunnel out nl \<and> tailnet_forward_is_routed_target fw (ih_proto h) (ih_dest h) (snd ports)) \<or>
      (is_tunnel i nl \<and> is_sta_at out nl \<and> tailnet_forward_is_routed_response fw (ih_proto h) (ih_src h) (fst ports)))"

text \<open>\<open>None\<close> is a read outside the packet.\<close>

definition ip_napt_forward ::
  "route_env \<Rightarrow> fw_state \<Rightarrow> 'w napt \<Rightarrow> bytes option \<Rightarrow> ip_hdr option \<Rightarrow> nat option \<Rightarrow> nat option
   \<Rightarrow> lw_netif list \<times> 'w \<Rightarrow> (err \<times> lw_netif list \<times> 'w) option" where
  "ip_napt_forward env fw real p iphdr inp outp st =
     (case iphdr of None \<Rightarrow> Some (real None inp outp st)
      | Some h \<Rightarrow> do {
          ports \<leftarrow> l4_ports p h;
          Some (case (inp, outp) of
             (Some i, Some out) \<Rightarrow>
                if routed_flow fw (fst st) h ports i out then with_napt real h i out st
                else if ip_in_cgnat (htonl (ih_dest h)) \<and> ih_proto h = 6 then (ERR_OK, st)
                else if (re_snat env \<or> re_advertise_exit env) \<and> i \<noteq> out \<and> \<not> ip_in_cgnat (htonl (ih_dest h))
                        \<and> is_tunnel i (fst st) \<and> is_sta_at out (fst st)
                then with_napt real h i out st
                else real (Some h) inp outp st
           | _ \<Rightarrow> if ip_in_cgnat (htonl (ih_dest h)) \<and> ih_proto h = 6 then (ERR_OK, st)
                  else real (Some h) inp outp st) })"

lemma l4_ports_total: "\<exists>r. l4_ports p h = Some r"
  by (auto simp: l4_ports_def byte_simps)

lemma set_napt_twice: "set_napt i v (set_napt i w nl) = set_napt i v nl"
  by (simp add: set_napt_def)

lemma set_napt_id:
  assumes "distinct (map ni_ptr nl)" and "netif_at i nl = Some n" and "ni_napt n = v"
  shows "set_napt i v nl = nl"
  unfolding set_napt_def
proof (rule map_idI)
  fix m assume m: "m \<in> set nl"
  from assms(2) have n: "n \<in> set nl" "ni_ptr n = i" by (auto simp: netif_at_def find_Some_iff)
  show "(if ni_ptr m = i then m\<lparr>ni_napt := v\<rparr> else m) = m"
  proof (cases "ni_ptr m = i")
    case True
    then have "m = n" using assms(1) m n by (simp add: distinct_map inj_on_def)
    then show ?thesis using assms(3) by simp
  qed simp
qed

text \<open>
  The NAPT wrapper never reads outside the packet and leaves every interface's NAPT flag as
  it was, for any lwIP NAPT that does not change interfaces itself; and a TCP packet to the
  tailnet keeps its source, because NAPT is not called for it, unless it belongs to an installed
  tailnet forward.
\<close>

theorem napt_wrapper_transparent:
  assumes "\<And>h i out nl w. fst (snd (real h i out (nl, w))) = nl"
    and "distinct (map ni_ptr nl)" and "\<And>i. inp = Some i \<Longrightarrow> netif_at i nl \<noteq> None"
  shows "\<exists>e w'. ip_napt_forward env fw real p iphdr inp outp (nl, w) = Some (e, nl, w') \<and>
    (case iphdr of None \<Rightarrow> True
     | Some h \<Rightarrow> ih_proto h = 6 \<and> ip_in_cgnat (htonl (ih_dest h)) \<and>
         \<not> (\<exists>i out ports. inp = Some i \<and> outp = Some out \<and> l4_ports p h = Some ports \<and> routed_flow fw nl h ports i out)
         \<longrightarrow> e = ERR_OK \<and> w' = w)"
proof -
  have w: "fst (snd (with_napt real h i out (nl, w))) = nl" if "netif_at i nl \<noteq> None" for h i out
    using that set_napt_id [OF assms(2)] by (auto simp: with_napt_def Let_def assms(1) set_napt_twice)
  have t: "\<exists>e w'. x = (e, nl, w')" if "fst (snd x) = nl" for x :: "err \<times> lw_netif list \<times> 'a"
    using that by (metis prod.collapse)
  show ?thesis
  proof (cases iphdr)
    case None
    then show ?thesis using t [OF assms(1)] by (simp add: ip_napt_forward_def)
  next
    case (Some h)
    obtain ports where ports: "l4_ports p h = Some ports" using l4_ports_total by blast
    show ?thesis
    proof (cases "\<exists>i out. inp = Some i \<and> outp = Some out \<and> routed_flow fw nl h ports i out")
      case True
      then obtain i out where io: "inp = Some i" "outp = Some out" "routed_flow fw nl h ports i out" by blast
      with Some ports show ?thesis
        using t [OF w [OF assms(3) [OF io(1)]], of h out] by (auto simp: ip_napt_forward_def)
    next
      case False
      show ?thesis
      proof (cases "ip_in_cgnat (htonl (ih_dest h)) \<and> ih_proto h = 6")
        case True
        with Some ports False show ?thesis by (auto simp: ip_napt_forward_def split: option.splits)
      next
        case tcp: False
        obtain r where r: "ip_napt_forward env fw real p iphdr inp outp (nl, w) = Some r"
          using Some ports by (simp add: ip_napt_forward_def)
        then have "fst (snd r) = nl"
          using Some ports False tcp w assms(1,3)
          by (auto simp: ip_napt_forward_def split: option.splits if_split_asm)
        from t [OF this] r show ?thesis using Some tcp by auto
      qed
    qed
  qed
qed

text \<open>A NAPT that leaves the packet alone but notes the flag of the input interface.\<close>

definition demo_napt :: "u8 list napt" where
  "demo_napt h inp out st =
     (ERR_OK, fst st, snd st @ [case inp of None \<Rightarrow> 0 | Some i \<Rightarrow> (case netif_at i (fst st) of None \<Rightarrow> 0 | Some n \<Rightarrow> ni_napt n)])"

text \<open>A TCP packet from the access point to the tailnet, no forward being installed.\<close>

theorem napt_wrapper_transparent_witness:
  "ip_napt_forward demo_env fw_demo demo_napt (Some (replicate 40 0))
     (Some \<lparr>ih_proto = 6, ih_hl = 5, ih_src = 0x0204A8C0, ih_dest = 0x07004064\<rparr>) (Some 2) (Some 3)
     ([demo_wg, demo_ap, demo_sta], []) = Some (ERR_OK, [demo_wg, demo_ap, demo_sta], [])"
proof -
  let ?h = "\<lparr>ih_proto = 6, ih_hl = 5, ih_src = 0x0204A8C0, ih_dest = 0x07004064\<rparr>"
  let ?nl = "[demo_wg, demo_ap, demo_sta]"
  have c: "ip_in_cgnat (htonl 0x07004064)" by code_simp
  have l: "l4_ports (Some (replicate 40 0)) ?h = Some (0, 0)" by code_simp
  have nr: "\<not> routed_flow fw_demo ?nl ?h (0, 0) 2 3" by code_simp
  have "fst (snd (demo_napt h i out (nl, w))) = nl" for h i out nl w by (simp add: demo_napt_def)
  moreover have "distinct (map ni_ptr ?nl)" by code_simp
  moreover have "netif_at i ?nl \<noteq> None" if "Some 2 = Some i" for i
    using that by (simp add: netif_at_def demo_wg_def demo_ap_def)
  ultimately obtain e w' where r: "ip_napt_forward demo_env fw_demo demo_napt (Some (replicate 40 0)) (Some ?h) (Some 2) (Some 3) (?nl, [])
      = Some (e, ?nl, w')" and "ih_proto ?h = 6 \<and> ip_in_cgnat (htonl (ih_dest ?h)) \<and>
         \<not> (\<exists>i out ports. Some 2 = Some i \<and> Some 3 = Some out \<and> l4_ports (Some (replicate 40 0)) ?h = Some ports \<and> routed_flow fw_demo ?nl ?h ports i out)
         \<longrightarrow> e = ERR_OK \<and> w' = []"
    using napt_wrapper_transparent [of demo_napt ?nl "Some 2" demo_env fw_demo "Some (replicate 40 0)" "Some ?h" "Some 3" "[]"]
    by (simp only: option.case) blast
  then have "e = ERR_OK \<and> w' = []" using c l nr by (simp del: replicate.simps)
  with r show ?thesis by simp
qed

end
