(* ===== verification/Packet_Edit.thy ===== *)
theory Packet_Edit
  imports Prelude
begin

text \<open>
  The packet editing of \<open>main/netif_hooks.c\<close>: clamping of the TCP MSS, the TTL override, both with
  the incremental checksum update of RFC 1624, and the ICMP reply \<open>fragmentation needed\<close>.  A
  frame is the list of bytes of the first pbuf; every access is checked, \<open>None\<close> is an access
  outside the frame.

  Results: none of the edits of a frame leaves it, the clamp leaves no larger MSS behind, and
  both edits keep the Internet checksum valid, the MSS clamp only if the option stands at an even
  offset; the ICMP reply reads behind a frame that is shorter than its IP header says.
\<close>

section \<open>Native 16-bit access\<close>

definition ne16 :: "bytes \<Rightarrow> nat \<Rightarrow> u16 option" where
  "ne16 p i = do { a \<leftarrow> rd8 p i; b \<leftarrow> rd8 p (i + 1); Some (mk16 b a) }"

definition wr16 :: "bytes \<Rightarrow> nat \<Rightarrow> u16 \<Rightarrow> bytes option" where
  "wr16 p i w = (if i + 1 < length p then Some (p[i := lo8 w, i + 1 := hi8 w]) else None)"

lemma ne16_Some [byte_simps]: "i + 1 < length p \<Longrightarrow> ne16 p i = Some (mk16 (p ! (i + 1)) (p ! i))"
  by (simp add: ne16_def rd8_def)

lemma wr16_Some [byte_simps]: "i + 1 < length p \<Longrightarrow> wr16 p i w = Some (p[i := lo8 w, i + 1 := hi8 w])"
  by (simp add: wr16_def)

section \<open>The incremental checksum\<close>

text \<open>\<open>while (sum >> 16) sum = (sum & 0xFFFF) + (sum >> 16)\<close>\<close>

lemma fold16_split:
  fixes s :: u32
  shows "unat (s AND 0xFFFF) = unat s mod 65536" "unat (drop_bit 16 s) = unat s div 65536"
proof -
  have "(0xFFFF :: u32) = mask 16" by (simp add: mask_eq_exp_minus_1)
  then have "s AND 0xFFFF = take_bit 16 s" by (simp add: take_bit_eq_mask)
  then have "unat (s AND 0xFFFF) = take_bit 16 (unat s)" by (simp only: unsigned_take_bit_eq)
  then show "unat (s AND 0xFFFF) = unat s mod 65536" by (simp add: take_bit_eq_mod)
  show "unat (drop_bit 16 s) = unat s div 65536" by (simp only: unat_drop_bit_eq) (simp add: drop_bit_eq_div)
qed

lemma fold16_step:
  fixes s :: u32
  shows "unat ((s AND 0xFFFF) + drop_bit 16 s) = unat s mod 65536 + unat s div 65536"
proof -
  have "unat s < 2 ^ 32" using unsigned_less [of s, where ?'a = nat] by simp
  then have "unat s div 65536 < 65536" by (simp add: less_mult_imp_div_less)
  moreover have "unat s mod 65536 < 65536" by simp
  ultimately have "unat s mod 65536 + unat s div 65536 < 2 ^ 32" by simp
  then show ?thesis by (simp add: unat_word_ariths fold16_split)
qed

function fold16 :: "u32 \<Rightarrow> u32" where
  "fold16 s = (if drop_bit 16 s \<noteq> 0 then fold16 ((s AND 0xFFFF) + drop_bit 16 s) else s)"
  by auto

termination
proof (relation "measure unat")
  fix s :: u32
  assume "drop_bit 16 s \<noteq> 0"
  then have d: "0 < unat s div 65536"
    using fold16_split(2) [of s] by (metis gr0I unsigned_eq_0_iff)
  have "unat s = unat s mod 65536 + 65536 * (unat s div 65536)" by simp
  with d have "unat s mod 65536 + unat s div 65536 < unat s" by linarith
  then show "((s AND 0xFFFF) + drop_bit 16 s, s) \<in> measure unat" by (simp add: fold16_step)
qed simp

declare fold16.simps [simp del]

lemma fold16_small: "unat (fold16 s) < 65536"
proof (induction s rule: fold16.induct)
  case (1 s)
  show ?case
  proof (cases "drop_bit 16 s = 0")
    case True
    then have "unat s div 65536 = 0" using fold16_split(2) [of s] by simp
    then have "unat s < 65536" by (simp add: div_eq_0_iff)
    with True show ?thesis by (subst fold16.simps) simp
  next
    case False
    with 1 show ?thesis by (subst fold16.simps) simp
  qed
qed

lemma fold16_mod: "unat (fold16 s) mod 65535 = unat s mod 65535"
proof (induction s rule: fold16.induct)
  case (1 s)
  show ?case
  proof (cases "drop_bit 16 s = 0")
    case True
    then show ?thesis by (subst fold16.simps) simp
  next
    case False
    have "unat s = unat s mod 65536 + unat s div 65536 + 65535 * (unat s div 65536)" by simp
    then have "(unat s mod 65536 + unat s div 65536) mod 65535 = unat s mod 65535"
      by (metis mod_mult_self2)
    with False 1 show ?thesis by (subst fold16.simps) (simp add: fold16_step)
  qed
qed

text \<open>\<open>HC' = ~(~HC + ~m + m')\<close>\<close>

definition csum_update :: "u16 \<Rightarrow> u16 \<Rightarrow> u16 \<Rightarrow> u16" where
  "csum_update c m m' = NOT (ucast (fold16 (ucast (NOT c) + ucast (NOT m) + ucast m')))"

lemma unat_not16: "unat (NOT (w :: u16)) = 65535 - unat w"
proof -
  have "NOT w = - 1 - w" by (simp add: not_eq_complement)
  moreover have "(- 1 :: u16) = 65535" by simp
  ultimately show ?thesis
    using unsigned_less [of w, where ?'a = nat] by (simp add: unat_sub word_le_nat_alt)
qed

lemma unat_u16_less: "unat (w :: u16) < 65536"
  using unsigned_less [of w, where ?'a = nat] by simp

lemma unat_ucast32: "unat (ucast (w :: u16) :: u32) = unat w"
  using unat_u16_less [of w] by (simp add: unsigned_ucast_eq take_bit_nat_eq_self)

lemma unat_ucast16: "unat (ucast (w :: u32) :: u16) = unat w mod 65536"
  by (simp add: unsigned_ucast_eq take_bit_eq_mod)

lemma csum_update_mod:
  "(unat (csum_update c m m') + unat m') mod 65535 = (unat c + unat m) mod 65535"
proof -
  define S where "S = (65535 - unat c) + (65535 - unat m) + unat m'"
  have b: "unat c \<le> 65535" "unat m \<le> 65535" "unat m' \<le> 65535"
    using unat_u16_less [of c] unat_u16_less [of m] unat_u16_less [of m'] by auto
  have "unat (ucast (NOT c) + ucast (NOT m) + ucast m' :: u32) = S"
    using b by (simp add: unat_word_ariths unat_ucast32 unat_not16 S_def)
  then have f: "unat (fold16 (ucast (NOT c) + ucast (NOT m) + ucast m')) mod 65535 = S mod 65535"
    by (simp add: fold16_mod)
  define F where "F = unat (fold16 (ucast (NOT c) + ucast (NOT m) + ucast m'))"
  have F: "F < 65536" using fold16_small by (simp add: F_def)
  have u: "unat (csum_update c m m') = 65535 - F"
    using F by (simp add: csum_update_def unat_not16 unat_ucast16 F_def)
  define k where "k = int F div 65535 - int S div 65535"
  have "int F mod 65535 = int S mod 65535"
    using arg_cong [OF f, of int] unfolding F_def [symmetric] by (simp add: zmod_int)
  then have k: "int F = int S + 65535 * k"
    unfolding k_def right_diff_distrib minus_mod_eq_mult_div [symmetric] by simp
  have "int (65535 - F) = 65535 - int F" using F by simp
  moreover have "int S = 131070 - int (unat c) - int (unat m) + int (unat m')"
    using b by (simp add: S_def)
  ultimately have "int (65535 - F + unat m') = int (unat c + unat m) + 65535 * (- 1 - k)"
    using k by simp
  then have "int (65535 - F + unat m') mod 65535 = int (unat c + unat m) mod 65535"
    by (simp only: mod_mult_self2)
  then have "int ((65535 - F + unat m') mod 65535) = int ((unat c + unat m) mod 65535)"
    by (simp add: zmod_int)
  then show ?thesis unfolding u by (simp only: of_nat_eq_iff)
qed

text \<open>The sum of the 16-bit words of a byte sequence, an odd last byte padded with zero.\<close>

fun sum16 :: "bytes \<Rightarrow> nat" where
  "sum16 [] = 0"
| "sum16 [a] = unat a"
| "sum16 (a # b # p) = unat a + 256 * unat b + sum16 p"

lemma unat_mk16: "unat (mk16 b a) = unat a + 256 * unat b"
proof -
  have ab: "unat a < 256" "unat b < 256" by simp_all
  have "mk16 b a = push_bit 8 (ucast b) + ucast a" unfolding mk16_def
    by (subst disjunctive_add, force simp: bit_simps dest: bit_imp_le_length) simp
  then have "mk16 b a = word_of_nat (unat a + 256 * unat b)"
    by (simp add: push_bit_eq_mult)
  then have "unat (mk16 b a) = take_bit 16 (unat a + 256 * unat b)" by (simp only: unsigned_of_nat) simp
  then show ?thesis using ab by (simp add: take_bit_nat_eq_self)
qed

lemma sum16_update:
  "even i \<Longrightarrow> i + 1 < length p \<Longrightarrow>
   sum16 (p[i := lo8 w, i + 1 := hi8 w]) + unat (mk16 (p ! (i + 1)) (p ! i)) = sum16 p + unat w"
proof (induction p arbitrary: i rule: sum16.induct)
  case (3 a b p)
  have w: "unat w = unat (lo8 w) + 256 * unat (hi8 w)"
    using unat_mk16 [of "hi8 w" "lo8 w"] by simp
  show ?case
  proof (cases "i = 0")
    case True
    then show ?thesis using w by (simp add: unat_mk16)
  next
    case False
    with 3(2) obtain j where j: "i = Suc (Suc j)" "even j" by (cases i; cases "i - 1") auto
    from 3(1) [OF j(2)] 3(3) j(1) show ?thesis by simp
  qed
qed simp_all

text \<open>
  A pair of 16-bit stores, a field and the checksum updated for it, keeps the sum of a header
  modulo \<open>2^16 - 1\<close>: a valid Internet checksum stays valid.
\<close>

lemma mod_add_cancel_nat:
  assumes "(a + c) mod n = (b + c) mod (n :: nat)"
  shows "a mod n = b mod n"
proof -
  have "(int a + int c) mod int n = (int b + int c) mod int n"
    using arg_cong [OF assms, of int] by (simp add: zmod_int)
  from mod_diff_cong [OF this refl, of "int c"] have "int (a mod n) = int (b mod n)" by (simp add: zmod_int)
  then show ?thesis by simp
qed

definition put16 :: "bytes \<Rightarrow> nat \<Rightarrow> u16 \<Rightarrow> bytes" where
  "put16 p i w = p[i := lo8 w, i + 1 := hi8 w]"

lemma put16_length [simp]: "length (put16 p i w) = length p" by (simp add: put16_def)

lemma put16_diff: "{j. put16 (put16 p i w) k v ! j \<noteq> p ! j} \<subseteq> {i, i + 1, k, k + 1}"
  by (auto simp: put16_def nth_list_update_neq) (metis nth_list_update_neq)

lemma wr16_put16: "i + 1 < length p \<Longrightarrow> wr16 p i w = Some (put16 p i w)"
  by (simp add: wr16_def put16_def)

lemma put16_at: "i + 1 < length p \<Longrightarrow> put16 p i w ! i = lo8 w" "i + 1 < length p \<Longrightarrow> put16 p i w ! (i + 1) = hi8 w"
  by (simp_all add: put16_def)

lemma put16_nth: "j \<noteq> i \<Longrightarrow> j \<noteq> i + 1 \<Longrightarrow> put16 p i w ! j = p ! j" by (simp add: put16_def)

lemma sum16_edit:
  assumes "even i" and "even j" and "i \<noteq> j" and "i + 1 < length p" and "j + 1 < length p"
    and "c = mk16 (p ! (j + 1)) (p ! j)" and "m = mk16 (p ! (i + 1)) (p ! i)"
  shows "sum16 (put16 (put16 p i m') j (csum_update c m m')) mod 65535 = sum16 p mod 65535"
proof -
  let ?p1 = "put16 p i m'"
  have ij: "j \<noteq> i + 1" "i \<noteq> j + 1" using assms(1,2) by auto
  then have c: "mk16 (?p1 ! (j + 1)) (?p1 ! j) = c"
    using assms(3,6) by (simp add: put16_nth)
  have 1: "sum16 ?p1 + unat m = sum16 p + unat m'"
    using sum16_update [OF assms(1,4), of m'] assms(7) by (simp add: put16_def)
  have 2: "sum16 (put16 ?p1 j (csum_update c m m')) + unat c = sum16 ?p1 + unat (csum_update c m m')"
    using sum16_update [OF assms(2), of ?p1 "csum_update c m m'"] assms(5) c by (simp add: put16_def)
  from 1 2 have "sum16 (put16 ?p1 j (csum_update c m m')) + (unat c + unat m)
      = sum16 p + (unat (csum_update c m m') + unat m')" by simp
  then have "(sum16 (put16 ?p1 j (csum_update c m m')) + (unat c + unat m)) mod 65535
      = (sum16 p + (unat c + unat m)) mod 65535"
    using mod_add_cong [OF refl csum_update_mod [of c m m'], of "sum16 p"] by (simp only:)
  then show ?thesis by (rule mod_add_cancel_nat)
qed

section \<open>Clamping the MSS\<close>

text \<open>
  The walk over the TCP options: offset of the first MSS option of the right length, if the walk
  reaches one.  The outer \<open>None\<close> is a read outside the frame.
\<close>

function mss_walk :: "bytes \<Rightarrow> nat \<Rightarrow> nat \<Rightarrow> nat option option" where
  "mss_walk b opt opt_end =
     (if opt < opt_end then do {
        kind \<leftarrow> rd8 b opt;
        if kind = 0 then Some None
        else if kind = 1 then mss_walk b (opt + 1) opt_end
        else if opt_end \<le> opt + 1 then Some None
        else do {
          len \<leftarrow> rd8 b (opt + 1);
          if len < 2 \<or> opt_end < opt + unat len then Some None
          else if kind = 2 \<and> len = 4 then Some (Some opt)
          else mss_walk b (opt + unat len) opt_end } }
      else Some None)"
  by pat_completeness auto

termination
proof (relation "measure (\<lambda>(b, opt, opt_end). opt_end - opt)")
  fix b :: bytes and opt opt_end :: nat and kind len :: u8
  assume "opt < opt_end" "\<not> (len < 2 \<or> opt_end < opt + unat len)"
  then have "2 \<le> len" by (simp add: not_less)
  then have "2 \<le> unat len" by (simp add: word_le_nat_alt)
  then show "((b, opt + unat len, opt_end), b, opt, opt_end) \<in> measure (\<lambda>(b, opt, opt_end). opt_end - opt)"
    using \<open>opt < opt_end\<close> by simp
qed auto

declare mss_walk.simps [simp del]

text \<open>Whether the frame is one the clamp looks into: start and end of the TCP options.\<close>

definition syn_options :: "bytes \<Rightarrow> (nat \<times> nat) option option" where
  "syn_options b =
     (if length b < 14 + 20 + 20 then Some None
      else do {
        t0 \<leftarrow> rd8 b 12; t1 \<leftarrow> rd8 b 13;
        if t0 \<noteq> 8 \<or> t1 \<noteq> 0 then Some None
        else do {
          vhl \<leftarrow> rd8 b 14; proto \<leftarrow> rd8 b 23;
          if drop_bit 4 vhl \<noteq> 4 \<or> proto \<noteq> 6 then Some None
          else (let ip_hdr_len = unat (vhl AND 15) * 4; tcp = 14 + ip_hdr_len in
            if length b < tcp + 20 then Some None
            else do {
              flags \<leftarrow> rd8 b (tcp + 13);
              if flags AND 2 = 0 then Some None
              else do {
                off \<leftarrow> rd8 b (tcp + 12);
                (let tcp_hdr_len = unat (drop_bit 4 off) * 4 in
                 if tcp_hdr_len < 20 \<or> length b < tcp + tcp_hdr_len then Some None
                 else Some (Some (tcp, tcp + tcp_hdr_len))) } }) } })"

definition clamp_tcp_mss :: "bytes \<Rightarrow> u16 \<Rightarrow> bytes option" where
  "clamp_tcp_mss b max_mss =
     (if max_mss = 0 then Some b
      else do {
        syn \<leftarrow> syn_options b;
        (case syn of None \<Rightarrow> Some b
         | Some (tcp, opt_end) \<Rightarrow> do {
            opt \<leftarrow> mss_walk b (tcp + 20) opt_end;
            (case opt of None \<Rightarrow> Some b
             | Some o' \<Rightarrow> do {
                old \<leftarrow> ne16 b (o' + 2);
                if max_mss < htons old then do {
                  b1 \<leftarrow> wr16 b (o' + 2) (htons max_mss);
                  c \<leftarrow> ne16 b1 (tcp + 16);
                  wr16 b1 (tcp + 16) (csum_update c old (htons max_mss)) }
                else Some b }) }) })"

lemma mss_walk_Some:
  "opt_end \<le> length b \<Longrightarrow>
   \<exists>r. mss_walk b opt opt_end = Some r \<and>
       (\<forall>k. r = Some k \<longrightarrow> opt \<le> k \<and> k + 4 \<le> opt_end \<and> b ! k = 2 \<and> b ! (k + 1) = 4)"
proof (induction b opt opt_end rule: mss_walk.induct)
  case (1 b opt opt_end)
  show ?case
  proof (cases "opt < opt_end \<and> b ! opt \<noteq> 0")
    case False
    then show ?thesis using 1(3) by (subst mss_walk.simps) (auto simp: byte_simps)
  next
    case True
    then have k: "rd8 b opt = Some (b ! opt)" using 1(3) by (simp add: byte_simps)
    show ?thesis
    proof (cases "b ! opt = 1")
      case one: True
      from 1(1) [OF _ k] True one 1(3) show ?thesis
        by (subst mss_walk.simps) (fastforce simp: k)
    next
      case one: False
      show ?thesis
      proof (cases "opt_end \<le> opt + 1")
        case True
        then show ?thesis using \<open>opt < opt_end \<and> b ! opt \<noteq> 0\<close> one by (subst mss_walk.simps) (simp add: k)
      next
        case more: False
        then have l: "rd8 b (opt + 1) = Some (b ! (opt + 1))" using 1(3) by (simp add: byte_simps)
        show ?thesis
        proof (cases "b ! (opt + 1) < 2 \<or> opt_end < opt + unat (b ! (opt + 1)) \<or> b ! opt = 2 \<and> b ! (opt + 1) = 4")
          case stop: True
          then show ?thesis using True one more by (subst mss_walk.simps) (auto simp: k l [simplified])
        next
          case go: False
          from 1(2) [OF _ k _ one _ l] True one more go 1(3) show ?thesis
            by (subst mss_walk.simps) (fastforce simp: k l [simplified])
        qed
      qed
    qed
  qed
qed

lemma syn_options_long:
  assumes "54 \<le> length b" and "tcp = 14 + unat (b ! 14 AND 15) * 4"
    and "e = tcp + unat (drop_bit 4 (b ! (tcp + 12))) * 4"
  shows "syn_options b =
    Some (if b ! 12 = 8 \<and> b ! 13 = 0 \<and> drop_bit 4 (b ! 14) = 4 \<and> b ! 23 = 6 \<and> tcp + 20 \<le> length b \<and>
             b ! (tcp + 13) AND 2 \<noteq> 0 \<and> tcp + 20 \<le> e \<and> e \<le> length b then Some (tcp, e) else None)"
proof -
  have h: "14 + unat (b ! 14 AND 15) * 4 = tcp" using assms(2) by simp
  have r: "rd8 b 12 = Some (b ! 12)" "rd8 b 13 = Some (b ! 13)" "rd8 b 14 = Some (b ! 14)" "rd8 b 23 = Some (b ! 23)"
    using assms(1) by (simp_all add: byte_simps)
  have s: "syn_options b = (if b ! 12 \<noteq> 8 \<or> b ! 13 \<noteq> 0 \<or> drop_bit 4 (b ! 14) \<noteq> 4 \<or> b ! 23 \<noteq> 6 \<or> length b < tcp + 20
      then Some None
      else do { flags \<leftarrow> rd8 b (tcp + 13);
             if flags AND 2 = 0 then Some None
             else do { off \<leftarrow> rd8 b (tcp + 12);
                if unat (drop_bit 4 off) * 4 < 20 \<or> length b < tcp + unat (drop_bit 4 off) * 4 then Some None
                else Some (Some (tcp, tcp + unat (drop_bit 4 off) * 4)) } })"
    using assms(1) unfolding syn_options_def Let_def r Option.bind.simps h by simp
  show ?thesis
  proof (cases "length b < tcp + 20")
    case True
    then show ?thesis by (simp add: s)
  next
    case False
    then have "rd8 b (tcp + 13) = Some (b ! (tcp + 13))" "rd8 b (tcp + 12) = Some (b ! (tcp + 12))"
      by (simp_all add: byte_simps)
    then show ?thesis using False by (simp add: s assms(3) not_less)
  qed
qed

lemma syn_options_SomeD:
  assumes "syn_options b = Some (Some (tcp, e))"
  shows "54 \<le> length b" and "14 \<le> tcp" and "tcp + 20 \<le> e" and "e \<le> length b"
    and "tcp = 14 + unat (b ! 14 AND 15) * 4" and "e = tcp + unat (drop_bit 4 (b ! (tcp + 12))) * 4"
    and "b ! 12 = 8 \<and> b ! 13 = 0 \<and> drop_bit 4 (b ! 14) = 4 \<and> b ! 23 = 6 \<and> b ! (tcp + 13) AND 2 \<noteq> 0"
proof -
  show l: "54 \<le> length b" using assms by (auto simp: syn_options_def split: if_split_asm)
  note s = syn_options_long [OF l refl refl]
  from s assms show "14 \<le> tcp" "tcp + 20 \<le> e" "e \<le> length b"
    "tcp = 14 + unat (b ! 14 AND 15) * 4" "e = tcp + unat (drop_bit 4 (b ! (tcp + 12))) * 4"
    "b ! 12 = 8 \<and> b ! 13 = 0 \<and> drop_bit 4 (b ! 14) = 4 \<and> b ! 23 = 6 \<and> b ! (tcp + 13) AND 2 \<noteq> 0"
    by (auto split: if_split_asm)
qed

lemma syn_options_total: "\<exists>r. syn_options b = Some r"
proof (cases "54 \<le> length b")
  case True
  from syn_options_long [OF this refl refl] show ?thesis by blast
qed (simp add: syn_options_def)

lemma syn_options_cong:
  assumes "syn_options b = Some (Some (tcp, e))" and "length b' = length b"
    and "\<And>i. i < tcp + 14 \<Longrightarrow> b' ! i = b ! i" and "b' ! 23 = b ! 23"
  shows "syn_options b' = Some (Some (tcp, e))"
proof -
  note o = syn_options_SomeD [OF assms(1)]
  have eq: "b' ! 12 = b ! 12" "b' ! 13 = b ! 13" "b' ! 14 = b ! 14" "b' ! (tcp + 13) = b ! (tcp + 13)"
    "b' ! (tcp + 12) = b ! (tcp + 12)"
    using assms(3) o(2) by auto
  have "54 \<le> length b'" "tcp = 14 + unat (b' ! 14 AND 15) * 4" "e = tcp + unat (drop_bit 4 (b' ! (tcp + 12))) * 4"
    using o(1,5,6) assms(2) eq by auto
  from syn_options_long [OF this] show ?thesis using o(3,4,7) assms(2,4) eq by auto
qed

lemma mss_walk_cong:
  "mss_walk b opt e = Some (Some k) \<Longrightarrow> e \<le> length b \<Longrightarrow> length b' = length b \<Longrightarrow>
   (\<And>i. opt \<le> i \<Longrightarrow> i < k + 2 \<Longrightarrow> b' ! i = b ! i) \<Longrightarrow> mss_walk b' opt e = Some (Some k)"
proof (induction b opt e rule: mss_walk.induct)
  case (1 b opt e)
  from mss_walk_Some [OF 1(4), of opt] 1(3) have k: "opt \<le> k" "k + 4 \<le> e" by auto
  have same: "b' ! opt = b ! opt" "opt < e" "opt < length b" using 1(6) k 1(4) by auto
  then have rd: "rd8 b opt = Some (b ! opt)" "rd8 b' opt = Some (b ! opt)" using 1(5) by (simp_all add: byte_simps)
  from 1(3) same(2) rd(1) have nz: "b ! opt \<noteq> 0" by (subst (asm) mss_walk.simps) auto
  show ?case
  proof (cases "b ! opt = 1")
    case True
    with 1(3) same(2) rd(1) have "mss_walk b (opt + 1) e = Some (Some k)" by (subst (asm) mss_walk.simps) simp
    from 1(1) [OF same(2) rd(1) nz True this 1(4,5)] 1(6) have "mss_walk b' (opt + 1) e = Some (Some k)" by simp
    then show ?thesis using True same(2) rd(2) by (subst mss_walk.simps) simp
  next
    case False
    from 1(3) same(2) rd(1) nz False have more: "\<not> e \<le> opt + 1" by (subst (asm) mss_walk.simps) auto
    then have s2: "b' ! (opt + 1) = b ! (opt + 1)" using 1(6) [of "opt + 1"] k by simp
    then have rd2: "rd8 b (opt + 1) = Some (b ! (opt + 1))" "rd8 b' (opt + 1) = Some (b ! (opt + 1))"
      using more 1(4,5) by (simp_all add: byte_simps)
    from 1(3) same(2) rd(1) nz False more rd2(1)
    have go: "\<not> (b ! (opt + 1) < 2 \<or> e < opt + unat (b ! (opt + 1)))" by (subst (asm) mss_walk.simps) auto
    show ?thesis
    proof (cases "b ! opt = 2 \<and> b ! (opt + 1) = 4")
      case True
      then have "mss_walk b opt e = Some (Some opt)" "mss_walk b' opt e = Some (Some opt)"
        using same(2) rd rd2 more go by (subst mss_walk.simps, simp)+
      with 1(3) show ?thesis by simp
    next
      case no: False
      with 1(3) same(2) rd(1) nz False more rd2(1) go
      have "mss_walk b (opt + unat (b ! (opt + 1))) e = Some (Some k)" by (subst (asm) mss_walk.simps) auto
      from 1(2) [OF same(2) rd(1) nz False more rd2(1) go no this 1(4,5)] 1(6)
      have "mss_walk b' (opt + unat (b ! (opt + 1))) e = Some (Some k)" by simp
      then show ?thesis using same(2) rd(2) rd2(2) nz False more go no by (subst mss_walk.simps) auto
    qed
  qed
qed

text \<open>The option of a frame the clamp acts on, and its value.\<close>

definition mss_at :: "bytes \<Rightarrow> (nat \<times> nat) option option" where
  "mss_at b = do {
     syn \<leftarrow> syn_options b;
     (case syn of None \<Rightarrow> Some None
      | Some (tcp, e) \<Rightarrow> map_option (map_option (\<lambda>k. (tcp, k))) (mss_walk b (tcp + 20) e)) }"

definition mss_value :: "bytes \<Rightarrow> nat \<Rightarrow> u16" where
  "mss_value b k = mk16 (b ! (k + 2)) (b ! (k + 3))"

lemma mss_at_SomeD:
  assumes "mss_at b = Some (Some (tcp, k))"
  obtains e where "syn_options b = Some (Some (tcp, e))" "mss_walk b (tcp + 20) e = Some (Some k)"
    "tcp + 20 \<le> k" "k + 4 \<le> e" "e \<le> length b" "14 \<le> tcp"
proof -
  from assms obtain e where e: "syn_options b = Some (Some (tcp, e))" "mss_walk b (tcp + 20) e = Some (Some k)"
    by (auto simp: mss_at_def Option.bind_eq_Some_conv split: option.splits)
  note o = syn_options_SomeD [OF e(1)]
  from mss_walk_Some [OF o(4), of "tcp + 20"] e(2) have "tcp + 20 \<le> k" "k + 4 \<le> e" by auto
  with that e o(2,4) show thesis by blast
qed

lemma mss_at_total: "\<exists>r. mss_at b = Some r"
proof -
  from syn_options_total obtain r where r: "syn_options b = Some r" by blast
  show ?thesis
  proof (cases r)
    case (Some te)
    obtain tcp e where te: "te = (tcp, e)" by (cases te)
    with r Some have "e \<le> length b" using syn_options_SomeD(4) by simp
    from mss_walk_Some [OF this, of "tcp + 20"] show ?thesis using r Some te by (auto simp: mss_at_def)
  qed (simp add: mss_at_def r)
qed

lemma htons_mk16: "htons (mk16 a b) = mk16 b a"
  by (simp add: htons_def)

lemma clamp_eq:
  assumes "mss_at b = Some r"
  shows "clamp_tcp_mss b m =
    Some (case r of Some (tcp, k) \<Rightarrow>
            if m \<noteq> 0 \<and> m < mss_value b k
            then put16 (put16 b (k + 2) (htons m)) (tcp + 16)
                   (csum_update (mk16 (b ! (tcp + 17)) (b ! (tcp + 16))) (mk16 (b ! (k + 3)) (b ! (k + 2))) (htons m))
            else b
          | None \<Rightarrow> b)"
proof (cases r)
  case None
  with assms show ?thesis
    by (auto simp: clamp_tcp_mss_def mss_at_def Option.bind_eq_Some_conv split: option.splits)
next
  case (Some tk)
  obtain tcp k where tk: "tk = (tcp, k)" by (cases tk)
  from assms Some tk obtain e where e: "syn_options b = Some (Some (tcp, e))" "mss_walk b (tcp + 20) e = Some (Some k)"
    "tcp + 20 \<le> k" "k + 4 \<le> e" "e \<le> length b" by (auto elim: mss_at_SomeD)
  have ne: "ne16 b (k + 2) = Some (mk16 (b ! (k + 3)) (b ! (k + 2)))"
    using e(4,5) by (simp add: byte_simps numeral_3_eq_3 numeral_2_eq_2)
  have w: "wr16 b (k + 2) w = Some (put16 b (k + 2) w)" for w
    using e(4,5) by (simp add: wr16_def put16_def)
  have nec: "ne16 (put16 b (k + 2) w) (tcp + 16) = Some (mk16 (b ! (tcp + 17)) (b ! (tcp + 16)))" for w
  proof -
    have "tcp + 16 + 1 < length (put16 b (k + 2) w)" using e(3-5) by simp
    from ne16_Some [OF this] show ?thesis using e(3) by (simp add: put16_nth add.commute [of 17 tcp])
  qed
  have wc: "wr16 (put16 b (k + 2) w) (tcp + 16) w' = Some (put16 (put16 b (k + 2) w) (tcp + 16) w')" for w w'
    by (rule wr16_put16) (use e(3-5) in simp)
  have v: "htons (mk16 (b ! (k + 3)) (b ! (k + 2))) = mss_value b k" by (simp add: htons_mk16 mss_value_def)
  show ?thesis
    unfolding clamp_tcp_mss_def Some tk e(1) Option.bind.simps option.case prod.case e(2) ne v w nec wc by simp
qed

lemma clamped_option:
  assumes "mss_at b = Some (Some (tcp, k))"
  shows "mss_at (put16 (put16 b (k + 2) w) (tcp + 16) c) = Some (Some (tcp, k)) \<and>
    mss_value (put16 (put16 b (k + 2) w) (tcp + 16) c) k = htons w"
proof -
  define b' where "b' = put16 (put16 b (k + 2) w) (tcp + 16) c"
  from assms obtain e where e: "syn_options b = Some (Some (tcp, e))" "mss_walk b (tcp + 20) e = Some (Some k)"
    "tcp + 20 \<le> k" "k + 4 \<le> e" "e \<le> length b" "14 \<le> tcp" by (rule mss_at_SomeD)
  have nth: "b' ! i = b ! i" if "i \<noteq> tcp + 16" "i \<noteq> tcp + 17" "i \<noteq> k + 2" "i \<noteq> k + 3" for i
    using that by (simp add: put16_nth b'_def)
  have l: "length b' = length b" by (simp add: b'_def)
  have "syn_options b' = Some (Some (tcp, e))"
    by (rule syn_options_cong [OF e(1) l]) (use e(3,6) in \<open>auto intro!: nth\<close>)
  moreover have "mss_walk b' (tcp + 20) e = Some (Some k)"
    by (rule mss_walk_cong [OF e(2,5) l]) (use e(3) in \<open>auto intro!: nth\<close>)
  moreover have "b' ! (k + 2) = lo8 w" "b' ! (k + 2 + 1) = hi8 w"
    unfolding b'_def using e(3-5) put16_at [of "k + 2" b w] by (simp_all add: put16_nth)
  ultimately show ?thesis unfolding b'_def [symmetric] by (simp add: mss_at_def mss_value_def htons_def numeral_3_eq_3)
qed

text \<open>
  C4: The MSS clamp is memory safe and effective: for every frame and every cap it accesses
  nothing outside the frame, keeps its length, changes at most the two bytes of the MSS and the
  two of the TCP checksum, and when a cap is set the MSS that a SYN still announces afterwards is
  at most the cap.
\<close>

theorem clamp_tcp_mss_effective:
  "\<exists>b'. clamp_tcp_mss b m = Some b' \<and> length b' = length b \<and>
    (case mss_at b of
       Some (Some (tcp, k)) \<Rightarrow>
         {i. b' ! i \<noteq> b ! i} \<subseteq> {k + 2, k + 3, tcp + 16, tcp + 17} \<and>
         mss_at b' = Some (Some (tcp, k)) \<and>
         mss_value b' k = (if m = 0 then mss_value b k else min m (mss_value b k))
     | _ \<Rightarrow> b' = b)"
proof -
  from mss_at_total obtain r where r: "mss_at b = Some r" by blast
  show ?thesis
  proof (cases r)
    case None
    with r clamp_eq [OF r, of m] show ?thesis by simp
  next
    case (Some tk)
    obtain tcp k where tk: "tk = (tcp, k)" by (cases tk)
    with r Some have at: "mss_at b = Some (Some (tcp, k))" by simp
    have h: "htons (htons m) = m" by (simp add: htons_def)
    show ?thesis
    proof (cases "m \<noteq> 0 \<and> m < mss_value b k")
      case True
      then show ?thesis
        using clamp_eq [OF at, of m] clamped_option [OF at, of "htons m"] at
          put16_diff [of b "k + 2" "htons m" "tcp + 16"]
        by (simp add: min_def h numeral_3_eq_3 add.commute [of 17 tcp] less_imp_le)
    next
      case False
      then show ?thesis using clamp_eq [OF at, of m] at by (auto simp: min_def)
    qed
  qed
qed

lemma drop_put16: "n \<le> i \<Longrightarrow> drop n (put16 p i w) = put16 (drop n p) (i - n) w"
  by (simp add: put16_def drop_update_swap Suc_diff_le)

lemma take_put16: "i + 1 < n \<Longrightarrow> take n (put16 p i w) = put16 (take n p) i w"
  by (simp add: put16_def take_update_swap)

text \<open>The 16-bit sum of \<open>n\<close> bytes from \<open>start\<close>: what a receiver adds up, modulo \<open>2^16 - 1\<close>.\<close>

definition csum :: "bytes \<Rightarrow> nat \<Rightarrow> nat \<Rightarrow> nat" where
  "csum b start n = sum16 (take n (drop start b)) mod 65535"

lemma csum_edit:
  assumes "start \<le> i" and "start \<le> j" and "even (i - start)" and "even (j - start)" and "i \<noteq> j"
    and "i + 1 < start + n" and "j + 1 < start + n" and "start + n \<le> length b"
    and "c = mk16 (b ! (j + 1)) (b ! j)" and "m = mk16 (b ! (i + 1)) (b ! i)"
  shows "csum (put16 (put16 b i m') j (csum_update c m m')) start n = csum b start n"
proof -
  let ?s = "take n (drop start b)"
  have ij: "i - start + 1 < n" "j - start + 1 < n" "i - start + 1 < length ?s" "j - start + 1 < length ?s"
    using assms(1,2,6,7,8) by auto
  have "take n (drop start (put16 (put16 b i m') j (csum_update c m m')))
      = put16 (put16 ?s (i - start) m') (j - start) (csum_update c m m')"
    using assms(1,2) ij(1,2) by (simp add: drop_put16 take_put16)
  moreover have "c = mk16 (?s ! (j - start + 1)) (?s ! (j - start))" "m = mk16 (?s ! (i - start + 1)) (?s ! (i - start))"
    using assms(1,2,8-10) ij by simp_all
  moreover have "i - start \<noteq> j - start" using assms(1,2,5) by simp
  ultimately show ?thesis
    unfolding csum_def using sum16_edit [OF assms(3,4) _ ij(3,4)] by simp
qed

text \<open>
  C6: The MSS clamp keeps the TCP checksum right when the option stands at an even offset of the
  TCP header: the one's complement sum of the segment (any length that holds the header) is the
  same after the clamp, so with the same pseudo-header a valid checksum stays valid.
\<close>

theorem clamp_keeps_checksum:
  assumes "clamp_tcp_mss b m = Some b'" and "mss_at b = Some (Some (tcp, k))" and "even (k - tcp)"
    and "k + 4 \<le> tcp + n" and "tcp + n \<le> length b"
  shows "csum b' tcp n = csum b tcp n"
proof -
  from assms(2) have k: "tcp + 20 \<le> k" by (rule mss_at_SomeD)
  from clamp_eq [OF assms(2), of m] assms(1) consider "b' = b" |
    "b' = put16 (put16 b (k + 2) (htons m)) (tcp + 16)
            (csum_update (mk16 (b ! (tcp + 16 + 1)) (b ! (tcp + 16))) (mk16 (b ! (k + 2 + 1)) (b ! (k + 2))) (htons m))"
    by (auto simp: numeral_3_eq_3 add.commute [of 17 tcp] split: if_split_asm)
  then show ?thesis
  proof cases
    case 2
    have "even (k + 2 - tcp)" "even (tcp + 16 - tcp)" using assms(3) k by auto
    then show ?thesis unfolding 2
      by (intro csum_edit [OF _ _ _ _ _ _ _ assms(5) refl refl]) (use k assms(4) in auto)
  qed simp
qed

text \<open>A SYN of 60 bytes; \<open>opts\<close> are the eight bytes of TCP options.\<close>

definition demo_syn :: "bytes \<Rightarrow> bytes" where
  "demo_syn opts = replicate 12 2 @ [8, 0] @ [0x45, 0, 0, 48, 0, 0, 0x40, 0, 64, 6, 0, 0, 192, 168, 4, 2, 8, 8, 8, 8]
     @ [0xC0, 0, 0, 80, 0, 0, 0, 1, 0, 0, 0, 0, 0x70, 2, 0xFF, 0xFF, 0x12, 0x34, 0, 0] @ opts"

theorem clamp_keeps_checksum_witness:
  "csum (the (clamp_tcp_mss (demo_syn [2, 4, 0x05, 0xB4, 1, 1, 1, 0]) 1240)) 34 28 = csum (demo_syn [2, 4, 0x05, 0xB4, 1, 1, 1, 0]) 34 28
   \<and> mss_value (the (clamp_tcp_mss (demo_syn [2, 4, 0x05, 0xB4, 1, 1, 1, 0]) 1240)) 54 = 1240"
proof -
  let ?b = "demo_syn [2, 4, 0x05, 0xB4, 1, 1, 1, 0]"
  have v: "mss_value (the (clamp_tcp_mss ?b 1240)) 54 = 1240" by code_simp
  have l: "length ?b = 62" by code_simp
  have at: "mss_at ?b = Some (Some (34, 54))" by code_simp
  have "clamp_tcp_mss ?b 1240 = Some (the (clamp_tcp_mss ?b 1240))" using clamp_eq [OF at] by simp
  from clamp_keeps_checksum [OF this at, of 28] l v show ?thesis by simp
qed

text \<open>
  At an odd offset it does not: RFC 1624 updates the checksum by 16-bit words of the header,
  and an MSS option behind a single NOP straddles two of them.  After the clamp the sum of the
  segment differs, so the receiver drops the SYN.
\<close>

theorem clamp_breaks_checksum_at_odd_offset:
  "let b = demo_syn [1, 2, 4, 0x05, 0xB4, 1, 1, 0]; b' = the (clamp_tcp_mss b 1240)
   in mss_at b = Some (Some (34, 55)) \<and> mss_value b' 55 = 1240 \<and> csum b' 34 28 \<noteq> csum b 34 28"
proof -
  let ?b = "demo_syn [1, 2, 4, 0x05, 0xB4, 1, 1, 0]"
  have at: "mss_at ?b = Some (Some (34, 55))" by code_simp
  have v: "mss_value (the (clamp_tcp_mss ?b 1240)) 55 = 1240" by code_simp
  have d: "drop 34 (the (clamp_tcp_mss ?b 1240)) =
      [192, 0, 0, 80, 0, 0, 0, 1, 0, 0, 0, 0, 112, 2, 255, 255, 19, 16, 0, 0, 1, 2, 4, 4, 216, 1, 1, 0]"
    by code_simp
  have "csum ?b 34 28 = 37116" by (simp add: csum_def demo_syn_def)
  moreover have "csum (the (clamp_tcp_mss ?b 1240)) 34 28 = 27681" unfolding csum_def d by simp
  ultimately show ?thesis using at v by (simp add: Let_def)
qed

section \<open>The TTL override\<close>

definition apply_sta_ttl_override :: "bytes \<Rightarrow> u8 \<Rightarrow> bytes option" where
  "apply_sta_ttl_override b override =
     (if override = 0 then Some b
      else if length b < 14 + 20 then Some b
      else do {
        t0 \<leftarrow> rd8 b 12; t1 \<leftarrow> rd8 b 13;
        if t0 \<noteq> 8 \<or> t1 \<noteq> 0 then Some b
        else do {
          vhl \<leftarrow> rd8 b 14;
          if drop_bit 4 vhl \<noteq> 4 then Some b
          else do {
            ttl \<leftarrow> rd8 b 22;
            if ttl = override then Some b
            else do {
              old_word \<leftarrow> ne16 b 22;
              new_word \<leftarrow> ne16 (b[22 := override]) 22;
              c \<leftarrow> ne16 (b[22 := override]) 24;
              wr16 (b[22 := override]) 24 (csum_update c old_word new_word) } } } })"

lemma ttl_override_total: "\<exists>b'. apply_sta_ttl_override b t = Some b'"
proof (cases "34 \<le> length b")
  case True
  then have r: "rd8 b 12 = Some (b ! 12)" "rd8 b 13 = Some (b ! 13)" "rd8 b 14 = Some (b ! 14)" "rd8 b 22 = Some (b ! 22)"
    "ne16 b 22 = Some (mk16 (b ! 23) (b ! 22))" "\<exists>w. ne16 (b[22 := t]) 22 = Some w" "\<exists>c. ne16 (b[22 := t]) 24 = Some c"
    "\<exists>b'. wr16 (b[22 := t]) 24 c = Some b'" for c
    by (simp_all add: byte_simps)
  then show ?thesis by (auto simp: apply_sta_ttl_override_def)
qed (simp add: apply_sta_ttl_override_def)

definition is_ipv4_frame :: "bytes \<Rightarrow> bool" where
  "is_ipv4_frame b \<longleftrightarrow> 34 \<le> length b \<and> b ! 12 = 8 \<and> b ! 13 = 0 \<and> drop_bit 4 (b ! 14) = 4"

text \<open>
  The TTL override never leaves the frame; it changes nothing but the TTL and the checksum of
  an IPv4 header, sets the TTL to the configured value and keeps the header's checksum valid: the
  one's complement sum of the header, of any length that holds the checksum, stays the same.
\<close>

theorem ttl_override_correct:
  "\<exists>b'. apply_sta_ttl_override b t = Some b' \<and> length b' = length b \<and>
    (if t \<noteq> 0 \<and> is_ipv4_frame b
     then b' ! 22 = t \<and> {i. b' ! i \<noteq> b ! i} \<subseteq> {22, 24, 25} \<and> csum b' 14 (12 + n) = csum b 14 (12 + n)
     else b' = b)"
proof (cases "t \<noteq> 0 \<and> is_ipv4_frame b")
  case False
  then show ?thesis by (auto simp: apply_sta_ttl_override_def is_ipv4_frame_def byte_simps)
next
  case True
  then have l: "34 \<le> length b" and h: "b ! 12 = 8" "b ! 13 = 0" "drop_bit 4 (b ! 14) = 4" "t \<noteq> 0"
    by (auto simp: is_ipv4_frame_def)
  show ?thesis
  proof (cases "b ! 22 = t")
    case same: True
    then show ?thesis using l h True by (simp add: apply_sta_ttl_override_def byte_simps)
  next
    case False
    define m' where "m' = mk16 (b ! 23) t"
    have p: "b[22 := t] = put16 b 22 m'"
      using list_update_id [of "b[22 := t]" 23] by (simp add: put16_def m'_def)
    define b' where "b' = put16 (put16 b 22 m') 24 (csum_update (mk16 (b ! 25) (b ! 24)) (mk16 (b ! 23) (b ! 22)) m')"
    have r: "ne16 (put16 b 22 m') 22 = Some m'" "ne16 (put16 b 22 m') 24 = Some (mk16 (b ! 25) (b ! 24))"
      using l by (simp_all add: ne16_Some put16_nth) (simp add: put16_def m'_def)
    have e: "apply_sta_ttl_override b t = Some b'"
      using l h False by (simp add: apply_sta_ttl_override_def byte_simps p r wr16_put16 b'_def del: wr16_Some)
    have "csum b' 14 (12 + n) = csum b 14 (12 + n)"
    proof (cases "26 + n \<le> length b")
      case True
      then show ?thesis unfolding b'_def
        using csum_edit [of 14 22 24 "12 + n" b "mk16 (b ! 25) (b ! 24)" "mk16 (b ! 23) (b ! 22)" m'] by simp
    next
      case False
      define k where "k = length b - 14"
      have "csum x 14 (12 + n) = csum x 14 k" if "length x = length b" for x
        using False that by (simp add: csum_def k_def)
      moreover have "csum b' 14 k = csum b 14 k" unfolding b'_def
        using l csum_edit [of 14 22 24 k b "mk16 (b ! 25) (b ! 24)" "mk16 (b ! 23) (b ! 22)" m'] by (simp add: k_def)
      ultimately show ?thesis by (simp add: b'_def)
    qed
    moreover have "b' ! 22 = t" using l by (simp add: b'_def put16_def m'_def)
    moreover have "{i. b' ! i \<noteq> b ! i} \<subseteq> {22, 24, 25}"
    proof (rule subsetI)
      fix i assume "i \<in> {i. b' ! i \<noteq> b ! i}"
      then have "b' ! i \<noteq> b ! i" by simp
      moreover have "b' ! i = put16 b 22 m' ! i" if "i \<noteq> 24" "i \<noteq> 25" using that by (simp add: b'_def put16_nth)
      moreover have "put16 b 22 m' ! i = b ! i" if "i \<noteq> 22" using that by (simp add: p [symmetric])
      ultimately show "i \<in> {22, 24, 25}" by (metis insertCI)
    qed
    ultimately show ?thesis using e True by (simp add: b'_def)
  qed
qed

section \<open>Fragmentation needed\<close>

definition le16_bytes :: "u16 \<Rightarrow> bytes" where "le16_bytes w = [lo8 w, hi8 w]"
definition be16_bytes :: "u16 \<Rightarrow> bytes" where "be16_bytes w = [hi8 w, lo8 w]"
definition le32_bytes :: "u32 \<Rightarrow> bytes" where "le32_bytes w = [byte0 w, byte1 w, byte2 w, byte3 w]"

text \<open>The reply: Ethernet header, IP header and ICMP message; \<open>chksum\<close> is \<open>inet_chksum\<close> of lwIP.\<close>

definition icmp_ip_header :: "u16 \<Rightarrow> u16 \<Rightarrow> u32 \<Rightarrow> bytes \<Rightarrow> bytes" where
  "icmp_ip_header new_ip_len c src dest =
     [0x45, 0] @ be16_bytes new_ip_len @ [0, 0, 0, 0, 64, 1] @ le16_bytes c @ le32_bytes src @ dest"

definition icmp_message :: "u16 \<Rightarrow> u16 \<Rightarrow> bytes \<Rightarrow> bytes" where
  "icmp_message c mtu quote = [3, 4] @ le16_bytes c @ [0, 0] @ be16_bytes mtu @ quote"

definition icmp_reply :: "(bytes \<Rightarrow> u16) \<Rightarrow> u32 \<Rightarrow> u16 \<Rightarrow> bytes \<Rightarrow> bytes \<Rightarrow> bytes \<Rightarrow> bytes \<Rightarrow> bytes" where
  "icmp_reply chksum src mtu eth_src eth_dst ip_src quote =
     (let len = of_nat (20 + 8 + length quote)
      in eth_src @ eth_dst @ [8, 0]
         @ icmp_ip_header len (chksum (icmp_ip_header len 0 src ip_src)) src ip_src
         @ icmp_message (chksum (icmp_message 0 mtu quote)) mtu quote)"

text \<open>
  The outer \<open>None\<close> is a read outside the frame, the inner one no reply.  \<open>ready\<close>: the original
  output function of the interface is known; \<open>alloc\<close>: \<open>pbuf_alloc\<close> succeeds.
\<close>

definition send_icmp_frag_needed ::
  "(bytes \<Rightarrow> u16) \<Rightarrow> bool \<Rightarrow> bool \<Rightarrow> u32 \<Rightarrow> bytes \<Rightarrow> u16 \<Rightarrow> bytes option option" where
  "send_icmp_frag_needed chksum ready alloc src b mtu =
     (if \<not> ready then Some None
      else if length b < 14 + 20 then Some None
      else do {
        t0 \<leftarrow> rd8 b 12; t1 \<leftarrow> rd8 b 13;
        if t0 \<noteq> 8 \<or> t1 \<noteq> 0 then Some None
        else do {
          vhl \<leftarrow> rd8 b 14; total \<leftarrow> be16 b 16; fo \<leftarrow> be16 b 20; proto \<leftarrow> rd8 b 23;
          if drop_bit 4 vhl \<noteq> 4 \<or> total \<le> mtu \<or> fo AND 0x4000 = 0 \<or> fo AND 0x1FFF \<noteq> 0 \<or> proto = 1
          then Some None
          else (let ihl = unat (vhl AND 15) * 4;
                    avail = min 8 (if 14 + ihl < length b then length b - 14 - ihl else 0)
                in if ihl < 20 \<or> 60 < ihl then Some None
                   else if \<not> alloc then Some None
                   else do {
                     eth_src \<leftarrow> rdn b 6 6; eth_dst \<leftarrow> rdn b 0 6; ip_src \<leftarrow> rdn b 26 4;
                     header \<leftarrow> rdn b 14 ihl;
                     payload \<leftarrow> (if 0 < avail then rdn b (14 + ihl) avail else Some []);
                     Some (Some (icmp_reply chksum src mtu eth_src eth_dst ip_src (header @ payload))) }) } })"

text \<open>The frames that are answered: oversized first fragments of IPv4 that must not be fragmented.\<close>

definition too_big :: "bytes \<Rightarrow> u16 \<Rightarrow> bool" where
  "too_big b mtu \<longleftrightarrow> 34 \<le> length b \<and> b ! 12 = 8 \<and> b ! 13 = 0 \<and> drop_bit 4 (b ! 14) = 4 \<and>
     mtu < mk16 (b ! 16) (b ! 17) \<and> mk16 (b ! 20) (b ! 21) AND 0x4000 \<noteq> 0 \<and> mk16 (b ! 20) (b ! 21) AND 0x1FFF = 0 \<and>
     b ! 23 \<noteq> 1 \<and> 20 \<le> unat (b ! 14 AND 15) * 4"

lemma ihl_le_60: "unat (w AND 15 :: u8) * 4 \<le> 60"
proof -
  have "w AND 15 \<le> 15" by (rule word_and_le1)
  then show ?thesis by (simp add: word_le_nat_alt)
qed

text \<open>
  What the fragmentation-needed reply does with every frame.  Frames that are not oversized
  unfragmentable IPv4 are not answered; for one whose IP header lies within the frame, the reply
  goes back to the sender (MAC and IP address), carries the next-hop MTU and quotes the IP header
  and up to eight bytes behind it; for one whose header length field exceeds the frame the
  function reads behind the frame.
\<close>

theorem frag_needed_cases:
  "send_icmp_frag_needed chksum True True src b mtu =
    (let ihl = unat (b ! 14 AND 15) * 4 in
     if \<not> too_big b mtu then Some None
     else if length b < 14 + ihl then None
     else Some (Some (icmp_reply chksum src mtu (take 6 (drop 6 b)) (take 6 b) (take 4 (drop 26 b))
                        (take (ihl + 8) (drop 14 b)))))"
proof (cases "34 \<le> length b")
  case False
  then show ?thesis by (simp add: send_icmp_frag_needed_def too_big_def)
next
  case True
  define ihl where "ihl = unat (b ! 14 AND 15) * 4"
  have ihl: "ihl \<le> 60" unfolding ihl_def by (rule ihl_le_60)
  have r: "rd8 b 12 = Some (b ! 12)" "rd8 b 13 = Some (b ! 13)" "rd8 b 14 = Some (b ! 14)" "rd8 b 23 = Some (b ! 23)"
    "be16 b 16 = Some (mk16 (b ! 16) (b ! 17))" "be16 b 20 = Some (mk16 (b ! 20) (b ! 21))"
    "rdn b 6 6 = Some (take 6 (drop 6 b))" "rdn b 0 6 = Some (take 6 b)" "rdn b 26 4 = Some (take 4 (drop 26 b))"
    using True by (simp_all add: byte_simps rdn_def)
  show ?thesis
  proof (cases "too_big b mtu")
    case no: False
    then show ?thesis
      using True unfolding send_icmp_frag_needed_def Let_def r Option.bind.simps ihl_def [symmetric]
      by (auto simp: too_big_def ihl_def [symmetric])
  next
    case big: True
    then have c: "b ! 12 = 8" "b ! 13 = 0" "drop_bit 4 (b ! 14) = 4" "\<not> mk16 (b ! 16) (b ! 17) \<le> mtu"
      "mk16 (b ! 20) (b ! 21) AND 0x4000 \<noteq> 0" "mk16 (b ! 20) (b ! 21) AND 0x1FFF = 0" "b ! 23 \<noteq> 1" "\<not> ihl < 20"
      by (auto simp: too_big_def ihl_def [symmetric])
    define avail where "avail = min 8 (if 14 + ihl < length b then length b - 14 - ihl else 0)"
    have run: "send_icmp_frag_needed chksum True True src b mtu =
      do { header \<leftarrow> rdn b 14 ihl; payload \<leftarrow> (if 0 < avail then rdn b (14 + ihl) avail else Some []);
           Some (Some (icmp_reply chksum src mtu (take 6 (drop 6 b)) (take 6 b) (take 4 (drop 26 b)) (header @ payload))) }"
      using True c ihl unfolding send_icmp_frag_needed_def Let_def r Option.bind.simps ihl_def [symmetric] avail_def [symmetric]
      by simp
    show ?thesis
    proof (cases "length b < 14 + ihl")
      case short: True
      then have "rdn b 14 ihl = None" by (simp add: rdn_def)
      then show ?thesis using big short by (simp add: run Let_def ihl_def [symmetric])
    next
      case False
      then have h: "rdn b 14 ihl = Some (take ihl (drop 14 b))" by (simp add: rdn_def)
      have p: "(if 0 < avail then rdn b (14 + ihl) avail else Some []) = Some (take 8 (drop (14 + ihl) b))"
        using False by (auto simp: avail_def rdn_def min_def)
      have "take ihl (drop 14 b) @ take 8 (drop (14 + ihl) b) = take (ihl + 8) (drop 14 b)"
        by (simp add: take_add drop_drop add.commute)
      then show ?thesis using big False unfolding run h p Option.bind.simps
        by (simp add: Let_def ihl_def [symmetric])
    qed
  qed
qed

text \<open>
  The read behind the frame can be provoked by a client: a 34-byte frame whose IP header claims
  60 bytes and a total length of 1500 makes the function copy 40 bytes from behind the frame.
\<close>

theorem frag_needed_reads_behind_frame:
  "send_icmp_frag_needed chksum True True src
     (replicate 12 2 @ [8, 0] @ [0x4F, 0, 0x05, 0xDC, 0, 0, 0x40, 0, 64, 17, 0, 0, 192, 168, 4, 2, 8, 8, 8, 8]) 1280 = None"
  unfolding frag_needed_cases by code_simp

end
