(* ===== verification/Netif_Hooks.thy ===== *)
theory Netif_Hooks
  imports Acl Route_Hook Packet_Edit
begin

text \<open>
  The packet hooks of \<open>main/netif_hooks.c\<close>: what happens to every frame of the station, the access
  point and the tunnel, composed of the ACL, the tailnet forwards, the TTL override, the
  fragmentation reply and the MSS clamp; and the installation of the hooks.
\<close>

section \<open>State\<close>

record hook_state =
  hk_sta_in :: u64
  hk_sta_out :: u64
  hk_ap_in :: u64
  hk_ap_out :: u64
  hk_ttl :: u8
  hk_acl :: acl_state
  hk_fw :: fw_state

text \<open>
  What the hooks read: the two MTU settings, the clock, whether the replaced functions are known,
  the address of the access point, \<open>inet_chksum\<close> and whether a reply can be allocated.
\<close>

record hook_env =
  he_mss_clamp :: u16
  he_pmtu :: u16
  he_now :: int
  he_orig :: bool
  he_ap_addr :: u32
  he_chksum :: "bytes \<Rightarrow> u16"
  he_alloc :: bool

text \<open>
  A packet is \<open>NULL\<close> or its total length and the bytes of its first segment.  Result of a hook:
  the packet was dropped (\<open>ERR_OK\<close>), there is no function to hand it to (\<open>ERR_VAL\<close>), or it was
  handed on with these bytes.
\<close>

type_synonym packet = "(u16 \<times> bytes) option"

datatype verdict = Dropped | No_handler | Handed_on "bytes option"

definition pbytes :: "packet \<Rightarrow> bytes option" where "pbytes p = map_option snd p"

definition count_bytes :: "packet \<Rightarrow> u64 \<Rightarrow> u64" where
  "count_bytes p n = (case p of None \<Rightarrow> n | Some (tot, _) \<Rightarrow> n + ucast tot)"

definition netif_hooks_set_sta_ttl :: "u8 \<Rightarrow> hook_state \<Rightarrow> hook_state" where
  "netif_hooks_set_sta_ttl ttl s = s\<lparr>hk_ttl := ttl\<rparr>"

definition ACL_TO_ESP :: nat where "ACL_TO_ESP = 0"
definition ACL_TO_AP :: nat where "ACL_TO_AP = 2"
definition ACL_FROM_AP :: nat where "ACL_FROM_AP = 3"

section \<open>The hooks\<close>

definition acl_drops :: "u8 \<Rightarrow> bool" where
  "acl_drops action \<longleftrightarrow> action \<noteq> ACL_NO_MATCH \<and> action AND 1 = ACL_DENY"

text \<open>The ACL check of a hook: whether the frame is dropped, and the new state.\<close>

definition acl_check_and_tap :: "hook_env \<Rightarrow> nat \<Rightarrow> bytes option \<Rightarrow> hook_state \<Rightarrow> (bool \<times> hook_state) option" where
  "acl_check_and_tap env acl_no p s =
     (case acl_check_packet (hk_acl s) acl_no p (he_now env) of
        None \<Rightarrow> None
      | Some (action, acl, _) \<Rightarrow> Some (acl_drops action, s\<lparr>hk_acl := acl\<rparr>))"

definition hand_on :: "hook_env \<Rightarrow> bytes option \<Rightarrow> verdict" where
  "hand_on env p = (if he_orig env then Handed_on p else No_handler)"

definition clamp_pbuf :: "bytes option \<Rightarrow> u16 \<Rightarrow> bytes option option" where
  "clamp_pbuf p m = (case p of None \<Rightarrow> Some None | Some b \<Rightarrow> map_option Some (clamp_tcp_mss b m))"


definition sta_input_hook :: "hook_env \<Rightarrow> packet \<Rightarrow> hook_state \<Rightarrow> (verdict \<times> hook_state) option" where
  "sta_input_hook env p s = do {
     r \<leftarrow> acl_check_and_tap env ACL_TO_ESP (pbytes p) (s\<lparr>hk_sta_in := count_bytes p (hk_sta_in s)\<rparr>);
     (if fst r then Some (Dropped, snd r)
      else do {
        a \<leftarrow> tailnet_forward_allow_uplink_packet (hk_fw (snd r)) (pbytes p);
        Some (if \<not> fst a then Dropped else hand_on env (pbytes p), (snd r)\<lparr>hk_fw := snd a\<rparr>) }) }"


text \<open>The access point's input also yields the ICMP reply it sends, if any.\<close>

definition ap_input_hook :: "hook_env \<Rightarrow> packet \<Rightarrow> hook_state \<Rightarrow> (verdict \<times> bytes option \<times> hook_state) option" where
  "ap_input_hook env p s = do {
     r \<leftarrow> acl_check_and_tap env ACL_TO_AP (pbytes p) (s\<lparr>hk_ap_in := count_bytes p (hk_ap_in s)\<rparr>);
     (if fst r then Some (Dropped, None, snd r)
      else do {
        ok \<leftarrow> tailnet_forward_allow_non_uplink_packet (hk_fw (snd r)) (pbytes p) True;
        (if \<not> ok then Some (Dropped, None, snd r)
         else do {
           reply \<leftarrow> (case pbytes p of
                       Some b \<Rightarrow> if 0 < he_pmtu env
                                 then send_icmp_frag_needed (he_chksum env) (he_orig env) (he_alloc env) (he_ap_addr env) b (he_pmtu env)
                                 else Some None
                     | None \<Rightarrow> Some None);
           p' \<leftarrow> clamp_pbuf (pbytes p) (he_mss_clamp env);
           Some (hand_on env p', reply, snd r) }) }) }"

definition ap_linkoutput_hook :: "hook_env \<Rightarrow> packet \<Rightarrow> hook_state \<Rightarrow> (verdict \<times> hook_state) option" where
  "ap_linkoutput_hook env p s = do {
     r \<leftarrow> acl_check_and_tap env ACL_FROM_AP (pbytes p) (s\<lparr>hk_ap_out := count_bytes p (hk_ap_out s)\<rparr>);
     (if fst r then Some (Dropped, snd r)
      else do { p' \<leftarrow> clamp_pbuf (pbytes p) (he_mss_clamp env); Some (hand_on env p', snd r) }) }"

definition wg_input_hook :: "hook_env \<Rightarrow> packet \<Rightarrow> hook_state \<Rightarrow> (verdict \<times> hook_state) option" where
  "wg_input_hook env p s = do {
     ok \<leftarrow> tailnet_forward_allow_non_uplink_packet (hk_fw s) (pbytes p) False;
     Some (if \<not> ok then Dropped else hand_on env (pbytes p), s) }"

section \<open>Mediation\<close>

lemma acl_check_and_tap_total: "\<exists>d s'. acl_check_and_tap env n p s = Some (d, s') \<and> hk_fw s' = hk_fw s \<and>
    (\<exists>a acl lg. acl_check_packet (hk_acl s) n p (he_now env) = Some (a, acl, lg) \<and> d = acl_drops a \<and> hk_acl s' = acl)"
proof -
  have "acl_check_packet (hk_acl s) n p (he_now env) \<noteq> None"
  proof (cases p)
    case (Some q)
    obtain r where "acl_extract q = Some r" using acl_extract_total [of q] by blast
    with Some show ?thesis by (simp add: acl_check_packet_def del: not_None_eq)
  qed (simp add: acl_check_packet_def)
  then obtain a acl lg where "acl_check_packet (hk_acl s) n p (he_now env) = Some (a, acl, lg)" by auto
  then show ?thesis by (simp add: acl_check_and_tap_def)
qed

lemma allow_uplink_total: "\<exists>v s'. tailnet_forward_allow_uplink_packet s p = Some (v, s')"
proof -
  from packet_fields_total obtain f where "packet_fields p True = Some f" by blast
  then show ?thesis
    by (cases f) (auto simp: tailnet_forward_allow_uplink_packet_def Let_def split: option.splits)
qed

lemma allow_non_uplink:
  "\<exists>f. packet_fields p eth = Some f \<and> tailnet_forward_allow_non_uplink_packet s p eth =
     Some (case f of None \<Rightarrow> True | Some (src, proto, dp) \<Rightarrow> (proto, dp) \<notin> set (tn_listens s))"
proof -
  from packet_fields_total obtain f where "packet_fields p eth = Some f" by blast
  then show ?thesis
    by (auto simp: tailnet_forward_allow_non_uplink_packet_def tn_conflicts_iff split: option.splits)
qed

lemma clamp_pbuf_total: "\<exists>p'. clamp_pbuf p m = Some p' \<and> (p' = None \<longleftrightarrow> p = None)"
proof (cases p)
  case (Some b)
  from mss_at_total [of b] obtain r where r: "mss_at b = Some r" by blast
  show ?thesis using clamp_eq [OF r, of m] Some by (simp add: clamp_pbuf_def)
qed (simp add: clamp_pbuf_def)

text \<open>
  C1: The filters mediate everything that comes in: a frame of the uplink, of a client or of the
  tunnel reaches the stack only if the ACL of its interface does not deny it and the tailnet
  forwards admit it.  Frames of the uplink are always decided without a read outside the frame.
\<close>

theorem uplink_input_mediated:
  "\<exists>v s'. sta_input_hook env p s = Some (v, s') \<and>
    v = (if (\<exists>a acl lg. acl_check_packet (hk_acl s) ACL_TO_ESP (pbytes p) (he_now env) = Some (a, acl, lg) \<and> acl_drops a)
            \<or> (\<exists>fw. tailnet_forward_allow_uplink_packet (hk_fw s) (pbytes p) = Some (False, fw))
         then Dropped else hand_on env (pbytes p))"
proof -
  let ?s = "s\<lparr>hk_sta_in := count_bytes p (hk_sta_in s)\<rparr>"
  obtain d s1 a acl lg where c: "acl_check_and_tap env ACL_TO_ESP (pbytes p) ?s = Some (d, s1)" "hk_fw s1 = hk_fw s"
    "acl_check_packet (hk_acl s) ACL_TO_ESP (pbytes p) (he_now env) = Some (a, acl, lg)" "d = acl_drops a"
    using acl_check_and_tap_total [of env ACL_TO_ESP "pbytes p" ?s] by auto
  obtain v fw where u: "tailnet_forward_allow_uplink_packet (hk_fw s) (pbytes p) = Some (v, fw)"
    using allow_uplink_total by blast
  from c u show ?thesis by (cases v) (simp_all add: sta_input_hook_def)
qed

text \<open>
  C2: Neither a client nor a tailnet peer can use a port that is reserved for a tailnet forward: a
  frame to a port on which an enabled forward listens is dropped on the access point's and on the
  tunnel's input, and a frame the ACL denies is dropped on the access point's.
\<close>

theorem forward_ports_closed_inside:
  assumes "packet_fields (pbytes p) eth = Some (Some (src, proto, dp))" and "(proto, dp) \<in> set (tn_listens (hk_fw s))"
  shows "if eth then \<exists>s'. ap_input_hook env p s = Some (Dropped, None, s')
         else \<exists>s'. wg_input_hook env p s = Some (Dropped, s')"
proof -
  let ?s = "s\<lparr>hk_ap_in := count_bytes p (hk_ap_in s)\<rparr>"
  have n: "tailnet_forward_allow_non_uplink_packet (hk_fw s) (pbytes p) eth = Some False"
    using allow_non_uplink [of "pbytes p" eth "hk_fw s"] assms by auto
  obtain d s1 where c: "acl_check_and_tap env ACL_TO_AP (pbytes p) ?s = Some (d, s1)" "hk_fw s1 = hk_fw s"
    using acl_check_and_tap_total [of env ACL_TO_AP "pbytes p" ?s] by auto
  show ?thesis
  proof (cases eth)
    case True
    with n c show ?thesis by (cases d) (simp_all add: ap_input_hook_def)
  next
    case False
    with n show ?thesis by (simp add: wg_input_hook_def)
  qed
qed

definition demo_hook_env :: hook_env where
  "demo_hook_env = \<lparr>he_mss_clamp = 1240, he_pmtu = 1280, he_now = 0, he_orig = True, he_ap_addr = 0x0104A8C0,
     he_chksum = (\<lambda>_. 0), he_alloc = True\<rparr>"

definition demo_hook_state :: hook_state where
  "demo_hook_state = \<lparr>hk_sta_in = 0, hk_sta_out = 0, hk_ap_in = 0, hk_ap_out = 0, hk_ttl = 0,
     hk_acl = acl_boot, hk_fw = fw_demo\<rparr>"

theorem forward_ports_closed_inside_witness:
  "\<exists>s'. ap_input_hook demo_hook_env (Some (38, fw_demo_packet)) demo_hook_state = Some (Dropped, None, s')"
proof -
  have f: "packet_fields (pbytes (Some (38, fw_demo_packet))) True = Some (Some (0xC0A80107, 6, 8080))" by code_simp
  have l: "(6, 8080) \<in> set (tn_listens (hk_fw demo_hook_state))" by code_simp
  from forward_ports_closed_inside [OF f l, of demo_hook_env] show ?thesis by simp
qed


section \<open>Installation\<close>

text \<open>
  The input function of an interface: the tunnel's hook, the station's, the access point's, or a
  function of lwIP or a driver.
\<close>

datatype input_fn = Wg_hook | Sta_hook | Ap_hook | Driver nat

record hook_netif =
  hn_ptr :: nat
  hn_addr :: u32
  hn_input :: input_fn

record wg_hook =
  wh_original :: "input_fn option"
  wh_hooked :: "nat option"

definition wg_hook_boot :: wg_hook where
  "wg_hook_boot = \<lparr>wh_original = None, wh_hooked = None\<rparr>"

definition hn_is_tunnel :: "hook_netif \<Rightarrow> bool" where
  "hn_is_tunnel n \<longleftrightarrow> hn_addr n \<noteq> 0 \<and> htonl (hn_addr n) AND 0xFFC00000 = 0x64400000"

fun netif_hooks_refresh_cb :: "wg_hook \<Rightarrow> hook_netif list \<Rightarrow> wg_hook \<times> hook_netif list" where
  "netif_hooks_refresh_cb h [] = (h, [])"
| "netif_hooks_refresh_cb h (n # ns) =
     (if \<not> hn_is_tunnel n then (let r = netif_hooks_refresh_cb h ns in (fst r, n # snd r))
      else if Some (hn_ptr n) = wh_hooked h \<and> hn_input n = Wg_hook then (h, n # ns)
      else (\<lparr>wh_original = Some (hn_input n), wh_hooked = Some (hn_ptr n)\<rparr>, n\<lparr>hn_input := Wg_hook\<rparr> # ns))"

text \<open>The station's and the access point's functions as they were found, and whether installation is done.\<close>

record hooks_installed =
  hi_sta :: "input_fn option"
  hi_ap :: "input_fn option"
  hi_done :: bool

text \<open>\<open>sta\<close> and \<open>ap\<close>: no interface object, one without a netif, or one with an input function.\<close>

definition install_one :: "input_fn \<Rightarrow> input_fn option option \<Rightarrow> input_fn option \<Rightarrow> input_fn option \<times> input_fn option option" where
  "install_one hook nif original =
     (case nif of Some (Some f) \<Rightarrow> (Some f, Some (Some hook)) | _ \<Rightarrow> (original, nif))"

definition netif_hooks_init ::
  "hooks_installed \<Rightarrow> input_fn option option \<Rightarrow> input_fn option option
   \<Rightarrow> hooks_installed \<times> input_fn option option \<times> input_fn option option" where
  "netif_hooks_init st sta ap =
     (if hi_done st then (st, sta, ap)
      else (let s = install_one Sta_hook sta (hi_sta st); a = install_one Ap_hook ap (hi_ap st)
            in (\<lparr>hi_sta = fst s, hi_ap = fst a, hi_done = (sta \<noteq> None \<or> ap \<noteq> None)\<rparr>, snd s, snd a)))"

lemma refresh_twice_eq:
  "netif_hooks_refresh_cb (fst (netif_hooks_refresh_cb h ns)) (snd (netif_hooks_refresh_cb h ns)) = netif_hooks_refresh_cb h ns"
  by (induction h ns rule: netif_hooks_refresh_cb.induct) (auto simp: Let_def hn_is_tunnel_def prod_eq_iff)

text \<open>
  Installing the tunnel's hook is idempotent and touches only the tunnel: after a refresh the
  first interface with a tailnet address has the hook, no other interface changed, and another
  refresh changes nothing.
\<close>

theorem refresh_hooks_tunnel:
  "let r = netif_hooks_refresh_cb h ns in
    netif_hooks_refresh_cb (fst r) (snd r) = r \<and>
    (case find_index hn_is_tunnel ns of
       None \<Rightarrow> r = (h, ns)
     | Some i \<Rightarrow> snd r = ns[i := (ns ! i)\<lparr>hn_input := Wg_hook\<rparr>])"
proof -
  have "case find_index hn_is_tunnel ns of
       None \<Rightarrow> netif_hooks_refresh_cb h ns = (h, ns)
     | Some i \<Rightarrow> snd (netif_hooks_refresh_cb h ns) = ns[i := (ns ! i)\<lparr>hn_input := Wg_hook\<rparr>]"
    by (induction h ns rule: netif_hooks_refresh_cb.induct) (auto simp: Let_def prod_eq_iff split: option.splits)
  then show ?thesis using refresh_twice_eq [of h ns] by (simp add: Let_def)
qed

text \<open>
  When the interface with a tailnet address changes and changes back, the hook is recorded as
  the function it replaced: the refreshes see the tunnel, then an uplink with a tailnet address
  before it, then the tunnel again, and the hook would call itself for ever on the next packet.
\<close>

theorem refresh_hook_calls_itself:
  "let tun = \<lparr>hn_ptr = 1, hn_addr = 0x05004064, hn_input = Driver 1\<rparr>;
       up = \<lparr>hn_ptr = 2, hn_addr = 0x07014064, hn_input = Sta_hook\<rparr>;
       r1 = netif_hooks_refresh_cb wg_hook_boot [tun];
       r2 = netif_hooks_refresh_cb (fst r1) (up # snd r1);
       r3 = netif_hooks_refresh_cb (fst r2) [(hd (snd r2))\<lparr>hn_addr := 0x3201A8C0\<rparr>, snd r2 ! 1]
   in wh_original (fst r1) = Some (Driver 1) \<and> wh_original (fst r3) = Some Wg_hook"
  by code_simp

end
