(* ===== verification/Nvs_Params.thy ===== *)
theory Nvs_Params
  imports Prelude
begin

text \<open>
  Typed access to single settings (\<open>main/nvs_params.c\<close>): each call opens the namespace, does one
  operation, commits a change and closes.  NVS is a parameter of the model, a record of its calls
  over an arbitrary flash state \<open>'h\<close>; \<open>np_alloc\<close> says whether \<open>malloc\<close> succeeds.  The integer
  accessors, which the source generates from one macro, are the same two definitions applied to
  the calls of the type.
\<close>

record 'h nvs_raw =
  np_open_ro :: "'h \<Rightarrow> esp_err"
  np_open_rw :: "'h \<Rightarrow> esp_err"
  np_get_str :: "'h \<Rightarrow> string \<Rightarrow> esp_err + string"
  np_set_str :: "'h \<Rightarrow> string \<Rightarrow> string \<Rightarrow> esp_err \<times> 'h"
  np_get_u8 :: "'h \<Rightarrow> string \<Rightarrow> esp_err + u8"
  np_set_u8 :: "'h \<Rightarrow> string \<Rightarrow> u8 \<Rightarrow> esp_err \<times> 'h"
  np_get_u16 :: "'h \<Rightarrow> string \<Rightarrow> esp_err + u16"
  np_set_u16 :: "'h \<Rightarrow> string \<Rightarrow> u16 \<Rightarrow> esp_err \<times> 'h"
  np_commit :: "'h \<Rightarrow> esp_err \<times> 'h"
  np_erase_key :: "'h \<Rightarrow> string \<Rightarrow> esp_err \<times> 'h"
  np_erase_all :: "'h \<Rightarrow> esp_err \<times> 'h"
  np_alloc :: bool

text \<open>A change and its commit.\<close>

definition nvs_param_write :: "'h nvs_raw \<Rightarrow> 'h \<Rightarrow> ('h \<Rightarrow> esp_err \<times> 'h) \<Rightarrow> esp_err \<times> 'h" where
  "nvs_param_write api h op =
     (if np_open_rw api h \<noteq> ESP_OK then (np_open_rw api h, h)
      else (let r = op h in if fst r = ESP_OK then np_commit api (snd r) else r))"

definition nvs_param_get_str :: "'h nvs_raw \<Rightarrow> 'h \<Rightarrow> string \<Rightarrow> string option" where
  "nvs_param_get_str api h key =
     (if np_open_ro api h \<noteq> ESP_OK then None
      else case np_get_str api h key of Inl _ \<Rightarrow> None
           | Inr v \<Rightarrow> if np_alloc api then Some v else None)"

definition nvs_param_set_str :: "'h nvs_raw \<Rightarrow> 'h \<Rightarrow> string \<Rightarrow> string option \<Rightarrow> esp_err \<times> 'h" where
  "nvs_param_set_str api h key v =
     nvs_param_write api h (\<lambda>h. np_set_str api h key (case v of None \<Rightarrow> [] | Some s \<Rightarrow> s))"

definition nvs_param_get :: "'h nvs_raw \<Rightarrow> ('h \<Rightarrow> string \<Rightarrow> esp_err + 'a) \<Rightarrow> 'h \<Rightarrow> string \<Rightarrow> esp_err + 'a" where
  "nvs_param_get api getter h key =
     (if np_open_ro api h \<noteq> ESP_OK then Inl (np_open_ro api h) else getter h key)"

definition nvs_param_set :: "'h nvs_raw \<Rightarrow> ('h \<Rightarrow> string \<Rightarrow> 'a \<Rightarrow> esp_err \<times> 'h) \<Rightarrow> 'h \<Rightarrow> string \<Rightarrow> 'a \<Rightarrow> esp_err \<times> 'h" where
  "nvs_param_set api setter h key v = nvs_param_write api h (\<lambda>h. setter h key v)"

text \<open>Into a buffer of \<open>z\<close> bytes.\<close>

definition nvs_param_get_str_buf :: "'h nvs_raw \<Rightarrow> 'h \<Rightarrow> string \<Rightarrow> nat \<Rightarrow> esp_err + string" where
  "nvs_param_get_str_buf api h key z =
     (if z = 0 then Inl ESP_ERR_INVALID_ARG
      else if np_open_ro api h \<noteq> ESP_OK then Inl (np_open_ro api h)
      else case np_get_str api h key of Inl e \<Rightarrow> Inl e
           | Inr v \<Rightarrow> if length v < z then Inr v else Inl ESP_ERR_NVS_INVALID_LENGTH)"

text \<open>Erasing a key that is not there is a success.\<close>

definition nvs_param_erase :: "'h nvs_raw \<Rightarrow> 'h \<Rightarrow> string \<Rightarrow> esp_err \<times> 'h" where
  "nvs_param_erase api h key =
     (let r = nvs_param_write api h (\<lambda>h. np_erase_key api h key)
      in (if fst r = ESP_ERR_NVS_NOT_FOUND then ESP_OK else fst r, snd r))"

definition nvs_param_erase_all :: "'h nvs_raw \<Rightarrow> 'h \<Rightarrow> esp_err \<times> 'h" where
  "nvs_param_erase_all api h = nvs_param_write api h (np_erase_all api)"

section \<open>Lawful stores\<close>

text \<open>
  Documented behaviour of NVS: a committed value is what a later read of its key returns, and
  other keys keep theirs.
\<close>

definition np_lawful :: "'h nvs_raw \<Rightarrow> bool" where
  "np_lawful api \<longleftrightarrow> np_alloc api \<and>
     (\<forall>h h'. np_commit api h = (ESP_OK, h') \<longrightarrow> np_open_ro api h' = ESP_OK \<and> np_get_str api h' = np_get_str api h \<and>
        np_get_u8 api h' = np_get_u8 api h \<and> np_get_u16 api h' = np_get_u16 api h) \<and>
     (\<forall>h k v h'. np_set_str api h k v = (ESP_OK, h') \<longrightarrow>
        np_get_str api h' = (np_get_str api h)(k := Inr v) \<and> (\<forall>j. j \<noteq> k \<longrightarrow>
        np_get_u8 api h' j = np_get_u8 api h j \<and> np_get_u16 api h' j = np_get_u16 api h j)) \<and>
     (\<forall>h k v h'. np_set_u8 api h k v = (ESP_OK, h') \<longrightarrow>
        np_get_u8 api h' = (np_get_u8 api h)(k := Inr v) \<and> (\<forall>j. j \<noteq> k \<longrightarrow>
        np_get_str api h' j = np_get_str api h j \<and> np_get_u16 api h' j = np_get_u16 api h j)) \<and>
     (\<forall>h k v h'. np_set_u16 api h k v = (ESP_OK, h') \<longrightarrow>
        np_get_u16 api h' = (np_get_u16 api h)(k := Inr v) \<and> (\<forall>j. j \<noteq> k \<longrightarrow>
        np_get_str api h' j = np_get_str api h j \<and> np_get_u8 api h' j = np_get_u8 api h j))"

lemma write_ok:
  "nvs_param_write api h op = (ESP_OK, h') \<Longrightarrow> \<exists>h1. op h = (ESP_OK, h1) \<and> np_commit api h1 = (ESP_OK, h')"
  by (auto simp: nvs_param_write_def Let_def prod_eq_iff split: if_split_asm)

lemma set_str_lawful:
  assumes "np_lawful api" and "nvs_param_set_str api h k (Some v) = (ESP_OK, h')"
  shows "np_open_ro api h' = ESP_OK \<and> np_get_str api h' k = Inr v \<and> (\<forall>j. j \<noteq> k \<longrightarrow>
    np_get_str api h' j = np_get_str api h j \<and> np_get_u8 api h' j = np_get_u8 api h j \<and> np_get_u16 api h' j = np_get_u16 api h j)"
proof -
  obtain h1 where "np_set_str api h k v = (ESP_OK, h1)" "np_commit api h1 = (ESP_OK, h')"
    using write_ok assms(2) by (fastforce simp: nvs_param_set_str_def)
  then show ?thesis using assms(1) unfolding np_lawful_def by (metis fun_upd_apply)
qed

lemma set_u8_lawful:
  assumes "np_lawful api" and "nvs_param_set api (np_set_u8 api) h k v = (ESP_OK, h')"
  shows "np_open_ro api h' = ESP_OK \<and> np_get_u8 api h' k = Inr v \<and> (\<forall>j. j \<noteq> k \<longrightarrow>
    np_get_str api h' j = np_get_str api h j \<and> np_get_u8 api h' j = np_get_u8 api h j \<and> np_get_u16 api h' j = np_get_u16 api h j)"
proof -
  obtain h1 where "np_set_u8 api h k v = (ESP_OK, h1)" "np_commit api h1 = (ESP_OK, h')"
    using write_ok assms(2) by (fastforce simp: nvs_param_set_def)
  then show ?thesis using assms(1) unfolding np_lawful_def by (metis fun_upd_apply)
qed

lemma set_u16_lawful:
  assumes "np_lawful api" and "nvs_param_set api (np_set_u16 api) h k v = (ESP_OK, h')"
  shows "np_open_ro api h' = ESP_OK \<and> np_get_u16 api h' k = Inr v \<and> (\<forall>j. j \<noteq> k \<longrightarrow>
    np_get_str api h' j = np_get_str api h j \<and> np_get_u8 api h' j = np_get_u8 api h j \<and> np_get_u16 api h' j = np_get_u16 api h j)"
proof -
  obtain h1 where "np_set_u16 api h k v = (ESP_OK, h1)" "np_commit api h1 = (ESP_OK, h')"
    using write_ok assms(2) by (fastforce simp: nvs_param_set_def)
  then show ?thesis using assms(1) unfolding np_lawful_def by (metis fun_upd_apply)
qed

text \<open>A concrete lawful store: one map per type.\<close>

type_synonym map_params = "(string \<rightharpoonup> string) \<times> (string \<rightharpoonup> u8) \<times> (string \<rightharpoonup> u16)"

definition lookup_param :: "(string \<rightharpoonup> 'a) \<Rightarrow> string \<Rightarrow> esp_err + 'a" where
  "lookup_param m k = (case m k of None \<Rightarrow> Inl ESP_ERR_NVS_NOT_FOUND | Some v \<Rightarrow> Inr v)"

definition map_params :: "map_params nvs_raw" where
  "map_params = \<lparr>np_open_ro = (\<lambda>_. ESP_OK), np_open_rw = (\<lambda>_. ESP_OK),
     np_get_str = (\<lambda>(a, b, c). lookup_param a), np_set_str = (\<lambda>(a, b, c) k v. (ESP_OK, (a(k \<mapsto> v), b, c))),
     np_get_u8 = (\<lambda>(a, b, c). lookup_param b), np_set_u8 = (\<lambda>(a, b, c) k v. (ESP_OK, (a, b(k \<mapsto> v), c))),
     np_get_u16 = (\<lambda>(a, b, c). lookup_param c), np_set_u16 = (\<lambda>(a, b, c) k v. (ESP_OK, (a, b, c(k \<mapsto> v)))),
     np_commit = (\<lambda>h. (ESP_OK, h)), np_erase_key = (\<lambda>(a, b, c) k. (ESP_OK, (a(k := None), b(k := None), c(k := None)))),
     np_erase_all = (\<lambda>_. (ESP_OK, (Map.empty, Map.empty, Map.empty))), np_alloc = True\<rparr>"

lemma lookup_param_upd [simp]: "lookup_param (m(k \<mapsto> v)) = (lookup_param m)(k := Inr v)"
  by (rule ext) (simp add: lookup_param_def)

lemma map_params_lawful: "np_lawful map_params"
  by (auto simp: np_lawful_def map_params_def)

end
