(* ===== verification/C_Scan.thy ===== *)
theory C_Scan
  imports Prelude
begin

text \<open>
  The conversions of the C library and the hexadecimal text that several modules share:
  \<open>strchr\<close>, \<open>strstr\<close>, \<open>strtoul\<close> in base ten with a 32-bit \<open>unsigned long\<close>, \<open>sscanf\<close> with \<open>%2x\<close>,
  \<open>bytes_to_hex\<close>/\<open>hex_encode\<close> and the strict decoder of the web interface.
\<close>

definition strchr :: "char \<Rightarrow> string \<Rightarrow> nat option" where
  "strchr c s = find_index (\<lambda>x. x = c) s"

lemma strchr_append: "c \<notin> set a \<Longrightarrow> strchr c (a @ c # b) = Some (length a)"
  by (induction a) (auto simp: strchr_def)

fun strstr :: "string \<Rightarrow> string \<Rightarrow> string option" where
  "strstr pat [] = (if pat = [] then Some [] else None)"
| "strstr pat (c # cs) = (if take (length pat) (c # cs) = pat then Some (c # cs) else strstr pat cs)"

text \<open>
  The value and the rest of the text, which is the whole text when there is no number.  Too large
  a number saturates; a minus negates.
\<close>

definition strtoul :: "string \<Rightarrow> u32 \<times> string" where
  "strtoul s =
     (let t = dropWhile is_space s;
          neg = (t \<noteq> [] \<and> hd t = CHR ''-'');
          u = (if t \<noteq> [] \<and> (hd t = CHR ''-'' \<or> hd t = CHR ''+'') then tl t else t);
          n = digits_val 0 u
      in if u = [] \<or> \<not> is_digit (hd u) then (0, s)
         else (if 2 ^ 32 \<le> n then - 1 else if neg then - of_nat n else of_nat n, dropWhile is_digit u))"

lemma digits_val_rest: "s = [] \<or> \<not> is_digit (hd s) \<Longrightarrow> digits_val acc s = acc"
  by (cases s) auto

lemma strtoul_dec:
  assumes "n < 2 ^ 32" and "s = [] \<or> \<not> is_digit (hd s)"
  shows "strtoul (dec n @ s) = (of_nat n, s)"
proof -
  obtain c cs where c: "dec n = c # cs" by (meson dec_nonempty neq_Nil_conv)
  have d: "\<forall>x \<in> set (dec n). is_digit x" using dec_digits by blast
  then have "is_digit c" by (simp add: c)
  note c' = this is_digit_not_special [OF this]
  have "digits_val 0 (dec n @ s) = n" using d assms(2) by (simp add: digits_val_append digits_val_dec digits_val_rest)
  moreover have "dropWhile is_digit (dec n @ s) = s"
    using d assms(2) dropWhile_append2 [of "dec n" is_digit s] by (cases s) simp_all
  ultimately show ?thesis using c' assms(1) by (simp add: strtoul_def c Let_def)
qed

section \<open>Hexadecimal text\<close>

definition hex_lower :: "nat \<Rightarrow> char" where
  "hex_lower n = char_of (if n < 10 then 48 + n else 87 + n)"

text \<open>\<open>%02x\<close> of a byte, and of a row of bytes.\<close>

definition hex2 :: "u8 \<Rightarrow> string" where
  "hex2 b = [hex_lower (unat b div 16), hex_lower (unat b mod 16)]"

definition bytes_to_hex :: "bytes \<Rightarrow> string" where
  "bytes_to_hex bs = concat (map hex2 bs)"

text \<open>The value of a hexadecimal digit; \<open>None\<close> is the code's -1.\<close>

definition hex_nibble :: "char \<Rightarrow> nat option" where
  "hex_nibble c = (let n = of_char c :: nat in
     if 48 \<le> n \<and> n \<le> 57 then Some (n - 48)
     else if 97 \<le> n \<and> n \<le> 102 then Some (n - 97 + 10)
     else if 65 \<le> n \<and> n \<le> 70 then Some (n - 65 + 10)
     else None)"

text \<open>
  \<open>sscanf\<close> with \<open>%2x\<close>: white space does not count; then at most two characters, which may be a sign
  and a digit.  \<open>0x\<close> without a digit is no number.
\<close>

definition scan_hex2 :: "string \<Rightarrow> u32 option" where
  "scan_hex2 s =
     (case dropWhile is_space s of
        [] \<Rightarrow> None
      | c # cs \<Rightarrow>
          if c = CHR ''-'' \<or> c = CHR ''+''
          then (case cs of [] \<Rightarrow> None
                | d # _ \<Rightarrow> map_option (\<lambda>v. if c = CHR ''-'' then - of_nat v else of_nat v) (hex_nibble d))
          else (case hex_nibble c of None \<Rightarrow> None
                | Some hi \<Rightarrow> (case cs of [] \<Rightarrow> Some (of_nat hi)
                    | d # _ \<Rightarrow> if c = CHR ''0'' \<and> (d = CHR ''x'' \<or> d = CHR ''X'') then None
                        else (case hex_nibble d of None \<Rightarrow> Some (of_nat hi)
                              | Some lo \<Rightarrow> Some (of_nat (16 * hi + lo))))))"

fun hex_to_bytes :: "string \<Rightarrow> nat \<Rightarrow> bytes option" where
  "hex_to_bytes src 0 = Some []"
| "hex_to_bytes src (Suc n) = do { b \<leftarrow> scan_hex2 src; bs \<leftarrow> hex_to_bytes (drop 2 src) n; Some (ucast b # bs) }"

text \<open>The decoder of the web interface accepts exactly \<open>2 n\<close> digits.\<close>

fun hex_pairs :: "string \<Rightarrow> bytes option" where
  "hex_pairs (a # b # s) = do { hi \<leftarrow> hex_nibble a; lo \<leftarrow> hex_nibble b; bs \<leftarrow> hex_pairs s;
     Some (of_nat (16 * hi + lo) # bs) }"
| "hex_pairs s = Some []"

definition hex_decode_exact :: "string option \<Rightarrow> nat \<Rightarrow> bytes option" where
  "hex_decode_exact src n =
     (case src of None \<Rightarrow> None | Some s \<Rightarrow> if length s \<noteq> n * 2 then None else hex_pairs s)"

lemma of_hex_lower: "n < 16 \<Longrightarrow> (of_char (hex_lower n) :: nat) = (if n < 10 then 48 + n else 87 + n)"
  by (simp add: hex_lower_def)

lemma hex_nibble_lower [simp]: "n < 16 \<Longrightarrow> hex_nibble (hex_lower n) = Some n"
  by (auto simp: hex_nibble_def of_hex_lower Let_def)

lemma hex_lower_plain:
  assumes "n < 16"
  shows "\<not> is_space (hex_lower n) \<and> hex_lower n \<notin> set ''-+xX:$;&''"
proof -
  have "(of_char (hex_lower n) :: nat) \<notin> {45, 43, 120, 88, 58, 36, 32, 59, 38}" and "13 < (of_char (hex_lower n) :: nat)"
    using assms by (auto simp: of_hex_lower)
  then show ?thesis by (auto simp: is_space_def)
qed

lemma hex2_length [simp]: "length (hex2 b) = 2"
  by (simp add: hex2_def)

lemma bytes_to_hex_simps [simp]: "bytes_to_hex [] = []" "bytes_to_hex (b # bs) = hex2 b @ bytes_to_hex bs"
  by (simp_all add: bytes_to_hex_def)

lemma bytes_to_hex_length [simp]: "length (bytes_to_hex bs) = 2 * length bs"
  by (induction bs) auto

lemma nibbles: "16 * (unat (b :: u8) div 16) + unat b mod 16 = unat b" "unat b div 16 < 16"
proof -
  show "unat b div 16 < 16" using unat_u8_less [of b] by linarith
qed simp

lemma bytes_to_hex_chars: "c \<in> set (bytes_to_hex bs) \<Longrightarrow> \<not> is_space c \<and> c \<notin> set ''-+xX:$;&''"
  by (induction bs) (use hex_lower_plain nibbles(2) in \<open>auto simp: hex2_def\<close>)

lemma scan_hex2_hex2: "scan_hex2 (hex2 b @ s) = Some (ucast b)"
proof -
  note p = hex_lower_plain [OF nibbles(2) [of b]] hex_lower_plain [of "unat b mod 16"]
  have "hex_lower (unat b mod 16) \<noteq> CHR ''x''" "hex_lower (unat b mod 16) \<noteq> CHR ''X''" using p(2) by auto
  moreover have "of_nat (16 * (unat b div 16) + unat b mod 16) = (ucast b :: u32)" by (simp only: nibbles of_nat_unat)
  ultimately show ?thesis using p(1) nibbles(2) [of b] by (simp add: scan_hex2_def hex2_def)
qed

lemma hex_to_bytes_hex: "hex_to_bytes (bytes_to_hex bs @ s) (length bs) = Some bs"
proof (induction bs)
  case (Cons b bs)
  have "drop 2 (bytes_to_hex (b # bs) @ s) = bytes_to_hex bs @ s" by simp
  moreover have "ucast (ucast b :: u32) = b" by (rule bit_word_eqI) (simp add: bit_simps)
  ultimately show ?case using Cons scan_hex2_hex2 [of b] by simp
qed simp

lemma hex_to_bytes_length: "hex_to_bytes s n = Some bs \<Longrightarrow> length bs = n"
  by (induction n arbitrary: s bs) (auto split: Option.bind_splits)

lemma hex_pairs_hex: "hex_pairs (bytes_to_hex bs) = Some bs"
proof (induction bs)
  case (Cons b bs)
  have "of_nat (16 * (unat b div 16) + unat b mod 16) = b" by (simp only: nibbles of_nat_unat ucast_id)
  then show ?case using Cons nibbles(2) [of b] by (simp add: hex2_def del: of_nat_add of_nat_mult)
qed simp

lemma hex_decode_encode: "hex_decode_exact (Some (bytes_to_hex bs)) (length bs) = Some bs"
  by (simp add: hex_decode_exact_def hex_pairs_hex)

lemma hex_pairs_length: "hex_pairs s = Some bs \<Longrightarrow> length bs = length s div 2"
  by (induction s arbitrary: bs rule: hex_pairs.induct) (auto split: Option.bind_splits)

lemma hex_decode_length: "hex_decode_exact s n = Some bs \<Longrightarrow> length bs = n"
  by (auto simp: hex_decode_exact_def dest: hex_pairs_length split: option.splits if_splits)

end
