(* ===== verification/Fourvia6.thy ===== *)
theory Fourvia6
  imports Packet_Edit Nvs_Params C_Scan
begin

text \<open>
  The 4via6 translator (\<open>main/fourvia6.c\<close>): IPv6 packets from tailnet peers to the site's 4via6
  prefix become IPv4 packets for the LAN, and the replies become IPv6 again with the help of a
  flow table.  A packet is the list of the bytes of its whole pbuf chain; \<open>pbuf_copy_partial\<close> is
  \<open>take\<close> after \<open>drop\<close>.  The clock, the random identification and the allocation are arguments.
\<close>

section \<open>State\<close>

definition FOURVIA6_FLOW_COUNT :: nat where "FOURVIA6_FLOW_COUNT = 48"

text \<open>In microseconds.\<close>

definition FOURVIA6_TCP_TIMEOUT :: int where "FOURVIA6_TCP_TIMEOUT = 15 * 60 * 1000000"
definition FOURVIA6_UDP_TIMEOUT :: int where "FOURVIA6_UDP_TIMEOUT = 2 * 60 * 1000000"
definition FOURVIA6_ICMP_TIMEOUT :: int where "FOURVIA6_ICMP_TIMEOUT = 30 * 1000000"

definition VIA_PREFIX :: bytes where "VIA_PREFIX = [0xfd, 0x7a, 0x11, 0x5c, 0xa1, 0xe0, 0x0b, 0x1a]"

record flow =
  fl_valid :: bool
  fl_proto :: u8
  fl_client :: bytes
  fl_peer :: u32
  fl_target :: u32
  fl_client_port :: u16
  fl_target_port :: u16
  fl_seen :: int

definition flow_zero :: flow where
  "flow_zero = \<lparr>fl_valid = False, fl_proto = 0, fl_client = replicate 16 0, fl_peer = 0, fl_target = 0,
     fl_client_port = 0, fl_target_port = 0, fl_seen = 0\<rparr>"

record via_state =
  via_enabled :: bool
  via_network :: u32
  via_prefix_len :: u8
  via_site_id :: u16
  via_lan :: string
  via_text :: string
  via_flows :: "flow list"
  via_translated :: u32
  via_dropped :: u32

section \<open>Configuration\<close>

text \<open>\<open>sscanf\<close> with \<open>%u\<close>, which converts like \<open>strtoul\<close>.\<close>

definition scan_u :: "string \<Rightarrow> (u32 \<times> string) option" where
  "scan_u s = (if snd (strtoul s) = s then None else Some (strtoul s))"

definition scan_char :: "char \<Rightarrow> string \<Rightarrow> string option" where
  "scan_char c s = (case s of [] \<Rightarrow> None | d # ds \<Rightarrow> if d = c then Some ds else None)"

definition via_mask :: "u32 \<Rightarrow> u32" where
  "via_mask bits = (if bits = 0 then 0 else push_bit (nat (32 - int (unat bits))) 0xFFFFFFFF)"

definition parse_cidr :: "string option \<Rightarrow> (u32 \<times> u8) option" where
  "parse_cidr text =
     (case text of None \<Rightarrow> None
      | Some s \<Rightarrow>
         if s = [] then None
         else do {
           (a, r) \<leftarrow> scan_u s; r \<leftarrow> scan_char CHR ''.'' r;
           (b, r) \<leftarrow> scan_u r; r \<leftarrow> scan_char CHR ''.'' r;
           (c, r) \<leftarrow> scan_u r; r \<leftarrow> scan_char CHR ''.'' r;
           (d, r) \<leftarrow> scan_u r; r \<leftarrow> scan_char CHR ''/'' r;
           (bits, r) \<leftarrow> scan_u r;
           if r \<noteq> [] \<or> 255 < a \<or> 255 < b \<or> 255 < c \<or> 255 < d \<or> 32 < bits then None
           else Some ((push_bit 24 a OR push_bit 16 b OR push_bit 8 c OR d) AND via_mask bits, ucast bits) })"

text \<open>\<open>%x\<close>\<close>

definition hex_char :: "nat \<Rightarrow> char" where
  "hex_char n = char_of (if n < 10 then 48 + n else 87 + n)"

fun hex :: "nat \<Rightarrow> string" where
  "hex n = (if n < 16 then [hex_char n] else hex (n div 16) @ [hex_char (n mod 16)])"

declare hex.simps [simp del]

text \<open>The text written to the buffer of \<open>z\<close> bytes, and whether the whole prefix fitted.\<close>

definition fourvia6_calculate_prefix :: "string option \<Rightarrow> u16 \<Rightarrow> nat \<Rightarrow> (string \<times> bool) option" where
  "fourvia6_calculate_prefix lan_cidr site_id z =
     (if z = 0 then None
      else case parse_cidr lan_cidr of None \<Rightarrow> None
      | Some (network, bits) \<Rightarrow>
          (let t = ''fd7a:115c:a1e0:b1a:0:'' @ hex (unat site_id) @ '':''
                   @ hex (unat (drop_bit 16 network AND 0xFFFF)) @ '':'' @ hex (unat (network AND 0xFFFF))
                   @ ''/'' @ dec (96 + unat bits)
           in Some (take (z - 1) t, length t < z)))"

text \<open>Reading the settings; counters survive, flows are forgotten.\<close>

definition fourvia6_init :: "'h nvs_raw \<Rightarrow> 'h \<Rightarrow> via_state \<Rightarrow> via_state" where
  "fourvia6_init api h s =
     (let cidr = nvs_param_get_str api h ''ts_4v6_lan'';
          flag = (case nvs_param_get api (np_get_u8 api) h ''ts_4v6_en'' of Inl _ \<Rightarrow> 0 | Inr v \<Rightarrow> v);
          site = (case nvs_param_get api (np_get_u16 api) h ''ts_4v6_site'' of Inl _ \<Rightarrow> 0 | Inr v \<Rightarrow> v)
      in (case parse_cidr cidr of
            Some (network, prefix) \<Rightarrow>
              s\<lparr>via_enabled := (flag \<noteq> 0), via_network := network, via_prefix_len := prefix, via_site_id := site,
                via_lan := take 18 (the cidr),
                via_text := (case fourvia6_calculate_prefix cidr site 64 of None \<Rightarrow> [] | Some (t, _) \<Rightarrow> t),
                via_flows := replicate FOURVIA6_FLOW_COUNT flow_zero\<rparr>
          | None \<Rightarrow>
              s\<lparr>via_enabled := False, via_network := 0, via_prefix_len := 0, via_site_id := site, via_lan := [],
                via_text := [], via_flows := replicate FOURVIA6_FLOW_COUNT flow_zero\<rparr>))"

definition fourvia6_set_config ::
  "'h nvs_raw \<Rightarrow> 'h \<Rightarrow> via_state \<Rightarrow> bool \<Rightarrow> string option \<Rightarrow> u16 \<Rightarrow> esp_err \<times> 'h \<times> via_state" where
  "fourvia6_set_config api h s enabled lan_cidr site_id =
     (if enabled \<and> parse_cidr lan_cidr = None then (ESP_ERR_INVALID_ARG, h, s)
      else if lan_cidr \<noteq> None \<and> lan_cidr \<noteq> Some [] \<and> parse_cidr lan_cidr = None then (ESP_ERR_INVALID_ARG, h, s)
      else (let r1 = nvs_param_set api (np_set_u8 api) h ''ts_4v6_en'' (if enabled then 1 else 0);
                r2 = (if fst r1 = ESP_OK
                      then nvs_param_set_str api (snd r1) ''ts_4v6_lan'' (Some (case lan_cidr of None \<Rightarrow> [] | Some t \<Rightarrow> t))
                      else r1);
                r3 = (if fst r2 = ESP_OK then nvs_param_set api (np_set_u16 api) (snd r2) ''ts_4v6_site'' site_id else r2)
            in if fst r3 \<noteq> ESP_OK then (fst r3, snd r3, s)
               else (ESP_OK, snd r3, fourvia6_init api (snd r3) s)))"

definition flow_timeout :: "u8 \<Rightarrow> int" where
  "flow_timeout p = (if p = 6 then FOURVIA6_TCP_TIMEOUT else if p = 17 then FOURVIA6_UDP_TIMEOUT else FOURVIA6_ICMP_TIMEOUT)"

text \<open>Enabled, site, LAN, prefix, translated, dropped, active flows.\<close>

definition fourvia6_get_status :: "via_state \<Rightarrow> int \<Rightarrow> bool \<times> u16 \<times> string \<times> string \<times> u32 \<times> u32 \<times> nat" where
  "fourvia6_get_status s now =
     (via_enabled s, via_site_id s, via_lan s, via_text s, via_translated s, via_dropped s,
      length (filter (\<lambda>f. fl_valid f \<and> now - fl_seen f \<le> flow_timeout (fl_proto f)) (via_flows s)))"

text \<open>The routes to advertise: the configured ones and, on a line of its own, the 4via6 prefix.\<close>

definition fourvia6_effective_routes :: "via_state \<Rightarrow> string option \<Rightarrow> nat \<Rightarrow> string" where
  "fourvia6_effective_routes s ipv4_routes z =
     (let base = (case ipv4_routes of None \<Rightarrow> [] | Some r \<Rightarrow> take (z - 1) r);
          used = length base
      in if via_enabled s \<and> via_text s \<noteq> []
         then base @ take (z - used - 1) ((if used \<noteq> 0 then [char_of (10 :: nat)] else []) @ take 63 (via_text s))
         else base)"

section \<open>Checksums\<close>

fun checksum_add :: "u32 \<Rightarrow> bytes \<Rightarrow> u32" where
  "checksum_add s [] = s"
| "checksum_add s [a] = s + ucast (mk16 a 0)"
| "checksum_add s (a # b # d) = checksum_add (s + ucast (mk16 a b)) d"

definition checksum_finish :: "u32 \<Rightarrow> u16" where
  "checksum_finish s = NOT (ucast (fold16 s))"

definition checksum_plain :: "bytes \<Rightarrow> u16" where
  "checksum_plain d = checksum_finish (checksum_add 0 d)"

definition be32_bytes :: "u32 \<Rightarrow> bytes" where
  "be32_bytes w = [byte3 w, byte2 w, byte1 w, byte0 w]"

definition pseudo_v4 :: "u32 \<Rightarrow> u32 \<Rightarrow> u8 \<Rightarrow> nat \<Rightarrow> bytes" where
  "pseudo_v4 src dst proto len = be32_bytes src @ be32_bytes dst @ [0, proto, of_nat (len div 256), of_nat len]"

definition checksum_v4 :: "u32 \<Rightarrow> u32 \<Rightarrow> u8 \<Rightarrow> bytes \<Rightarrow> u16" where
  "checksum_v4 src dst proto payload =
     checksum_finish (checksum_add (checksum_add 0 (pseudo_v4 src dst proto (length payload))) payload)"

definition pseudo_v6_tail :: "u8 \<Rightarrow> nat \<Rightarrow> bytes" where
  "pseudo_v6_tail next_header len =
     [of_nat (len div 2 ^ 24), of_nat (len div 2 ^ 16), of_nat (len div 256), of_nat len, 0, 0, 0, next_header]"

definition checksum_v6 :: "bytes \<Rightarrow> bytes \<Rightarrow> u8 \<Rightarrow> bytes \<Rightarrow> u16" where
  "checksum_v6 src dst next_header payload =
     checksum_finish (checksum_add (checksum_add (checksum_add (checksum_add 0 src) dst)
       (pseudo_v6_tail next_header (length payload))) payload)"

definition write16 :: "bytes \<Rightarrow> nat \<Rightarrow> u16 \<Rightarrow> bytes option" where
  "write16 p i v = (if i + 1 < length p then Some (p[i := hi8 v, i + 1 := lo8 v]) else None)"

definition target_allowed :: "via_state \<Rightarrow> u32 \<Rightarrow> bool" where
  "target_allowed s ip \<longleftrightarrow>
     drop_bit 24 ip \<noteq> 127 \<and> drop_bit 28 ip \<noteq> 0xE \<and> ip \<noteq> 0 \<and> ip \<noteq> 0xFFFFFFFF \<and>
     ip AND 0xFFC00000 \<noteq> 0x64400000 \<and> ip AND via_mask (ucast (via_prefix_len s)) = via_network s"

section \<open>Flows\<close>

text \<open>Protocol, peer, target, client port and target port.\<close>

type_synonym flow_key = "u8 \<times> u32 \<times> u32 \<times> u16 \<times> u16"

definition key_of :: "flow \<Rightarrow> flow_key" where
  "key_of f = (fl_proto f, fl_peer f, fl_target f, fl_client_port f, fl_target_port f)"

definition INT64_MAX :: int where "INT64_MAX = 2 ^ 63 - 1"

text \<open>The search of \<open>flow_remember\<close>: \<open>i\<close> is the index of the head, \<open>slot\<close> the choice so far.\<close>

fun flow_slot :: "flow_key \<Rightarrow> bytes \<Rightarrow> flow list \<Rightarrow> nat \<Rightarrow> nat option \<Rightarrow> int \<Rightarrow> nat option" where
  "flow_slot k c [] i slot oldest = slot"
| "flow_slot k c (f # fs) i slot oldest =
     (if fl_valid f \<and> key_of f = k \<and> fl_client f = c then Some i
      else if \<not> fl_valid f then flow_slot k c fs (i + 1) (Some i) oldest
      else if slot = None \<and> fl_seen f < oldest then flow_slot k c fs (i + 1) (Some i) (fl_seen f)
      else flow_slot k c fs (i + 1) slot oldest)"

definition flow_remember :: "flow_key \<Rightarrow> bytes \<Rightarrow> int \<Rightarrow> flow list \<Rightarrow> flow list" where
  "flow_remember k c now fs =
     (case flow_slot k c fs 0 None INT64_MAX of None \<Rightarrow> fs
      | Some i \<Rightarrow> (case k of (proto, peer, target, cp, tp) \<Rightarrow>
          fs[i := \<lparr>fl_valid = True, fl_proto = proto, fl_client = c, fl_peer = peer, fl_target = target,
                   fl_client_port = cp, fl_target_port = tp, fl_seen = now\<rparr>]))"

text \<open>Entries that have not been used for the time of the protocol asked for are dropped on the way.\<close>

fun flow_lookup :: "flow_key \<Rightarrow> int \<Rightarrow> flow list \<Rightarrow> flow option \<times> flow list" where
  "flow_lookup k now [] = (None, [])"
| "flow_lookup k now (f # fs) =
     (if \<not> fl_valid f then (let r = flow_lookup k now fs in (fst r, f # snd r))
      else if flow_timeout (fst k) < now - fl_seen f
      then (let r = flow_lookup k now fs in (fst r, f\<lparr>fl_valid := False\<rparr> # snd r))
      else if key_of f = k then (Some (f\<lparr>fl_seen := now\<rparr>), f\<lparr>fl_seen := now\<rparr> # fs)
      else (let r = flow_lookup k now fs in (fst r, f # snd r)))"

section \<open>From the tunnel\<close>

text \<open>
  The transport part of a packet to the LAN, with its checksum for IPv4, and the key of its flow.
  The outer \<open>None\<close> is an access outside the buffer, the inner one a packet that is discarded.
\<close>

definition v4_payload :: "u32 \<Rightarrow> u32 \<Rightarrow> u8 \<Rightarrow> bytes \<Rightarrow> (bytes \<times> flow_key) option option" where
  "v4_payload peer target proto p =
     (if proto = 6 \<or> proto = 17
      then if length p < 8 \<or> proto = 6 \<and> length p < 20 then Some None
           else do {
             cp \<leftarrow> be16 p 0; tp \<leftarrow> be16 p 2;
             let off = (if proto = 6 then 16 else 6);
             p0 \<leftarrow> write16 p off 0;
             let check = checksum_v4 peer target proto p0;
             p1 \<leftarrow> write16 p0 off (if proto = 17 \<and> check = 0 then 0xFFFF else check);
             Some (Some (p1, proto, peer, target, cp, tp)) }
      else if length p < 8 then Some None
      else do {
        t \<leftarrow> rd8 p 0;
        if t \<noteq> 128 \<and> t \<noteq> 129 then Some None
        else do {
          let p' = p[0 := (if t = 128 then 8 else 0)];
          cp \<leftarrow> be16 p' 4;
          p0 \<leftarrow> write16 p' 2 0;
          p1 \<leftarrow> write16 p0 2 (checksum_plain p0);
          Some (Some (p1, 1, peer, target, cp, 0)) } })"

definition v4_header :: "bytes \<Rightarrow> u16 \<Rightarrow> u32 \<Rightarrow> u32 \<Rightarrow> u8 \<Rightarrow> nat \<Rightarrow> bytes" where
  "v4_header h ident peer target proto len =
     [0x45, (h ! 0) AND 0xF] @ be16_bytes (of_nat (20 + len)) @ be16_bytes ident @ [0x40, 0, h ! 7 - 1, proto, 0, 0]
       @ be32_bytes peer @ be32_bytes target"

text \<open>Not a 4via6 packet of this site (it stays with the caller), discarded, or handed to lwIP as IPv4.\<close>

datatype v6_input = Not_ours | Discarded | Injected bytes

text \<open>\<open>peer\<close> is the tailnet address of the sender in host order, 0 when unknown; the header has 40 bytes.\<close>

definition fourvia6_translate_wg_input ::
  "via_state \<Rightarrow> int \<Rightarrow> u16 \<Rightarrow> bool \<Rightarrow> u32 \<Rightarrow> bytes option \<Rightarrow> (v6_input \<times> via_state) option" where
  "fourvia6_translate_wg_input s now ident alloc peer packet =
     (case packet of None \<Rightarrow> Some (Not_ours, s)
      | Some b \<Rightarrow>
         (let h = take 40 b; target = mk32 (h ! 36) (h ! 37) (h ! 38) (h ! 39);
              plen = unat (mk16 (h ! 4) (h ! 5)); proto = h ! 6 in
          if length b < 40 \<or> drop_bit 4 (h ! 0) \<noteq> 6 then Some (Not_ours, s)
          else if \<not> via_enabled s \<or> take 8 (drop 24 h) \<noteq> VIA_PREFIX then Some (Not_ours, s)
          else if mk32 (h ! 32) (h ! 33) (h ! 34) (h ! 35) \<noteq> ucast (via_site_id s) then Some (Not_ours, s)
          else if \<not> target_allowed s target \<or> peer = 0 \<or> length b < 40 + plen \<or> h ! 7 \<le> 1
                  \<or> (proto \<noteq> 6 \<and> proto \<noteq> 17 \<and> proto \<noteq> 58)
          then Some (Discarded, s\<lparr>via_dropped := via_dropped s + 1\<rparr>)
          else if \<not> alloc then Some (Discarded, s)
          else do {
            r \<leftarrow> v4_payload peer target proto (take plen (drop 40 b));
            (case r of None \<Rightarrow> Some (Discarded, s)
             | Some (p, k) \<Rightarrow> do {
                 let h4 = v4_header h ident peer target (fst k) plen;
                 h4' \<leftarrow> write16 h4 10 (checksum_plain h4);
                 Some (Injected (h4' @ p),
                       s\<lparr>via_flows := flow_remember k (take 16 (drop 8 h)) now (via_flows s),
                         via_translated := via_translated s + 1\<rparr>) }) }))"

section \<open>To the tunnel\<close>

text \<open>
  The checks of an outgoing IPv4 packet and the key of the flow it may answer: header length,
  total length and key.
\<close>

definition v4_reply :: "bytes \<Rightarrow> (nat \<times> nat \<times> flow_key) option option" where
  "v4_reply b =
     (if length b < 20 then Some None
      else do {
        vhl \<leftarrow> rd8 b 0; tl \<leftarrow> be16 b 2; fragment \<leftarrow> be16 b 6; proto \<leftarrow> rd8 b 9;
        let ihl = unat (vhl AND 15) * 4; let totl = unat tl;
        if drop_bit 4 vhl \<noteq> 4 \<or> ihl < 20 \<or> totl < ihl \<or> length b < totl \<or> fragment AND 0x3FFF \<noteq> 0
           \<or> (proto \<noteq> 6 \<and> proto \<noteq> 17 \<and> proto \<noteq> 1) then Some None
        else do {
          target \<leftarrow> be32 b 12; peer \<leftarrow> be32 b 16;
          if totl < ihl + 8 then Some None
          else do {
            ports \<leftarrow> rdn b ihl 8;
            (if proto = 6 \<or> proto = 17
             then do { tp \<leftarrow> be16 ports 0; cp \<leftarrow> be16 ports 2; Some (Some (ihl, totl, proto, peer, target, cp, tp)) }
             else do {
               t \<leftarrow> rd8 ports 0;
               if t \<noteq> 0 \<and> t \<noteq> 8 then Some None
               else do { cp \<leftarrow> be16 ports 4; Some (Some (ihl, totl, proto, peer, target, cp, 0)) } }) } } })"

definition v6_payload :: "bytes \<Rightarrow> bytes \<Rightarrow> u8 \<Rightarrow> bytes \<Rightarrow> bytes option" where
  "v6_payload src dst proto p =
     (if proto = 6 \<or> proto = 17
      then do {
        let off = (if proto = 6 then 16 else 6);
        p0 \<leftarrow> write16 p off 0;
        let check = checksum_v6 src dst proto p0;
        write16 p0 off (if proto = 17 \<and> check = 0 then 0xFFFF else check) }
      else do {
        t \<leftarrow> rd8 p 0;
        p0 \<leftarrow> write16 (p[0 := (if t = 0 then 129 else 128)]) 2 0;
        write16 p0 2 (checksum_v6 src dst 58 p0) })"

definition via_address :: "u16 \<Rightarrow> u32 \<Rightarrow> bytes" where
  "via_address site target = VIA_PREFIX @ [0, 0, hi8 site, lo8 site] @ be32_bytes target"

text \<open>
  The inner \<open>None\<close> is \<open>NULL\<close>: the packet is not translated.  The length \<open>pbuf_alloc\<close> takes has 16 bits,
  so more than 65535 bytes would be written behind a buffer that is too short.
\<close>

definition fourvia6_translate_wg_output ::
  "via_state \<Rightarrow> int \<Rightarrow> bool \<Rightarrow> bytes option \<Rightarrow> (bytes option \<times> via_state) option" where
  "fourvia6_translate_wg_output s now alloc packet =
     (case packet of None \<Rightarrow> Some (None, s)
      | Some b \<Rightarrow>
         if \<not> via_enabled s then Some (None, s)
         else do {
           r \<leftarrow> v4_reply b;
           (case r of None \<Rightarrow> Some (None, s)
            | Some (ihl, totl, k) \<Rightarrow>
               (let l = flow_lookup k now (via_flows s); s' = s\<lparr>via_flows := snd l\<rparr> in
                case fst l of None \<Rightarrow> Some (None, s')
                | Some f \<Rightarrow>
                   if 65535 < 40 + (totl - ihl) then None
                   else if \<not> alloc then Some (None, s')
                   else do {
                     tos \<leftarrow> rd8 b 1; ttl \<leftarrow> rd8 b 8;
                     payload \<leftarrow> rdn b ihl (totl - ihl);
                     let src = via_address (via_site_id s) (fst (snd (snd k)));
                     p \<leftarrow> v6_payload src (fl_client f) (fst k) payload;
                     Some (Some ([0x60 OR drop_bit 4 tos, 0, 0, 0] @ be16_bytes (of_nat (totl - ihl))
                             @ [if fst k = 1 then 58 else fst k, if 1 < ttl then ttl - 1 else 1]
                             @ src @ fl_client f @ p),
                           s'\<lparr>via_translated := via_translated s + 1\<rparr>) })) })"

section \<open>Checksums are right\<close>

text \<open>The sum of the big-endian 16-bit words, an odd last byte padded.\<close>

fun be_sum :: "bytes \<Rightarrow> nat" where
  "be_sum [] = 0"
| "be_sum [a] = 256 * unat a"
| "be_sum (a # b # d) = 256 * unat a + unat b + be_sum d"

lemma be_sum_append: "even (length p) \<Longrightarrow> be_sum (p @ q) = be_sum p + be_sum q"
  by (induction p rule: be_sum.induct) auto

lemma be_sum_bound: "be_sum d \<le> 65535 * ((length d + 1) div 2)"
proof (induction d rule: be_sum.induct)
  case (2 a)
  then show ?case using unat_u8_less [of a] by (simp del: unat_u8_less)
next
  case (3 a b d)
  have "256 * unat a + unat b \<le> 65535" using unat_u8_less [of a] unat_u8_less [of b] by linarith
  with 3 show ?case by simp
qed simp

lemma checksum_add_unat:
  "unat s + be_sum d < 2 ^ 32 \<Longrightarrow> unat (checksum_add s d) = unat s + be_sum d"
proof (induction s d rule: checksum_add.induct)
  case (2 s a)
  then show ?case by (simp add: unat_word_ariths unat_ucast32 unat_mk16)
next
  case (3 s a b d)
  have "unat (s + ucast (mk16 a b)) = unat s + (256 * unat a + unat b)"
    using 3(2) by (simp add: unat_word_ariths unat_ucast32 unat_mk16)
  with 3 show ?case by simp
qed simp

lemma checksum_finish_mod: "(unat (checksum_finish s) + unat s) mod 65535 = 0"
proof -
  define F where "F = unat (fold16 s)"
  have F: "F < 65536" using fold16_small by (simp add: F_def)
  have u: "unat (checksum_finish s) = 65535 - F"
    using F by (simp add: checksum_finish_def unat_not16 unat_ucast16 F_def)
  have "(65535 - F + unat s) mod 65535 = (65535 - F + F) mod 65535"
    using fold16_mod [of s] by (intro mod_add_cong) (simp_all add: F_def)
  then show ?thesis using F by (simp add: u)
qed

lemma write16_Some [byte_simps]:
  "i + 1 < length p \<Longrightarrow> write16 p i v = Some (p[i := hi8 v, i + 1 := lo8 v])"
  by (simp add: write16_def)

lemma be_sum_write:
  "even i \<Longrightarrow> i + 1 < length p \<Longrightarrow>
   be_sum (p[i := hi8 v, i + 1 := lo8 v]) + (256 * unat (p ! i) + unat (p ! (i + 1))) = be_sum p + unat v"
proof (induction p arbitrary: i rule: be_sum.induct)
  case (3 a b p)
  have w: "unat v = unat (lo8 v) + 256 * unat (hi8 v)" using unat_mk16 [of "hi8 v" "lo8 v"] by simp
  show ?case
  proof (cases "i = 0")
    case True
    then show ?thesis using w by simp
  next
    case False
    with 3(2) obtain j where j: "i = Suc (Suc j)" "even j" by (cases i; cases "i - 1") auto
    from 3(1) [OF j(2)] 3(3) j(1) show ?thesis by simp
  qed
qed simp_all

text \<open>
  Zeroing a field, adding everything up with the pseudo header and storing the result leaves a
  sequence whose sum is a multiple of \<open>2^16 - 1\<close>: the check of a receiver.
\<close>

lemma checksum_stored:
  assumes "even i" and "i + 1 < length p" and "pseudo + be_sum p < 2 ^ 32"
    and "q = p[i := 0, i + 1 := 0]" and "unat s = pseudo + be_sum q"
    and "c = checksum_finish s \<or> checksum_finish s = 0 \<and> c = 0xFFFF"
  shows "(pseudo + be_sum (q[i := hi8 c, i + 1 := lo8 c])) mod 65535 = 0"
proof -
  have z: "q ! i = 0" "q ! (i + 1) = 0" "i + 1 < length q" using assms(2,4) by auto
  have b: "be_sum (q[i := hi8 c, i + 1 := lo8 c]) = be_sum q + unat c"
    using be_sum_write [OF assms(1) z(3), of c] z by simp
  have "(pseudo + be_sum q + unat c) mod 65535 = 0"
  proof (cases "c = checksum_finish s")
    case True
    then show ?thesis using checksum_finish_mod [of s] assms(5) by (simp add: add.commute)
  next
    case False
    with assms(6) have "checksum_finish s = 0" "unat c = 65535" by auto
    then have "(pseudo + be_sum q) mod 65535 = 0" using checksum_finish_mod [of s] assms(5) by simp
    then show ?thesis using \<open>unat c = 65535\<close> by simp
  qed
  then show ?thesis by (simp only: b add.assoc)
qed

lemma be_sum_zero_le: "even i \<Longrightarrow> i + 1 < length p \<Longrightarrow> be_sum (p[i := 0, i + 1 := 0]) \<le> be_sum p"
  using be_sum_write [of i p 0] by (simp add: hi8_def lo8_def)

lemma pseudo_v4_sum:
  "length (pseudo_v4 s d pr n) = 12" "be_sum (pseudo_v4 s d pr n) \<le> 65535 * 6"
  using be_sum_bound [of "pseudo_v4 s d pr n"] by (simp_all add: pseudo_v4_def be32_bytes_def)

lemma checksum_add_0: "be_sum d < 2 ^ 32 \<Longrightarrow> unat (checksum_add 0 d) = be_sum d"
  using checksum_add_unat [of 0 d] by simp

lemma zero_write: "write16 p i 0 = (if i + 1 < length p then Some (p[i := 0, i + 1 := 0]) else None)"
  by (simp add: write16_def hi8_def lo8_def)

text \<open>What a receiver checks: the sum of pseudo header (none for ICMPv4) and transport part.\<close>

definition l4_ok :: "nat \<Rightarrow> bytes \<Rightarrow> bool" where
  "l4_ok pseudo p \<longleftrightarrow> (pseudo + be_sum p) mod 65535 = 0"

lemma be_sum_64k:
  assumes "length p \<le> 65535"
  shows "be_sum p \<le> 65535 * 32768"
proof -
  have "(length p + 1) div 2 \<le> 32768" using assms by simp
  then show ?thesis using be_sum_bound [of p] mult_le_mono2 [of "(length p + 1) div 2" 32768 65535] by linarith
qed

definition payload_key :: "u32 \<Rightarrow> u32 \<Rightarrow> u8 \<Rightarrow> bytes \<Rightarrow> flow_key" where
  "payload_key peer target proto q =
     (proto, peer, target, if proto = 1 then mk16 (q ! 4) (q ! 5) else mk16 (q ! 0) (q ! 1),
      if proto = 1 then 0 else mk16 (q ! 2) (q ! 3))"

lemma v4_payload_ports:
  assumes "proto = 6 \<or> proto = 17" and "length p \<le> 65535" and "proto = 6 \<longrightarrow> 20 \<le> length p" and "8 \<le> length p"
  shows "\<exists>q k. v4_payload peer target proto p = Some (Some (q, k)) \<and> length q = length p \<and>
    k = payload_key peer target proto q \<and>
    l4_ok (be_sum (pseudo_v4 peer target proto (length p))) q"
proof -
  define off :: nat where "off = (if proto = 6 then 16 else 6)"
  have off: "off + 1 < length p" "even off" using assms(3,4) by (auto simp: off_def)
  define p0 where "p0 = p[off := 0, off + 1 := 0]"
  have l: "length p0 = length p" by (simp add: p0_def)
  let ?ps = "pseudo_v4 peer target proto (length p)"
  define sum where "sum = checksum_add (checksum_add 0 (pseudo_v4 peer target proto (length p0))) p0"
  define c where "c = (if proto = 17 \<and> checksum_finish sum = 0 then 0xFFFF else checksum_finish sum)"
  have b: "be_sum p \<le> 65535 * 32768" using be_sum_64k assms(2) .
  have z: "be_sum p0 \<le> be_sum p" using be_sum_zero_le [OF off(2,1)] by (simp add: p0_def)
  have "unat sum = be_sum ?ps + be_sum p0"
    unfolding sum_def l using pseudo_v4_sum(2) [of peer target proto "length p"] b z
    by (subst checksum_add_unat; simp add: checksum_add_0)
  from checksum_stored [OF off(2,1) _ p0_def this, of c]
  have ok: "l4_ok (be_sum ?ps) (p0[off := hi8 c, off + 1 := lo8 c])"
    using pseudo_v4_sum(2) [of peer target proto "length p"] b by (auto simp: l4_ok_def c_def)
  have "be16 p 0 = Some (mk16 (p ! 0) (p ! 1))" "be16 p 2 = Some (mk16 (p ! 2) (p ! 3))"
    using assms(4) by (simp_all add: byte_simps numeral_3_eq_3 numeral_2_eq_2)
  moreover have "write16 p off 0 = Some p0" using off by (simp add: zero_write p0_def)
  moreover have "write16 p0 off c = Some (p0[off := hi8 c, off + 1 := lo8 c])" using off l by (simp add: write16_def)
  ultimately have "v4_payload peer target proto p =
      Some (Some (p0[off := hi8 c, off + 1 := lo8 c], proto, peer, target, mk16 (p ! 0) (p ! 1), mk16 (p ! 2) (p ! 3)))"
    using assms(1,3,4)
    by (auto simp: v4_payload_def off_def [symmetric] Let_def checksum_v4_def sum_def [symmetric] c_def)
  moreover have "payload_key peer target proto (p0[off := hi8 c, off + 1 := lo8 c]) =
      (proto, peer, target, mk16 (p ! 0) (p ! 1), mk16 (p ! 2) (p ! 3))"
    using assms(1) by (auto simp: payload_key_def p0_def off_def)
  ultimately show ?thesis using ok l by simp
qed

lemma v4_payload_icmp:
  assumes "proto \<noteq> 6" "proto \<noteq> 17" and "length p \<le> 65535" and "8 \<le> length p" and "p ! 0 = 128 \<or> p ! 0 = 129"
  shows "\<exists>q. v4_payload peer target proto p = Some (Some (q, payload_key peer target 1 q)) \<and>
    length q = length p \<and> l4_ok 0 q"
proof -
  define p' where "p' = p[0 := (if p ! 0 = 128 then 8 else 0)]"
  have l': "length p' = length p" by (simp add: p'_def)
  define p0 where "p0 = p'[2 := 0, 2 + 1 := 0]"
  have l: "length p0 = length p" by (simp add: p0_def l')
  define sum where "sum = checksum_add 0 p0"
  have b: "be_sum p0 \<le> 65535 * 32768" "be_sum p' \<le> 65535 * 32768"
    using be_sum_64k [of p0] be_sum_64k [of p'] assms(3) l l' by auto
  have "unat sum = 0 + be_sum p0" using b by (simp add: sum_def checksum_add_0)
  from checksum_stored [OF _ _ _ p0_def this, of "checksum_finish sum"]
  have ok: "l4_ok 0 (p0[2 := hi8 (checksum_finish sum), 2 + 1 := lo8 (checksum_finish sum)])"
    using b(2) l' assms(4) by (simp add: l4_ok_def)
  have "rd8 p 0 = Some (p ! 0)" using assms(4) by (auto simp: rd8_def)
  moreover have "be16 p' 4 = Some (mk16 (p ! 4) (p ! 5))"
    using assms(4) l' by (simp add: byte_simps) (simp add: p'_def)
  moreover have "write16 p' 2 0 = Some p0" using assms(4) l' by (simp add: zero_write p0_def)
  moreover have "write16 p0 2 c = Some (p0[2 := hi8 c, 2 + 1 := lo8 c])" for c
    using assms(4) l by (simp add: write16_def)
  ultimately have "v4_payload peer target proto p =
      Some (Some (p0[2 := hi8 (checksum_finish sum), 2 + 1 := lo8 (checksum_finish sum)], 1, peer, target, mk16 (p ! 4) (p ! 5), 0))"
    using assms by (auto simp: v4_payload_def p'_def [symmetric] checksum_plain_def sum_def [symmetric])
  moreover have "payload_key peer target 1 (p0[2 := hi8 (checksum_finish sum), 2 + 1 := lo8 (checksum_finish sum)]) =
      (1, peer, target, mk16 (p ! 4) (p ! 5), 0)" by (simp add: payload_key_def p0_def p'_def)
  ultimately show ?thesis using ok l by (metis length_list_update)
qed

lemma v4_payload_cases:
  assumes "length p \<le> 65535"
  obtains "v4_payload peer target proto p = Some None"
  | q k where "v4_payload peer target proto p = Some (Some (q, k))" "length q = length p" "fst k = (if proto = 6 \<or> proto = 17 then proto else 1)"
      "k = payload_key peer target (if proto = 6 \<or> proto = 17 then proto else 1) q"
      "l4_ok (if proto = 6 \<or> proto = 17 then be_sum (pseudo_v4 peer target proto (length p)) else 0) q"
proof (cases "proto = 6 \<or> proto = 17")
  case True
  show thesis
  proof (cases "8 \<le> length p \<and> (proto = 6 \<longrightarrow> 20 \<le> length p)")
    case ok: True
    from v4_payload_ports [OF True assms, of peer target] ok obtain q where
      "v4_payload peer target proto p = Some (Some (q, payload_key peer target proto q))" "length q = length p"
      "l4_ok (be_sum (pseudo_v4 peer target proto (length p))) q" by auto
    then show thesis using that(2) True by (simp add: payload_key_def)
  next
    case False
    then have "v4_payload peer target proto p = Some None" using True by (auto simp: v4_payload_def)
    then show thesis by (rule that(1))
  qed
next
  case False
  show thesis
  proof (cases "8 \<le> length p \<and> (p ! 0 = 128 \<or> p ! 0 = 129)")
    case True
    with v4_payload_icmp [of proto p peer target] assms False obtain q where
      "v4_payload peer target proto p = Some (Some (q, payload_key peer target 1 q))" "length q = length p" "l4_ok 0 q" by auto
    then show thesis using that(2) False by (simp add: payload_key_def)
  next
    case no: False
    have "v4_payload peer target proto p = Some None"
    proof (cases "8 \<le> length p")
      case True
      then have "rd8 p 0 = Some (p ! 0)" by (auto simp: rd8_def)
      with no True False show ?thesis by (simp add: v4_payload_def)
    qed (use False in \<open>simp add: v4_payload_def\<close>)
    then show thesis by (rule that(1))
  qed
qed


lemma v4_payload_ok:
  assumes "length p \<le> 65535" and "v4_payload peer target proto p = Some (Some (q, k))"
    and "pr = (if proto = 6 \<or> proto = 17 then proto else 1)"
  shows "length q = length p \<and> fst k = pr \<and> k = payload_key peer target pr q \<and>
    l4_ok (if pr = 6 \<or> pr = 17 then be_sum (pseudo_v4 peer target pr (length p)) else 0) q"
proof (rule v4_payload_cases [OF assms(1), of peer target proto])
  fix q' k'
  assume a: "v4_payload peer target proto p = Some (Some (q', k'))" "length q' = length p"
    "fst k' = (if proto = 6 \<or> proto = 17 then proto else 1)"
    "k' = payload_key peer target (if proto = 6 \<or> proto = 17 then proto else 1) q'"
    "l4_ok (if proto = 6 \<or> proto = 17 then be_sum (pseudo_v4 peer target proto (length p)) else 0) q'"
  have "q' = q" "k' = k" using a(1) assms(2) by simp_all
  with a(2-5) show ?thesis using assms(3) by (auto split: if_splits)
qed (use assms in simp)

section \<open>What reaches the LAN\<close>

text \<open>What a receiver of an IPv4 packet without options checks.\<close>

definition v4_wellformed :: "bytes \<Rightarrow> bool" where
  "v4_wellformed d \<longleftrightarrow>
     20 \<le> length d \<and> d ! 0 = 0x45 \<and> unat (mk16 (d ! 2) (d ! 3)) = length d \<and> be_sum (take 20 d) mod 65535 = 0 \<and>
     l4_ok (if d ! 9 = 6 \<or> d ! 9 = 17
            then be_sum (take 8 (drop 12 d) @ [0, d ! 9, of_nat ((length d - 20) div 256), of_nat (length d - 20)]) else 0)
       (drop 20 d)"

lemma v4_header_checksum:
  assumes "h4 = v4_header h ident peer target proto len" and "c = checksum_plain h4"
  shows "be_sum (h4[10 := hi8 c, 11 := lo8 c]) mod 65535 = 0"
proof -
  have l: "length h4 = 20" by (simp add: assms(1) v4_header_def be16_bytes_def be32_bytes_def)
  have z: "h4 = h4[10 := 0, 10 + 1 := 0]" by (simp add: assms(1) v4_header_def be16_bytes_def be32_bytes_def)
  have b: "be_sum h4 \<le> 655350" using be_sum_bound [of h4] l by simp
  then have "unat (checksum_add 0 h4) = 0 + be_sum h4" by (simp add: checksum_add_0)
  from checksum_stored [of 10 h4 0 h4 "checksum_add 0 h4" c, OF _ _ _ z this] b l
  show ?thesis by (simp add: assms(2) checksum_plain_def)
qed

lemma mk16_of_nat: "n < 65536 \<Longrightarrow> unat (mk16 (of_nat (n div 256)) (of_nat n)) = n"
  by (simp add: unat_mk16 unat_of_nat)

lemma v4_packet:
  assumes "length p = len" and "20 + len < 65536" and "h4 = v4_header h ident peer target proto len"
    and "c = checksum_plain h4" and "out = h4[10 := hi8 c, 11 := lo8 c] @ p"
    and "l4_ok (if proto = 6 \<or> proto = 17 then be_sum (pseudo_v4 peer target proto len) else 0) p"
  shows "v4_wellformed out \<and> mk32 (out ! 12) (out ! 13) (out ! 14) (out ! 15) = peer \<and>
    mk32 (out ! 16) (out ! 17) (out ! 18) (out ! 19) = target \<and> out ! 8 = h ! 7 - 1 \<and> out ! 9 = proto \<and>
    drop 20 out = p"
proof -
  have o: "out = [0x45, (h ! 0) AND 0xF] @ be16_bytes (of_nat (20 + len)) @ be16_bytes ident @
      [0x40, 0, h ! 7 - 1, proto, hi8 c, lo8 c] @ be32_bytes peer @ be32_bytes target @ p"
    by (simp add: assms(3,5) v4_header_def be16_bytes_def be32_bytes_def)
  have t: "take 20 out = h4[10 := hi8 c, 11 := lo8 c]" "drop 20 out = p"
    by (simp_all add: o assms(3) v4_header_def be16_bytes_def be32_bytes_def)
  have a: "take 8 (drop 12 out) = be32_bytes peer @ be32_bytes target"
    by (simp add: o be16_bytes_def be32_bytes_def)
  have f: "out ! 0 = 0x45" "out ! 2 = hi8 (of_nat (20 + len))" "out ! 3 = lo8 (of_nat (20 + len))" "out ! 8 = h ! 7 - 1"
    "out ! 9 = proto" "length out = 20 + len"
    "mk32 (out ! 12) (out ! 13) (out ! 14) (out ! 15) = peer" "mk32 (out ! 16) (out ! 17) (out ! 18) (out ! 19) = target"
    by (simp_all add: o be16_bytes_def be32_bytes_def assms(1))
  have "unat (mk16 (out ! 2) (out ! 3)) = length out"
    using assms(2) by (simp add: f unat_of_nat del: of_nat_add)
  then have "v4_wellformed out"
    using v4_header_checksum [OF assms(3,4)] assms(6) f
    by (auto simp: v4_wellformed_def t a pseudo_v4_def split: if_splits)
  then show ?thesis using f t by simp
qed

lemma v4_header_length [simp]: "length (v4_header h ident peer t pr n) = 20"
  by (simp add: v4_header_def be16_bytes_def be32_bytes_def)

lemma input_total: "fourvia6_translate_wg_input s now ident alloc peer packet \<noteq> None"
proof (cases packet)
  case (Some b)
  define p where "p = take (unat (mk16 (b ! 4) (b ! 5))) (drop 40 b)"
  have l: "length p \<le> 65535" using unat_u16_less [of "mk16 (b ! 4) (b ! 5)"] by (simp add: p_def)
  show ?thesis
  proof (cases "v4_payload peer (mk32 (b ! 36) (b ! 37) (b ! 38) (b ! 39)) (b ! 6) p")
    case None
    show ?thesis
      by (rule v4_payload_cases [OF l, of peer "mk32 (b ! 36) (b ! 37) (b ! 38) (b ! 39)" "b ! 6"]) (use None in auto)
  next
    case (Some r)
    then show ?thesis
      by (auto simp: fourvia6_translate_wg_input_def \<open>packet = Some b\<close> Let_def p_def write16_Some split: option.split)
  qed
qed (simp add: fourvia6_translate_wg_input_def)

text \<open>What is handed to lwIP for the packet \<open>b\<close> of the peer \<open>peer\<close>, and the flow that is remembered.\<close>

definition packet_key :: "bytes \<Rightarrow> flow_key" where
  "packet_key d =
     payload_key (mk32 (d ! 12) (d ! 13) (d ! 14) (d ! 15)) (mk32 (d ! 16) (d ! 17) (d ! 18) (d ! 19)) (d ! 9) (drop 20 d)"

definition injected_ok :: "via_state \<Rightarrow> int \<Rightarrow> u32 \<Rightarrow> bytes \<Rightarrow> bytes \<Rightarrow> via_state \<Rightarrow> bool" where
  "injected_ok s now peer b out s' \<longleftrightarrow>
     (let target = mk32 (b ! 36) (b ! 37) (b ! 38) (b ! 39) in
      via_enabled s \<and> take 8 (drop 24 b) = VIA_PREFIX \<and>
      mk32 (b ! 32) (b ! 33) (b ! 34) (b ! 35) = ucast (via_site_id s) \<and> target_allowed s target \<and> peer \<noteq> 0 \<and>
      v4_wellformed out \<and> length out = 20 + unat (mk16 (b ! 4) (b ! 5)) \<and>
      mk32 (out ! 12) (out ! 13) (out ! 14) (out ! 15) = peer \<and>
      mk32 (out ! 16) (out ! 17) (out ! 18) (out ! 19) = target \<and>
      1 < b ! 7 \<and> out ! 8 = b ! 7 - 1 \<and> out ! 9 = (if b ! 6 = 58 then 1 else b ! 6) \<and>
      s' = s\<lparr>via_flows := flow_remember (packet_key out) (take 16 (drop 8 b)) now (via_flows s),
              via_translated := via_translated s + 1\<rparr>)"

lemma injected_ok_input:
  assumes "length b \<le> 65535" and "fourvia6_translate_wg_input s now ident alloc peer (Some b) = Some (Injected out, s')"
  shows "injected_ok s now peer b out s'"
proof -
  define plen where "plen = unat (mk16 (b ! 4) (b ! 5))"
  define target where "target = mk32 (b ! 36) (b ! 37) (b ! 38) (b ! 39)"
  define p where "p = take plen (drop 40 b)"
  from assms(2) obtain q k h where g: "40 \<le> length b" "via_enabled s" "take 8 (drop 24 b) = VIA_PREFIX"
      "mk32 (b ! 32) (b ! 33) (b ! 34) (b ! 35) = ucast (via_site_id s)" "target_allowed s target" "peer \<noteq> 0"
      "40 + plen \<le> length b" "1 < b ! 7" "b ! 6 = 6 \<or> b ! 6 = 17 \<or> b ! 6 = 58"
    and q: "v4_payload peer target (b ! 6) p = Some (Some (q, k))"
    and h: "write16 (v4_header (take 40 b) ident peer target (fst k) plen) 10
              (checksum_plain (v4_header (take 40 b) ident peer target (fst k) plen)) = Some h"
    and o: "out = h @ q"
    and s': "s' = s\<lparr>via_flows := flow_remember k (take 16 (drop 8 b)) now (via_flows s), via_translated := via_translated s + 1\<rparr>"
    by (auto simp: fourvia6_translate_wg_input_def Let_def plen_def [symmetric] target_def [symmetric] p_def [symmetric]
        drop_take split: if_splits option.splits Option.bind_splits)
  have lp: "length p = plen" "plen \<le> 65495" using g(1,7) assms(1) by (simp_all add: p_def)
  then have "length p \<le> 65535" by simp
  define pr where "pr = (if b ! 6 = 58 then 1 else b ! 6)"
  have pr: "(if b ! 6 = 6 \<or> b ! 6 = 17 then b ! 6 else 1) = pr" using g(9) by (auto simp: pr_def)
  have ok: "length q = plen" "fst k = pr" "k = payload_key peer target pr q"
      "l4_ok (if pr = 6 \<or> pr = 17 then be_sum (pseudo_v4 peer target pr plen) else 0) q"
    using v4_payload_ok [OF \<open>length p \<le> 65535\<close> q pr [symmetric], unfolded lp(1)] by blast+
  have "out = (v4_header (take 40 b) ident peer target (fst k) plen)
      [10 := hi8 (checksum_plain (v4_header (take 40 b) ident peer target (fst k) plen)),
       11 := lo8 (checksum_plain (v4_header (take 40 b) ident peer target (fst k) plen))] @ q"
    using h by (simp add: o write16_def)
  from v4_packet [OF ok(1) _ refl refl this ok(4) [folded ok(2)]] lp
  have w: "v4_wellformed out \<and> mk32 (out ! 12) (out ! 13) (out ! 14) (out ! 15) = peer \<and>
    mk32 (out ! 16) (out ! 17) (out ! 18) (out ! 19) = target \<and> out ! 8 = b ! 7 - 1 \<and> out ! 9 = fst k \<and> drop 20 out = q"
    by simp
  have "length out = 20 + plen" using w ok(1) h by (auto simp: o write16_def split: if_splits)
  moreover have "packet_key out = k" using w ok(2) trans [OF _ ok(3) [symmetric]] by (simp add: packet_key_def)
  ultimately show ?thesis using g w s' ok(2) unfolding injected_ok_def Let_def target_def plen_def pr_def by metis
qed

text \<open>
  C7: For any buffer, also one cut short, truncated in its transport header or of an unknown
  protocol, the translation of a packet from the tunnel stays inside its buffers; a packet that is
  not for this site's prefix changes nothing, a discarded one leaves the flows and the counter of
  translations alone, and what is handed to lwIP is a well-formed IPv4 packet, with right header
  and transport checksums, from the peer's own address to an allowed target, its hop limit one less,
  whose flow has been remembered.
\<close>

theorem fourvia6_input_correct:
  assumes "length b \<le> 65535"
  shows "case fourvia6_translate_wg_input s now ident alloc peer (Some b) of None \<Rightarrow> False
    | Some (Not_ours, s') \<Rightarrow> s' = s
    | Some (Discarded, s') \<Rightarrow> via_flows s' = via_flows s \<and> via_translated s' = via_translated s
    | Some (Injected out, s') \<Rightarrow> injected_ok s now peer b out s'"
proof (cases "fourvia6_translate_wg_input s now ident alloc peer (Some b)")
  case None
  then show ?thesis using input_total by blast
next
  case (Some r)
  obtain v s' where r: "r = (v, s')" by (cases r)
  show ?thesis
  proof (cases v)
    case (Injected out)
    then show ?thesis using injected_ok_input [OF assms] Some r by simp
  qed (use Some r in \<open>auto simp: fourvia6_translate_wg_input_def Let_def split: if_splits option.splits Option.bind_splits\<close>)
qed

section \<open>What reaches the tunnel\<close>

definition pseudo_v6_sum :: "bytes \<Rightarrow> bytes \<Rightarrow> u8 \<Rightarrow> nat \<Rightarrow> nat" where
  "pseudo_v6_sum src dst proto len = be_sum src + be_sum dst + be_sum (pseudo_v6_tail proto len)"

lemma checksum_v6_stored:
  assumes "length src = 16" "length dst = 16" and "even off" "off + 1 < length p" "length p \<le> 65535"
    and "q = p[off := 0, off + 1 := 0]"
    and "c = checksum_v6 src dst proto q \<or> checksum_v6 src dst proto q = 0 \<and> c = 0xFFFF"
  shows "l4_ok (pseudo_v6_sum src dst proto (length p)) (q[off := hi8 c, off + 1 := lo8 c])"
proof -
  let ?t = "pseudo_v6_tail proto (length p)"
  define sum where "sum = checksum_add (checksum_add (checksum_add (checksum_add 0 src) dst) ?t) q"
  have b: "be_sum src \<le> 524280" "be_sum dst \<le> 524280" "be_sum ?t \<le> 262140" "be_sum p \<le> 65535 * 32768"
    using be_sum_bound [of src] be_sum_bound [of dst] be_sum_bound [of ?t] be_sum_64k [OF assms(5)] assms(1,2)
    by (simp_all add: pseudo_v6_tail_def)
  have z: "be_sum q \<le> be_sum p" using be_sum_zero_le [OF assms(3,4)] by (simp add: assms(6))
  have 1: "unat (checksum_add 0 src) = be_sum src" using b by (simp add: checksum_add_0)
  have 2: "unat (checksum_add (checksum_add 0 src) dst) = be_sum src + be_sum dst"
    using b 1 by (subst checksum_add_unat) simp_all
  have 3: "unat (checksum_add (checksum_add (checksum_add 0 src) dst) ?t) = pseudo_v6_sum src dst proto (length p)"
    using b 2 by (subst checksum_add_unat) (simp_all add: pseudo_v6_sum_def)
  have 4: "unat sum = pseudo_v6_sum src dst proto (length p) + be_sum q"
    using b 3 z unfolding sum_def by (subst checksum_add_unat) (simp_all add: pseudo_v6_sum_def)
  have "length q = length p" by (simp add: assms(6))
  with assms(7) have "c = checksum_finish sum \<or> checksum_finish sum = 0 \<and> c = 0xFFFF"
    by (simp add: checksum_v6_def sum_def)
  from checksum_stored [OF assms(3,4) _ assms(6) 4 this] b show ?thesis by (simp add: l4_ok_def pseudo_v6_sum_def)
qed

lemma v6_payload_ok:
  assumes "length src = 16" "length dst = 16" and "length p \<le> 65535" and "8 \<le> length p" and "proto = 6 \<longrightarrow> 18 \<le> length p"
  shows "\<exists>q. v6_payload src dst proto p = Some q \<and> length q = length p \<and>
    l4_ok (pseudo_v6_sum src dst (if proto = 6 \<or> proto = 17 then proto else 58) (length p)) q"
proof (cases "proto = 6 \<or> proto = 17")
  case True
  define off :: nat where "off = (if proto = 6 then 16 else 6)"
  have off: "off + 1 < length p" "even off" using assms(4,5) by (auto simp: off_def)
  define p0 where "p0 = p[off := 0, off + 1 := 0]"
  define c where "c = (if proto = 17 \<and> checksum_v6 src dst proto p0 = 0 then 0xFFFF else checksum_v6 src dst proto p0)"
  have "v6_payload src dst proto p = Some (p0[off := hi8 c, off + 1 := lo8 c])"
    using off True by (simp add: v6_payload_def off_def [symmetric] c_def [symmetric] zero_write p0_def [symmetric])
      (auto simp: write16_def p0_def c_def Let_def)
  then show ?thesis
    using checksum_v6_stored [OF assms(1,2) off(2,1) assms(3) p0_def, of c proto] True by (auto simp: c_def p0_def)
next
  case False
  define p' where "p' = p[0 := (if p ! 0 = 0 then 129 else 128)]"
  define p0 where "p0 = p'[2 := 0, 2 + 1 := 0]"
  have l: "length p' = length p" "length p0 = length p" by (simp_all add: p0_def p'_def)
  have "rd8 p 0 = Some (p ! 0)" using assms(4) by (auto simp: rd8_def)
  moreover have "write16 p' 2 0 = Some p0" using assms(4) l by (simp add: zero_write p0_def)
  moreover have "write16 p0 2 c = Some (p0[2 := hi8 c, 2 + 1 := lo8 c])" for c
    using assms(4) l by (simp add: write16_def)
  ultimately have "v6_payload src dst proto p =
      Some (p0[2 := hi8 (checksum_v6 src dst 58 p0), 2 + 1 := lo8 (checksum_v6 src dst 58 p0)])"
    using False by (simp add: v6_payload_def p'_def [symmetric])
  then show ?thesis
    using checksum_v6_stored [OF assms(1,2) _ _ _ p0_def, of "checksum_v6 src dst 58 p0" 58] False l assms(3,4) by simp
qed

lemma flow_lookup_found:
  assumes "\<exists>f\<in>set fs. fl_valid f \<and> key_of f = k \<and> now - fl_seen f \<le> flow_timeout (fst k)"
    and "\<And>f. f \<in> set fs \<Longrightarrow> fl_valid f \<Longrightarrow> key_of f = k \<Longrightarrow> fl_client f = c"
  shows "\<exists>g. fst (flow_lookup k now fs) = Some g \<and> fl_client g = c"
  using assms
proof (induction fs)
  case (Cons f fs)
  then show ?case by (auto simp: Let_def)
qed simp

lemma flow_slot_cases:
  "flow_slot k c fs i slot oldest = Some j \<Longrightarrow> slot = Some j \<or> i \<le> j \<and> j < i + length fs"
  by (induction k c fs i slot oldest rule: flow_slot.induct) (auto split: if_splits)

lemma flow_slot_keeps: "flow_slot k c fs i (Some a) oldest \<noteq> None"
  by (induction fs arbitrary: i a oldest) (auto split: if_splits)

lemma flow_slot_finds:
  "fs \<noteq> [] \<Longrightarrow> \<forall>f\<in>set fs. fl_seen f < oldest \<Longrightarrow> flow_slot k c fs i None oldest \<noteq> None"
  by (cases fs) (auto simp: flow_slot_keeps simp del: not_None_eq)

lemma v4_reply_bounds:
  "v4_reply r = Some (Some (ihl, totl, k)) \<Longrightarrow> 20 \<le> ihl \<and> ihl + 8 \<le> totl \<and> totl \<le> length r \<and> 20 \<le> length r"
  by (auto simp: v4_reply_def Let_def split: if_splits Option.bind_splits)

lemma flow_remembered:
  assumes "fs \<noteq> []" and "\<forall>f\<in>set fs. fl_seen f < INT64_MAX"
  shows "\<exists>f\<in>set (flow_remember k c now fs). fl_valid f \<and> key_of f = k \<and> fl_client f = c \<and> fl_seen f = now"
    and "\<And>f. f \<in> set (flow_remember k c now fs) \<Longrightarrow> f \<in> set fs \<or> key_of f = k \<and> fl_client f = c"
proof -
  obtain i where i: "flow_slot k c fs 0 None INT64_MAX = Some i" using flow_slot_finds [OF assms, of k c 0] by auto
  obtain proto peer target cp tp where k: "k = (proto, peer, target, cp, tp)" by (cases k) auto
  let ?f = "\<lparr>fl_valid = True, fl_proto = proto, fl_client = c, fl_peer = peer, fl_target = target,
    fl_client_port = cp, fl_target_port = tp, fl_seen = now\<rparr>"
  have "i < length fs" using flow_slot_cases [OF i] by simp
  moreover have r: "flow_remember k c now fs = fs[i := ?f]" using i by (simp add: flow_remember_def k)
  ultimately have "?f \<in> set (flow_remember k c now fs)" by (simp add: set_update_memI)
  then show "\<exists>f\<in>set (flow_remember k c now fs). fl_valid f \<and> key_of f = k \<and> fl_client f = c \<and> fl_seen f = now"
    by (rule bexI [rotated]) (simp add: key_of_def k)
  show "f \<in> set fs \<or> key_of f = k \<and> fl_client f = c" if "f \<in> set (flow_remember k c now fs)" for f
  proof -
    have "f = ?f \<or> f \<in> set fs" using that set_update_subset_insert [of fs i ?f] unfolding r by blast
    then show ?thesis by (auto simp: key_of_def k)
  qed
qed

lemma via_address_of:
  assumes "40 \<le> length b" and "take 8 (drop 24 b) = VIA_PREFIX"
    and "mk32 (b ! 32) (b ! 33) (b ! 34) (b ! 35) = ucast site" and "target = mk32 (b ! 36) (b ! 37) (b ! 38) (b ! 39)"
  shows "via_address site target = take 16 (drop 24 b)"
proof -
  have "byte3 (ucast site) = 0" "byte2 (ucast site) = 0" "byte1 (ucast site) = hi8 site" "byte0 (ucast site) = lo8 site"
    unfolding byte3_def byte2_def byte1_def byte0_def hi8_def lo8_def by (rule bit_word_eqI; auto simp: bit_simps dest: bit_imp_le_length)+
  then have p: "b ! 32 = 0" "b ! 33 = 0" "b ! 34 = hi8 site" "b ! 35 = lo8 site"
    using assms(3) by (metis byte3_mk32 byte2_mk32 byte1_mk32 byte0_mk32)+
  have "take 16 (drop 24 b) = take 8 (drop 24 b) @ take 8 (drop 32 b)"
    using take_add [of 8 8 "drop 24 b"] by simp
  also have "take 8 (drop 32 b) = [b ! 32, b ! 33, b ! 34, b ! 35, b ! 36, b ! 37, b ! 38, b ! 39]"
    using assms(1) by (intro nth_equalityI) (auto simp: less_Suc_eq numeral_eq_Suc)
  finally show ?thesis using assms(2,4) p by (simp add: via_address_def be32_bytes_def)
qed

definition reply_ok :: "bytes \<Rightarrow> nat \<Rightarrow> bytes \<Rightarrow> bool" where
  "reply_ok b n w \<longleftrightarrow>
     length w = 40 + n \<and> drop_bit 4 (w ! 0) = 6 \<and> unat (mk16 (w ! 4) (w ! 5)) = n \<and>
     take 16 (drop 8 w) = take 16 (drop 24 b) \<and> take 16 (drop 24 w) = take 16 (drop 8 b) \<and>
     l4_ok (pseudo_v6_sum (take 16 (drop 8 w)) (take 16 (drop 24 w)) (w ! 6) n) (drop 40 w)"

lemma v6_header_facts:
  assumes "length src = 16" "length dst = 16" "length p = n" "n < 65536"
    and "w = [0x60 OR drop_bit 4 tos, 0, 0, 0] @ be16_bytes (of_nat n) @ [pr, ttl] @ src @ dst @ p"
  shows "length w = 40 + n" "drop_bit 4 (w ! 0) = 6" "unat (mk16 (w ! 4) (w ! 5)) = n" "take 16 (drop 8 w) = src"
    "take 16 (drop 24 w) = dst" "w ! 6 = pr" "drop 40 w = p"
proof -
  have "drop_bit 4 (0x60 OR drop_bit 4 tos :: u8) = 6"
  proof -
    have "drop_bit 4 (drop_bit 4 tos) = 0"
      by (rule bit_word_eqI) (auto simp: bit_simps dest: bit_imp_le_length)
    then show ?thesis by (simp add: drop_bit_or)
  qed
  then show "drop_bit 4 (w ! 0) = 6" by (simp add: assms(5))
  show "unat (mk16 (w ! 4) (w ! 5)) = n" using assms(4) by (simp add: assms(5) be16_bytes_def unat_of_nat)
  show "length w = 40 + n" "take 16 (drop 8 w) = src" "take 16 (drop 24 w) = dst" "w ! 6 = pr" "drop 40 w = p"
    using assms(1-3) by (simp_all add: assms(5) be16_bytes_def)
qed

text \<open>
  C8: The reply to a packet that was handed to the LAN comes back to the peer that sent it: an IPv4
  packet with the endpoints of that packet swapped, within the idle time of its protocol, leaves as
  an IPv6 packet from the very 4via6 address the peer had addressed to the peer's own IPv6 address,
  with its payload length and a right transport checksum; for TCP the header must reach past the
  checksum field, and no other client may share the ports (the key of a flow has only the peer's
  IPv4 address).
\<close>

theorem fourvia6_reply_returns:
  assumes "length b \<le> 65535" and "fourvia6_translate_wg_input s t ident alloc peer (Some b) = Some (Injected out, s')"
    and "via_flows s \<noteq> []" and "\<forall>f\<in>set (via_flows s). fl_seen f < INT64_MAX"
    and "\<forall>f\<in>set (via_flows s). fl_valid f \<longrightarrow> key_of f = packet_key out \<longrightarrow> fl_client f = take 16 (drop 8 b)"
    and "v4_reply r = Some (Some (ihl, totl, packet_key out))" and "totl - ihl \<le> 65495"
    and "out ! 9 = 6 \<longrightarrow> 18 \<le> totl - ihl" and "t' - t \<le> flow_timeout (out ! 9)"
  shows "case fourvia6_translate_wg_output s' t' True (Some r) of
      Some (Some w, s'') \<Rightarrow> reply_ok b (totl - ihl) w \<and> via_translated s'' = via_translated s' + 1 | _ \<Rightarrow> False"
proof -
  let ?k = "packet_key out" and ?c = "take 16 (drop 8 b)" and ?n = "totl - ihl"
  define target where "target = mk32 (b ! 36) (b ! 37) (b ! 38) (b ! 39)"
  have lb: "40 \<le> length b"
    using assms(2) by (auto simp: fourvia6_translate_wg_input_def Let_def split: if_splits)
  have ok: "injected_ok s t peer b out s'" using injected_ok_input [OF assms(1,2)] .
  then have s': "via_flows s' = flow_remember ?k ?c t (via_flows s)" "via_enabled s'" "via_site_id s' = via_site_id s"
    by (auto simp: injected_ok_def Let_def)
  have k: "fst ?k = out ! 9" "fst (snd (snd ?k)) = target"
    using ok by (auto simp: packet_key_def payload_key_def injected_ok_def Let_def target_def)
  have src: "via_address (via_site_id s') target = take 16 (drop 24 b)"
    using ok by (intro via_address_of [OF lb]) (auto simp: injected_ok_def Let_def target_def s'(3))
  have "\<exists>f\<in>set (via_flows s'). fl_valid f \<and> key_of f = ?k \<and> t' - fl_seen f \<le> flow_timeout (fst ?k)"
    using flow_remembered(1) [OF assms(3,4), where k = ?k and c = ?c and now = t] assms(9) unfolding s'(1) k(1) by blast
  moreover have "fl_client f = ?c" if "f \<in> set (via_flows s')" "fl_valid f" "key_of f = ?k" for f
    using flow_remembered(2) [OF assms(3,4) that(1) [unfolded s'(1)]] assms(5) that(2,3) by blast
  ultimately obtain g where g: "fst (flow_lookup ?k t' (via_flows s')) = Some g" "fl_client g = ?c"
    using flow_lookup_found [of "via_flows s'" ?k t' ?c] by blast
  have r: "20 \<le> ihl" "ihl + 8 \<le> totl" "totl \<le> length r" "20 \<le> length r" using v4_reply_bounds [OF assms(6)] by auto
  let ?p = "take ?n (drop ihl r)"
  have lp: "length ?p = ?n" using r by simp
  have l16: "length (take 16 (drop 24 b)) = 16" "length ?c = 16" using lb by simp_all
  have "length ?p \<le> 65535" "8 \<le> length ?p" "out ! 9 = 6 \<longrightarrow> 18 \<le> length ?p"
    using r assms(7,8) unfolding lp by linarith+
  from v6_payload_ok [OF l16 this, unfolded lp] obtain q
    where q: "v6_payload (take 16 (drop 24 b)) ?c (out ! 9) ?p = Some q" "length q = ?n"
      "l4_ok (pseudo_v6_sum (take 16 (drop 24 b)) ?c (if out ! 9 = 6 \<or> out ! 9 = 17 then out ! 9 else 58) ?n) q" by blast
  have pr: "(if out ! 9 = 6 \<or> out ! 9 = 17 then out ! 9 else 58) = (if out ! 9 = 1 then 58 else out ! 9)"
    using ok assms(2) by (auto simp: injected_ok_def Let_def fourvia6_translate_wg_input_def split: if_splits)
  define w where "w = [0x60 OR drop_bit 4 (r ! 1), 0, 0, 0] @ be16_bytes (of_nat ?n)
      @ [if out ! 9 = 1 then 58 else out ! 9, if 1 < r ! 8 then r ! 8 - 1 else 1] @ take 16 (drop 24 b) @ ?c @ q"
  have "fourvia6_translate_wg_output s' t' True (Some r) =
      Some (Some w, s'\<lparr>via_flows := snd (flow_lookup ?k t' (via_flows s')), via_translated := via_translated s' + 1\<rparr>)"
  proof -
    have "rd8 r 1 = Some (r ! 1)" "rd8 r 8 = Some (r ! 8)" "rdn r ihl ?n = Some ?p" "\<not> 65535 < 40 + ?n"
      using r assms(7) by (auto simp: rd8_def rdn_def)
    then show ?thesis using q(1)
      by (simp add: fourvia6_translate_wg_output_def s'(2) assms(6) g k src w_def Let_def split del: if_split) (simp add: k)
  qed
  moreover have "reply_ok b ?n w"
    using v6_header_facts [OF l16 q(2) _ w_def] q(3) assms(7) unfolding reply_ok_def pr by simp
  ultimately show ?thesis by simp
qed

section \<open>A site\<close>

text \<open>Site 7 with the LAN 10.1.0.0/16; a peer's DNS query to 10.1.0.9, and the answer.\<close>

definition demo_via :: via_state where
  "demo_via = \<lparr>via_enabled = True, via_network = 0x0A010000, via_prefix_len = 16, via_site_id = 7,
     via_lan = ''10.1.0.0/16'', via_text = ''fd7a:115c:a1e0:b1a:0:7:a01:0/112'', via_flows = replicate 48 flow_zero,
     via_translated = 0, via_dropped = 0\<rparr>"

definition demo_client :: bytes where "demo_client = [0xfd, 0x7a, 0x11, 0x5c, 0xa1, 0xe0, 0, 0, 0, 0, 0, 0, 0, 0, 0, 1]"

definition demo_query6 :: bytes where
  "demo_query6 = [0x60, 0, 0, 0, 0, 8, 17, 64] @ demo_client @ VIA_PREFIX @ [0, 0, 0, 7, 10, 1, 0, 9]
     @ [0x1f, 0x90, 0, 53, 0, 8, 0, 0]"

definition demo_query4 :: bytes where
  "demo_query4 = [69, 0, 0, 28, 0, 7, 64, 0, 63, 17, 205, 127, 100, 64, 0, 1, 10, 1, 0, 9, 31, 144, 0, 53, 0, 8, 113, 206]"

definition demo_flow :: flow where
  "demo_flow = \<lparr>fl_valid = True, fl_proto = 17, fl_client = demo_client, fl_peer = 0x64400001,
     fl_target = 0x0A010009, fl_client_port = 8080, fl_target_port = 53, fl_seen = 0\<rparr>"

definition demo_via' :: via_state where
  "demo_via' = demo_via\<lparr>via_flows := replicate 47 flow_zero @ [demo_flow], via_translated := 1\<rparr>"

definition demo_answer4 :: bytes where
  "demo_answer4 = [69, 0, 0, 28, 0, 9, 0, 0, 64, 17, 0, 0, 10, 1, 0, 9, 100, 64, 0, 1, 0, 53, 31, 144, 0, 8, 0, 0]"

lemma demo_query:
  "fourvia6_translate_wg_input demo_via 0 7 True 0x64400001 (Some demo_query6) = Some (Injected demo_query4, demo_via')"
  by code_simp

lemma demo_reply: "v4_reply demo_answer4 = Some (Some (20, 28, packet_key demo_query4))"
  by code_simp

lemma demo_flows:
  "via_flows demo_via = replicate 48 flow_zero" "length demo_query6 = 48" "demo_query4 ! 9 = 17"
  "fl_seen flow_zero = 0" "\<not> fl_valid flow_zero"
  by code_simp+

theorem fourvia6_input_correct_witness:
  "fourvia6_translate_wg_input demo_via 0 7 True 0x64400001 (Some demo_query6) = Some (Injected demo_query4, demo_via') \<and>
   injected_ok demo_via 0 0x64400001 demo_query6 demo_query4 demo_via'"
  using fourvia6_input_correct [where b = demo_query6 and s = demo_via and now = 0 and ident = 7 and alloc = True
      and peer = "0x64400001"] demo_query demo_flows(2) by simp

theorem fourvia6_reply_returns_witness:
  "case fourvia6_translate_wg_output demo_via' 1 True (Some demo_answer4) of
      Some (Some w, s'') \<Rightarrow> reply_ok demo_query6 (28 - 20) w \<and> via_translated s'' = via_translated demo_via' + 1 | _ \<Rightarrow> False"
proof -
  have "8 \<le> (65495 :: nat)" "1 - 0 \<le> flow_timeout 17"
    by (simp_all add: flow_timeout_def FOURVIA6_UDP_TIMEOUT_def)
  then show ?thesis
    using fourvia6_reply_returns [OF _ demo_query _ _ _ demo_reply, where t' = 1] demo_flows
    by (simp add: INT64_MAX_def)
qed

section \<open>Where translation leaves its buffer\<close>

lemma v4_reply_total: "v4_reply r \<noteq> None"
proof (cases "length r < 20")
  case False
  then have "rd8 r 0 = Some (r ! 0)" "be16 r 2 = Some (mk16 (r ! 2) (r ! 3))" "be16 r 6 = Some (mk16 (r ! 6) (r ! 7))"
    "rd8 r 9 = Some (r ! 9)" "be32 r 12 = Some (mk32 (r ! 12) (r ! 13) (r ! 14) (r ! 15))"
    "be32 r 16 = Some (mk32 (r ! 16) (r ! 17) (r ! 18) (r ! 19))"
    by (auto simp: byte_simps rd8_def)
  then show ?thesis
    by (auto simp: v4_reply_def Let_def rdn_def rd8_def byte_simps not_less)
qed (simp add: v4_reply_def)

lemma v6_payload_None:
  assumes "length src = 16" "length dst = 16" and "8 \<le> length p"
  shows "v6_payload src dst proto p = None \<longleftrightarrow> proto = 6 \<and> length p < 18"
  using assms by (auto simp: v6_payload_def Let_def write16_def rd8_def)

text \<open>
  The translation of a reply accesses memory outside its buffer in exactly two cases, both for
  a packet of a known flow: a TCP segment shorter than 18 bytes, whose checksum field the code writes
  behind the end of the IPv6 packet it has just allocated (the way in checks 20 bytes, the way out
  8), and a payload above 65495 bytes, whose buffer length wraps around.
\<close>

theorem fourvia6_output_overflow:
  "fourvia6_translate_wg_output s now alloc packet = None \<longleftrightarrow>
     (case packet of None \<Rightarrow> False
      | Some r \<Rightarrow> via_enabled s \<and>
         (case v4_reply r of Some (Some (ihl, totl, k)) \<Rightarrow>
            fst (flow_lookup k now (via_flows s)) \<noteq> None \<and>
            (65495 < totl - ihl \<or> alloc \<and> fst k = 6 \<and> totl - ihl < 18)
          | _ \<Rightarrow> False))"
proof (cases "\<exists>r ihl totl k f. packet = Some r \<and> via_enabled s \<and> v4_reply r = Some (Some (ihl, totl, k)) \<and>
        fst (flow_lookup k now (via_flows s)) = Some f")
  case True
  then obtain r ihl totl k f where a: "packet = Some r" "via_enabled s" "v4_reply r = Some (Some (ihl, totl, k))"
    "fst (flow_lookup k now (via_flows s)) = Some f" by blast
  have b: "20 \<le> ihl" "ihl + 8 \<le> totl" "totl \<le> length r" "20 \<le> length r" using v4_reply_bounds [OF a(3)] by auto
  then have "rd8 r 1 = Some (r ! 1)" "rd8 r 8 = Some (r ! 8)" "rdn r ihl (totl - ihl) = Some (take (totl - ihl) (drop ihl r))"
    by (auto simp: rd8_def rdn_def)
  moreover have "v6_payload src dst pr (take (totl - ihl) (drop ihl r)) = None \<longleftrightarrow> pr = 6 \<and> totl - ihl < 18" for src dst pr
    using b by (auto simp: v6_payload_def Let_def write16_def rd8_def)
  ultimately show ?thesis using a
    by (auto simp: fourvia6_translate_wg_output_def Let_def bind_eq_None_conv)
next
  case False
  show ?thesis
  proof (cases packet)
    case (Some r)
    with False v4_reply_total [of r] show ?thesis
      by (cases "v4_reply r") (auto simp: fourvia6_translate_wg_output_def Let_def split: option.split)
  qed (simp add: fourvia6_translate_wg_output_def)
qed

section \<open>Eviction and persistence\<close>

lemma flow_slot_chosen:
  "\<forall>f\<in>set fs. fl_valid f \<and> (key_of f, fl_client f) \<noteq> (k, c) \<Longrightarrow> flow_slot k c fs i (Some a) oldest = Some a"
  by (induction fs arbitrary: i oldest) auto

text \<open>
  In a full table the entry replaced is the first one, however recently it was used: once a
  candidate has been found the comparison with the oldest time is not made any more.
\<close>

lemma flow_remember_full:
  assumes "fs \<noteq> []" and "\<forall>f\<in>set fs. fl_valid f \<and> (key_of f, fl_client f) \<noteq> (k, c)" and "fl_seen (hd fs) < INT64_MAX"
  shows "tl (flow_remember k c now fs) = tl fs \<and> key_of (hd (flow_remember k c now fs)) = k"
  using assms by (cases fs) (auto simp: flow_remember_def flow_slot_chosen key_of_def split: prod.split)

text \<open>
  The idle time that expires an entry is that of the packet looked up, not that of the entry: any
  ICMP reply clears the TCP and UDP flows that have been idle for more than 30 seconds.
\<close>

lemma icmp_reply_expires_all:
  assumes "fst k = 1" and "\<forall>f\<in>set fs. now - fl_seen f > FOURVIA6_ICMP_TIMEOUT"
  shows "flow_lookup k now fs = (None, map (\<lambda>f. f\<lparr>fl_valid := False\<rparr>) fs)"
  using assms by (induction fs) (auto simp: Let_def flow_timeout_def)

text \<open>
  A 4via6 setting that was accepted is the one in force, and the one a restart reads back
  from flash: switched on or off as asked, the network and prefix length of the text and the site id;
  a text that is not a network can only be stored while the translator is off.
\<close>

theorem fourvia6_config_persists:
  assumes "np_lawful api" and "fourvia6_set_config api h s en lan site = (ESP_OK, h', s')"
  shows "s' = fourvia6_init api h' s \<and>
    (let b = fourvia6_init api h' boot in via_site_id b = site \<and>
      (case parse_cidr lan of
         Some (network, prefix) \<Rightarrow> via_enabled b = en \<and> via_network b = network \<and> via_prefix_len b = prefix
       | None \<Rightarrow> \<not> en \<and> \<not> via_enabled b))"
proof -
  define t where "t = (case lan of None \<Rightarrow> [] | Some t \<Rightarrow> t)"
  obtain h1 h2 where w: "nvs_param_set api (np_set_u8 api) h ''ts_4v6_en'' (if en then 1 else 0) = (ESP_OK, h1)"
      "nvs_param_set_str api h1 ''ts_4v6_lan'' (Some t) = (ESP_OK, h2)"
      "nvs_param_set api (np_set_u16 api) h2 ''ts_4v6_site'' site = (ESP_OK, h')"
    and s': "s' = fourvia6_init api h' s" and en: "en \<longrightarrow> parse_cidr lan \<noteq> None"
    and lan: "lan \<noteq> None \<and> lan \<noteq> Some [] \<longrightarrow> parse_cidr lan \<noteq> None"
    using assms(2) by (auto simp: fourvia6_set_config_def Let_def prod_eq_iff t_def split: if_splits)
  have g: "np_open_ro api h' = ESP_OK" "np_get_u8 api h' ''ts_4v6_en'' = Inr (if en then 1 else 0)"
    "np_get_str api h' ''ts_4v6_lan'' = Inr t" "np_get_u16 api h' ''ts_4v6_site'' = Inr site" "np_alloc api"
    using set_u8_lawful [OF assms(1) w(1)] set_str_lawful [OF assms(1) w(2)] set_u16_lawful [OF assms(1) w(3)] assms(1)
    by (simp_all add: np_lawful_def)
  have p: "parse_cidr (Some t) = parse_cidr lan" using lan by (auto simp: t_def parse_cidr_def split: option.splits)
  then show ?thesis
    using s' en g by (auto simp: fourvia6_init_def nvs_param_get_str_def nvs_param_get_def split: option.splits)
qed

theorem fourvia6_config_persists_witness:
  "let r = fourvia6_set_config map_params (Map.empty, Map.empty, Map.empty) demo_via True (Some ''10.1.2.3/16'') 7
   in fst r = ESP_OK \<and> via_enabled (fourvia6_init map_params (fst (snd r)) demo_via)
      \<and> via_network (fourvia6_init map_params (fst (snd r)) demo_via) = 0x0A010000"
proof -
  have p: "parse_cidr (Some ''10.1.2.3/16'') = Some (0x0A010000, 16)"
    by (simp add: parse_cidr_def scan_u_def strtoul_def scan_char_def is_space_def is_digit_def via_mask_def)
  define r where "r = fourvia6_set_config map_params (Map.empty, Map.empty, Map.empty) demo_via True (Some ''10.1.2.3/16'') 7"
  have "fst r = ESP_OK"
    by (simp add: r_def fourvia6_set_config_def p nvs_param_set_def nvs_param_set_str_def nvs_param_write_def map_params_def Let_def)
  then have "fourvia6_set_config map_params (Map.empty, Map.empty, Map.empty) demo_via True (Some ''10.1.2.3/16'') 7
      = (ESP_OK, fst (snd r), snd (snd r))" unfolding r_def [symmetric] by (cases r) simp
  from fourvia6_config_persists [OF map_params_lawful this, of demo_via] \<open>fst r = ESP_OK\<close>
  have "via_enabled (fourvia6_init map_params (fst (snd r)) demo_via)"
    "via_network (fourvia6_init map_params (fst (snd r)) demo_via) = 0x0A010000" unfolding p Let_def by simp_all
  with \<open>fst r = ESP_OK\<close> show ?thesis unfolding r_def [symmetric] Let_def by blast
qed

end
