(* ===== verification/Dns_Cache.thy ===== *)
theory Dns_Cache
  imports Dhcp_Msg Packet_Edit
begin

text \<open>
  The DNS relay's packet helpers and response cache (\<open>components/dns_relay/dns_relay.c\<close>).  A datagram
  is the list of its bytes; \<open>None\<close> is a read outside of it.  The worker's receive buffer keeps its
  size and the bytes of earlier responses, so \<open>dns_resp_ttl\<close> gets the buffer and the length of the
  response.  The cache is the list of its slots; an entry holds the question and the response it
  was stored with, and the clock is an argument.
\<close>

definition DNS_RELAY_BUF_SIZE :: nat where "DNS_RELAY_BUF_SIZE = 1024"
definition DNS_CACHE_ENTRIES :: nat where "DNS_CACHE_ENTRIES = 256"
definition DNS_CACHE_KEY_MAX :: nat where "DNS_CACHE_KEY_MAX = 256"
definition DNS_CACHE_TTL_MIN_S :: u32 where "DNS_CACHE_TTL_MIN_S = 10"
definition DNS_CACHE_TTL_MAX_S :: u32 where "DNS_CACHE_TTL_MAX_S = 3600"
definition DNS_CACHE_TTL_NEG_S :: u32 where "DNS_CACHE_TTL_NEG_S = 15"

lemmas dns_consts = DNS_RELAY_BUF_SIZE_def DNS_CACHE_ENTRIES_def DNS_CACHE_KEY_MAX_def

section \<open>Packet helpers\<close>

text \<open>The end of the name at \<open>i\<close>, type and class included; the inner \<open>None\<close> is a compression pointer.\<close>

function question_end :: "bytes \<Rightarrow> nat \<Rightarrow> nat option option" where
  "question_end p i =
     (if i < length p
      then do {
        c \<leftarrow> rd8 p i;
        if c = 0 then Some (Some (i + 1 + 4))
        else if c AND 0xC0 \<noteq> 0 then Some None
        else question_end p (i + 1 + unat c) }
      else Some (Some i))"
  by auto
termination by (relation "measure (\<lambda>(p, i). length p - i)") auto

declare question_end.simps [simp del]

definition dns_question_len :: "bytes \<Rightarrow> nat option" where
  "dns_question_len p =
     (if length p < 12 + 5 then Some 0
      else do {
        r \<leftarrow> question_end p 12;
        (case r of None \<Rightarrow> Some 0
         | Some i \<Rightarrow> if length p < i then Some 0
             else Some (if 5 \<le> i - 12 \<and> i - 12 \<le> DNS_CACHE_KEY_MAX then i - 12 else 0)) })"

definition dns_is_std_query :: "bytes \<Rightarrow> bool option" where
  "dns_is_std_query p =
     (if length p < 12 then Some False
      else do {
        flags \<leftarrow> rd8 p 2;
        if flags AND 0x80 \<noteq> 0 then Some False
        else if drop_bit 3 flags AND 0x0F \<noteq> 0 then Some False
        else do { n \<leftarrow> be16 p 4; Some (n = 1) } })"

text \<open>The owner name of an answer without compression: the index of its end.\<close>

function skip_labels :: "bytes \<Rightarrow> nat \<Rightarrow> nat \<Rightarrow> nat option" where
  "skip_labels p len i =
     (if i < len then do { c \<leftarrow> rd8 p i; if c = 0 then Some i else skip_labels p len (i + 1 + unat c) }
      else Some i)"
  by auto
termination by (relation "measure (\<lambda>(p, len, i). len - i)") auto

declare skip_labels.simps [simp del]

text \<open>The smallest time to live of \<open>n\<close> answers; the inner \<open>None\<close> is a response that ends early.\<close>

fun answers_ttl :: "bytes \<Rightarrow> nat \<Rightarrow> nat \<Rightarrow> nat \<Rightarrow> u32 \<Rightarrow> u32 option option" where
  "answers_ttl p len 0 i m = Some (Some m)"
| "answers_ttl p len (Suc n) i m =
     (if len < i + 1 then Some None
      else do {
        c \<leftarrow> rd8 p i;
        j \<leftarrow> (if c AND 0xC0 = 0xC0 then Some (i + 2) else map_option Suc (skip_labels p len i));
        if len < j + 10 then Some None
        else do {
          ttl \<leftarrow> be32 p (j + 4); rdlen \<leftarrow> be16 p (j + 8);
          answers_ttl p len n (j + 10 + unat rdlen) (min ttl m) } })"

definition dns_resp_ttl :: "bytes \<Rightarrow> nat \<Rightarrow> nat \<Rightarrow> u32 option" where
  "dns_resp_ttl p len qlen =
     do {
       rcode \<leftarrow> map_option (\<lambda>b. b AND 0x0F) (rd8 p 3);
       if rcode \<noteq> 0 \<and> rcode \<noteq> 3 then Some 0
       else do {
         an \<leftarrow> be16 p 6;
         if an = 0 then Some DNS_CACHE_TTL_NEG_S
         else do {
           r \<leftarrow> answers_ttl p len (unat an) (12 + qlen) 0xFFFFFFFF;
           (case r of None \<Rightarrow> Some DNS_CACHE_TTL_NEG_S
            | Some m \<Rightarrow> Some (if m = 0xFFFFFFFF then DNS_CACHE_TTL_NEG_S
                else min (max m DNS_CACHE_TTL_MIN_S) DNS_CACHE_TTL_MAX_S)) } } }"

definition fnv1a :: "bytes \<Rightarrow> u32" where
  "fnv1a d = fold (\<lambda>b h. (h XOR ucast b) * 16777619) d 2166136261"

section \<open>The cache\<close>

record dns_entry =
  ce_expiry :: int
  ce_key :: bytes
  ce_resp :: bytes

definition empty_entry :: dns_entry where "empty_entry = \<lparr>ce_expiry = 0, ce_key = [], ce_resp = []\<rparr>"

definition dns_slot :: "bytes \<Rightarrow> nat" where "dns_slot key = unat (fnv1a key) mod DNS_CACHE_ENTRIES"

text \<open>The response stored for the question of \<open>q\<close>, with the transaction id of \<open>q\<close>.\<close>

definition cache_get :: "dns_entry list option \<Rightarrow> int \<Rightarrow> bytes \<Rightarrow> nat \<Rightarrow> bytes option option" where
  "cache_get cache now q key_len =
     (case cache of None \<Rightarrow> Some None
      | Some es \<Rightarrow> do {
          key \<leftarrow> rdn q 12 key_len;
          let e = es ! dns_slot key;
          if ce_expiry e \<noteq> 0 \<and> length (ce_key e) = key_len \<and> now < ce_expiry e \<and> ce_key e = key
          then do { a \<leftarrow> rd8 q 0; b \<leftarrow> rd8 q 1; Some (Some ((ce_resp e)[0 := a, 1 := b])) }
          else Some None })"

text \<open>The cache and the increments of the counters of insertions and evictions.\<close>

definition cache_put ::
  "dns_entry list option \<Rightarrow> int \<Rightarrow> bytes \<Rightarrow> nat \<Rightarrow> bytes \<Rightarrow> u32 \<Rightarrow> (dns_entry list option \<times> u32 \<times> u32) option" where
  "cache_put cache now q key_len resp ttl_s =
     (case cache of None \<Rightarrow> Some (None, 0, 0)
      | Some es \<Rightarrow>
          if key_len = 0 \<or> DNS_CACHE_KEY_MAX < key_len then Some (cache, 0, 0)
          else if resp = [] \<or> DNS_RELAY_BUF_SIZE < length resp then Some (cache, 0, 0)
          else do {
            key \<leftarrow> rdn q 12 key_len;
            let e = es ! dns_slot key;
            let was_other = (ce_expiry e \<noteq> 0 \<and> ce_key e \<noteq> key);
            Some (Some (es[dns_slot key := \<lparr>ce_expiry = now + int (unat ttl_s) * 1000000, ce_key = key, ce_resp = resp\<rparr>]),
              1, if was_other then 1 else 0) })"

section \<open>Questions\<close>

definition dns_label :: "bytes \<Rightarrow> bool" where "dns_label l \<longleftrightarrow> 0 < length l \<and> length l \<le> 63"

definition dns_labels :: "bytes list \<Rightarrow> bytes" where
  "dns_labels ls = concat (map (\<lambda>l. of_nat (length l) # l) ls)"

lemma dns_labels_simps [simp]:
  "dns_labels [] = []" "dns_labels (l # ls) = of_nat (length l) # l @ dns_labels ls"
  by (simp_all add: dns_labels_def)

lemma label_byte:
  fixes c :: u8
  shows "c AND 0xC0 = 0 \<longleftrightarrow> unat c \<le> 63"
proof -
  have "c AND 0xC0 = 0 \<longleftrightarrow> drop_bit 6 c = 0"
  proof
    assume a: "c AND 0xC0 = 0"
    show "drop_bit 6 c = 0"
    proof (rule bit_word_eqI)
      fix n assume n: "n < LENGTH(8)"
      have "bit (c AND 0xC0) (6 + n) = (bit c (6 + n) \<and> n < 2)" if "n < 2"
      proof -
        from that have "n = 0 \<or> n = 1" by linarith
        then show ?thesis by (auto simp: bit_simps)
      qed
      then show "bit (drop_bit 6 c) n = bit 0 n"
        using a n by (cases "n < 2") (auto simp: bit_simps dest: bit_imp_le_length)
    qed
  next
    assume "drop_bit 6 c = 0"
    then have "bit (drop_bit 6 c) 0 = False" "bit (drop_bit 6 c) 1 = False" by simp_all
    then have "\<not> bit c 6" "\<not> bit c 7" by (simp_all add: bit_drop_bit_eq)
    then show "c AND 0xC0 = 0"
      by (intro bit_word_eqI) (auto simp: bit_simps less_Suc_eq numeral_eq_Suc)
  qed
  also have "\<dots> \<longleftrightarrow> unat c \<le> 63"
  proof -
    have "unat (drop_bit 6 c) = unat c div 64" by (simp only: unat_drop_bit_eq) (simp add: drop_bit_eq_div)
    then have "drop_bit 6 c = 0 \<longleftrightarrow> unat c div 64 = 0" by (metis unat_eq_0)
    then show ?thesis by linarith
  qed
  finally show ?thesis .
qed

text \<open>A name ends with the root label, or the datagram ends with it.\<close>

definition name_at :: "bytes \<Rightarrow> nat \<Rightarrow> nat \<Rightarrow> bytes list \<Rightarrow> bool" where
  "name_at p i e ls \<longleftrightarrow> set ls \<subseteq> Collect dns_label \<and> i \<le> length p \<and> e \<le> length p \<and>
     (e = i + length (dns_labels ls) + 5 \<and> take (length (dns_labels ls) + 1) (drop i p) = dns_labels ls @ [0]
      \<or> e = length p \<and> drop i p = dns_labels ls)"

lemma name_at_Nil: "i < length p \<Longrightarrow> name_at p i e [] \<longleftrightarrow> p ! i = 0 \<and> e = i + 5 \<and> e \<le> length p"
  by (auto simp: name_at_def take_Suc_conv_app_nth)

lemma label_length: "dns_label l \<Longrightarrow> unat (of_nat (length l) :: u8) = length l"
  by (simp add: dns_label_def unat_of_nat)

lemma take_append_iff:
  "take (length l + n) d = l @ m \<longleftrightarrow> take (length l) d = l \<and> take n (drop (length l) d) = m"
  using append_eq_conv_conj [of l m "take (length l + n) d"] by (auto simp: drop_take min_def)

lemma name_at_Cons:
  assumes "i < length p"
  shows "name_at p i e (l # ls) \<longleftrightarrow>
    0 < unat (p ! i) \<and> unat (p ! i) \<le> 63 \<and> l = take (unat (p ! i)) (drop (i + 1) p) \<and> name_at p (i + 1 + unat (p ! i)) e ls"
proof -
  let ?c = "p ! i" and ?d = "drop (i + 1) p" and ?s = "dns_labels ls"
  have d: "drop i p = ?c # ?d" using assms by (simp add: Cons_nth_drop_Suc)
  have 1: "take (length (dns_labels (l # ls)) + 1) (drop i p) = dns_labels (l # ls) @ [0] \<longleftrightarrow>
      ?c = of_nat (length l) \<and> take (length l) ?d = l \<and> take (length ?s + 1) (drop (length l) ?d) = ?s @ [0]"
    using take_append_iff [of l "length ?s + 1" ?d "?s @ [0]"] by (auto simp: d)
  have 2: "drop i p = dns_labels (l # ls) \<longleftrightarrow>
      ?c = of_nat (length l) \<and> take (length l) ?d = l \<and> drop (length l) ?d = ?s"
  proof -
    have "?d = l @ ?s \<longleftrightarrow> take (length l) ?d = l \<and> drop (length l) ?d = ?s"
      using append_eq_conv_conj [of l ?s ?d] by metis
    then show ?thesis by (simp only: d dns_labels_simps list.inject append_Cons)
  qed
  have 3: "dns_label l \<and> ?c = of_nat (length l) \<and> take (length l) ?d = l \<longleftrightarrow>
      0 < unat ?c \<and> unat ?c \<le> 63 \<and> i + 1 + unat ?c \<le> length p \<and> l = take (unat ?c) ?d"
  proof -
    have "i + 1 + length l \<le> length p" if "take (length l) ?d = l"
    proof -
      have "min (length ?d) (length l) = length l" using arg_cong [OF that, of length] by simp
      then show ?thesis using assms by simp
    qed
    then show ?thesis using label_length [of l] assms by (auto simp: dns_label_def)
  qed
  show ?thesis
  proof (cases "0 < unat ?c \<and> unat ?c \<le> 63 \<and> i + 1 + unat ?c \<le> length p \<and> l = take (unat ?c) ?d")
    case True
    then have l: "length l = unat ?c" using assms by auto
    have "dns_label l \<and> ?c = of_nat (length l) \<and> take (length l) ?d = l" using 3 True by blast
    then show ?thesis
      unfolding name_at_def 1 2 using True assms l by (simp add: add.commute add.left_commute)
  next
    case False
    have "\<not> name_at p i e (l # ls)" using 3 False unfolding name_at_def 1 2 by auto
    moreover have "\<not> (0 < unat ?c \<and> unat ?c \<le> 63 \<and> l = take (unat ?c) ?d \<and> name_at p (i + 1 + unat ?c) e ls)"
      using False unfolding name_at_def by blast
    ultimately show ?thesis by blast
  qed
qed

lemma question_end_iff:
  "question_end p i = Some (Some e) \<and> e \<le> length p \<longleftrightarrow> (\<exists>ls. name_at p i e ls)"
proof (induction p i rule: question_end.induct)
  case (1 p i)
  show ?case
  proof (cases "i < length p")
    case False
    have "name_at p i e ls \<longleftrightarrow> i = length p \<and> e = i \<and> ls = []" for ls
      using False by (cases ls) (auto simp: name_at_def)
    then show ?thesis using False by (auto simp: question_end.simps)
  next
    case True
    have ex: "(\<exists>ls. name_at p i e ls) \<longleftrightarrow> name_at p i e [] \<or> (\<exists>l ls. name_at p i e (l # ls))" by (metis list.exhaust)
    have r: "rd8 p i = Some (p ! i)" using True by (simp add: byte_simps)
    consider "p ! i = 0" | "p ! i \<noteq> 0" "p ! i AND 0xC0 \<noteq> 0" | "p ! i \<noteq> 0" "p ! i AND 0xC0 = 0" by blast
    then show ?thesis
    proof cases
      case 3
      then have "0 < unat (p ! i)" "unat (p ! i) \<le> 63" using label_byte [of "p ! i"] by (auto simp: unat_gt_0)
      then show ?thesis
        using 1 [OF True r 3(1)] 3 True r unfolding ex by (simp add: question_end.simps [of p i] name_at_Nil name_at_Cons)
    qed (use True r label_byte [of "p ! i"] in \<open>auto simp: ex question_end.simps [of p i] name_at_Nil name_at_Cons\<close>)
  qed
qed

lemma question_end_total: "question_end p i \<noteq> None"
proof (induction p i rule: question_end.induct)
  case (1 p i)
  then show ?case by (cases "i < length p") (auto simp: question_end.simps [of p i] byte_simps simp del: not_None_eq)
qed

text \<open>
  The length the relay computes for the question of a datagram, the key of its cache, is positive
  exactly for a question of 5 to 256 bytes inside the datagram that consists of labels of 1 to 63
  bytes without compression and is closed by the root label and four bytes of type and class, or
  that is cut short just after a label (the comment promises 0 for that).
\<close>

theorem dns_question_len_grammar:
  "dns_question_len p = Some n \<and> 0 < n \<longleftrightarrow>
     5 \<le> n \<and> n \<le> DNS_CACHE_KEY_MAX \<and> 12 + n \<le> length p \<and> (\<exists>ls. name_at p 12 (12 + n) ls)"
proof -
  have "dns_question_len p = Some n \<and> 0 < n \<longleftrightarrow>
      17 \<le> length p \<and> question_end p 12 = Some (Some (12 + n)) \<and> 12 + n \<le> length p \<and> 5 \<le> n \<and> n \<le> DNS_CACHE_KEY_MAX"
    using question_end_total [of p 12]
    by (auto simp: dns_question_len_def split: option.splits if_splits)
  then show ?thesis using question_end_iff [of p 12 "12 + n"] by auto
qed

lemma dns_question_len_total: "\<exists>n. dns_question_len p = Some n"
  using question_end_total [of p 12] by (auto simp: dns_question_len_def split: option.split)

lemma dns_question_len_bounds:
  assumes "dns_question_len p = Some n" and "0 < n"
  shows "12 + n \<le> length p" "n \<le> 256"
  using assms by (auto simp: dns_question_len_def dns_consts split: if_splits option.splits Option.bind_splits)

lemma dns_is_std_query_total: "\<exists>v. dns_is_std_query p = Some v"
  by (auto simp: dns_is_std_query_def byte_simps)

section \<open>Times to live\<close>

lemma skip_labels_total: "len \<le> length p \<Longrightarrow> \<exists>j. skip_labels p len i = Some j"
proof (induction p len i rule: skip_labels.induct)
  case (1 p len i)
  then show ?case by (cases "i < len") (auto simp: skip_labels.simps [of p len i] byte_simps)
qed

lemma answers_ttl_total: "len \<le> length p \<Longrightarrow> \<exists>r. answers_ttl p len n i m = Some r"
proof (induction n arbitrary: i m)
  case (Suc n)
  show ?case
  proof (cases "i < len")
    case True
    then have c: "rd8 p i = Some (p ! i)" using Suc.prems by (simp add: byte_simps)
    obtain j0 where j0: "skip_labels p len i = Some j0" using skip_labels_total Suc.prems by blast
    define j where "j = (if p ! i AND 0xC0 = 0xC0 then i + 2 else Suc j0)"
    have j: "(if p ! i AND 0xC0 = 0xC0 then Some (i + 2) else map_option Suc (skip_labels p len i)) = Some j"
      by (simp add: j_def j0)
    show ?thesis
    proof (cases "len < j + 10")
      case False
      then have "be32 p (j + 4) = Some (mk32 (p ! (j + 4)) (p ! (j + 4 + 1)) (p ! (j + 4 + 2)) (p ! (j + 4 + 3)))"
        "be16 p (j + 8) = Some (mk16 (p ! (j + 8)) (p ! (j + 8 + 1)))"
        using Suc.prems by (simp_all add: be32_Some be16_Some)
      then show ?thesis using True c j False Suc by (simp del: map_option_eq_Some)
    qed (use True c j in \<open>simp del: map_option_eq_Some\<close>)
  qed simp
qed simp

lemma dns_resp_ttl_total:
  assumes "len \<le> length p" and "8 \<le> length p"
  shows "\<exists>t. dns_resp_ttl p len qlen = Some t"
proof -
  have r: "rd8 p 3 = Some (p ! 3)" "be16 p 6 = Some (mk16 (p ! 6) (p ! 7))" using assms by (simp_all add: byte_simps)
  obtain a where "answers_ttl p len (unat (mk16 (p ! 6) (p ! 7))) (12 + qlen) 0xFFFFFFFF = Some a"
    using answers_ttl_total [OF assms(1)] by blast
  then show ?thesis by (cases a) (simp_all add: dns_resp_ttl_def r)
qed

text \<open>
  The time a response is kept is computed without a read outside the receive buffer, whatever the
  response claims; it is 0 (not cached) exactly for the response codes other than NOERROR and
  NXDOMAIN, and otherwise between 10 seconds and one hour.
\<close>

theorem dns_resp_ttl_bounds:
  assumes "len \<le> length p" and "8 \<le> length p"
  shows "case dns_resp_ttl p len qlen of None \<Rightarrow> False
    | Some t \<Rightarrow> if p ! 3 AND 0x0F \<in> {0, 3} then 10 \<le> t \<and> t \<le> 3600 else t = 0"
proof -
  have r: "rd8 p 3 = Some (p ! 3)" "be16 p 6 = Some (mk16 (p ! 6) (p ! 7))" using assms by (simp_all add: byte_simps)
  obtain a where a: "answers_ttl p len (unat (mk16 (p ! 6) (p ! 7))) (12 + qlen) 0xFFFFFFFF = Some a"
    using answers_ttl_total [OF assms(1)] by blast
  have "10 \<le> min (max m DNS_CACHE_TTL_MIN_S) DNS_CACHE_TTL_MAX_S \<and> min (max m DNS_CACHE_TTL_MIN_S) DNS_CACHE_TTL_MAX_S \<le> 3600" for m
    by (simp add: DNS_CACHE_TTL_MIN_S_def DNS_CACHE_TTL_MAX_S_def)
  then show ?thesis
    by (cases a) (auto simp: dns_resp_ttl_def r a DNS_CACHE_TTL_NEG_S_def)
qed

theorem dns_resp_ttl_bounds_witness:
  "case dns_resp_ttl (replicate 1024 (0 :: u8)) 12 5 of None \<Rightarrow> False
    | Some t \<Rightarrow> if (replicate 1024 (0 :: u8)) ! 3 AND 0x0F \<in> {0, 3} then 10 \<le> t \<and> t \<le> 3600 else t = 0"
  by (rule dns_resp_ttl_bounds) simp_all

text \<open>An answer with a compressed owner name: six bytes of owner, type and class, then TTL and data.\<close>

definition dns_rr :: "bytes \<times> u32 \<times> bytes \<Rightarrow> bytes" where
  "dns_rr = (\<lambda>(h, ttl, d). h @ [byte3 ttl, byte2 ttl, byte1 ttl, byte0 ttl, of_nat (length d div 256), of_nat (length d)] @ d)"

definition rr_ok :: "bytes \<times> u32 \<times> bytes \<Rightarrow> bool" where
  "rr_ok = (\<lambda>(h, ttl, d). length h = 6 \<and> h ! 0 AND 0xC0 = 0xC0 \<and> length d < 65536)"

lemma nth_shift: "drop i p = x @ y \<Longrightarrow> k < length x \<Longrightarrow> i \<le> length p \<Longrightarrow> p ! (i + k) = x ! k"
  by (metis nth_append nth_drop)

lemma answers_ttl_rrs:
  "drop i p = concat (map dns_rr rrs) @ rest \<Longrightarrow> set rrs \<subseteq> Collect rr_ok \<Longrightarrow> i \<le> length p \<Longrightarrow>
   len = i + length (concat (map dns_rr rrs)) \<Longrightarrow>
   answers_ttl p len (length rrs) i m = Some (Some (fold min (map (fst \<circ> snd) rrs) m))"
proof (induction rrs arbitrary: i m)
  case (Cons rr rrs)
  obtain h ttl d where rr: "rr = (h, ttl, d)" by (cases rr) auto
  have h: "length h = 6" "h ! 0 AND 0xC0 = 0xC0" "length d < 65536" using Cons.prems(2) by (auto simp: rr rr_ok_def)
  have d: "drop i p = dns_rr rr @ (concat (map dns_rr rrs) @ rest)" using Cons.prems(1) by simp
  have l: "length (dns_rr rr) = 12 + length d" using h by (simp add: rr dns_rr_def)
  have len: "i + (12 + length d) \<le> len" "len \<le> length p"
    using Cons.prems(3,4) l arg_cong [OF d, of length] by auto
  have n: "p ! (i + k) = dns_rr rr ! k" if "k < 12" for k using nth_shift [OF d] that l Cons.prems(3) by simp
  have f: "dns_rr rr ! 0 = h ! 0" "dns_rr rr ! 6 = byte3 ttl" "dns_rr rr ! 7 = byte2 ttl" "dns_rr rr ! 8 = byte1 ttl"
    "dns_rr rr ! 9 = byte0 ttl" "dns_rr rr ! 10 = of_nat (length d div 256)" "dns_rr rr ! 11 = of_nat (length d)"
    using h(1) by (simp_all add: rr dns_rr_def nth_append)
  have "rd8 p i = Some (h ! 0)" using n [of 0] len by (auto simp: rd8_def f)
  moreover have "be32 p (i + 2 + 4) = Some ttl"
    using n [of 6] n [of 7] n [of 8] n [of 9] len by (subst be32_Some) (simp_all add: f add.commute)
  moreover have "be16 p (i + 2 + 8) = Some (mk16 (of_nat (length d div 256)) (of_nat (length d)))"
    using n [of 10] n [of 11] len by (subst be16_Some) (simp_all add: f add.commute)
  moreover have "unat (mk16 (of_nat (length d div 256)) (of_nat (length d))) = length d"
    using h(3) by (simp add: unat_mk16 unat_of_nat)
  moreover have "answers_ttl p len (length rrs) (i + (12 + length d)) (min ttl m) = Some (Some (fold min (map (fst \<circ> snd) rrs) (min ttl m)))"
  proof (rule Cons.IH)
    show "drop (i + (12 + length d)) p = concat (map dns_rr rrs) @ rest"
      using d l by (metis append_eq_conv_conj drop_drop add.commute)
    show "len = i + (12 + length d) + length (concat (map dns_rr rrs))" using Cons.prems(4) l by simp
  qed (use Cons.prems len in auto)
  moreover have "\<not> len < i + 1" "\<not> len < i + 2 + 10" using len by simp_all
  ultimately show ?case using h by (simp add: rr min.commute add.assoc add.left_commute comp_def)
qed simp

text \<open>
  For a NOERROR or NXDOMAIN response whose answers are compressed, the time to live used is the
  least one of its answers, brought into the range of 10 seconds to one hour, whatever bytes of an
  earlier response follow in the buffer.
\<close>

theorem dns_resp_ttl_least:
  assumes "p = hdr @ question @ concat (map dns_rr rrs) @ stale" and "length hdr = 12"
    and "hdr ! 3 AND 0x0F \<in> {0, 3}" and "unat (mk16 (hdr ! 6) (hdr ! 7)) = length rrs" and "rrs \<noteq> []"
    and "set rrs \<subseteq> Collect rr_ok" and "fold min (map (fst \<circ> snd) rrs) 0xFFFFFFFF \<noteq> 0xFFFFFFFF"
  shows "dns_resp_ttl p (12 + length question + length (concat (map dns_rr rrs))) (length question)
    = Some (min (max (fold min (map (fst \<circ> snd) rrs) 0xFFFFFFFF) 10) 3600)"
proof -
  have r: "rd8 p 3 = Some (hdr ! 3)" "be16 p 6 = Some (mk16 (hdr ! 6) (hdr ! 7))"
    using assms(1,2) by (simp_all add: byte_simps nth_append)
  have "mk16 (hdr ! 6) (hdr ! 7) \<noteq> 0" using assms(4,5) by (metis length_0_conv unat_0)
  moreover have "drop (12 + length question) p = concat (map dns_rr rrs) @ stale" "12 + length question \<le> length p"
    using assms(1,2) by simp_all
  note answers_ttl_rrs [OF this(1) assms(6) this(2) refl, of "0xFFFFFFFF"]
  ultimately show ?thesis
    using assms(3,7) by (auto simp: dns_resp_ttl_def r assms(4) DNS_CACHE_TTL_MIN_S_def DNS_CACHE_TTL_MAX_S_def)
qed

text \<open>
  A name that begins with a label and ends with a compression pointer is read as if the pointer were
  a label of at least 192 bytes: the time to live comes from somewhere else, here (with the answer's
  own TTL 300) the response counts as one that ends early.
\<close>

lemma dns_resp_ttl_mixed_name:
  "dns_resp_ttl ([0, 0, 0x81, 0x80, 0, 1, 0, 1, 0, 0, 0, 0] @ [1, 97, 0, 0, 1, 0, 1] @
      [3, 119, 119, 119, 0xC0, 12, 0, 1, 0, 1, 0, 0, 1, 44, 0, 4, 1, 2, 3, 4]) 39 7 = Some 15"
  by code_simp

section \<open>What the cache answers\<close>

text \<open>The history of a cache: time, query, length of its question, response and time to live.\<close>

type_synonym dns_store = "int \<times> bytes \<times> nat \<times> bytes \<times> u32"

definition store_key :: "dns_store \<Rightarrow> bytes" where "store_key = (\<lambda>(t, q, kl, r, ttl). take kl (drop 12 q))"

definition store_ok :: "dns_store \<Rightarrow> bool" where
  "store_ok = (\<lambda>(t, q, kl, r, ttl). 0 \<le> t \<and> 0 < kl \<and> kl \<le> DNS_CACHE_KEY_MAX \<and> 12 + kl \<le> length q \<and>
     r \<noteq> [] \<and> length r \<le> DNS_RELAY_BUF_SIZE \<and> 0 < ttl)"

definition store_one :: "dns_store \<Rightarrow> dns_entry list option option \<Rightarrow> dns_entry list option option" where
  "store_one = (\<lambda>(t, q, kl, r, ttl) c. Option.bind c (\<lambda>c. map_option fst (cache_put c t q kl r ttl)))"

definition store_all :: "dns_store list \<Rightarrow> dns_entry list option option" where
  "store_all hs = fold store_one hs (Some (Some (replicate DNS_CACHE_ENTRIES empty_entry)))"

text \<open>The last response stored in the slot of a key, if it is for this key and has not expired.\<close>

definition answer_of :: "dns_store list \<Rightarrow> int \<Rightarrow> bytes \<Rightarrow> bytes option" where
  "answer_of hs now key =
     (case find (\<lambda>h. dns_slot (store_key h) = dns_slot key) (rev hs) of
        None \<Rightarrow> None
      | Some (t, q, kl, r, ttl) \<Rightarrow>
          if take kl (drop 12 q) = key \<and> now < t + int (unat ttl) * 1000000 then Some r else None)"

lemma dns_slot_less: "dns_slot k < DNS_CACHE_ENTRIES"
  by (simp add: dns_slot_def dns_consts)

lemma cache_put_stores:
  assumes "store_ok (t, q, kl, r, ttl)"
  shows "\<exists>a b. cache_put (Some es) t q kl r ttl =
    Some (Some (es[dns_slot (take kl (drop 12 q)) := \<lparr>ce_expiry = t + int (unat ttl) * 1000000, ce_key = take kl (drop 12 q), ce_resp = r\<rparr>]), a, b)"
  using assms by (auto simp: store_ok_def cache_put_def rdn_def Let_def)

text \<open>The slots hold what was stored in them last.\<close>

lemma store_all_slots:
  assumes "set hs \<subseteq> Collect store_ok"
  shows "\<exists>es. store_all hs = Some (Some es) \<and> length es = DNS_CACHE_ENTRIES \<and>
    (\<forall>i < DNS_CACHE_ENTRIES. case find (\<lambda>h. dns_slot (store_key h) = i) (rev hs) of
        None \<Rightarrow> es ! i = empty_entry
      | Some (t, q, kl, r, ttl) \<Rightarrow> es ! i = \<lparr>ce_expiry = t + int (unat ttl) * 1000000, ce_key = take kl (drop 12 q), ce_resp = r\<rparr>
          \<and> store_ok (t, q, kl, r, ttl))"
  using assms
proof (induction hs rule: rev_induct)
  case Nil
  then show ?case by (simp add: store_all_def)
next
  case (snoc h hs)
  obtain t q kl r ttl where h: "h = (t, q, kl, r, ttl)" by (cases h) auto
  from snoc obtain es where es: "store_all hs = Some (Some es)" "length es = DNS_CACHE_ENTRIES"
    "\<forall>i < DNS_CACHE_ENTRIES. case find (\<lambda>h. dns_slot (store_key h) = i) (rev hs) of
        None \<Rightarrow> es ! i = empty_entry
      | Some (t, q, kl, r, ttl) \<Rightarrow> es ! i = \<lparr>ce_expiry = t + int (unat ttl) * 1000000, ce_key = take kl (drop 12 q), ce_resp = r\<rparr>
          \<and> store_ok (t, q, kl, r, ttl)" by auto
  let ?e = "\<lparr>ce_expiry = t + int (unat ttl) * 1000000, ce_key = take kl (drop 12 q), ce_resp = r\<rparr>"
  let ?i = "dns_slot (take kl (drop 12 q))"
  have ok: "store_ok (t, q, kl, r, ttl)" using snoc.prems h by auto
  have key: "store_key (t, q, kl, r, ttl) = take kl (drop 12 q)" by (simp add: store_key_def)
  obtain a b where "cache_put (Some es) t q kl r ttl = Some (Some (es[?i := ?e]), a, b)" using cache_put_stores [OF ok] by blast
  then have "store_all (hs @ [h]) = Some (Some (es[?i := ?e]))"
    using es(1) by (simp add: store_all_def store_one_def h)
  moreover have "case find (\<lambda>h. dns_slot (store_key h) = i) (rev (hs @ [h])) of
        None \<Rightarrow> es[?i := ?e] ! i = empty_entry
      | Some (t, q, kl, r, ttl) \<Rightarrow> es[?i := ?e] ! i = \<lparr>ce_expiry = t + int (unat ttl) * 1000000, ce_key = take kl (drop 12 q), ce_resp = r\<rparr>
          \<and> store_ok (t, q, kl, r, ttl)" if "i < DNS_CACHE_ENTRIES" for i
    proof (cases "?i = i")
    case True
    then show ?thesis using es(2) ok that key by (simp add: h)
  next
    case False
    then have "es[?i := ?e] ! i = es ! i" "find (\<lambda>h. dns_slot (store_key h) = i) (rev (hs @ [h])) = find (\<lambda>h. dns_slot (store_key h) = i) (rev hs)"
      using key by (simp_all add: h)
    then show ?thesis using es(3) that by presburger
  qed
  moreover have "length (es[?i := ?e]) = DNS_CACHE_ENTRIES" using es(2) by simp
  ultimately show ?case by blast
qed

text \<open>
  C33: Whatever responses were stored before, the cache answers a query with the response stored last
  in the slot of its question, under the transaction id of the query, when that response was stored
  for the same question byte for byte and has not expired, and with nothing otherwise; it never
  reads outside the query.
\<close>

theorem dns_cache_answers:
  assumes "set hs \<subseteq> Collect store_ok" and "0 < kl" and "12 + kl \<le> length q"
  shows "store_all hs \<bind> (\<lambda>c. cache_get c now q kl) =
    Some (map_option (\<lambda>r. r[0 := q ! 0, 1 := q ! 1]) (answer_of hs now (take kl (drop 12 q))))"
proof -
  let ?key = "take kl (drop 12 q)"
  have k: "rdn q 12 kl = Some ?key" "rd8 q 0 = Some (q ! 0)" "rd8 q 1 = Some (q ! 1)" "length ?key = kl"
    using assms(2,3) by (auto simp: rdn_def rd8_def)
  obtain es where es: "store_all hs = Some (Some es)"
    "case find (\<lambda>h. dns_slot (store_key h) = dns_slot ?key) (rev hs) of
        None \<Rightarrow> es ! dns_slot ?key = empty_entry
      | Some (t, q, kl, r, ttl) \<Rightarrow> es ! dns_slot ?key = \<lparr>ce_expiry = t + int (unat ttl) * 1000000, ce_key = take kl (drop 12 q), ce_resp = r\<rparr>
          \<and> store_ok (t, q, kl, r, ttl)" using store_all_slots [OF assms(1)] dns_slot_less by blast
  show ?thesis
  proof (cases "find (\<lambda>h. dns_slot (store_key h) = dns_slot ?key) (rev hs)")
    case None
    then show ?thesis using es by (simp add: cache_get_def k answer_of_def empty_entry_def)
  next
    case (Some h)
    obtain t q' kl' r ttl where h: "h = (t, q', kl', r, ttl)" by (cases h) auto
    have e: "es ! dns_slot ?key = \<lparr>ce_expiry = t + int (unat ttl) * 1000000, ce_key = take kl' (drop 12 q'), ce_resp = r\<rparr>"
      and ok: "store_ok (t, q', kl', r, ttl)" using es(2) Some h by auto
    have "0 < unat ttl" "0 \<le> t" using ok by (auto simp: store_ok_def unat_gt_0)
    then have "t + int (unat ttl) * 1000000 \<noteq> 0" by linarith
    moreover have "take kl' (drop 12 q') = ?key \<Longrightarrow> length (take kl' (drop 12 q')) = kl" using k(4) by simp
    ultimately show ?thesis using es(1) k(1-3) Some
      by (cases "take kl' (drop 12 q') = ?key \<and> now < t + int (unat ttl) * 1000000")
        (auto simp: cache_get_def answer_of_def h e Let_def simp del: length_take)
  qed
qed

text \<open>A demonstration: the question for a name of one letter.\<close>

definition demo_dns_query :: bytes where
  "demo_dns_query = [7, 8, 1, 0, 0, 1, 0, 0, 0, 0, 0, 0, 1, 97, 0, 0, 1, 0, 1]"

definition demo_dns_reply :: bytes where
  "demo_dns_reply = [1, 2, 0x81, 0x80, 0, 1, 0, 1, 0, 0, 0, 0, 1, 97, 0, 0, 1, 0, 1] @ [0xC0, 12, 0, 1, 0, 1, 0, 0, 1, 44, 0, 4, 9, 9, 9, 9]"

theorem dns_cache_answers_witness:
  "store_all [(0, [1, 2] @ drop 2 demo_dns_query, 7, demo_dns_reply, 300)] \<bind> (\<lambda>c. cache_get c 5 demo_dns_query 7) =
    Some (Some ([7, 8] @ drop 2 demo_dns_reply))"
proof -
  let ?h = "(0, [1, 2] @ drop 2 demo_dns_query, 7, demo_dns_reply, 300) :: dns_store"
  have "set [?h] \<subseteq> Collect store_ok" "0 < (7 :: nat)" "12 + 7 \<le> length demo_dns_query"
    by (simp_all add: store_ok_def demo_dns_query_def demo_dns_reply_def dns_consts)
  note dns_cache_answers [OF this, of 5]
  moreover have "answer_of [?h] 5 (take 7 (drop 12 demo_dns_query)) = Some demo_dns_reply"
    by (simp add: answer_of_def store_key_def demo_dns_query_def)
  moreover have "demo_dns_reply[0 := demo_dns_query ! 0, 1 := demo_dns_query ! 1] = [7, 8] @ drop 2 demo_dns_reply"
    by (simp add: demo_dns_query_def demo_dns_reply_def)
  ultimately show ?thesis by simp
qed

theorem dns_resp_ttl_least_witness:
  "dns_resp_ttl (demo_dns_reply @ [0, 0, 0, 0]) (12 + 7 + 16) (length ([1, 97, 0, 0, 1, 0, 1] :: bytes)) = Some 300"
proof -
  let ?hdr = "[1, 2, 0x81, 0x80, 0, 1, 0, 1, 0, 0, 0, 0] :: bytes" and ?q = "[1, 97, 0, 0, 1, 0, 1] :: bytes"
  let ?rrs = "[([0xC0, 12, 0, 1, 0, 1], 300, [9, 9, 9, 9])] :: (bytes \<times> u32 \<times> bytes) list"
  have rr: "dns_rr ([0xC0, 12, 0, 1, 0, 1], 300, [9, 9, 9, 9]) = [0xC0, 12, 0, 1, 0, 1, 0, 0, 1, 44, 0, 4, 9, 9, 9, 9]"
    by (simp add: dns_rr_def byte3_def byte2_def byte1_def byte0_def)
  have ok: "rr_ok ([0xC0, 12, 0, 1, 0, 1], 300, [9, 9, 9, 9])" by (simp add: rr_ok_def)
  have "unat (mk16 0 1) = 1" by code_simp
  then show ?thesis
    using dns_resp_ttl_least [of "demo_dns_reply @ [0, 0, 0, 0]" ?hdr ?q ?rrs "[0, 0, 0, 0]"] ok
    by (simp add: rr demo_dns_reply_def)
qed

end
