(* ===== verification/Dns_Relay.thy ===== *)
theory Dns_Relay
  imports Dns_Cache Nvs_Params
begin

text \<open>
  The DNS relay (\<open>components/dns_relay/dns_relay.c\<close>): the listener, the workers, the settings and the
  statistics.  The sockets, the clock and the allocator belong to the environment, so every step
  takes what they return as an argument; what is sent is part of the result.  A pass of the
  listener's loop is one step, a worker's turn is two (a query is taken and sent upstream, then the
  response or the time-out arrives), so that steps of the others may come in between.
\<close>

definition DNS_WORKER_COUNT :: nat where "DNS_WORKER_COUNT = 2"
definition DNS_WORK_QUEUE_DEPTH :: nat where "DNS_WORK_QUEUE_DEPTH = 8"
definition DNS_RELAY_TX_RETRIES :: nat where "DNS_RELAY_TX_RETRIES = 4"

text \<open>Address and port of a client.\<close>

type_synonym client = "u32 \<times> u16"

record dns_worker =
  wk_sock :: bool
  wk_rbuf :: bytes
  wk_job :: "(client \<times> bytes) option"

record dns_state =
  dn_enabled :: bool
  dn_upstream :: u32
  dn_bind :: u32
  dn_dirty :: bool
  dn_healthy :: bool
  dn_sock :: bool
  dn_backoff :: nat
  dn_cache :: "dns_entry list option"
  dn_queue :: "(client \<times> bytes) list"
  dn_workers :: "dns_worker list"
  dn_queries :: u32
  dn_hits :: u32
  dn_misses :: u32
  dn_inserts :: u32
  dn_evictions :: u32

text \<open>A callback on the state of the relay, a query to the upstream resolver, a reply to a client.\<close>

datatype dns_output = Notify bool | Upstream u32 bytes | Reply client bytes

section \<open>The listener\<close>

text \<open>Opening and closing of the socket, and whether the pass goes on to receive.\<close>

definition listener_bind :: "dns_state \<Rightarrow> bool \<Rightarrow> dns_state \<times> dns_output list \<times> bool" where
  "listener_bind st bind_ok =
     (let want_listening = (dn_enabled st \<and> dn_bind st \<noteq> 0) in
      if want_listening \<and> (\<not> dn_sock st \<or> dn_dirty st)
      then (if \<not> bind_ok
            then (st\<lparr>dn_sock := False, dn_dirty := False, dn_healthy := False,
                     dn_backoff := (if dn_backoff st < 30000 then dn_backoff st * 2 else dn_backoff st)\<rparr>, [], False)
            else (st\<lparr>dn_dirty := False, dn_backoff := 2000, dn_sock := True, dn_healthy := True\<rparr>,
                  (if dn_healthy st then [] else [Notify True]), True))
      else if \<not> want_listening \<and> dn_sock st
      then (st\<lparr>dn_sock := False, dn_healthy := False\<rparr>, (if dn_healthy st then [Notify False] else []), False)
      else if \<not> dn_sock st then (st\<lparr>dn_healthy := False\<rparr>, [], False)
      else (st, [], True))"

text \<open>The key length of a datagram, 0 when it is not to be cached.\<close>

definition dns_key_len :: "bytes \<Rightarrow> nat option" where
  "dns_key_len q = do { std \<leftarrow> dns_is_std_query q; if std then dns_question_len q else Some 0 }"

definition listener_query :: "dns_state \<Rightarrow> int \<Rightarrow> bool \<Rightarrow> client \<Rightarrow> bytes \<Rightarrow> (dns_state \<times> dns_output list) option" where
  "listener_query st now alloc client q =
     (if q = [] then Some (st, [])
      else do {
        kl \<leftarrow> dns_key_len q;
        hit \<leftarrow> (if 0 < kl then cache_get (dn_cache st) now q kl else Some None);
        (case hit of
           Some r \<Rightarrow> Some (st\<lparr>dn_queries := dn_queries st + 1, dn_hits := dn_hits st + 1\<rparr>, [Reply client r])
         | None \<Rightarrow>
             (let st = st\<lparr>dn_queries := dn_queries st + 1, dn_misses := dn_misses st + 1\<rparr> in
              if \<not> alloc then Some (st, [])
              else if length (dn_queue st) < DNS_WORK_QUEUE_DEPTH
              then Some (st\<lparr>dn_queue := dn_queue st @ [(client, q)]\<rparr>, [])
              else Some (st, []))) })"

text \<open>One pass of the loop; \<open>recv\<close> is what \<open>recvfrom\<close> returns if it is reached, cut to the buffer.\<close>

definition listener_pass ::
  "dns_state \<Rightarrow> bool \<Rightarrow> (client \<times> bytes) option \<Rightarrow> int \<Rightarrow> bool \<Rightarrow> (dns_state \<times> dns_output list) option" where
  "listener_pass st bind_ok recv now alloc =
     (let b = listener_bind st bind_ok in
      if \<not> snd (snd b) then Some (fst b, fst (snd b))
      else case recv of
        None \<Rightarrow> Some (fst b, fst (snd b))
      | Some (client, q) \<Rightarrow>
          map_option (\<lambda>r. (fst r, fst (snd b) @ snd r)) (listener_query (fst b) now alloc client (take DNS_RELAY_BUF_SIZE q)))"

section \<open>The workers\<close>

text \<open>The operator's choice, else the resolver learned with the uplink's lease (0: none).\<close>

definition pick_upstream :: "dns_state \<Rightarrow> u32 option \<Rightarrow> u32" where
  "pick_upstream st sta_dns =
     (if dn_upstream st \<noteq> 0 then dn_upstream st
      else case sta_dns of Some a \<Rightarrow> if a \<noteq> 0 then a else 0 | None \<Rightarrow> 0)"

text \<open>\<open>Send_again\<close>: \<open>ENOMEM\<close>, \<open>EAGAIN\<close> or \<open>EWOULDBLOCK\<close>.\<close>

datatype send_result = Send_ok | Send_again | Send_error

fun send_attempts :: "nat \<Rightarrow> (nat \<Rightarrow> send_result) \<Rightarrow> nat \<Rightarrow> bool" where
  "send_attempts 0 res i = False"
| "send_attempts (Suc n) res i =
     (case res i of Send_ok \<Rightarrow> True | Send_again \<Rightarrow> send_attempts n res (i + 1) | Send_error \<Rightarrow> False)"

text \<open>A worker that is free takes the next query and sends it; \<open>socket_ok\<close> is the result of \<open>socket\<close>.\<close>

definition worker_take ::
  "dns_state \<Rightarrow> nat \<Rightarrow> bool \<Rightarrow> u32 option \<Rightarrow> (nat \<Rightarrow> send_result) \<Rightarrow> dns_state \<times> dns_output list" where
  "worker_take st i socket_ok sta_dns sends =
     (let w = dn_workers st ! i in
      case (wk_job w, dn_queue st) of
        (None, (client, q) # js) \<Rightarrow>
          (let st = st\<lparr>dn_queue := js\<rparr>; up = (wk_sock w \<or> socket_ok); upstream = pick_upstream st sta_dns in
           if \<not> up then (st, [])
           else if upstream = 0 then (st\<lparr>dn_workers := (dn_workers st)[i := w\<lparr>wk_sock := True\<rparr>]\<rparr>, [])
           else if \<not> send_attempts DNS_RELAY_TX_RETRIES sends 0
           then (st\<lparr>dn_workers := (dn_workers st)[i := w\<lparr>wk_sock := False\<rparr>]\<rparr>, [])
           else (st\<lparr>dn_workers := (dn_workers st)[i := w\<lparr>wk_sock := True, wk_job := Some (client, q)\<rparr>]\<rparr>, [Upstream upstream q]))
      | _ \<Rightarrow> (st, []))"

text \<open>A datagram (an empty one counts as nothing), or nothing: then whether \<open>errno\<close> is \<open>EAGAIN\<close> or \<open>EWOULDBLOCK\<close>, the time-out.\<close>

datatype udp_recv = Received bytes | No_data bool

definition worker_finish :: "dns_state \<Rightarrow> nat \<Rightarrow> udp_recv \<Rightarrow> int \<Rightarrow> (dns_state \<times> dns_output list) option" where
  "worker_finish st i recv now =
     (let w = dn_workers st ! i in
      case wk_job w of
        None \<Rightarrow> Some (st, [])
      | Some (client, q) \<Rightarrow>
          (case recv of
             No_data again \<Rightarrow>
               Some (st\<lparr>dn_workers := (dn_workers st)[i := w\<lparr>wk_job := None, wk_sock := again\<rparr>]\<rparr>, [])
           | Received d \<Rightarrow>
               (let r = take DNS_RELAY_BUF_SIZE d;
                    rbuf = r @ drop (length r) (wk_rbuf w);
                    st = st\<lparr>dn_workers := (dn_workers st)[i := w\<lparr>wk_job := None, wk_rbuf := rbuf\<rparr>]\<rparr>;
                    sent = (if dn_sock st then [Reply client r] else []) in
                if r = [] then Some (st, [])
                else do {
                  kl \<leftarrow> dns_key_len q;
                  if kl = 0 then Some (st, sent)
                  else do {
                    ttl \<leftarrow> dns_resp_ttl rbuf (length r) kl;
                    if ttl = 0 then Some (st, sent)
                    else do {
                      (c, inserts, evictions) \<leftarrow> cache_put (dn_cache st) now q kl r ttl;
                      Some (st\<lparr>dn_cache := c, dn_inserts := dn_inserts st + inserts,
                               dn_evictions := dn_evictions st + evictions\<rparr>, sent) } } })))"

section \<open>Settings\<close>

definition set_enabled_flag :: "dns_state \<Rightarrow> bool \<Rightarrow> dns_state" where
  "set_enabled_flag st on = (if dn_enabled st = on then st else st\<lparr>dn_enabled := on, dn_dirty := True\<rparr>)"

definition dns_relay_set_enabled :: "'h nvs_raw \<Rightarrow> 'h \<Rightarrow> dns_state \<Rightarrow> bool \<Rightarrow> 'h \<times> dns_state" where
  "dns_relay_set_enabled api h st on =
     (if dn_enabled st = on then (h, st)
      else (if np_open_rw api h = ESP_OK
            then snd (np_commit api (snd (np_set_u8 api h ''dns_relay_en'' (if on then 1 else 0)))) else h,
            set_enabled_flag st on))"

definition dns_relay_set_upstream :: "'h nvs_raw \<Rightarrow> 'h \<Rightarrow> dns_state \<Rightarrow> u32 \<Rightarrow> 'h \<times> dns_state" where
  "dns_relay_set_upstream api h st ip =
     (if np_open_rw api h = ESP_OK
      then snd (np_commit api (if ip = 0 then snd (np_erase_key api h ''dns_relay_up'')
                               else snd (np_set_str api h ''dns_relay_up'' (take 15 (ip4_str ip)))))
      else h, st\<lparr>dn_upstream := ip\<rparr>)"

definition dns_relay_set_bind_addr :: "dns_state \<Rightarrow> u32 \<Rightarrow> dns_state" where
  "dns_relay_set_bind_addr st ip = (if dn_bind st = ip then st else st\<lparr>dn_bind := ip, dn_dirty := True\<rparr>)"

text \<open>
  The first call of \<open>dns_relay_init\<close>; \<open>aton\<close> is \<open>ip4addr_aton\<close>, \<open>cache\<close> the cleared memory of the cache
  or \<open>None\<close>, and the workers start with the buffers they were given.
\<close>

definition dns_relay_init ::
  "(string \<Rightarrow> u32 option) \<Rightarrow> 'h nvs_raw \<Rightarrow> 'h \<Rightarrow> bool \<Rightarrow> bytes list \<Rightarrow> dns_state \<Rightarrow> dns_state" where
  "dns_relay_init aton api h cache_ok bufs st =
     (let en = (if np_open_ro api h \<noteq> ESP_OK then True
                else case np_get_u8 api h ''dns_relay_en'' of Inl _ \<Rightarrow> True | Inr v \<Rightarrow> v \<noteq> 0);
          up = (if np_open_ro api h \<noteq> ESP_OK then dn_upstream st
                else case np_get_str api h ''dns_relay_up'' of Inl _ \<Rightarrow> dn_upstream st
                | Inr v \<Rightarrow> if v = [] \<or> 20 \<le> length v then dn_upstream st
                    else case aton v of None \<Rightarrow> dn_upstream st | Some a \<Rightarrow> if a \<noteq> 0 then a else dn_upstream st)
      in st\<lparr>dn_enabled := en, dn_upstream := up, dn_backoff := 2000,
            dn_cache := (if cache_ok then Some (replicate DNS_CACHE_ENTRIES empty_entry) else None), dn_queue := [],
            dn_workers := map (\<lambda>b. \<lparr>wk_sock = False, wk_rbuf = b, wk_job = None\<rparr>) bufs\<rparr>)"

text \<open>The static state at reset.\<close>

definition dns_reset :: dns_state where
  "dns_reset = \<lparr>dn_enabled = False, dn_upstream = 0, dn_bind = 0, dn_dirty = False, dn_healthy = False, dn_sock = False,
     dn_backoff = 2000, dn_cache = None, dn_queue = [], dn_workers = [], dn_queries = 0, dn_hits = 0, dn_misses = 0,
     dn_inserts = 0, dn_evictions = 0\<rparr>"

text \<open>The size of a cache entry: 8 and 2 + 2 bytes, the key, the response, and the padding to a multiple of 8.\<close>

definition DNS_ENTRY_SIZE :: nat where "DNS_ENTRY_SIZE = 8 + 2 + 2 + DNS_CACHE_KEY_MAX + DNS_RELAY_BUF_SIZE + 4"

record dns_stats =
  ds_queries :: u32
  ds_hits :: u32
  ds_misses :: u32
  ds_inserts :: u32
  ds_evictions :: u32
  ds_entries :: u32
  ds_capacity :: u32
  ds_cache_bytes :: u32
  ds_hit_pct :: u32
  ds_enabled :: u8
  ds_healthy :: u8

definition dns_relay_get_stats :: "dns_state \<Rightarrow> int \<Rightarrow> dns_stats" where
  "dns_relay_get_stats st now =
     (let denom = dn_hits st + dn_misses st in
      \<lparr>ds_queries = dn_queries st, ds_hits = dn_hits st, ds_misses = dn_misses st, ds_inserts = dn_inserts st,
       ds_evictions = dn_evictions st,
       ds_entries = (case dn_cache st of None \<Rightarrow> 0 | Some es \<Rightarrow> of_nat (length (filter (\<lambda>e. now < ce_expiry e) es))),
       ds_capacity = of_nat DNS_CACHE_ENTRIES,
       ds_cache_bytes = (case dn_cache st of None \<Rightarrow> 0 | Some _ \<Rightarrow> of_nat (DNS_CACHE_ENTRIES * DNS_ENTRY_SIZE)),
       ds_hit_pct = (if denom \<noteq> 0 then of_nat ((unat (dn_hits st) * 100) div unat denom) else 0),
       ds_enabled = (if dn_enabled st then 1 else 0), ds_healthy = (if dn_healthy st then 1 else 0)\<rparr>)"

section \<open>Runs\<close>

datatype dns_event =
    Listen bool "(client \<times> bytes) option" int bool
  | Take nat bool "u32 option" "nat \<Rightarrow> send_result"
  | Finish nat udp_recv int
  | Set_enabled bool
  | Set_upstream u32
  | Set_bind u32

definition dns_step :: "dns_state \<Rightarrow> dns_event \<Rightarrow> (dns_state \<times> dns_output list) option" where
  "dns_step st e =
     (case e of
        Listen bind_ok recv now alloc \<Rightarrow> listener_pass st bind_ok recv now alloc
      | Take i socket_ok sta_dns sends \<Rightarrow>
          Some (if i < length (dn_workers st) then worker_take st i socket_ok sta_dns sends else (st, []))
      | Finish i recv now \<Rightarrow> if i < length (dn_workers st) then worker_finish st i recv now else Some (st, [])
      | Set_enabled on \<Rightarrow> Some (set_enabled_flag st on, [])
      | Set_upstream ip \<Rightarrow> Some (st\<lparr>dn_upstream := ip\<rparr>, [])
      | Set_bind ip \<Rightarrow> Some (dns_relay_set_bind_addr st ip, []))"

fun dns_run :: "dns_state \<Rightarrow> dns_event list \<Rightarrow> (dns_state \<times> dns_output list) option" where
  "dns_run st [] = Some (st, [])"
| "dns_run st (e # es) = do { (st', o1) \<leftarrow> dns_step st e; (st'', o2) \<leftarrow> dns_run st' es; Some (st'', o1 @ o2) }"

section \<open>Invariants\<close>

definition busy :: "dns_worker list \<Rightarrow> nat" where
  "busy ws = sum_list (map (\<lambda>w. if wk_job w = None then 0 else 1) ws)"

definition pending :: "dns_state \<Rightarrow> nat" where "pending st = length (dn_queue st) + busy (dn_workers st)"

definition job_clients :: "dns_worker list \<Rightarrow> client set" where
  "job_clients ws = {c. \<exists>w\<in>set ws. \<exists>q. wk_job w = Some (c, q)}"

definition waiting :: "dns_state \<Rightarrow> client set" where
  "waiting st = fst ` set (dn_queue st) \<union> job_clients (dn_workers st)"

definition dns_inv :: "dns_state \<Rightarrow> bool" where
  "dns_inv st \<longleftrightarrow>
     (\<forall>w\<in>set (dn_workers st). length (wk_rbuf w) = DNS_RELAY_BUF_SIZE) \<and> length (dn_queue st) \<le> DNS_WORK_QUEUE_DEPTH \<and>
     dn_queries st = dn_hits st + dn_misses st \<and> dn_healthy st = dn_sock st"

definition replies :: "dns_output list \<Rightarrow> (client \<times> bytes) list" where
  "replies os = List.map_filter (\<lambda>x. case x of Reply c r \<Rightarrow> Some (c, r) | _ \<Rightarrow> None) os"

definition queries :: "dns_event list \<Rightarrow> (client \<times> bytes) list" where
  "queries es = List.map_filter (\<lambda>e. case e of Listen _ r _ _ \<Rightarrow> r | _ \<Rightarrow> None) es"

lemma replies_simps [simp]:
  "replies [] = []" "replies (Notify b # os) = replies os" "replies (Upstream u q # os) = replies os"
  "replies (Reply c r # os) = (c, r) # replies os" "replies (xs @ ys) = replies xs @ replies ys"
  by (simp_all add: replies_def List.map_filter_def)

lemma queries_Cons: "queries (e # es) = queries [e] @ queries es"
  by (simp add: queries_def List.map_filter_def)

lemma queries_simps [simp]:
  "queries [] = []" "queries [Listen b (Some x) n a] = [x]" "queries [Listen b None n a] = []" "queries [Take i s u r] = []"
  "queries [Finish i v n] = []" "queries [Set_enabled on] = []" "queries [Set_upstream ip] = []" "queries [Set_bind ip] = []"
  by (simp_all add: queries_def List.map_filter_simps)

lemma busy_simps [simp]: "busy [] = 0" "busy (w # ws) = (if wk_job w = None then 0 else 1) + busy ws"
  by (simp_all add: busy_def)

lemma busy_update:
  "i < length ws \<Longrightarrow> busy (ws[i := w]) + (if wk_job (ws ! i) = None then 0 else 1) = busy ws + (if wk_job w = None then 0 else 1)"
proof (induction ws arbitrary: i)
  case (Cons v ws)
  show ?case
  proof (cases i)
    case (Suc j)
    then show ?thesis using Cons.IH [of j] Cons.prems by simp
  qed simp
qed simp

text \<open>What a step may do: keep the invariant, and turn waiting or new queries into replies, one each.\<close>

definition step_ok :: "dns_state \<Rightarrow> (client \<times> bytes) list \<Rightarrow> (dns_state \<times> dns_output list) option \<Rightarrow> bool" where
  "step_ok st qs r \<longleftrightarrow>
     (case r of None \<Rightarrow> False
      | Some (st', os) \<Rightarrow> dns_inv st' \<and> length (replies os) + pending st' \<le> pending st + length qs \<and>
          fst ` set (replies os) \<union> waiting st' \<subseteq> waiting st \<union> fst ` set qs)"

lemma dns_key_len_cases: "\<exists>kl. dns_key_len q = Some kl \<and> (0 < kl \<longrightarrow> 12 + kl \<le> length q)"
proof -
  obtain v n where v: "dns_is_std_query q = Some v" and n: "dns_question_len q = Some n"
    using dns_is_std_query_total dns_question_len_total by metis
  then show ?thesis using dns_question_len_bounds(1) [OF n] by (cases v) (auto simp: dns_key_len_def)
qed

lemma cache_get_total: "12 + kl \<le> length q \<Longrightarrow> \<exists>r. cache_get c now q kl = Some r"
  by (auto simp: cache_get_def rdn_def rd8_def Let_def split: option.split)

lemma cache_put_total: "12 + kl \<le> length q \<Longrightarrow> \<exists>r. cache_put c now q kl resp ttl = Some r"
  by (auto simp: cache_put_def rdn_def Let_def split: option.split)

lemma listener_query_ok:
  assumes "dns_inv st"
  shows "step_ok st [(client, q')] (listener_query st now alloc client q)"
proof (cases "q = []")
  case False
  obtain kl where kl: "dns_key_len q = Some kl" "0 < kl \<longrightarrow> 12 + kl \<le> length q" using dns_key_len_cases by blast
  obtain hit where hit: "(if 0 < kl then cache_get (dn_cache st) now q kl else Some None) = Some hit"
    using kl(2) cache_get_total [of kl q "dn_cache st" now] by (cases "0 < kl") auto
  show ?thesis
    using assms False
    by (cases hit) (auto simp: listener_query_def kl(1) hit step_ok_def dns_inv_def pending_def waiting_def Let_def)
qed (use assms in \<open>auto simp: listener_query_def step_ok_def\<close>)

lemma listener_bind_ok:
  "dns_inv st \<Longrightarrow> dns_inv (fst (listener_bind st b)) \<and> pending (fst (listener_bind st b)) = pending st \<and>
    waiting (fst (listener_bind st b)) = waiting st \<and> replies (fst (snd (listener_bind st b))) = []"
  by (auto simp: listener_bind_def dns_inv_def pending_def waiting_def Let_def)

lemma listener_pass_ok:
  assumes "dns_inv st"
  shows "step_ok st (queries [Listen b recv now alloc]) (listener_pass st b recv now alloc)"
proof -
  note 1 = listener_bind_ok [OF assms, of b]
  show ?thesis
  proof (cases "snd (snd (listener_bind st b)) \<and> recv \<noteq> None")
    case True
    then obtain client q where "recv = Some (client, q)" by auto
    moreover have "step_ok (fst (listener_bind st b)) [(client, q)]
        (listener_query (fst (listener_bind st b)) now alloc client (take DNS_RELAY_BUF_SIZE q))"
      using 1 by (intro listener_query_ok) simp
    ultimately show ?thesis using 1 True by (auto simp: listener_pass_def step_ok_def Let_def split: option.splits)
  next
    case False
    then show ?thesis using 1 by (auto simp: listener_pass_def step_ok_def Let_def split: option.split)
  qed
qed

text \<open>What changing one worker does to the invariant and to the waiting clients.\<close>

lemma worker_update:
  assumes "i < length ws" and "\<forall>w\<in>set ws. length (wk_rbuf w) = n" and "length (wk_rbuf v) = n"
  shows "\<forall>w\<in>set (ws[i := v]). length (wk_rbuf w) = n"
    and "job_clients (ws[i := v]) \<subseteq> job_clients ws \<union> {c. \<exists>q. wk_job v = Some (c, q)}"
  using set_update_subset_insert [of ws i v] assms unfolding job_clients_def by blast+

lemma worker_take_ok:
  assumes "dns_inv st" and "i < length (dn_workers st)"
  shows "step_ok st [] (Some (worker_take st i socket_ok sta_dns sends))"
proof (cases "wk_job (dn_workers st ! i) = None \<and> dn_queue st \<noteq> []")
  case True
  then obtain client q js where q: "dn_queue st = (client, q) # js" by (cases "dn_queue st") auto
  let ?w = "dn_workers st ! i"
  have inv: "\<forall>w\<in>set (dn_workers st). length (wk_rbuf w) = DNS_RELAY_BUF_SIZE" "length (wk_rbuf ?w) = DNS_RELAY_BUF_SIZE"
    using assms by (auto simp: dns_inv_def)
  have 1: "dns_inv (st\<lparr>dn_queue := js\<rparr>)" "waiting (st\<lparr>dn_queue := js\<rparr>) \<subseteq> waiting st"
    using assms(1) q by (auto simp: dns_inv_def waiting_def)
  have u: "dns_inv (st\<lparr>dn_queue := js, dn_workers := (dn_workers st)[i := v]\<rparr>)"
    "busy ((dn_workers st)[i := v]) = busy (dn_workers st) + (if wk_job v = None then 0 else 1)"
    "waiting (st\<lparr>dn_queue := js, dn_workers := (dn_workers st)[i := v]\<rparr>) \<subseteq> waiting st"
    if "length (wk_rbuf v) = DNS_RELAY_BUF_SIZE" "wk_job v = None \<or> wk_job v = Some (client, q)" for v
  proof -
    have "{c. \<exists>q. wk_job v = Some (c, q)} \<subseteq> {client}" using that(2) by auto
    then show "waiting (st\<lparr>dn_queue := js, dn_workers := (dn_workers st)[i := v]\<rparr>) \<subseteq> waiting st"
      using worker_update(2) [OF assms(2) inv(1) that(1)] q unfolding waiting_def by auto
    show "dns_inv (st\<lparr>dn_queue := js, dn_workers := (dn_workers st)[i := v]\<rparr>)"
      using worker_update(1) [OF assms(2) inv(1) that(1)] 1(1) by (simp add: dns_inv_def)
    show "busy ((dn_workers st)[i := v]) = busy (dn_workers st) + (if wk_job v = None then 0 else 1)"
      using busy_update [OF assms(2), of v] True by simp
  qed
  show ?thesis
    using u [of "?w\<lparr>wk_sock := True\<rparr>"] u [of "?w\<lparr>wk_sock := False\<rparr>"]
      u [of "?w\<lparr>wk_sock := True, wk_job := Some (client, q)\<rparr>"] inv(2) 1 True q
    by (simp add: worker_take_def step_ok_def pending_def Let_def)
next
  case False
  then have "worker_take st i socket_ok sta_dns sends = (st, [])"
    by (cases "dn_queue st") (auto simp: worker_take_def Let_def split: option.split)
  then show ?thesis using assms(1) by (simp add: step_ok_def)
qed

lemma worker_finish_ok:
  assumes "dns_inv st" and "i < length (dn_workers st)"
  shows "step_ok st [] (worker_finish st i recv now)"
proof (cases "wk_job (dn_workers st ! i)")
  case None
  then show ?thesis using assms by (simp add: worker_finish_def step_ok_def)
next
  case (Some j)
  let ?w = "dn_workers st ! i"
  obtain client q where j: "wk_job ?w = Some (client, q)" using Some by (cases j) auto
  have inv: "\<forall>w\<in>set (dn_workers st). length (wk_rbuf w) = DNS_RELAY_BUF_SIZE" "length (wk_rbuf ?w) = DNS_RELAY_BUF_SIZE"
    using assms by (auto simp: dns_inv_def)
  have c: "client \<in> job_clients (dn_workers st)" using j assms(2) by (auto simp: job_clients_def intro!: bexI [of _ ?w])
  have u: "step_ok st [] (Some (st', os))"
    if "dn_workers st' = (dn_workers st)[i := v]" "length (wk_rbuf v) = DNS_RELAY_BUF_SIZE" "wk_job v = None"
      "dn_queue st' = dn_queue st" "dn_queries st' = dn_queries st" "dn_hits st' = dn_hits st" "dn_misses st' = dn_misses st"
      "dn_healthy st' = dn_healthy st" "dn_sock st' = dn_sock st" "replies os = [] \<or> replies os = [(client, r)]" for st' os v r
    using worker_update [OF assms(2) inv(1) that(2)] busy_update [OF assms(2), of v] that j assms(1) c
    by (auto simp: step_ok_def dns_inv_def waiting_def pending_def)
  show ?thesis
  proof (cases "\<exists>d. recv = Received d \<and> take DNS_RELAY_BUF_SIZE d \<noteq> []")
    case True
    then obtain d where d: "recv = Received d" "take DNS_RELAY_BUF_SIZE d \<noteq> []" by blast
    define r where "r = take DNS_RELAY_BUF_SIZE d"
    define v where "v = ?w\<lparr>wk_job := None, wk_rbuf := r @ drop (length r) (wk_rbuf ?w)\<rparr>"
    have rl: "length r \<le> DNS_RELAY_BUF_SIZE" by (simp add: r_def)
    then have v: "length (wk_rbuf v) = DNS_RELAY_BUF_SIZE" "wk_job v = None" using inv(2) by (simp_all add: v_def)
    obtain kl where kl: "dns_key_len q = Some kl" "0 < kl \<longrightarrow> 12 + kl \<le> length q" using dns_key_len_cases by blast
    have "8 \<le> DNS_RELAY_BUF_SIZE" by (simp add: dns_consts)
    then obtain ttl where ttl: "dns_resp_ttl (wk_rbuf v) (length r) kl = Some ttl"
      using dns_resp_ttl_total [of "length r" "wk_rbuf v" kl] rl v(1) by auto
    have fin: "worker_finish st i recv now =
      (let st' = st\<lparr>dn_workers := (dn_workers st)[i := v]\<rparr>; sent = (if dn_sock st then [Reply client r] else []) in
       if kl = 0 \<or> ttl = 0 then Some (st', sent)
       else do { (c, inserts, evictions) \<leftarrow> cache_put (dn_cache st) now q kl r ttl;
          Some (st'\<lparr>dn_cache := c, dn_inserts := dn_inserts st + inserts, dn_evictions := dn_evictions st + evictions\<rparr>, sent) })"
      using d(2) ttl by (simp add: worker_finish_def j d(1) r_def [symmetric] v_def [symmetric] kl(1) Let_def)
        (simp add: v_def)
    show ?thesis
    proof (cases "kl = 0 \<or> ttl = 0")
      case True
      then show ?thesis by (auto simp: fin Let_def intro!: u [OF _ v])
    next
      case False
      then obtain x where "cache_put (dn_cache st) now q kl r ttl = Some x" using cache_put_total kl(2) by blast
      then show ?thesis using False by (cases x) (auto simp: fin Let_def intro!: u [OF _ v])
    qed
  next
    case False
    then show ?thesis
    proof (cases recv)
      case (Received d)
      then have "d = []" using False by (cases d) (auto simp: dns_consts)
      then show ?thesis using inv(2)
        by (auto simp: worker_finish_def j Received Let_def intro!: u [of _ "?w\<lparr>wk_job := None\<rparr>"])
    next
      case (No_data again)
      show ?thesis using inv(2)
        by (auto simp: worker_finish_def j No_data Let_def intro!: u [of _ "?w\<lparr>wk_job := None, wk_sock := again\<rparr>"])
    qed
  qed
qed

lemma dns_step_ok: "dns_inv st \<Longrightarrow> step_ok st (queries [e]) (dns_step st e)"
proof (cases e)
  case (Listen b r n a)
  then show "dns_inv st \<Longrightarrow> ?thesis" using listener_pass_ok by (simp add: dns_step_def)
next
  case (Take i s u r)
  show "dns_inv st \<Longrightarrow> ?thesis"
    using worker_take_ok [of st i s u r] by (cases "i < length (dn_workers st)") (simp_all add: Take dns_step_def step_ok_def)
next
  case (Finish i v n)
  show "dns_inv st \<Longrightarrow> ?thesis"
    using worker_finish_ok [of st i v n] by (cases "i < length (dn_workers st)") (simp_all add: Finish dns_step_def step_ok_def)
qed (auto simp: dns_step_def step_ok_def dns_inv_def pending_def waiting_def set_enabled_flag_def dns_relay_set_bind_addr_def)

lemma dns_run_ok: "dns_inv st \<Longrightarrow> step_ok st (queries es) (dns_run st es)"
proof (induction es arbitrary: st)
  case Nil
  then show ?case by (simp add: step_ok_def)
next
  case (Cons e es)
  from dns_step_ok [OF Cons.prems, of e] obtain st1 o1 where 1: "dns_step st e = Some (st1, o1)" "dns_inv st1"
    "length (replies o1) + pending st1 \<le> pending st + length (queries [e])"
    "fst ` set (replies o1) \<union> waiting st1 \<subseteq> waiting st \<union> fst ` set (queries [e])"
    by (auto simp: step_ok_def split: option.splits)
  from Cons.IH [OF 1(2)] obtain st2 o2 where 2: "dns_run st1 es = Some (st2, o2)" "dns_inv st2"
    "length (replies o2) + pending st2 \<le> pending st1 + length (queries es)"
    "fst ` set (replies o2) \<union> waiting st2 \<subseteq> waiting st1 \<union> fst ` set (queries es)"
    by (auto simp: step_ok_def split: option.splits)
  have "dns_run st (e # es) = Some (st2, o1 @ o2)" by (simp add: 1(1) 2(1))
  then show ?case unfolding step_ok_def queries_Cons [of e es] using 1 2 by (simp add: image_Un) blast
qed

lemma dns_init_inv:
  "set bufs \<subseteq> {b. length b = DNS_RELAY_BUF_SIZE} \<Longrightarrow> dns_inv (dns_relay_init aton api h cache_ok bufs dns_reset)"
  by (auto simp: dns_inv_def dns_relay_init_def dns_reset_def Let_def)

lemma dns_init_pending:
  "pending (dns_relay_init aton api h cache_ok bufs dns_reset) = 0" "waiting (dns_relay_init aton api h cache_ok bufs dns_reset) = {}"
proof -
  have "busy (map (\<lambda>b. \<lparr>wk_sock = False, wk_rbuf = b, wk_job = None\<rparr>) bufs) = 0" by (induction bufs) simp_all
  then show "pending (dns_relay_init aton api h cache_ok bufs dns_reset) = 0"
    by (simp add: pending_def dns_relay_init_def Let_def)
  show "waiting (dns_relay_init aton api h cache_ok bufs dns_reset) = {}"
    by (auto simp: waiting_def job_clients_def dns_relay_init_def Let_def)
qed

text \<open>
  C32: In every run of the relay from its start, with the listener, the workers and the operator's
  settings interleaved in any way and with any datagrams, no step reads or copies outside its
  buffers; every reply goes to a client that has sent a query, there are never more replies than
  queries, the work queue holds at most eight entries, the counters add up, and the relay is reported
  healthy exactly while its socket is open.
\<close>

theorem dns_relay_runs:
  assumes "set bufs \<subseteq> {b. length b = DNS_RELAY_BUF_SIZE}"
  shows "case dns_run (dns_relay_init aton api h cache_ok bufs dns_reset) es of None \<Rightarrow> False
    | Some (st, os) \<Rightarrow>
        fst ` set (replies os) \<subseteq> fst ` set (queries es) \<and>
        length (replies os) + length (dn_queue st) \<le> length (queries es) \<and> length (dn_queue st) \<le> 8 \<and>
        dn_queries st = dn_hits st + dn_misses st \<and> dn_healthy st = dn_sock st"
proof -
  let ?st0 = "dns_relay_init aton api h cache_ok bufs dns_reset"
  have "step_ok ?st0 (queries es) (dns_run ?st0 es)" using dns_run_ok [OF dns_init_inv [OF assms]] .
  then obtain st os where r: "dns_run ?st0 es = Some (st, os)" "dns_inv st"
    "length (replies os) + pending st \<le> pending ?st0 + length (queries es)"
    "fst ` set (replies os) \<union> waiting st \<subseteq> waiting ?st0 \<union> fst ` set (queries es)"
    by (auto simp: step_ok_def split: option.splits)
  then show ?thesis unfolding r(1)
    by (simp add: dns_init_pending) (auto simp: dns_inv_def pending_def DNS_WORK_QUEUE_DEPTH_def)
qed

section \<open>Behaviour of single steps\<close>

text \<open>
  With the relay enabled and an address to bind, one pass of the listener whose \<open>bind\<close> succeeds
  (or whose socket is already open and current) leaves it open and healthy, and the callback hears of
  it when it was not healthy before; a relay that is switched off closes its socket, and the callback
  hears of that.
\<close>

theorem dns_relay_follows_setting:
  assumes "dns_inv st"
  shows "case listener_bind st True of (st', os, receiving) \<Rightarrow>
    receiving = (dn_enabled st \<and> dn_bind st \<noteq> 0) \<and> dn_sock st' = receiving \<and> dn_healthy st' = receiving \<and>
    (receiving = dn_healthy st \<or> os = [Notify receiving])"
  using assms by (auto simp: listener_bind_def dns_inv_def Let_def)

theorem dns_relay_follows_setting_witness:
  "case listener_bind (dns_reset\<lparr>dn_enabled := True, dn_bind := 1\<rparr>) True of (st', os, receiving) \<Rightarrow>
    receiving = (dn_enabled (dns_reset\<lparr>dn_enabled := True, dn_bind := 1\<rparr>) \<and> dn_bind (dns_reset\<lparr>dn_enabled := True, dn_bind := 1\<rparr>) \<noteq> 0)
     \<and> dn_sock st' = receiving \<and> dn_healthy st' = receiving
     \<and> (receiving = dn_healthy (dns_reset\<lparr>dn_enabled := True, dn_bind := 1\<rparr>) \<or> os = [Notify receiving])"
  by (rule dns_relay_follows_setting) (simp add: dns_inv_def dns_reset_def)

text \<open>A rebind that fails ends the service without the callback, so the clients keep the relay as resolver.\<close>

lemma failed_rebind_not_notified:
  assumes "dn_enabled st" and "dn_bind st \<noteq> 0" and "dn_sock st" and "dn_dirty st" and "dn_healthy st"
  shows "fst (snd (listener_bind st False)) = [] \<and> \<not> dn_healthy (fst (listener_bind st False))"
  using assms by (simp add: listener_bind_def Let_def)

text \<open>
  The upstream resolver the operator chose survives a restart: once its text was stored without
  error, the next start reads back the same address.
\<close>

theorem dns_upstream_persists:
  assumes "np_lawful api" and "np_open_rw api h = ESP_OK" and "ip \<noteq> 0"
    and "nvs_param_set_str api h ''dns_relay_up'' (Some (take 15 (ip4_str ip))) = (ESP_OK, h')"
    and "aton (ip4_str ip) = Some ip"
  shows "fst (dns_relay_set_upstream api h st ip) = h' \<and>
    dn_upstream (dns_relay_init aton api (fst (dns_relay_set_upstream api h st ip)) cache_ok bufs dns_reset) = ip"
proof -
  have l: "take 15 (ip4_str ip) = ip4_str ip" using ip4_str_length by simp
  have n: "ip4_str ip \<noteq> []" by (simp add: ip4_str_def)
  have h': "fst (dns_relay_set_upstream api h st ip) = h'"
    using assms(2,3,4) by (auto simp: dns_relay_set_upstream_def nvs_param_set_str_def nvs_param_write_def Let_def split: if_splits)
  have "np_open_ro api h' = ESP_OK \<and> np_get_str api h' ''dns_relay_up'' = Inr (ip4_str ip)"
    using set_str_lawful [OF assms(1,4)] l by simp
  then show ?thesis
    using h' assms(3,5) n ip4_str_length [of ip] by (simp add: dns_relay_init_def Let_def)
qed

theorem dns_upstream_persists_witness:
  "dn_upstream (dns_relay_init (\<lambda>s. if s = ip4_str 1 then Some 1 else None) map_params
     (fst (dns_relay_set_upstream map_params (Map.empty, Map.empty, Map.empty) dns_reset 1)) False [] dns_reset) = 1"
proof -
  have "nvs_param_set_str map_params (Map.empty, Map.empty, Map.empty) ''dns_relay_up'' (Some (take 15 (ip4_str 1)))
      = (ESP_OK, [''dns_relay_up'' \<mapsto> take 15 (ip4_str 1)], Map.empty, Map.empty)"
    by (simp add: nvs_param_set_str_def nvs_param_write_def map_params_def Let_def)
  moreover have "np_open_rw map_params (Map.empty, Map.empty, Map.empty) = ESP_OK" by (simp add: map_params_def)
  ultimately show ?thesis
    using conjunct2 [OF dns_upstream_persists [OF map_params_lawful, where ip = 1 and aton = "\<lambda>s. if s = ip4_str 1 then Some 1 else None"
      and st = dns_reset and cache_ok = False and bufs = "[]"]] by (simp only: if_True refl one_neq_zero not_False_eq_True)
qed

section \<open>A late answer\<close>

text \<open>
  A datagram that a worker receives while it waits for the answer to a query, and whose code and
  times allow caching, is what the cache answers with until it expires, under the transaction id of
  the asker, to every query with the same question.  Nothing relates the datagram to the query: a
  worker takes what its socket delivers next, without a look at sender, transaction id or question.
  So the answer to an earlier query that timed out, when it arrives late, is sent to the client of
  the next query and cached for its question (in the witness the answer for the name a under the
  question for b).
\<close>

theorem dns_answer_served:
  assumes "i < length (dn_workers st)" and "wk_job (dn_workers st ! i) = Some (client, q)"
    and "dns_key_len q = Some kl" and "0 < kl" and "d \<noteq> []" and "length d \<le> DNS_RELAY_BUF_SIZE"
    and "dn_cache st = Some es" and "length es = DNS_CACHE_ENTRIES"
    and "dns_resp_ttl (d @ drop (length d) (wk_rbuf (dn_workers st ! i))) (length d) kl = Some ttl" and "ttl \<noteq> 0"
    and "0 \<le> now" and "t < now + int (unat ttl) * 1000000"
    and "take kl (drop 12 q') = take kl (drop 12 q)" and "12 + kl \<le> length q'"
  shows "case worker_finish st i (Received d) now of None \<Rightarrow> False
    | Some (st', os) \<Rightarrow> replies os = (if dn_sock st then [(client, d)] else []) \<and>
        cache_get (dn_cache st') t q' kl = Some (Some (d[0 := q' ! 0, 1 := q' ! 1]))"
proof -
  have q: "12 + kl \<le> length q" "kl \<le> DNS_CACHE_KEY_MAX"
    using dns_key_len_cases [of q] assms(3,4) dns_question_len_bounds(2) [of q kl]
    by (auto simp: dns_key_len_def dns_consts split: Option.bind_splits if_splits)
  let ?key = "take kl (drop 12 q)"
  have ok: "store_ok (now, q, kl, d, ttl)"
    using q assms(4,5,6,10,11) by (simp add: store_ok_def) (metis word_gt_0)
  obtain a b where put: "cache_put (Some es) now q kl d ttl =
      Some (Some (es[dns_slot ?key := \<lparr>ce_expiry = now + int (unat ttl) * 1000000, ce_key = ?key, ce_resp = d\<rparr>]), a, b)"
    using cache_put_stores [OF ok] by blast
  have "0 < unat ttl" using assms(10) by (simp add: unat_gt_0)
  then have e: "now + int (unat ttl) * 1000000 \<noteq> 0" using assms(11) by linarith
  have g: "rdn q' 12 kl = Some ?key" "rd8 q' 0 = Some (q' ! 0)" "rd8 q' 1 = Some (q' ! 1)" "length ?key = kl"
    using assms(13,14) q(1) by (auto simp: rdn_def rd8_def)
  have "cache_get (Some (es[dns_slot ?key := \<lparr>ce_expiry = now + int (unat ttl) * 1000000, ce_key = ?key, ce_resp = d\<rparr>])) t q' kl =
      Some (Some (d[0 := q' ! 0, 1 := q' ! 1]))"
    using e assms(8,12) dns_slot_less [of ?key] by (simp add: cache_get_def g(1-3) g(3) [unfolded One_nat_def] Let_def g(4) del: length_take)
  then show ?thesis
    using assms(2,3,4,5,6,7,9,10) put by (simp add: worker_finish_def Let_def)
qed

text \<open>The question for the name b.\<close>

definition demo_query_b :: bytes where
  "demo_query_b = [5, 5, 1, 0, 0, 1, 0, 0, 0, 0, 0, 0, 1, 98, 0, 0, 1, 0, 1]"

definition demo_waiting :: dns_state where
  "demo_waiting = dns_reset\<lparr>dn_enabled := True, dn_bind := 1, dn_upstream := 2, dn_sock := True, dn_healthy := True,
     dn_cache := Some (replicate DNS_CACHE_ENTRIES empty_entry),
     dn_workers := [\<lparr>wk_sock = True, wk_rbuf = replicate DNS_RELAY_BUF_SIZE 0, wk_job = Some ((22, 2), demo_query_b)\<rparr>]\<rparr>"

definition demo_late :: "dns_event list" where
  "demo_late = [Listen True (Some ((11, 1), demo_dns_query)) 0 True, Take 0 True None (\<lambda>_. Send_ok), Finish 0 (No_data True) 1,
     Listen True (Some ((22, 2), demo_query_b)) 2 True, Take 0 True None (\<lambda>_. Send_ok), Finish 0 (Received demo_dns_reply) 3]"

theorem dns_answer_served_witness:
  "case worker_finish demo_waiting 0 (Received demo_dns_reply) 3 of None \<Rightarrow> False
    | Some (st', os) \<Rightarrow> replies os = [((22, 2), demo_dns_reply)] \<and>
        cache_get (dn_cache st') 4 ([6, 6] @ drop 2 demo_query_b) 7 = Some (Some ([6, 6] @ drop 2 demo_dns_reply))"
proof -
  have k: "dns_key_len demo_query_b = Some 7" by code_simp
  have f: "dn_workers demo_waiting ! 0 = \<lparr>wk_sock = True, wk_rbuf = replicate DNS_RELAY_BUF_SIZE 0, wk_job = Some ((22, 2), demo_query_b)\<rparr>"
    "dn_sock demo_waiting" "dn_cache demo_waiting = Some (replicate DNS_CACHE_ENTRIES empty_entry)" "length (dn_workers demo_waiting) = 1"
    by (simp_all add: demo_waiting_def)
  have l: "length demo_dns_reply = 35" "demo_dns_reply \<noteq> []" by (simp_all add: demo_dns_reply_def)
  have m: "unat (mk16 0 1) = Suc 0" "mk16 0 1 \<noteq> 0" "mk32 0 0 1 44 = 300" by code_simp+
  have ttl: "dns_resp_ttl (demo_dns_reply @ stale) 35 7 = Some 300" for stale
    by (simp add: demo_dns_reply_def dns_resp_ttl_def rd8_def be16_def be32_def m DNS_CACHE_TTL_MIN_S_def DNS_CACHE_TTL_MAX_S_def)
  have x: "demo_dns_reply[0 := ([6, 6] @ drop 2 demo_query_b) ! 0, 1 := ([6, 6] @ drop 2 demo_query_b) ! 1] = [6, 6] @ drop 2 demo_dns_reply"
    "take 7 (drop 12 ([6, 6] @ drop 2 demo_query_b)) = take 7 (drop 12 demo_query_b)" "12 + 7 \<le> length ([6, 6] @ drop 2 demo_query_b)"
    by (simp_all add: demo_dns_reply_def demo_query_b_def)
  have "case worker_finish demo_waiting 0 (Received demo_dns_reply) 3 of None \<Rightarrow> False
    | Some (st', os) \<Rightarrow> replies os = (if dn_sock demo_waiting then [((22, 2), demo_dns_reply)] else []) \<and>
        cache_get (dn_cache st') 4 ([6, 6] @ drop 2 demo_query_b) 7 =
          Some (Some (demo_dns_reply[0 := ([6, 6] @ drop 2 demo_query_b) ! 0, 1 := ([6, 6] @ drop 2 demo_query_b) ! 1]))"
    by (rule dns_answer_served [where q = demo_query_b and ttl = 300, OF _ _ k _ l(2) _ f(3) _ _ _ _ _ x(2,3)])
      (simp_all add: f l ttl dns_consts)
  then show ?thesis unfolding x(1) by (simp only: f(2) if_True)
qed

theorem dns_relay_runs_witness:
  "case dns_run (dns_relay_init (\<lambda>_. None) map_params (Map.empty, Map.empty, Map.empty) True [replicate DNS_RELAY_BUF_SIZE 0] dns_reset)
      (Set_bind 1 # Set_upstream 2 # demo_late) of None \<Rightarrow> False
    | Some (st, os) \<Rightarrow>
        fst ` set (replies os) \<subseteq> fst ` set (queries (Set_bind 1 # Set_upstream 2 # demo_late)) \<and>
        length (replies os) + length (dn_queue st) \<le> length (queries (Set_bind 1 # Set_upstream 2 # demo_late)) \<and>
        length (dn_queue st) \<le> 8 \<and> dn_queries st = dn_hits st + dn_misses st \<and> dn_healthy st = dn_sock st"
  by (rule dns_relay_runs) simp

end
