(* ===== verification/Ring.thy ===== *)
theory Ring
  imports Prelude
begin

text \<open>
  The byte ring of the log (\<open>main/log_capture.c\<close>: \<open>buffer_append\<close>, \<open>log_capture_append_panic\<close> and the copy
  loops of the readers), generic in the element.  The contents of a ring are the list of its live
  elements, oldest first; every operation is related to that list.  \<open>None\<close> is an access outside of
  the buffer.
\<close>

record 'a ring =
  rg_data :: "'a list"
  rg_head :: nat
  rg_count :: nat

abbreviation rg_cap :: "'a ring \<Rightarrow> nat" where "rg_cap r \<equiv> length (rg_data r)"

definition ring_put :: "'a \<Rightarrow> 'a ring \<Rightarrow> 'a ring option" where
  "ring_put c r =
     (if rg_head r < rg_cap r
      then Some (r\<lparr>rg_data := (rg_data r)[rg_head r := c], rg_head := (rg_head r + 1) mod rg_cap r,
                   rg_count := (if rg_count r < rg_cap r then rg_count r + 1 else rg_count r)\<rparr>)
      else None)"

fun ring_puts :: "'a list \<Rightarrow> 'a ring \<Rightarrow> 'a ring option" where
  "ring_puts [] r = Some r"
| "ring_puts (c # cs) r = do { r' \<leftarrow> ring_put c r; ring_puts cs r' }"

text \<open>Of more than the ring holds only the end is written.\<close>

definition ring_append :: "'a list \<Rightarrow> 'a ring \<Rightarrow> 'a ring option" where
  "ring_append s r = ring_puts (if rg_cap r < length s then drop (length s - rg_cap r) s else s) r"

text \<open>The copy loop: pieces up to the end of the buffer, then from its start.\<close>

function ring_copy :: "'a list \<Rightarrow> nat \<Rightarrow> nat \<Rightarrow> 'a list option" where
  "ring_copy d start want =
     (if want = 0 then Some []
      else if length d \<le> start then None
      else (let chunk = (if start + want \<le> length d then want else length d - start) in
            map_option (\<lambda>rest. take chunk (drop start d) @ rest) (ring_copy d ((start + chunk) mod length d) (want - chunk))))"
  by auto
termination by (relation "measure (\<lambda>(d, start, want). want)") (auto simp: Let_def split: if_splits)

declare ring_copy.simps [simp del]

section \<open>Contents\<close>

definition ring_inv :: "'a ring \<Rightarrow> bool" where
  "ring_inv r \<longleftrightarrow> rg_head r < rg_cap r \<and> rg_count r \<le> rg_cap r"

definition ring_list :: "'a ring \<Rightarrow> 'a list" where
  "ring_list r = map (\<lambda>i. rg_data r ! ((rg_head r + rg_cap r - rg_count r + i) mod rg_cap r)) [0..<rg_count r]"

text \<open>The last \<open>n\<close> elements.\<close>

definition newest :: "nat \<Rightarrow> 'a list \<Rightarrow> 'a list" where "newest n xs = drop (length xs - n) xs"

lemma newest_length [simp]: "length (newest n xs) = min n (length xs)" by (auto simp: newest_def)

lemma newest_all [simp]: "length xs \<le> n \<Longrightarrow> newest n xs = xs" by (simp add: newest_def)

lemma newest_newest: "newest m (newest n xs) = newest (min m n) xs"
  by (auto simp: newest_def min_def intro!: arg_cong [of _ _ "\<lambda>k. drop k xs"])

lemma newest_append: "newest n (newest n xs @ ys) = newest n (xs @ ys)"
  by (cases "length xs \<le> n") (auto simp: newest_def add.commute)

lemma newest_append_newest: "newest n (xs @ newest n ys) = newest n (xs @ ys)"
  by (cases "length ys \<le> n") (auto simp: newest_def)

lemma ring_list_length [simp]: "length (ring_list r) = rg_count r" by (simp add: ring_list_def)

text \<open>The position \<open>k\<close> elements before the write position.\<close>

lemma ring_back:
  fixes h n k :: nat
  shows "h < n \<Longrightarrow> 1 \<le> k \<Longrightarrow> k \<le> n \<Longrightarrow> (h + n - k) mod n = (if k \<le> h then h - k else h + n - k)"
proof (cases "k \<le> h")
  case True
  assume "h < n"
  have "h + n - k = (h - k) + n" using True by simp
  then have "(h + n - k) mod n = (h - k) mod n" by simp
  then show ?thesis using True \<open>h < n\<close> by simp
qed simp

lemma ring_back_step:
  fixes h n k :: nat
  shows "h < n \<Longrightarrow> 1 \<le> k \<Longrightarrow> k < n \<Longrightarrow> ((h + 1) mod n + n - (k + 1)) mod n = (h + n - k) mod n"
  by (cases "h + 1 = n") (auto simp: ring_back [of h n k] ring_back [of "(h + 1) mod n" n "k + 1"])

lemma ring_back_last:
  fixes h n :: nat
  shows "h < n \<Longrightarrow> ((h + 1) mod n + n - 1) mod n = h"
  by (cases "h + 1 = n") (auto simp: ring_back [of "(h + 1) mod n" n 1])

lemma ring_back_other:
  fixes h n k :: nat
  shows "h < n \<Longrightarrow> 1 \<le> k \<Longrightarrow> k < n \<Longrightarrow> (h + n - k) mod n \<noteq> h"
  by (auto simp: ring_back)

lemma ring_list_nth:
  "i < rg_count r \<Longrightarrow> rg_count r \<le> rg_cap r \<Longrightarrow> ring_list r ! i = rg_data r ! ((rg_head r + rg_cap r - (rg_count r - i)) mod rg_cap r)"
  by (simp add: ring_list_def add.commute)

lemma ring_put_list:
  assumes "ring_inv r"
  shows "\<exists>r'. ring_put c r = Some r' \<and> ring_inv r' \<and> rg_cap r' = rg_cap r \<and> ring_list r' = newest (rg_cap r) (ring_list r @ [c])"
proof -
  define n where "n = rg_cap r"
  have h: "rg_head r < n" "rg_count r \<le> n" using assms by (simp_all add: ring_inv_def n_def)
  define m where "m = (if rg_count r < n then rg_count r + 1 else rg_count r)"
  have m: "m \<le> n" "0 < m" using h by (auto simp: m_def)
  let ?r = "r\<lparr>rg_data := (rg_data r)[rg_head r := c], rg_head := (rg_head r + 1) mod n, rg_count := m\<rparr>"
  have "ring_list ?r = newest n (ring_list r @ [c])"
  proof (rule nth_equalityI)
    show "length (ring_list ?r) = length (newest n (ring_list r @ [c]))" using h(2) by (auto simp: m_def)
    fix i assume "i < length (ring_list ?r)"
    then have i: "i < m" by simp
    have l: "ring_list ?r ! i = (rg_data r)[rg_head r := c] ! (((rg_head r + 1) mod n + n - (m - i)) mod n)"
      using ring_list_nth [of i ?r] i m(1) by (simp add: n_def)
    have e: "newest n (ring_list r @ [c]) ! i = (ring_list r @ [c]) ! (i + (rg_count r + 1 - m))"
      using h(2) i by (auto simp: newest_def m_def nth_append add.commute)
    show "ring_list ?r ! i = newest n (ring_list r @ [c]) ! i"
    proof (cases "i + 1 = m")
      case True
      then have "m - i = 1" "i + (rg_count r + 1 - m) = rg_count r" using h(2) by (auto simp: m_def)
      then show ?thesis unfolding l e using h(1) ring_back_last [OF h(1)] by (simp add: nth_append) (simp add: n_def)
    next
      case False
      define k where "k = m - i - 1"
      have k: "1 \<le> k" "k < n" "m - i = k + 1" using i False m(1) by (auto simp: k_def)
      define j where "j = i + (rg_count r + 1 - m)"
      have j: "j < rg_count r" "rg_count r - j = k" using i False by (auto simp: k_def m_def j_def)
      have "(ring_list r @ [c]) ! j = rg_data r ! ((rg_head r + n - k) mod n)"
        using ring_list_nth [OF j(1)] h j by (simp add: nth_append n_def)
      then show ?thesis
        unfolding l e k(3) ring_back_step [OF h(1) k(1,2)] j_def [symmetric] using ring_back_other [OF h(1) k(1,2)] by simp
    qed
  qed
  moreover have "(rg_head r + 1) mod n < n" using h(1) by (intro mod_less_divisor) simp
  ultimately show ?thesis using h m by (auto simp: ring_put_def ring_inv_def n_def m_def)
qed

lemma ring_puts_list:
  "ring_inv r \<Longrightarrow> \<exists>r'. ring_puts s r = Some r' \<and> ring_inv r' \<and> rg_cap r' = rg_cap r \<and> ring_list r' = newest (rg_cap r) (ring_list r @ s)"
proof (induction s arbitrary: r)
  case Nil
  then show ?case by (simp add: ring_inv_def)
next
  case (Cons c s)
  obtain r1 where 1: "ring_put c r = Some r1" "ring_inv r1" "rg_cap r1 = rg_cap r" "ring_list r1 = newest (rg_cap r) (ring_list r @ [c])"
    using ring_put_list [OF Cons.prems] by blast
  obtain r2 where 2: "ring_puts s r1 = Some r2" "ring_inv r2" "rg_cap r2 = rg_cap r1" "ring_list r2 = newest (rg_cap r1) (ring_list r1 @ s)"
    using Cons.IH [OF 1(2)] by blast
  then show ?case using 1 newest_append [of "rg_cap r" "ring_list r @ [c]" s] by simp
qed

lemma ring_append_list:
  assumes "ring_inv r"
  shows "\<exists>r'. ring_append s r = Some r' \<and> ring_inv r' \<and> rg_cap r' = rg_cap r \<and> ring_list r' = newest (rg_cap r) (ring_list r @ s)"
proof -
  have "(if rg_cap r < length s then drop (length s - rg_cap r) s else s) = newest (rg_cap r) s" by (simp add: newest_def)
  then show ?thesis using ring_puts_list [OF assms, of "newest (rg_cap r) s"] by (simp add: ring_append_def newest_append_newest)
qed

section \<open>Copies\<close>

lemma ring_copy_nth:
  "start < length d \<Longrightarrow> \<exists>xs. ring_copy d start want = Some xs \<and> xs = map (\<lambda>i. d ! ((start + i) mod length d)) [0..<want]"
proof (induction d start want rule: ring_copy.induct)
  case (1 d start want)
  show ?case
  proof (cases "want = 0")
    case False
    define chunk where "chunk = (if start + want \<le> length d then want else length d - start)"
    have c: "0 < chunk" "chunk \<le> want" "start + chunk \<le> length d" "(start + chunk) mod length d < length d"
      using 1(2) False less_nat_zero_code [of start] by (auto simp: chunk_def intro!: mod_less_divisor)
    obtain xs where xs: "ring_copy d ((start + chunk) mod length d) (want - chunk) = Some xs"
      "xs = map (\<lambda>i. d ! (((start + chunk) mod length d + i) mod length d)) [0..<want - chunk]"
      using 1(1) [OF False _ chunk_def c(4)] 1(2) by auto
    have "take chunk (drop start d) @ xs = map (\<lambda>i. d ! ((start + i) mod length d)) [0..<want]"
    proof (rule nth_equalityI)
      show "length (take chunk (drop start d) @ xs) = length (map (\<lambda>i. d ! ((start + i) mod length d)) [0..<want])"
        using c by (simp add: xs(2))
      fix i assume "i < length (take chunk (drop start d) @ xs)"
      then have i: "i < want" using c by (simp add: xs(2))
      show "(take chunk (drop start d) @ xs) ! i = map (\<lambda>i. d ! ((start + i) mod length d)) [0..<want] ! i"
      proof (cases "i < chunk")
        case True
        then show ?thesis using i c by (simp add: nth_append)
      next
        case False
        then have "i - chunk < want - chunk" using i by simp
        moreover have "(start + chunk + (i - chunk)) mod length d = (start + i) mod length d" using False by simp
        ultimately show ?thesis using False i c by (simp add: nth_append xs(2) mod_simps)
      qed
    qed
    then show ?thesis using 1(2) False xs(1) by (simp add: ring_copy.simps [of d start want] chunk_def [symmetric] Let_def)
  qed (simp add: ring_copy.simps)
qed

text \<open>Copying from \<open>back\<close> elements before the write position gives the newest elements.\<close>

lemma ring_copy_newest:
  assumes "ring_inv r" and "want \<le> rg_count r"
  shows "ring_copy (rg_data r) ((rg_head r + rg_cap r - want) mod rg_cap r) want = Some (newest want (ring_list r))"
proof -
  define n where "n = rg_cap r"
  have n: "rg_head r < n" "rg_count r \<le> n" using assms by (auto simp: ring_inv_def n_def)
  have "ring_copy (rg_data r) ((rg_head r + n - want) mod n) want =
      Some (map (\<lambda>i. rg_data r ! (((rg_head r + n - want) mod n + i) mod n)) [0..<want])"
    using ring_copy_nth [of "(rg_head r + n - want) mod n" "rg_data r" want] mod_less_divisor [of n "rg_head r + n - want"] n(1) by (fastforce simp: n_def)
  moreover have "map (\<lambda>i. rg_data r ! (((rg_head r + n - want) mod n + i) mod n)) [0..<want] = newest want (ring_list r)"
  proof (rule nth_equalityI)
    fix i assume "i < length (map (\<lambda>i. rg_data r ! (((rg_head r + n - want) mod n + i) mod n)) [0..<want])"
    then have i: "i < want" by simp
    have "newest want (ring_list r) ! i = ring_list r ! (rg_count r - want + i)" using i assms(2) by (simp add: newest_def)
    also have "\<dots> = rg_data r ! ((rg_head r + n - (want - i)) mod n)"
      using ring_list_nth [of "rg_count r - want + i" r] i assms(2) n by (simp add: n_def)
    also have "rg_head r + n - (want - i) = rg_head r + n - want + i" using i assms(2) n by simp
    finally show "map (\<lambda>i. rg_data r ! (((rg_head r + n - want) mod n + i) mod n)) [0..<want] ! i = newest want (ring_list r) ! i"
      using i by (simp add: mod_simps)
  qed (use assms in simp)
  ultimately show ?thesis by (simp add: n_def)
qed

end
