(* ===== verification/Log_Capture.thy ===== *)
theory Log_Capture
  imports Ring "HOL-Library.Signed_Division"
begin

text \<open>
  The log (\<open>main/log_capture.c\<close>): a ring in RAM for the \<open>/log\<close> page and a second one in memory that
  survives a reset, so that the lines before a crash, and what the panic handler prints, can be
  read after it.  A line is the whole text \<open>vsnprintf\<close> would produce.
\<close>

definition PRECRASH_RING_BYTES :: nat where "PRECRASH_RING_BYTES = 4096"
definition PRECRASH_MAGIC :: u32 where "PRECRASH_MAGIC = 0xC0DEAFFE"
definition DEFAULT_BUFFER_BYTES :: nat where "DEFAULT_BUFFER_BYTES = 16 * 1024"
definition LINE_SCRATCH_BYTES :: nat where "LINE_SCRATCH_BYTES = 512"

definition ROUND_UP_1K :: "u32 \<Rightarrow> u32" where "ROUND_UP_1K x = (x + 1023) AND NOT 1023"

text \<open>The part that survives a reset.\<close>

record precrash =
  pc_magic :: u32
  pc_ring :: "char ring"

text \<open>\<open>lc_buf\<close>: the ring in RAM once it is allocated; \<open>lc_snapshot\<close>: what the boot found in the other.\<close>

record log_state =
  lc_buf :: "char ring option"
  lc_seq :: "64 word"
  lc_pre :: precrash
  lc_snapshot :: "string option"

section \<open>Writing\<close>

definition buffer_append :: "string \<Rightarrow> log_state \<Rightarrow> log_state option" where
  "buffer_append s st =
     (if s = [] then Some st
      else do {
        st \<leftarrow> (case lc_buf st of None \<Rightarrow> Some st
               | Some r \<Rightarrow> if rg_cap r = 0 then Some st
                   else map_option (\<lambda>r'. st\<lparr>lc_buf := Some r', lc_seq := lc_seq st + of_nat (min (length s) (rg_cap r))\<rparr>)
                          (ring_append s r));
        map_option (\<lambda>r'. st\<lparr>lc_pre := (lc_pre st)\<lparr>pc_ring := r'\<rparr>\<rparr>) (ring_append s (pc_ring (lc_pre st))) })"

definition log_capture_append_panic :: "string option \<Rightarrow> log_state \<Rightarrow> log_state option" where
  "log_capture_append_panic s st =
     (case s of None \<Rightarrow> Some st
      | Some s \<Rightarrow> if s = [] then Some st
          else map_option (\<lambda>r'. st\<lparr>lc_pre := \<lparr>pc_magic = PRECRASH_MAGIC, pc_ring = r'\<rparr>\<rparr>) (ring_append s (pc_ring (lc_pre st))))"

text \<open>What the wrapped routines of the panic handler add to the ring.\<close>

definition wrap_panic_print_char :: "char \<Rightarrow> log_state \<Rightarrow> log_state option" where
  "wrap_panic_print_char c st = log_capture_append_panic (Some [c]) st"

definition wrap_panic_print_str :: "string option \<Rightarrow> log_state \<Rightarrow> log_state option" where
  "wrap_panic_print_str s st = log_capture_append_panic s st"

definition panic_digit :: "nat \<Rightarrow> char" where
  "panic_digit c = char_of (if c < 10 then 48 + c else 97 + c - 10)"

definition panic_hex :: "u32 \<Rightarrow> string" where
  "panic_hex h = map (\<lambda>x. panic_digit (unat (drop_bit 28 (push_bit (4 * x) h) AND 0xF))) [0..<8]"

definition wrap_panic_print_hex :: "u32 \<Rightarrow> log_state \<Rightarrow> log_state option" where
  "wrap_panic_print_hex h st = log_capture_append_panic (Some (panic_hex h)) st"

definition panic_dec :: "int \<Rightarrow> string" where
  "panic_dec d = (let n1 = d smod 10; n2 = d sdiv 10 in
     [if n2 = 0 then CHR '' '' else char_of (nat ((n2 + 48) mod 256)), char_of (nat ((n1 + 48) mod 256))])"

definition wrap_panic_print_dec :: "int \<Rightarrow> log_state \<Rightarrow> log_state option" where
  "wrap_panic_print_dec d st = log_capture_append_panic (Some (panic_dec d)) st"

text \<open>
  \<open>strip_ansi_inplace\<close>: read position \<open>r\<close>, write position \<open>w\<close>, both in the same buffer.  The result
  is the buffer and the new length.
\<close>

definition ESC :: char where "ESC = char_of (27 :: nat)"
definition NL :: char where "NL = char_of (10 :: nat)"

function skip_to_m :: "string \<Rightarrow> nat \<Rightarrow> nat \<Rightarrow> nat" where
  "skip_to_m buf len r = (if r < len \<and> buf ! r \<noteq> CHR ''m'' then skip_to_m buf len (r + 1) else r)"
  by auto
termination by (relation "measure (\<lambda>(buf, len, r). len - r)") auto

declare skip_to_m.simps [simp del]

lemma skip_to_m_ge: "r \<le> skip_to_m buf len r"
proof (induction buf len r rule: skip_to_m.induct)
  case (1 buf len r)
  then show ?case by (cases "r < len \<and> buf ! r \<noteq> CHR ''m''") (auto simp: skip_to_m.simps [of buf len r])
qed

function strip_loop :: "string \<Rightarrow> nat \<Rightarrow> nat \<Rightarrow> nat \<Rightarrow> string \<times> nat" where
  "strip_loop buf len r w =
     (if r < len
      then if buf ! r = ESC
        then let r = r + 1 in
          if r < len \<and> buf ! r = CHR ''[''
          then let r = skip_to_m buf len (r + 1) in strip_loop buf len (if r < len then r + 1 else r) w
          else strip_loop buf len r w
        else strip_loop (buf[w := buf ! r]) len (r + 1) (w + 1)
      else (buf, w))"
  by auto
termination
proof (relation "measure (\<lambda>(buf, len, r, w). len - r)"; (simp; fail)?)
  fix buf :: string and len r w x xa :: nat
  assume "r < len" "x = r + 1" "xa = skip_to_m buf len (x + 1)"
  then show "((buf, len, if xa < len then xa + 1 else xa, w), buf, len, r, w) \<in> measure (\<lambda>(buf, len, r, w). len - r)"
    using skip_to_m_ge [of "x + 1" buf len] by auto
qed

declare strip_loop.simps [simp del]

definition strip_ansi_inplace :: "string \<Rightarrow> nat \<Rightarrow> string \<times> nat" where
  "strip_ansi_inplace buf len = strip_loop buf len 0 0"

text \<open>The hook: \<open>text\<close> is \<open>None\<close> when \<open>vsnprintf\<close> fails.  Of the buffer only what is written matters.\<close>

definition log_line :: "string \<Rightarrow> string" where
  "log_line text =
     (let scratch = take (LINE_SCRATCH_BYTES - 1) text;
          b = strip_ansi_inplace scratch (length scratch);
          line = take (snd b) (fst b)
      in if line \<noteq> [] \<and> last line \<noteq> NL \<and> length line < LINE_SCRATCH_BYTES - 1 then line @ [NL] else line)"

definition log_vprintf_hook :: "string option \<Rightarrow> log_state \<Rightarrow> log_state option" where
  "log_vprintf_hook text st =
     (case text of None \<Rightarrow> Some st | Some t \<Rightarrow> if t = [] then Some st else buffer_append (log_line t) st)"

section \<open>Start\<close>

text \<open>\<open>alloc\<close> and \<open>alloc_snap\<close>: whether memory is found; \<open>mem\<close>: what is in the memory of the new ring.\<close>

definition log_capture_init :: "u32 \<Rightarrow> string \<Rightarrow> bool \<Rightarrow> bool \<Rightarrow> log_state \<Rightarrow> (esp_err \<times> log_state) option" where
  "log_capture_init bytes mem alloc alloc_snap st =
     (if lc_buf st \<noteq> None then Some (ESP_OK, st)
      else if \<not> alloc then Some (ESP_ERR_NO_MEM, st)
      else (let cap = (if bytes \<noteq> 0 then unat (ROUND_UP_1K bytes) else DEFAULT_BUFFER_BYTES);
                r = pc_ring (lc_pre st);
                fresh = \<lparr>pc_magic = PRECRASH_MAGIC, pc_ring = r\<lparr>rg_head := 0, rg_count := 0\<rparr>\<rparr>;
                st' = st\<lparr>lc_buf := Some \<lparr>rg_data = take cap (mem @ replicate cap (char_of (0 :: nat))), rg_head = 0, rg_count = 0\<rparr>\<rparr>
            in if pc_magic (lc_pre st) = PRECRASH_MAGIC \<and> 0 < rg_count r \<and> rg_count r \<le> PRECRASH_RING_BYTES
                  \<and> rg_head r < PRECRASH_RING_BYTES \<and> alloc_snap
               then do {
                 snap \<leftarrow> ring_copy (rg_data r) ((rg_head r + PRECRASH_RING_BYTES - rg_count r) mod PRECRASH_RING_BYTES) (rg_count r);
                 Some (ESP_OK, st'\<lparr>lc_snapshot := Some snap, lc_pre := fresh\<rparr>) }
               else Some (ESP_OK, st'\<lparr>lc_pre := fresh\<rparr>)))"

text \<open>A reset: the RAM is initialised anew, the other memory keeps its contents.\<close>

definition soft_reset :: "log_state \<Rightarrow> log_state" where
  "soft_reset st = \<lparr>lc_buf = None, lc_seq = 0, lc_pre = lc_pre st, lc_snapshot = None\<rparr>"

section \<open>Reading\<close>

text \<open>The text and its length go to a buffer of \<open>z\<close> bytes; the closing NUL is left out.\<close>

definition log_capture_read_precrash :: "log_state \<Rightarrow> nat \<Rightarrow> string" where
  "log_capture_read_precrash st z =
     (if z = 0 then []
      else case lc_snapshot st of None \<Rightarrow> []
      | Some snap \<Rightarrow> (let want = (if length snap < z - 1 then length snap else z - 1) in take want (drop (length snap - want) snap)))"

definition log_capture_have_precrash :: "log_state \<Rightarrow> bool" where
  "log_capture_have_precrash st = (lc_snapshot st \<noteq> None)"

definition log_capture_precrash_size :: "log_state \<Rightarrow> nat" where
  "log_capture_precrash_size st = (case lc_snapshot st of None \<Rightarrow> 0 | Some s \<Rightarrow> length s)"

definition log_capture_clear_precrash :: "log_state \<Rightarrow> log_state" where
  "log_capture_clear_precrash st = st\<lparr>lc_snapshot := None\<rparr>"

definition log_capture_read :: "log_state \<Rightarrow> nat \<Rightarrow> string option" where
  "log_capture_read st z =
     (if z = 0 then Some []
      else case lc_buf st of None \<Rightarrow> Some []
      | Some r \<Rightarrow>
          if rg_count r = 0 then Some []
          else (let want = (if rg_count r < z - 1 then rg_count r else z - 1);
                    start = (rg_head r + rg_cap r - rg_count r) mod rg_cap r;
                    start = (if want < rg_count r then (start + (rg_count r - want)) mod rg_cap r else start)
                in ring_copy (rg_data r) start want))"

definition log_capture_clear :: "log_state \<Rightarrow> log_state" where
  "log_capture_clear st = (case lc_buf st of None \<Rightarrow> st | Some r \<Rightarrow> st\<lparr>lc_buf := Some (r\<lparr>rg_head := 0, rg_count := 0\<rparr>)\<rparr>)"

definition log_capture_size :: "log_state \<Rightarrow> nat" where
  "log_capture_size st = (case lc_buf st of None \<Rightarrow> 0 | Some r \<Rightarrow> rg_count r)"

definition log_capture_capacity :: "log_state \<Rightarrow> nat" where
  "log_capture_capacity st = (case lc_buf st of None \<Rightarrow> 0 | Some r \<Rightarrow> rg_cap r)"

definition log_capture_seq :: "log_state \<Rightarrow> 64 word" where "log_capture_seq st = lc_seq st"

text \<open>The text that is new since a position in the stream, and the position reported, if one is.\<close>

definition log_capture_read_since :: "log_state \<Rightarrow> 64 word \<Rightarrow> nat \<Rightarrow> (string \<times> 64 word option) option" where
  "log_capture_read_since st since z =
     (if z = 0 then Some ([], None)
      else case lc_buf st of None \<Rightarrow> Some ([], Some 0)
      | Some r \<Rightarrow>
          (let cap = z - 1; cur = lc_seq st;
               oldest = (if (of_nat (rg_count r) :: 64 word) < cur then cur - of_nat (rg_count r) else 0)
           in if cur \<le> since then Some ([], Some cur)
              else (let start = (if since < oldest then oldest else since);
                        want = unat (cur - start);
                        start = (if cap < want then cur - of_nat cap else start);
                        want = (if cap < want then cap else want);
                        back = unat (cur - start)
                    in map_option (\<lambda>t. (t, Some cur)) (ring_copy (rg_data r) ((rg_head r + rg_cap r - back) mod rg_cap r) want))))"

section \<open>Colour sequences\<close>

text \<open>What the in-place routine computes, on the text alone.\<close>

function strip_ansi :: "string \<Rightarrow> string" where
  "strip_ansi [] = []"
| "strip_ansi (c # cs) =
     (if c \<noteq> ESC then c # strip_ansi cs
      else case cs of [] \<Rightarrow> []
           | d # ds \<Rightarrow> if d = CHR ''['' then strip_ansi (drop 1 (dropWhile (\<lambda>x. x \<noteq> CHR ''m'') ds)) else strip_ansi cs)"
  by pat_completeness auto
termination
proof (relation "measure length"; (simp; fail)?)
  fix c d :: char and cs ds
  assume "cs = d # ds"
  then show "(drop 1 (dropWhile (\<lambda>x. x \<noteq> CHR ''m'') ds), c # cs) \<in> measure length"
    using length_dropWhile_le [of "\<lambda>x. x \<noteq> CHR ''m''" ds] by simp
qed

lemma skip_to_m_drop:
  "r \<le> len \<Longrightarrow> len \<le> length buf \<Longrightarrow>
   skip_to_m buf len r \<le> len \<and> drop (skip_to_m buf len r) (take len buf) = dropWhile (\<lambda>x. x \<noteq> CHR ''m'') (drop r (take len buf))"
proof (induction buf len r rule: skip_to_m.induct)
  case (1 buf len r)
  show ?case
  proof (cases "r < len")
    case True
    then have d: "drop r (take len buf) = buf ! r # drop (r + 1) (take len buf)"
      using Cons_nth_drop_Suc [of r "take len buf"] 1(3) by simp
    show ?thesis
    proof (cases "buf ! r = CHR ''m''")
      case True
      then show ?thesis using \<open>r < len\<close> d by (simp add: skip_to_m.simps [of buf len r])
    next
      case False
      then show ?thesis using 1 \<open>r < len\<close> d by (simp add: skip_to_m.simps [of buf len r])
    qed
  qed (use 1 in \<open>simp add: skip_to_m.simps [of buf len len]\<close>)
qed

lemma strip_loop_spec:
  "w \<le> r \<Longrightarrow> r \<le> len \<Longrightarrow> len \<le> length buf \<Longrightarrow>
   snd (strip_loop buf len r w) \<le> len \<and>
   take (snd (strip_loop buf len r w)) (fst (strip_loop buf len r w)) = take w buf @ strip_ansi (drop r (take len buf))"
proof (induction buf len r w rule: strip_loop.induct)
  case (1 buf len r w)
  show ?case
  proof (cases "r < len")
    case False
    then show ?thesis using 1(4-6) by (simp add: strip_loop.simps [of buf len len w])
  next
    case True
    then have d: "drop r (take len buf) = buf ! r # drop (r + 1) (take len buf)"
      using Cons_nth_drop_Suc [of r "take len buf"] 1(6) by simp
    show ?thesis
    proof (cases "buf ! r = ESC")
      case False
      have "take (w + 1) (buf[w := buf ! r]) = take w buf @ [buf ! r]"
        using True 1(4,6) by (simp add: take_Suc_conv_app_nth)
      moreover have "drop (r + 1) (take len (buf[w := buf ! r])) = drop (r + 1) (take len buf)"
        using 1(4) by (simp add: take_update_swap)
      ultimately show ?thesis
        using 1(3) [OF True False] 1(4-6) True False by (simp add: strip_loop.simps [of buf len r w] d del: take_Suc_Cons)
    next
      case esc: True
      show ?thesis
      proof (cases "r + 1 < len \<and> buf ! (r + 1) = CHR ''[''")
        case True
        define k where "k = skip_to_m buf len (r + 1 + 1)"
        have d2: "drop (r + 1) (take len buf) = CHR ''['' # drop (r + 1 + 1) (take len buf)"
          using Cons_nth_drop_Suc [of "r + 1" "take len buf"] True 1(6) by simp
        have k: "k \<le> len" "drop k (take len buf) = dropWhile (\<lambda>x. x \<noteq> CHR ''m'') (drop (r + 1 + 1) (take len buf))" "r + 1 + 1 \<le> k"
          using skip_to_m_drop [of "r + 1 + 1" len buf] skip_to_m_ge [of "r + 1 + 1" buf len] True 1(6) by (simp_all add: k_def)
        have "drop (if k < len then k + 1 else k) (take len buf) = drop 1 (drop k (take len buf))" using k(1) by simp
        moreover have "strip_loop buf len r w = strip_loop buf len (if k < len then k + 1 else k) w"
          using \<open>r < len\<close> esc True by (simp add: strip_loop.simps [of buf len r w] k_def Let_def)
        moreover have "strip_ansi (drop r (take len buf)) = strip_ansi (drop 1 (drop k (take len buf)))"
          unfolding d strip_ansi.simps d2 esc k(2) by simp
        moreover have "(if k < len then k + 1 else k) \<le> len" "w \<le> (if k < len then k + 1 else k)" using k 1(4) by auto
        ultimately show ?thesis
          using 1(1) [OF \<open>r < len\<close> esc refl True k_def _ _ 1(6)] by presburger
      next
        case False
        moreover have "strip_ansi (drop r (take len buf)) = strip_ansi (drop (r + 1) (take len buf))"
        proof (cases "r + 1 < len")
          case True
          then obtain ds where y: "drop (r + 1) (take len buf) = buf ! (r + 1) # ds"
            using Cons_nth_drop_Suc [of "r + 1" "take len buf"] 1(6) by (metis length_take min.absorb2 nth_take)
          have "buf ! (r + 1) \<noteq> CHR ''[''" using False True by simp
          then show ?thesis unfolding d y strip_ansi.simps(2) [of "buf ! r"] by (simp only: esc list.case if_False not_True_eq_False simp_thms)
        qed (simp add: d esc)
        moreover have "strip_loop buf len r w = strip_loop buf len (r + 1) w"
          using False \<open>r < len\<close> esc by (auto simp: strip_loop.simps [of buf len r w] Let_def)
        ultimately show ?thesis
          using 1(2) [OF \<open>r < len\<close> esc refl] 1(4-6) \<open>r < len\<close> by simp
      qed
    qed
  qed
qed

lemma strip_ansi_no_esc: "ESC \<notin> set (strip_ansi s)"
proof (induction s rule: strip_ansi.induct)
  case (2 c cs)
  then show ?case by (cases cs) auto
qed simp

lemma strip_ansi_length: "length (strip_ansi s) \<le> length s"
proof (induction s rule: strip_ansi.induct)
  case (2 c cs)
  show ?case
  proof (cases cs)
    case (Cons d ds)
    have "length (drop 1 (dropWhile (\<lambda>x. x \<noteq> CHR ''m'') ds)) \<le> length ds"
      using length_dropWhile_le [of "\<lambda>x. x \<noteq> CHR ''m''" ds] by simp
    then show ?thesis
      using 2(1) 2(2) [OF _ Cons] 2(3) [OF _ Cons] Cons by (cases "c = ESC"; cases "d = CHR ''[''") simp_all
  qed (use 2 in auto)
qed simp

text \<open>
  The routine that removes colour sequences from a line while it reads the same buffer ends, for
  any text (also one cut inside a sequence), and leaves in the buffer what the plain list function
  computes: the text without \<open>ESC [ ... m\<close>, never longer and without any escape character.
\<close>

theorem strip_ansi_inplace_correct:
  "case strip_ansi_inplace buf (length buf) of (buf', n) \<Rightarrow>
     n \<le> length buf \<and> take n buf' = strip_ansi buf \<and> ESC \<notin> set (take n buf')"
  using strip_loop_spec [of 0 0 "length buf" buf] strip_ansi_no_esc [of buf]
  by (cases "strip_loop buf (length buf) 0 0") (simp add: strip_ansi_inplace_def)

lemma log_line_strip: "log_line t =
   (let line = strip_ansi (take 511 t) in if line \<noteq> [] \<and> last line \<noteq> NL \<and> length line < 511 then line @ [NL] else line)"
proof -
  define u where "u = take 511 t"
  have "take (snd (strip_loop u (length u) 0 0)) (fst (strip_loop u (length u) 0 0)) = strip_ansi u"
    using strip_loop_spec [of 0 0 "length u" u] by simp
  moreover have "LINE_SCRATCH_BYTES - 1 = 511" by (simp add: LINE_SCRATCH_BYTES_def)
  ultimately show ?thesis unfolding log_line_def strip_ansi_inplace_def Let_def by (simp only: u_def [symmetric])
qed

lemma log_line_length: "length (log_line t) \<le> 511"
  using strip_ansi_length [of "take 511 t"] by (auto simp: log_line_strip Let_def)

section \<open>The stream\<close>

text \<open>What is logged and what a panic prints, in order.\<close>

datatype log_event = Logged string | Panicked string

fun log_run :: "log_event list \<Rightarrow> log_state \<Rightarrow> log_state option" where
  "log_run [] st = Some st"
| "log_run (Logged t # es) st = log_vprintf_hook (Some t) st \<bind> log_run es"
| "log_run (Panicked t # es) st = wrap_panic_print_str (Some t) st \<bind> log_run es"

definition logged :: "log_event list \<Rightarrow> string" where
  "logged es = concat (map (\<lambda>e. case e of Logged t \<Rightarrow> log_line t | Panicked t \<Rightarrow> []) es)"

definition printed :: "log_event list \<Rightarrow> string" where
  "printed es = concat (map (\<lambda>e. case e of Logged t \<Rightarrow> log_line t | Panicked t \<Rightarrow> t) es)"

text \<open>A state after the start: a ring of \<open>n\<close> bytes in RAM with contents \<open>a\<close>, and \<open>b\<close> in the other.\<close>

definition log_inv :: "nat \<Rightarrow> string \<Rightarrow> string \<Rightarrow> log_state \<Rightarrow> bool" where
  "log_inv n a b st \<longleftrightarrow> 511 < n \<and>
     (\<exists>r. lc_buf st = Some r \<and> rg_cap r = n \<and> ring_inv r \<and> ring_list r = newest n a) \<and>
     pc_magic (lc_pre st) = PRECRASH_MAGIC \<and> rg_cap (pc_ring (lc_pre st)) = PRECRASH_RING_BYTES \<and>
     ring_inv (pc_ring (lc_pre st)) \<and> ring_list (pc_ring (lc_pre st)) = newest PRECRASH_RING_BYTES b"

lemma buffer_append_inv:
  assumes "log_inv n a b st" and "length s \<le> 511"
  shows "\<exists>st'. buffer_append s st = Some st' \<and> log_inv n (a @ s) (b @ s) st' \<and> lc_seq st' = lc_seq st + of_nat (length s)"
proof (cases "s = []")
  case False
  obtain r where r: "lc_buf st = Some r" "rg_cap r = n" "ring_inv r" "ring_list r = newest n a" "511 < n"
    using assms(1) by (auto simp: log_inv_def)
  obtain r1 where 1: "ring_append s r = Some r1" "ring_inv r1" "rg_cap r1 = n" "ring_list r1 = newest n (a @ s)"
    using ring_append_list [OF r(3), of s] r by (auto simp: newest_append)
  obtain p where 2: "ring_append s (pc_ring (lc_pre st)) = Some p" "ring_inv p" "rg_cap p = PRECRASH_RING_BYTES"
    "ring_list p = newest PRECRASH_RING_BYTES (b @ s)"
    using ring_append_list [of "pc_ring (lc_pre st)" s] assms(1) by (auto simp: log_inv_def newest_append)
  show ?thesis using False r 1 2 assms by (auto simp: buffer_append_def log_inv_def min_def)
qed (use assms in \<open>simp add: buffer_append_def\<close>)

lemma panic_inv:
  assumes "log_inv n a b st"
  shows "\<exists>st'. wrap_panic_print_str (Some s) st = Some st' \<and> log_inv n a (b @ s) st' \<and> lc_seq st' = lc_seq st"
proof (cases "s = []")
  case False
  obtain p where 2: "ring_append s (pc_ring (lc_pre st)) = Some p" "ring_inv p" "rg_cap p = PRECRASH_RING_BYTES"
    "ring_list p = newest PRECRASH_RING_BYTES (b @ s)"
    using ring_append_list [of "pc_ring (lc_pre st)" s] assms(1) by (auto simp: log_inv_def newest_append)
  then show ?thesis using False assms by (auto simp: wrap_panic_print_str_def log_capture_append_panic_def log_inv_def)
qed (use assms in \<open>simp add: wrap_panic_print_str_def log_capture_append_panic_def\<close>)

lemma log_run_inv:
  "log_inv n a b st \<Longrightarrow>
   \<exists>st'. log_run es st = Some st' \<and> log_inv n (a @ logged es) (b @ printed es) st' \<and> lc_seq st' = lc_seq st + of_nat (length (logged es))"
proof (induction es arbitrary: a b st)
  case Nil
  then show ?case by (simp add: logged_def printed_def)
next
  case (Cons e es)
  show ?case
  proof (cases e)
    case (Logged t)
    have "log_line [] = []" by (simp add: log_line_strip)
    then have "log_vprintf_hook (Some t) st = buffer_append (log_line t) st"
      by (cases "t = []") (auto simp: log_vprintf_hook_def buffer_append_def)
    then obtain st1 where 1: "log_vprintf_hook (Some t) st = Some st1" "log_inv n (a @ log_line t) (b @ log_line t) st1"
      "lc_seq st1 = lc_seq st + of_nat (length (log_line t))"
      using buffer_append_inv [OF Cons.prems log_line_length] by metis
    from Cons.IH [OF 1(2)] show ?thesis using 1 by (auto simp: Logged logged_def printed_def add.assoc)
  next
    case (Panicked t)
    obtain st1 where 1: "wrap_panic_print_str (Some t) st = Some st1" "log_inv n a (b @ t) st1" "lc_seq st1 = lc_seq st"
      using panic_inv [OF Cons.prems] by blast
    from Cons.IH [OF 1(2)] show ?thesis using 1 by (auto simp: Panicked logged_def printed_def)
  qed
qed

lemma log_run_total: "log_inv n a b st \<Longrightarrow> log_run es st \<noteq> None"
  using log_run_inv by fastforce

text \<open>The start gives such a state, and finds what an earlier run left.\<close>

definition boot_capacity :: "u32 \<Rightarrow> nat" where
  "boot_capacity bytes = (if bytes \<noteq> 0 then unat (ROUND_UP_1K bytes) else DEFAULT_BUFFER_BYTES)"

lemma init_fresh:
  assumes "log_capture_init bytes mem True sn st = Some (ESP_OK, st')" and "lc_buf st = None"
    and "rg_cap (pc_ring (lc_pre st)) = PRECRASH_RING_BYTES" and "511 < boot_capacity bytes"
  shows "log_inv (boot_capacity bytes) [] [] st'"
proof -
  let ?r = "\<lparr>rg_data = take (boot_capacity bytes) (mem @ replicate (boot_capacity bytes) (char_of (0 :: nat))), rg_head = 0, rg_count = 0\<rparr>"
  have "lc_buf st' = Some ?r" "lc_pre st' = \<lparr>pc_magic = PRECRASH_MAGIC, pc_ring = (pc_ring (lc_pre st))\<lparr>rg_head := 0, rg_count := 0\<rparr>\<rparr>"
    using assms(1,2) by (auto simp: log_capture_init_def Let_def boot_capacity_def split: if_splits Option.bind_splits)
  then show ?thesis using assms(3,4)
    by (auto simp: log_inv_def ring_inv_def ring_list_def PRECRASH_RING_BYTES_def)
qed

lemma init_total:
  assumes "ring_inv (pc_ring (lc_pre st))" and "rg_cap (pc_ring (lc_pre st)) = PRECRASH_RING_BYTES"
    and "pc_magic (lc_pre st) = PRECRASH_MAGIC" and "lc_buf st = None" and "lc_snapshot st = None"
  shows "\<exists>st'. log_capture_init bytes mem True True st = Some (ESP_OK, st') \<and>
    lc_snapshot st' = (if rg_count (pc_ring (lc_pre st)) = 0 then None else Some (ring_list (pc_ring (lc_pre st))))"
proof -
  let ?r = "pc_ring (lc_pre st)"
  have "ring_copy (rg_data ?r) ((rg_head ?r + PRECRASH_RING_BYTES - rg_count ?r) mod PRECRASH_RING_BYTES) (rg_count ?r)
      = Some (ring_list ?r)"
    using ring_copy_newest [OF assms(1) order_refl] by (simp add: assms(2))
  moreover have "rg_count ?r \<le> PRECRASH_RING_BYTES" "rg_head ?r < PRECRASH_RING_BYTES" using assms(1,2) by (auto simp: ring_inv_def)
  ultimately show ?thesis using assms by (auto simp: log_capture_init_def Let_def)
qed

text \<open>
  C34: What was logged, and what the panic handler printed, since a start is what the next start
  finds after a reset: for any sequence of lines and panic texts, of any length, the pre-crash log
  that the next boot returns is the end of that stream, as much as the 4096 bytes of surviving memory
  and the reader's buffer hold.
\<close>

theorem precrash_log_survives:
  assumes "rg_cap (pc_ring (lc_pre st0)) = PRECRASH_RING_BYTES" and "lc_buf st0 = None" and "511 < boot_capacity bytes"
    and "log_capture_init bytes mem True sn st0 = Some (ESP_OK, st)"
  shows "log_run es st \<bind> (\<lambda>st. log_capture_init bytes' mem' True True (soft_reset st)) \<bind>
      (\<lambda>(e, st). Some (e, log_capture_read_precrash st z))
    = Some (ESP_OK, newest (min (z - 1) PRECRASH_RING_BYTES) (printed es))"
proof -
  obtain st1 where 1: "log_run es st = Some st1" "log_inv (boot_capacity bytes) ([] @ logged es) ([] @ printed es) st1"
    using log_run_inv [OF init_fresh [OF assms(4,2,1,3)]] by blast
  let ?r = "pc_ring (lc_pre (soft_reset st1))"
  have r: "ring_inv ?r" "rg_cap ?r = PRECRASH_RING_BYTES" "ring_list ?r = newest PRECRASH_RING_BYTES (printed es)"
    using 1(2) by (auto simp: log_inv_def soft_reset_def)
  obtain st2 where 2: "log_capture_init bytes' mem' True True (soft_reset st1) = Some (ESP_OK, st2)"
    "lc_snapshot st2 = (if rg_count ?r = 0 then None else Some (ring_list ?r))"
    using init_total [of "soft_reset st1" bytes' mem'] r 1(2) by (auto simp: log_inv_def soft_reset_def)
  have "log_capture_read_precrash st2 z = newest (z - 1) (ring_list ?r)"
  proof (cases "rg_count ?r = 0")
    case True
    then have "ring_list ?r = []" by (metis length_0_conv ring_list_length)
    then show ?thesis using True by (simp add: log_capture_read_precrash_def 2(2))
  next
    case False
    then show ?thesis using 2(2) by (auto simp: log_capture_read_precrash_def newest_def Let_def)
  qed
  then show ?thesis by (simp add: 1(1) 2(1) r(3) newest_newest)
qed

section \<open>The page\<close>

lemma log_read_newest:
  assumes "lc_buf st = Some r" and "ring_inv r" and "0 < z"
  shows "log_capture_read st z = Some (newest (z - 1) (ring_list r))"
proof (cases "rg_count r = 0")
  case True
  then have "ring_list r = []" by (metis length_0_conv ring_list_length)
  then show ?thesis using True assms(1) by (simp add: log_capture_read_def)
next
  case False
  define want where "want = (if rg_count r < z - 1 then rg_count r else z - 1)"
  have w: "want \<le> rg_count r" by (simp add: want_def)
  have c: "rg_count r \<le> rg_cap r" using assms(2) by (simp add: ring_inv_def)
  have "((rg_head r + rg_cap r - rg_count r) mod rg_cap r + (rg_count r - want)) mod rg_cap r = (rg_head r + rg_cap r - want) mod rg_cap r"
  proof -
    have "rg_head r + rg_cap r - rg_count r + (rg_count r - want) = rg_head r + rg_cap r - want" using w c by simp
    then show ?thesis by (metis mod_add_left_eq)
  qed
  then have s: "(if want < rg_count r then ((rg_head r + rg_cap r - rg_count r) mod rg_cap r + (rg_count r - want)) mod rg_cap r
      else (rg_head r + rg_cap r - rg_count r) mod rg_cap r) = (rg_head r + rg_cap r - want) mod rg_cap r"
    using w by (cases "want = rg_count r") simp_all
  have "log_capture_read st z = ring_copy (rg_data r) ((rg_head r + rg_cap r - want) mod rg_cap r) want"
    unfolding log_capture_read_def using False assms(1,3) by (simp only: Let_def want_def [symmetric] s option.case if_False) simp
  also have "\<dots> = Some (newest (z - 1) (ring_list r))"
    using ring_copy_newest [OF assms(2) w] by (auto simp: want_def newest_def)
  finally show ?thesis .
qed

lemma log_since_newest:
  assumes "lc_buf st = Some r" and "ring_inv r" and "k \<le> rg_count r" and "k < z" and "rg_count r < 2 ^ 64"
    and "lc_seq st = s + of_nat k" and "unat s + k < 2 ^ 64"
  shows "log_capture_read_since st s z = Some (newest k (ring_list r), Some (lc_seq st))"
proof (cases "k = 0")
  case True
  then show ?thesis using assms(1,4,6) by (simp add: log_capture_read_since_def newest_def Let_def)
next
  case False
  have cur: "unat (lc_seq st) = unat s + k" using assms(6,7) by (simp add: unat_word_ariths unat_of_nat)
  then have "\<not> lc_seq st \<le> s" using False by (simp add: word_le_nat_alt)
  moreover have "\<not> s < (if (of_nat (rg_count r) :: 64 word) < lc_seq st then lc_seq st - of_nat (rg_count r) else 0)"
  proof -
    have c: "unat (of_nat (rg_count r) :: 64 word) = rg_count r" using assms(5) by (simp add: unat_of_nat)
    then have "unat (lc_seq st - of_nat (rg_count r)) = unat s + k - rg_count r" if "(of_nat (rg_count r) :: 64 word) < lc_seq st"
      using that cur by (simp add: unat_sub_if' word_less_nat_alt)
    then show ?thesis using assms(3) by (auto simp: word_less_nat_alt)
  qed
  moreover have "unat (lc_seq st - s) = k" using assms(6,7) by (simp add: unat_of_nat)
  moreover have "z \<noteq> 0" "\<not> z - 1 < k" using assms(4) by simp_all
  ultimately show ?thesis
    using assms(1) ring_copy_newest [OF assms(2,3)] by (simp add: log_capture_read_since_def Let_def)
qed

lemma boot_capacity_bound: "boot_capacity bytes < 2 ^ 64"
  using unsigned_less [of "ROUND_UP_1K bytes", where ?'a = nat] by (simp add: boot_capacity_def DEFAULT_BUFFER_BYTES_def)

text \<open>
  The log page loses nothing between two polls: when, since the poll that reported the position
  \<open>seq\<close>, no more was logged than the ring and the page's buffer hold, the next poll returns exactly
  the lines logged in between, in order, and the new position; a full read returns the end of
  everything logged since the start.
\<close>

theorem log_poll_complete:
  assumes "log_capture_init bytes mem True sn st0 = Some (ESP_OK, st)" and "lc_buf st0 = None"
    and "rg_cap (pc_ring (lc_pre st0)) = PRECRASH_RING_BYTES" and "511 < boot_capacity bytes"
    and "log_run es st = Some st1" and "log_run es' st1 = Some st2"
    and "length (logged es') \<le> boot_capacity bytes" and "length (logged es') < z"
    and "unat (lc_seq st1) + length (logged es') < 2 ^ 64"
  shows "log_capture_read_since st2 (log_capture_seq st1) z = Some (logged es', Some (log_capture_seq st2)) \<and>
    log_capture_read st2 z = Some (newest (min (z - 1) (boot_capacity bytes)) (logged es @ logged es'))"
proof -
  define n where "n = boot_capacity bytes"
  have 1: "log_inv n (logged es) (printed es) st1"
    using log_run_inv [OF init_fresh [OF assms(1-4)], of es] assms(5) by (simp add: n_def)
  have 2: "log_inv n (logged es @ logged es') (printed es @ printed es') st2" "lc_seq st2 = lc_seq st1 + of_nat (length (logged es'))"
    using log_run_inv [OF 1, of es'] assms(6) by simp_all
  obtain r where r: "lc_buf st2 = Some r" "rg_cap r = n" "ring_inv r" "ring_list r = newest n (logged es @ logged es')"
    using 2(1) by (auto simp: log_inv_def)
  define k where "k = length (logged es')"
  have k: "k \<le> rg_count r" "newest k (ring_list r) = logged es'"
    using assms(7) r(2,4) ring_list_length [of r] by (auto simp: k_def n_def newest_newest) (simp add: newest_def)
  have c: "rg_count r < 2 ^ 64" using r(2,3) boot_capacity_bound [of bytes] by (simp add: ring_inv_def n_def)
  have "log_capture_read_since st2 (lc_seq st1) z = Some (newest k (ring_list r), Some (lc_seq st2))"
    using log_since_newest [OF r(1,3) k(1) _ c] 2(2) assms(8,9) by (simp add: k_def)
  then have "log_capture_read_since st2 (lc_seq st1) z = Some (logged es', Some (lc_seq st2))" unfolding k(2) .
  moreover have "log_capture_read st2 z = Some (newest (z - 1) (ring_list r))"
    using log_read_newest [OF r(1,3)] assms(8) by simp
  ultimately show ?thesis by (simp add: log_capture_seq_def r(4) newest_newest n_def)
qed

text \<open>A board after power on: the surviving memory holds arbitrary bytes.\<close>

definition demo_cold :: log_state where
  "demo_cold = \<lparr>lc_buf = None, lc_seq = 0,
     lc_pre = \<lparr>pc_magic = 0, pc_ring = \<lparr>rg_data = replicate PRECRASH_RING_BYTES (CHR ''?''), rg_head = 77, rg_count = 99999\<rparr>\<rparr>,
     lc_snapshot = None\<rparr>"

definition demo_booted :: log_state where
  "demo_booted = demo_cold\<lparr>lc_buf := Some \<lparr>rg_data = replicate DEFAULT_BUFFER_BYTES (char_of (0 :: nat)), rg_head = 0, rg_count = 0\<rparr>,
     lc_pre := \<lparr>pc_magic = PRECRASH_MAGIC, pc_ring = (pc_ring (lc_pre demo_cold))\<lparr>rg_head := 0, rg_count := 0\<rparr>\<rparr>\<rparr>"

lemma demo_boot:
  "log_capture_init 0 [] True False demo_cold = Some (ESP_OK, demo_booted)" "lc_buf demo_cold = None"
  "rg_cap (pc_ring (lc_pre demo_cold)) = PRECRASH_RING_BYTES" "511 < boot_capacity 0" "lc_seq demo_booted = 0"
  by (simp_all add: log_capture_init_def demo_booted_def demo_cold_def boot_capacity_def DEFAULT_BUFFER_BYTES_def Let_def)

definition demo_line :: string where "demo_line = [ESC] @ ''[0;32mI (1) up'' @ [ESC] @ ''[0m'' @ [NL]"

lemma demo_line_text: "log_line demo_line = ''I (1) up'' @ [NL]" "length (log_line demo_line) = 9"
  by code_simp+

theorem precrash_log_survives_witness:
  "log_run [Logged demo_line, Panicked ''abort()''] demo_booted \<bind> (\<lambda>st. log_capture_init 0 [] True True (soft_reset st)) \<bind>
      (\<lambda>(e, st). Some (e, log_capture_read_precrash st 8192)) = Some (ESP_OK, ''I (1) up'' @ [NL] @ ''abort()'')"
proof -
  have "printed [Logged demo_line, Panicked ''abort()''] = ''I (1) up'' @ [NL] @ ''abort()''"
    by (simp add: printed_def demo_line_text)
  moreover have "newest (min (8192 - 1) PRECRASH_RING_BYTES) (''I (1) up'' @ [NL] @ ''abort()'') = ''I (1) up'' @ [NL] @ ''abort()''"
    by (simp add: PRECRASH_RING_BYTES_def)
  ultimately show ?thesis
    using precrash_log_survives [OF demo_boot(3,2,4,1), of "[Logged demo_line, Panicked ''abort()'']" 0 "[]" 8192] by metis
qed

theorem log_poll_complete_witness:
  "log_run [Logged demo_line] demo_booted \<bind> (\<lambda>st. log_capture_read_since st (log_capture_seq demo_booted) 100)
     = Some (''I (1) up'' @ [NL], Some 9)"
proof -
  obtain st where st: "log_run [Logged demo_line] demo_booted = Some st" "lc_seq st = 9"
    using log_run_inv [OF init_fresh [OF demo_boot(1-4)], of "[Logged demo_line]"] demo_boot(5) demo_line_text(2)
    by (auto simp: logged_def)
  have l: "logged [Logged demo_line] = ''I (1) up'' @ [NL]" "length (logged [Logged demo_line]) = 9"
    by (simp_all add: logged_def demo_line_text)
  have "length (logged [Logged demo_line]) \<le> boot_capacity 0" "length (logged [Logged demo_line]) < 100"
    "unat (lc_seq demo_booted) + length (logged [Logged demo_line]) < 2 ^ 64"
    using demo_boot(4,5) l(2) by simp_all
  from log_poll_complete [OF demo_boot(1-4) _ st(1) this, of "[]"]
  have "log_capture_read_since st (log_capture_seq demo_booted) 100 = Some (logged [Logged demo_line], Some (log_capture_seq st))"
    by simp
  then show ?thesis unfolding st(1) Option.bind.simps l(1) log_capture_seq_def st(2) .
qed

text \<open>
  Before the first start after power on nothing has checked the write position: a panic in that time
  writes outside the surviving memory.
\<close>

lemma early_panic_overruns:
  assumes "PRECRASH_RING_BYTES \<le> rg_head (pc_ring (lc_pre st))" and "rg_cap (pc_ring (lc_pre st)) = PRECRASH_RING_BYTES"
  shows "wrap_panic_print_char c st = None"
  using assms
  by (simp add: wrap_panic_print_char_def log_capture_append_panic_def ring_append_def ring_put_def PRECRASH_RING_BYTES_def)

end
