(* ===== verification/Web_Password.thy ===== *)
theory Web_Password
  imports C_Scan Nvs_Params
begin

text \<open>
  The password of the web interface and the console (\<open>components/web_password/web_password.c\<close>): the
  PBKDF2 record in NVS, the older salted SHA-256 record, the cache of the last accepted password in
  RAM, and the challenge login.  SHA-256, HMAC and the random generator are not part of the
  repository; they are a parameter of the model.
\<close>

text \<open>
  \<open>cr_md\<close>: whether the library knows SHA-256.  \<open>cr_hmac\<close> is \<open>None\<close> where one of its calls fails.
  \<open>cr_random k n\<close>: the \<open>n\<close> bytes of the \<open>k\<close>-th request.
\<close>

record crypto =
  cr_sha256 :: "bytes \<Rightarrow> bytes"
  cr_md :: bool
  cr_hmac :: "bytes \<Rightarrow> bytes \<Rightarrow> bytes option"
  cr_random :: "nat \<Rightarrow> nat \<Rightarrow> bytes"

definition crypto_ok :: "crypto \<Rightarrow> bool" where
  "crypto_ok c \<longleftrightarrow> cr_md c \<and> (\<forall>b. length (cr_sha256 c b) = 32) \<and>
     (\<forall>k m. \<exists>h. cr_hmac c k m = Some h \<and> length h = 32) \<and> (\<forall>k n. length (cr_random c k n) = n)"

definition PW_NVS_KEY :: string where "PW_NVS_KEY = ''web_password''"
definition PW_SALT_LEN :: nat where "PW_SALT_LEN = 16"
definition PW_HASH_LEN :: nat where "PW_HASH_LEN = 32"
definition PW_PBKDF2_PREFIX :: string where "PW_PBKDF2_PREFIX = ''pbkdf2-sha256$''"
definition PW_PBKDF2_ITERS :: u32 where "PW_PBKDF2_ITERS = 60000"
definition PW_PBKDF2_ITERS_MIN :: u32 where "PW_PBKDF2_ITERS_MIN = 10000"
definition PW_PBKDF2_ITERS_MAX :: u32 where "PW_PBKDF2_ITERS_MAX = 500000"

lemmas pw_consts = PW_SALT_LEN_def PW_HASH_LEN_def PW_PBKDF2_ITERS_def PW_PBKDF2_ITERS_MIN_def PW_PBKDF2_ITERS_MAX_def

record 'h pw_state =
  pw_nvs :: 'h
  fc_valid :: bool
  fc_salt :: bytes
  fc_hash :: bytes
  pw_draws :: nat

section \<open>Storage\<close>

definition nvs_dup_str :: "'h nvs_raw \<Rightarrow> 'h \<Rightarrow> string \<Rightarrow> string option" where
  "nvs_dup_str api h key =
     (if np_open_ro api h \<noteq> ESP_OK then None
      else case np_get_str api h key of Inl _ \<Rightarrow> None
      | Inr v \<Rightarrow> if \<not> np_alloc api then None else Some v)"

definition nvs_write_str :: "'h nvs_raw \<Rightarrow> 'h \<Rightarrow> string \<Rightarrow> string \<Rightarrow> esp_err \<times> 'h" where
  "nvs_write_str api h key value =
     (if np_open_rw api h \<noteq> ESP_OK then (np_open_rw api h, h)
      else (case np_set_str api h key value of (err, h) \<Rightarrow> if err = ESP_OK then np_commit api h else (err, h)))"

text \<open>The module repeats the accessors of \<open>nvs_params.c\<close>.\<close>

lemma nvs_dup_str_param: "nvs_dup_str api h key = nvs_param_get_str api h key"
  by (simp add: nvs_dup_str_def nvs_param_get_str_def split: sum.split)

lemma nvs_write_str_param: "nvs_write_str api h key v = nvs_param_set_str api h key (Some v)"
  by (auto simp: nvs_write_str_def nvs_param_set_str_def nvs_param_write_def Let_def split: prod.split)

lemma nvs_write_str_lawful:
  "np_lawful api \<Longrightarrow> nvs_write_str api h k v = (ESP_OK, h') \<Longrightarrow> nvs_dup_str api h' k = Some v"
  using set_str_lawful [of api h k v h'] by (auto simp: nvs_write_str_param nvs_dup_str_def np_lawful_def)

section \<open>Hashes\<close>

definition c_bytes :: "string \<Rightarrow> bytes" where "c_bytes s = map of_char s"

definition compute_hash :: "crypto \<Rightarrow> bytes \<Rightarrow> string \<Rightarrow> bytes" where
  "compute_hash c salt plaintext = cr_sha256 c (salt @ c_bytes plaintext)"

definition xor_into :: "bytes \<Rightarrow> bytes \<Rightarrow> bytes" where
  "xor_into h u = map (\<lambda>j. (h ! j) XOR (u ! j)) [0..<PW_HASH_LEN]"

fun pbkdf2_rounds :: "crypto \<Rightarrow> bytes \<Rightarrow> nat \<Rightarrow> bytes \<Rightarrow> bytes \<Rightarrow> bytes option" where
  "pbkdf2_rounds c key 0 u h = Some h"
| "pbkdf2_rounds c key (Suc n) u h = do { u \<leftarrow> cr_hmac c key u; pbkdf2_rounds c key n u (xor_into h u) }"

definition compute_pbkdf2 :: "crypto \<Rightarrow> bytes \<Rightarrow> string \<Rightarrow> u32 \<Rightarrow> bytes option" where
  "compute_pbkdf2 c salt plaintext iterations =
     (if iterations < PW_PBKDF2_ITERS_MIN \<or> PW_PBKDF2_ITERS_MAX < iterations then None
      else if \<not> cr_md c then None
      else do {
        u \<leftarrow> cr_hmac c (c_bytes plaintext) (salt @ [0, 0, 0, 1]);
        pbkdf2_rounds c (c_bytes plaintext) (unat iterations - 1) u u })"

definition hashes_equal :: "bytes \<Rightarrow> bytes \<Rightarrow> bool" where
  "hashes_equal a b = (foldl (\<lambda>diff i. diff OR (a ! i XOR b ! i)) 0 [0..<PW_HASH_LEN] = 0)"

section \<open>The cache\<close>

definition fast_cache_invalidate :: "'h pw_state \<Rightarrow> 'h pw_state" where
  "fast_cache_invalidate st =
     st\<lparr>fc_valid := False, fc_salt := replicate PW_SALT_LEN 0, fc_hash := replicate PW_HASH_LEN 0\<rparr>"

definition fast_cache_store :: "crypto \<Rightarrow> string \<Rightarrow> 'h pw_state \<Rightarrow> 'h pw_state" where
  "fast_cache_store c plaintext st =
     (let salt = cr_random c (pw_draws st) PW_SALT_LEN
      in st\<lparr>pw_draws := pw_draws st + 1, fc_salt := salt, fc_hash := compute_hash c salt plaintext, fc_valid := True\<rparr>)"

definition fast_cache_matches :: "crypto \<Rightarrow> 'h pw_state \<Rightarrow> string \<Rightarrow> bool" where
  "fast_cache_matches c st plaintext =
     (if \<not> fc_valid st then False else hashes_equal (fc_hash st) (compute_hash c (fc_salt st) plaintext))"

section \<open>Records\<close>

definition verify_legacy_sha256 :: "crypto \<Rightarrow> string \<Rightarrow> string \<Rightarrow> bool" where
  "verify_legacy_sha256 c stored plaintext =
     (case strchr CHR '':'' stored of None \<Rightarrow> False
      | Some colon \<Rightarrow>
          let rest = drop (colon + 1) stored in
          if colon \<noteq> PW_SALT_LEN * 2 \<or> length rest \<noteq> PW_HASH_LEN * 2 then False
          else (case hex_to_bytes stored PW_SALT_LEN of None \<Rightarrow> False
          | Some salt \<Rightarrow> (case hex_to_bytes rest PW_HASH_LEN of None \<Rightarrow> False
            | Some expected \<Rightarrow> hashes_equal expected (compute_hash c salt plaintext))))"

definition verify_pbkdf2 :: "crypto \<Rightarrow> string \<Rightarrow> string \<Rightarrow> bool" where
  "verify_pbkdf2 c stored plaintext =
     (if take (length PW_PBKDF2_PREFIX) stored \<noteq> PW_PBKDF2_PREFIX then False
      else
        let iterations_text = drop (length PW_PBKDF2_PREFIX) stored;
            p = strtoul iterations_text; iterations = fst p; iterations_end = snd p in
        if iterations_end = iterations_text \<or> iterations_end = [] \<or> hd iterations_end \<noteq> CHR ''$''
           \<or> iterations < PW_PBKDF2_ITERS_MIN \<or> PW_PBKDF2_ITERS_MAX < iterations then False
        else
          let salt_hex = tl iterations_end in
          (case strchr CHR ''$'' salt_hex of None \<Rightarrow> False
           | Some separator \<Rightarrow>
              if separator \<noteq> PW_SALT_LEN * 2 \<or> length (drop (separator + 1) salt_hex) \<noteq> PW_HASH_LEN * 2 then False
              else (case hex_to_bytes salt_hex PW_SALT_LEN of None \<Rightarrow> False
              | Some salt \<Rightarrow> (case hex_to_bytes (drop (separator + 1) salt_hex) PW_HASH_LEN of None \<Rightarrow> False
                | Some expected \<Rightarrow> (case compute_pbkdf2 c salt plaintext iterations of None \<Rightarrow> False
                  | Some computed \<Rightarrow> hashes_equal expected computed)))))"

definition parse_pbkdf2_record :: "string option \<Rightarrow> (u32 \<times> bytes \<times> bytes) option" where
  "parse_pbkdf2_record stored =
     (case stored of None \<Rightarrow> None
      | Some stored \<Rightarrow>
        if take (length PW_PBKDF2_PREFIX) stored \<noteq> PW_PBKDF2_PREFIX then None
        else
          let iterations_text = drop (length PW_PBKDF2_PREFIX) stored;
              p = strtoul iterations_text; parsed = fst p; iterations_end = snd p in
          if iterations_end = iterations_text \<or> iterations_end = [] \<or> hd iterations_end \<noteq> CHR ''$''
             \<or> parsed < PW_PBKDF2_ITERS_MIN \<or> PW_PBKDF2_ITERS_MAX < parsed then None
          else do {
            let salt_hex = tl iterations_end;
            separator \<leftarrow> strchr CHR ''$'' salt_hex;
            if separator \<noteq> PW_SALT_LEN * 2 \<or> length (drop (separator + 1) salt_hex) \<noteq> PW_HASH_LEN * 2 then None
            else do {
              salt \<leftarrow> hex_to_bytes salt_hex PW_SALT_LEN;
              verifier \<leftarrow> hex_to_bytes (drop (separator + 1) salt_hex) PW_HASH_LEN;
              Some (parsed, salt, verifier) } })"

section \<open>Operations\<close>

definition web_password_get_proof_params :: "'h nvs_raw \<Rightarrow> 'h pw_state \<Rightarrow> (u32 \<times> bytes) option" where
  "web_password_get_proof_params api st =
     map_option (\<lambda>(iterations, salt, verifier). (iterations, salt)) (parse_pbkdf2_record (nvs_dup_str api (pw_nvs st) PW_NVS_KEY))"

definition verify_web_password_proof :: "crypto \<Rightarrow> 'h nvs_raw \<Rightarrow> 'h pw_state \<Rightarrow> bytes \<Rightarrow> bytes \<Rightarrow> bool" where
  "verify_web_password_proof c api st message proof =
     (if message = [] then False
      else case parse_pbkdf2_record (nvs_dup_str api (pw_nvs st) PW_NVS_KEY) of None \<Rightarrow> False
      | Some (iterations, salt, verifier) \<Rightarrow>
          cr_md c \<and> (case cr_hmac c verifier message of None \<Rightarrow> False | Some expected \<Rightarrow> hashes_equal expected proof))"

definition is_web_password_set :: "'h nvs_raw \<Rightarrow> 'h pw_state \<Rightarrow> bool" where
  "is_web_password_set api st =
     (case nvs_dup_str api (pw_nvs st) PW_NVS_KEY of None \<Rightarrow> False | Some s \<Rightarrow> s \<noteq> [])"

definition pw_record :: "bytes \<Rightarrow> bytes \<Rightarrow> string" where
  "pw_record salt hash =
     take (length PW_PBKDF2_PREFIX + 1 + 10 + (PW_SALT_LEN * 2 + 1) + (PW_HASH_LEN * 2 + 1) + 2 - 1)
       (PW_PBKDF2_PREFIX @ dec (unat PW_PBKDF2_ITERS) @ ''$'' @ bytes_to_hex salt @ ''$'' @ bytes_to_hex hash)"

definition set_web_password_hashed :: "crypto \<Rightarrow> 'h nvs_raw \<Rightarrow> string option \<Rightarrow> 'h pw_state \<Rightarrow> esp_err \<times> 'h pw_state" where
  "set_web_password_hashed c api plaintext st =
     (case plaintext of None \<Rightarrow> (ESP_ERR_INVALID_ARG, st)
      | Some plaintext \<Rightarrow>
        let st = fast_cache_invalidate st in
        if plaintext = [] then
          (case nvs_write_str api (pw_nvs st) PW_NVS_KEY [] of (err, h) \<Rightarrow> (err, st\<lparr>pw_nvs := h\<rparr>))
        else
          let salt = cr_random c (pw_draws st) PW_SALT_LEN;
              st = st\<lparr>pw_draws := pw_draws st + 1\<rparr> in
          (case compute_pbkdf2 c salt plaintext PW_PBKDF2_ITERS of None \<Rightarrow> (ESP_FAIL, st)
           | Some hash \<Rightarrow>
              (case nvs_write_str api (pw_nvs st) PW_NVS_KEY (pw_record salt hash) of
                 (err, h) \<Rightarrow> let st = st\<lparr>pw_nvs := h\<rparr> in
                   (err, if err = ESP_OK then fast_cache_store c plaintext st else st))))"

text \<open>
  \<open>verify_web_password\<close>, first what it does after the record has been read: the check, the upgrade
  of an old record, the cache.
\<close>

definition verify_stored :: "crypto \<Rightarrow> 'h nvs_raw \<Rightarrow> string \<Rightarrow> string option \<Rightarrow> 'h pw_state \<Rightarrow> bool \<times> 'h pw_state" where
  "verify_stored c api plaintext stored st =
     (case stored of None \<Rightarrow> (False, st)
      | Some stored \<Rightarrow>
        let modern = (take (length PW_PBKDF2_PREFIX) stored = PW_PBKDF2_PREFIX);
            ok = (if modern then verify_pbkdf2 c stored plaintext else verify_legacy_sha256 c stored plaintext) in
        (ok, if ok \<and> \<not> modern then
               (case set_web_password_hashed c api (Some plaintext) st of
                  (err, st) \<Rightarrow> if err \<noteq> ESP_OK then fast_cache_store c plaintext st else st)
             else if ok then fast_cache_store c plaintext st else st))"

definition verify_web_password :: "crypto \<Rightarrow> 'h nvs_raw \<Rightarrow> string option \<Rightarrow> 'h pw_state \<Rightarrow> bool \<times> 'h pw_state" where
  "verify_web_password c api plaintext st =
     (case plaintext of None \<Rightarrow> (False, st)
      | Some p \<Rightarrow> if fast_cache_matches c st p then (True, st)
          else verify_stored c api p (nvs_dup_str api (pw_nvs st) PW_NVS_KEY) st)"

text \<open>A reset: the cache is gone, the flash is not.\<close>

definition pw_boot :: "'h \<Rightarrow> nat \<Rightarrow> 'h pw_state" where
  "pw_boot h k = \<lparr>pw_nvs = h, fc_valid = False, fc_salt = replicate PW_SALT_LEN 0, fc_hash = replicate PW_HASH_LEN 0, pw_draws = k\<rparr>"

section \<open>Derivation\<close>

lemma xor_into_length [simp]: "length (xor_into h u) = 32"
  by (simp add: xor_into_def PW_HASH_LEN_def)

lemma hashes_equal_iff:
  assumes "length a = 32" and "length b = 32"
  shows "hashes_equal a b \<longleftrightarrow> a = b"
proof -
  have 1: "foldl (\<lambda>diff i. diff OR f i) d xs = 0 \<longleftrightarrow> d = 0 \<and> (\<forall>i \<in> set xs. f i = 0)" for f :: "nat \<Rightarrow> u8" and d xs
    by (induction xs arbitrary: d) (auto simp: or_eq_0_iff)
  have 2: "x XOR y = 0 \<longleftrightarrow> x = y" for x y :: u8 by (auto simp: bit_eq_iff bit_simps)
  show ?thesis using assms by (auto simp: hashes_equal_def 1 2 PW_HASH_LEN_def intro: nth_equalityI)
qed

lemma rounds_total:
  "crypto_ok c \<Longrightarrow> length h = 32 \<Longrightarrow> \<exists>k. pbkdf2_rounds c key n u h = Some k \<and> length k = 32"
proof (induction n arbitrary: u h)
  case (Suc n)
  obtain v where v: "cr_hmac c key u = Some v" using Suc.prems(1) by (meson crypto_ok_def)
  show ?case using Suc.IH [OF Suc.prems(1), of "xor_into h v" v] v by simp
qed simp

lemma compute_pbkdf2_total:
  assumes "crypto_ok c" and "PW_PBKDF2_ITERS_MIN \<le> n" and "n \<le> PW_PBKDF2_ITERS_MAX"
  shows "\<exists>k. compute_pbkdf2 c salt p n = Some k \<and> length k = 32"
proof -
  obtain u where "cr_hmac c (c_bytes p) (salt @ [0, 0, 0, 1]) = Some u" "length u = 32"
    using assms(1) by (meson crypto_ok_def)
  then show ?thesis
    using rounds_total [OF assms(1), of u "c_bytes p" "unat n - 1" u] assms by (simp add: compute_pbkdf2_def crypto_ok_def not_less)
qed

lemma compute_pbkdf2_length: "crypto_ok c \<Longrightarrow> compute_pbkdf2 c salt p n = Some k \<Longrightarrow> length k = 32"
  using compute_pbkdf2_total [of c n salt p] by (auto simp: compute_pbkdf2_def split: if_split_asm)

lemma compute_hash_length: "crypto_ok c \<Longrightarrow> length (compute_hash c salt p) = 32"
  by (simp add: compute_hash_def crypto_ok_def)

text \<open>PBKDF2 as the standard states it, for an output of one block: \<open>U\<^sub>1 XOR ... XOR U\<^sub>n\<close>.\<close>

fun pbkdf2_U :: "(bytes \<Rightarrow> bytes \<Rightarrow> bytes) \<Rightarrow> bytes \<Rightarrow> bytes \<Rightarrow> nat \<Rightarrow> bytes" where
  "pbkdf2_U hm key salt 0 = hm key (salt @ [0, 0, 0, 1])"
| "pbkdf2_U hm key salt (Suc i) = hm key (pbkdf2_U hm key salt i)"

fun xor_upto :: "(nat \<Rightarrow> u8) \<Rightarrow> nat \<Rightarrow> u8" where
  "xor_upto f 0 = 0"
| "xor_upto f (Suc n) = xor_upto f n XOR f n"

definition pbkdf2_sha256 :: "(bytes \<Rightarrow> bytes \<Rightarrow> bytes) \<Rightarrow> bytes \<Rightarrow> bytes \<Rightarrow> nat \<Rightarrow> bytes" where
  "pbkdf2_sha256 hm key salt n = map (\<lambda>j. xor_upto (\<lambda>i. pbkdf2_U hm key salt i ! j) n) [0..<32]"

lemma rounds_spec:
  assumes "cr_hmac c = (\<lambda>k m. Some (hm k m))"
  shows "pbkdf2_rounds c key n (pbkdf2_U hm key salt i) (pbkdf2_sha256 hm key salt (Suc i))
           = Some (pbkdf2_sha256 hm key salt (Suc i + n))"
proof (induction n arbitrary: i)
  case (Suc n)
  have "xor_into (pbkdf2_sha256 hm key salt (Suc i)) (pbkdf2_U hm key salt (Suc i)) = pbkdf2_sha256 hm key salt (Suc (Suc i))"
    by (simp add: xor_into_def pbkdf2_sha256_def PW_HASH_LEN_def)
  then show ?case using Suc [of "Suc i"] by (simp add: assms)
qed simp

text \<open>
  C35: For every iteration count the module accepts, the loop that keeps one running block computes
  the first block of PBKDF2 as the standard defines it over the HMAC of the library, and every
  other count is refused.
\<close>

theorem compute_pbkdf2_standard:
  assumes "crypto_ok c" and "cr_hmac c = (\<lambda>k m. Some (hm k m))"
  shows "compute_pbkdf2 c salt p n =
    (if PW_PBKDF2_ITERS_MIN \<le> n \<and> n \<le> PW_PBKDF2_ITERS_MAX then Some (pbkdf2_sha256 hm (c_bytes p) salt (unat n)) else None)"
proof (cases "PW_PBKDF2_ITERS_MIN \<le> n \<and> n \<le> PW_PBKDF2_ITERS_MAX")
  case True
  then have n: "0 < unat n" by (simp add: pw_consts word_le_nat_alt)
  let ?u = "hm (c_bytes p) (salt @ [0, 0, 0, 1])"
  have "length ?u = 32" using assms unfolding crypto_ok_def by (metis option.inject)
  then have "pbkdf2_sha256 hm (c_bytes p) salt (Suc 0) = ?u" by (auto simp: pbkdf2_sha256_def intro: nth_equalityI)
  then have "pbkdf2_rounds c (c_bytes p) (unat n - 1) ?u ?u = Some (pbkdf2_sha256 hm (c_bytes p) salt (unat n))"
    using rounds_spec [OF assms(2), of "c_bytes p" "unat n - 1" salt 0] n by simp
  then show ?thesis using True assms by (auto simp: compute_pbkdf2_def crypto_ok_def not_less)
qed (auto simp: compute_pbkdf2_def not_le)

section \<open>The record\<close>

lemma pw_record_eq:
  assumes "length salt = 16" and "length hash = 32"
  shows "pw_record salt hash = PW_PBKDF2_PREFIX @ dec 60000 @ ''$'' @ bytes_to_hex salt @ ''$'' @ bytes_to_hex hash"
proof -
  have "length (dec 60000) \<le> 5" by (rule dec_length) simp_all
  moreover have "length PW_PBKDF2_PREFIX = 14" by (simp add: PW_PBKDF2_PREFIX_def)
  ultimately show ?thesis using assms by (simp add: pw_record_def PW_SALT_LEN_def PW_HASH_LEN_def PW_PBKDF2_ITERS_def)
qed

lemma parse_pw_record:
  assumes "length salt = 16" and "length hash = 32"
  shows "parse_pbkdf2_record (Some (pw_record salt hash)) = Some (PW_PBKDF2_ITERS, salt, hash)"
proof -
  let ?s = "bytes_to_hex salt @ ''$'' @ bytes_to_hex hash"
  have 1: "strtoul (dec 60000 @ ''$'' @ ?s) = (60000, ''$'' @ ?s)"
    using strtoul_dec [of 60000 "''$'' @ ?s"] by (simp add: is_digit_def)
  have "CHR ''$'' \<notin> set (bytes_to_hex salt)" using bytes_to_hex_chars [of "CHR ''$''" salt] by auto
  then have 2: "strchr CHR ''$'' ?s = Some (length (bytes_to_hex salt))" by (simp add: strchr_append)
  have 3: "''$'' @ ?s \<noteq> dec 60000 @ ''$'' @ ?s" using dec_nonempty [of 60000] by (metis append_self_conv2 self_append_conv2)
  show ?thesis
    using hex_to_bytes_hex [of salt "''$'' @ bytes_to_hex hash"] hex_to_bytes_hex [of hash "[]"] 2 3 assms
    unfolding parse_pbkdf2_record_def pw_record_eq [OF assms] option.case append_eq_conv_conj [symmetric]
    by (simp add: 1 [simplified] pw_consts Let_def)
qed

lemma pw_record_prefix:
  "length salt = 16 \<Longrightarrow> length hash = 32 \<Longrightarrow> take (length PW_PBKDF2_PREFIX) (pw_record salt hash) = PW_PBKDF2_PREFIX"
  by (simp add: pw_record_eq)

text \<open>The two parsers of the module agree.\<close>

lemma verify_pbkdf2_parse:
  assumes "crypto_ok c"
  shows "verify_pbkdf2 c stored p \<longleftrightarrow>
    (\<exists>n salt key. parse_pbkdf2_record (Some stored) = Some (n, salt, key) \<and> compute_pbkdf2 c salt p n = Some key)"
  using hashes_equal_iff compute_pbkdf2_length [OF assms] hex_to_bytes_length
  by (auto simp: verify_pbkdf2_def parse_pbkdf2_record_def Let_def PW_HASH_LEN_def split: option.splits if_splits)

section \<open>Setting and checking\<close>

text \<open>The state while the record of \<open>salt\<close> and \<open>key\<close> is the stored one.\<close>

definition pw_holds :: "crypto \<Rightarrow> 'h nvs_raw \<Rightarrow> bytes \<Rightarrow> bytes \<Rightarrow> 'h pw_state \<Rightarrow> bool" where
  "pw_holds c api salt key st \<longleftrightarrow> length salt = PW_SALT_LEN \<and> length key = PW_HASH_LEN \<and>
     nvs_dup_str api (pw_nvs st) PW_NVS_KEY = Some (pw_record salt key) \<and>
     (fc_valid st \<longrightarrow> length (fc_salt st) = PW_SALT_LEN \<and>
        (\<exists>p. fc_hash st = compute_hash c (fc_salt st) p \<and> compute_pbkdf2 c salt p PW_PBKDF2_ITERS = Some key))"

lemma store_holds:
  assumes "crypto_ok c" and "pw_holds c api salt key st" and "compute_pbkdf2 c salt p PW_PBKDF2_ITERS = Some key"
  shows "pw_holds c api salt key (fast_cache_store c p st)"
  using assms by (auto simp: pw_holds_def fast_cache_store_def Let_def crypto_ok_def)

lemma set_holds:
  assumes "crypto_ok c" and "np_lawful api" and "set_web_password_hashed c api (Some p) st = (ESP_OK, st')" and "p \<noteq> []"
  obtains salt key where "compute_pbkdf2 c salt p PW_PBKDF2_ITERS = Some key" "pw_holds c api salt key st'"
proof -
  define salt where "salt = cr_random c (pw_draws st) PW_SALT_LEN"
  obtain key where key: "compute_pbkdf2 c salt p PW_PBKDF2_ITERS = Some key" "length key = 32"
    using compute_pbkdf2_total [OF assms(1), of PW_PBKDF2_ITERS salt p] by (auto simp: pw_consts)
  define st1 where "st1 = (fast_cache_invalidate st)\<lparr>pw_draws := pw_draws st + 1\<rparr>"
  have "pw_nvs st1 = pw_nvs st" "\<not> fc_valid st1" by (simp_all add: st1_def fast_cache_invalidate_def)
  obtain h where h: "nvs_write_str api (pw_nvs st) PW_NVS_KEY (pw_record salt key) = (ESP_OK, h)"
    and st': "st' = fast_cache_store c p (st1\<lparr>pw_nvs := h\<rparr>)"
    using assms(3,4) key(1)
    by (auto simp: set_web_password_hashed_def salt_def st1_def fast_cache_invalidate_def Let_def split: prod.splits if_splits)
  have "pw_holds c api salt key (st1\<lparr>pw_nvs := h\<rparr>)"
    using nvs_write_str_lawful [OF assms(2) h] key(2) assms(1) \<open>\<not> fc_valid st1\<close>
    by (simp add: pw_holds_def salt_def crypto_ok_def PW_HASH_LEN_def)
  then show ?thesis using store_holds [OF assms(1) _ key(1)] key(1) st' that by blast
qed

lemma verify_pw_record:
  assumes "crypto_ok c" and "length salt = PW_SALT_LEN" and "length key = PW_HASH_LEN"
  shows "verify_pbkdf2 c (pw_record salt key) p \<longleftrightarrow> compute_pbkdf2 c salt p PW_PBKDF2_ITERS = Some key"
  using assms parse_pw_record [of salt key] by (auto simp: verify_pbkdf2_parse pw_consts)

text \<open>Who is let in while the record stands.\<close>

definition pw_accepts :: "crypto \<Rightarrow> bytes \<Rightarrow> bytes \<Rightarrow> string \<Rightarrow> bool" where
  "pw_accepts c salt key q \<longleftrightarrow> (\<exists>p s. compute_pbkdf2 c salt p PW_PBKDF2_ITERS = Some key \<and>
     length s = PW_SALT_LEN \<and> compute_hash c s p = compute_hash c s q)"

lemma verify_holds:
  assumes "crypto_ok c" and "pw_holds c api salt key st" and "verify_web_password c api (Some q) st = (ok, st')"
  shows "pw_holds c api salt key st' \<and> (ok \<longrightarrow> pw_accepts c salt key q) \<and>
    (compute_pbkdf2 c salt q PW_PBKDF2_ITERS = Some key \<longrightarrow> ok) \<and>
    (\<not> fc_valid st \<longrightarrow> ok \<longrightarrow> compute_pbkdf2 c salt q PW_PBKDF2_ITERS = Some key)"
proof (cases "fast_cache_matches c st q")
  case True
  then have "fc_valid st" and h: "hashes_equal (fc_hash st) (compute_hash c (fc_salt st) q)"
    by (auto simp: fast_cache_matches_def split: if_splits)
  then obtain p where p: "fc_hash st = compute_hash c (fc_salt st) p" "compute_pbkdf2 c salt p PW_PBKDF2_ITERS = Some key"
    "length (fc_salt st) = PW_SALT_LEN"
    using assms(2) by (auto simp: pw_holds_def)
  then have "pw_accepts c salt key q"
    using h by (auto simp: pw_accepts_def hashes_equal_iff compute_hash_length [OF assms(1)])
  then show ?thesis using True assms(2,3) \<open>fc_valid st\<close> by (simp add: verify_web_password_def)
next
  case False
  let ?k = "compute_pbkdf2 c salt q PW_PBKDF2_ITERS = Some key"
  have l: "length salt = 16" "length key = 32" using assms(2) by (simp_all add: pw_holds_def pw_consts)
  then have v: "verify_pbkdf2 c (pw_record salt key) q \<longleftrightarrow> ?k" using verify_pw_record [OF assms(1)] by (simp add: pw_consts)
  have "nvs_dup_str api (pw_nvs st) PW_NVS_KEY = Some (pw_record salt key)" using assms(2) by (simp add: pw_holds_def)
  then have "(ok, st') = (?k, if ?k then fast_cache_store c q st else st)"
    using assms(3) False pw_record_prefix [OF l] v
    by (auto simp: verify_web_password_def verify_stored_def Let_def split: if_splits)
  moreover have "?k \<Longrightarrow> pw_accepts c salt key q"
    unfolding pw_accepts_def using Ex_list_of_length by metis
  ultimately show ?thesis using store_holds [OF assms(1,2)] assms(2) by auto
qed

fun verify_all :: "crypto \<Rightarrow> 'h nvs_raw \<Rightarrow> string list \<Rightarrow> 'h pw_state \<Rightarrow> 'h pw_state" where
  "verify_all c api [] st = st"
| "verify_all c api (q # qs) st = verify_all c api qs (snd (verify_web_password c api (Some q) st))"

lemma verify_all_holds: "crypto_ok c \<Longrightarrow> pw_holds c api salt key st \<Longrightarrow> pw_holds c api salt key (verify_all c api qs st)"
proof (induction qs arbitrary: st)
  case (Cons q qs)
  then show ?case using verify_holds [OF Cons.prems] by (cases "verify_web_password c api (Some q) st") simp
qed simp

text \<open>
  A password that was set without an error is what decides after any reset: exactly the
  passwords with the same derived key are accepted, and \<open>is_web_password_set\<close> says that there is one.
\<close>

theorem password_survives_reboot:
  assumes "crypto_ok c" and "np_lawful api" and "set_web_password_hashed c api (Some p) st = (ESP_OK, st')" and "p \<noteq> []"
  shows "\<exists>salt key. compute_pbkdf2 c salt p PW_PBKDF2_ITERS = Some key \<and>
    (\<forall>q k. fst (verify_web_password c api (Some q) (pw_boot (pw_nvs st') k)) = (compute_pbkdf2 c salt q PW_PBKDF2_ITERS = Some key))
    \<and> is_web_password_set api st'"
proof -
  obtain salt key where 1: "compute_pbkdf2 c salt p PW_PBKDF2_ITERS = Some key" "pw_holds c api salt key st'"
    using set_holds [OF assms] by blast
  then have h: "pw_holds c api salt key (pw_boot (pw_nvs st') k)" for k by (simp add: pw_holds_def pw_boot_def)
  have "fst (verify_web_password c api (Some q) (pw_boot (pw_nvs st') k)) = (compute_pbkdf2 c salt q PW_PBKDF2_ITERS = Some key)" for q k
    using verify_holds [OF assms(1) h [of k], of q] by (cases "verify_web_password c api (Some q) (pw_boot (pw_nvs st') k)") (auto simp: pw_boot_def)
  moreover have "is_web_password_set api st'"
    using 1(2) by (auto simp: is_web_password_set_def pw_holds_def pw_record_eq PW_PBKDF2_PREFIX_def pw_consts)
  ultimately show ?thesis using 1(1) by blast
qed

text \<open>
  C13: After a change of the password, and any number of right and wrong attempts, only the new one
  is accepted: whoever is let in has a password that the cache's hash does not tell from one with
  the new derived key, and who has that key is let in.  No earlier password survives in the cache.
\<close>

theorem password_change_final:
  assumes "crypto_ok c" and "np_lawful api" and "set_web_password_hashed c api (Some p) st = (ESP_OK, st')" and "p \<noteq> []"
  shows "\<exists>salt key. compute_pbkdf2 c salt p PW_PBKDF2_ITERS = Some key \<and>
    {r. compute_pbkdf2 c salt r PW_PBKDF2_ITERS = Some key} \<subseteq> {r. fst (verify_web_password c api (Some r) (verify_all c api qs st'))} \<and>
    {r. fst (verify_web_password c api (Some r) (verify_all c api qs st'))} \<subseteq> {r. pw_accepts c salt key r}"
proof -
  obtain salt key where 1: "compute_pbkdf2 c salt p PW_PBKDF2_ITERS = Some key" "pw_holds c api salt key st'"
    using set_holds [OF assms] by blast
  have v: "(compute_pbkdf2 c salt r PW_PBKDF2_ITERS = Some key \<longrightarrow> fst (verify_web_password c api (Some r) (verify_all c api qs st')))
      \<and> (fst (verify_web_password c api (Some r) (verify_all c api qs st')) \<longrightarrow> pw_accepts c salt key r)" for r
    using verify_holds [OF assms(1) verify_all_holds [OF assms(1) 1(2), of qs], of r]
    by (cases "verify_web_password c api (Some r) (verify_all c api qs st')") simp
  show ?thesis using 1(1) v by blast
qed

text \<open>
  The challenge login agrees with the password: after a password was set, the parameters given
  to the client are the salt and count its key is derived with, and a proof is accepted exactly
  when it is the HMAC of the message under that key.
\<close>

theorem password_proof_login:
  assumes "crypto_ok c" and "np_lawful api" and "set_web_password_hashed c api (Some p) st = (ESP_OK, st')" and "p \<noteq> []"
    and "length proof = PW_HASH_LEN" and "msg \<noteq> []"
  shows "\<exists>salt key. web_password_get_proof_params api st' = Some (PW_PBKDF2_ITERS, salt) \<and>
    compute_pbkdf2 c salt p PW_PBKDF2_ITERS = Some key \<and>
    verify_web_password_proof c api st' msg proof = (cr_hmac c key msg = Some proof)"
proof -
  obtain salt key where 1: "compute_pbkdf2 c salt p PW_PBKDF2_ITERS = Some key" "pw_holds c api salt key st'"
    using set_holds [OF assms(1-4)] by blast
  have p: "parse_pbkdf2_record (nvs_dup_str api (pw_nvs st') PW_NVS_KEY) = Some (PW_PBKDF2_ITERS, salt, key)"
    using 1(2) parse_pw_record [of salt key] by (simp add: pw_holds_def pw_consts)
  obtain h where h: "cr_hmac c key msg = Some h" "length h = 32" using assms(1) by (meson crypto_ok_def)
  have "cr_md c" using assms(1) by (simp add: crypto_ok_def)
  then show ?thesis
    using p h 1(1) assms(5,6) hashes_equal_iff [of h "proof"]
    by (auto simp: web_password_get_proof_params_def verify_web_password_proof_def PW_HASH_LEN_def)
qed

text \<open>
  After the password was cleared nobody is let in by a password or a proof, whatever was tried
  before, and the module says that no password is set.
\<close>

theorem password_clear_final:
  assumes "np_lawful api" and "set_web_password_hashed c api (Some []) st = (ESP_OK, st')"
  shows "verify_all c api qs st' = st' \<and> verify_web_password c api (Some r) st' = (False, st') \<and>
    \<not> is_web_password_set api st' \<and> web_password_get_proof_params api st' = None \<and> \<not> verify_web_password_proof c api st' msg pr"
proof -
  obtain h where "nvs_write_str api (pw_nvs st) PW_NVS_KEY [] = (ESP_OK, h)" "st' = (fast_cache_invalidate st)\<lparr>pw_nvs := h\<rparr>"
    using assms(2) by (auto simp: set_web_password_hashed_def fast_cache_invalidate_def Let_def split: prod.splits)
  then have s: "nvs_dup_str api (pw_nvs st') PW_NVS_KEY = Some []" "\<not> fc_valid st'"
    using nvs_write_str_lawful [OF assms(1)] by (auto simp: fast_cache_invalidate_def)
  have v: "verify_web_password c api (Some q) st' = (False, st')" for q
    using s by (simp add: verify_web_password_def fast_cache_matches_def verify_stored_def PW_PBKDF2_PREFIX_def
      verify_legacy_sha256_def strchr_def)
  have "verify_all c api qs st' = st'" by (induction qs) (simp_all add: v)
  then show ?thesis
    using s v by (simp add: is_web_password_set_def web_password_get_proof_params_def verify_web_password_proof_def
      parse_pbkdf2_record_def PW_PBKDF2_PREFIX_def)
qed

section \<open>The older record\<close>

lemma legacy_record:
  assumes "crypto_ok c" and "length salt = 16" and "length hash = 32"
  shows "verify_legacy_sha256 c (bytes_to_hex salt @ '':'' @ bytes_to_hex hash) p \<longleftrightarrow> compute_hash c salt p = hash"
proof -
  have "CHR '':'' \<notin> set (bytes_to_hex salt)" using bytes_to_hex_chars [of "CHR '':''" salt] by auto
  then have 1: "strchr CHR '':'' (bytes_to_hex salt @ '':'' @ bytes_to_hex hash) = Some 32"
    using assms(2) by (simp add: strchr_append)
  have "drop 33 (bytes_to_hex salt @ '':'' @ bytes_to_hex hash) = bytes_to_hex hash" using assms(2) by simp
  then show ?thesis
    using 1 hex_to_bytes_hex [of salt "'':'' @ bytes_to_hex hash"] hex_to_bytes_hex [of hash "[]"] assms
    by (auto simp: verify_legacy_sha256_def pw_consts hashes_equal_iff compute_hash_length)
qed

text \<open>
  A record of the older form decides by its salted SHA-256, and the first right password
  replaces it: the stored record is then a PBKDF2 record under which the same password is right.
\<close>

theorem legacy_upgrade:
  assumes "crypto_ok c" and "np_lawful api" and "\<not> fc_valid st" and "p \<noteq> []"
    and "length salt = 16" and "length hash = 32"
    and "nvs_dup_str api (pw_nvs st) PW_NVS_KEY = Some (bytes_to_hex salt @ '':'' @ bytes_to_hex hash)"
    and "fst (set_web_password_hashed c api (Some p) st) = ESP_OK"
  shows "case verify_web_password c api (Some p) st of (ok, st') \<Rightarrow>
    ok = (compute_hash c salt p = hash) \<and>
    (if ok then \<exists>salt' key. parse_pbkdf2_record (nvs_dup_str api (pw_nvs st') PW_NVS_KEY) = Some (PW_PBKDF2_ITERS, salt', key) \<and>
        compute_pbkdf2 c salt' p PW_PBKDF2_ITERS = Some key
     else st' = st)"
proof -
  let ?r = "bytes_to_hex salt @ '':'' @ bytes_to_hex hash"
  obtain st' where st': "set_web_password_hashed c api (Some p) st = (ESP_OK, st')" using assms(8) by (metis prod.collapse)
  obtain salt' key where 1: "compute_pbkdf2 c salt' p PW_PBKDF2_ITERS = Some key" "pw_holds c api salt' key st'"
    using set_holds [OF assms(1,2) st' assms(4)] by blast
  have "take (length PW_PBKDF2_PREFIX) ?r \<noteq> PW_PBKDF2_PREFIX"
  proof -
    obtain b bs where "salt = b # bs" using assms(5) by (cases salt) auto
    then have "hd (take (length PW_PBKDF2_PREFIX) ?r) = hex_lower (unat b div 16)" by (simp add: hex2_def PW_PBKDF2_PREFIX_def)
    moreover have "(of_char (hex_lower (unat b div 16)) :: nat) \<noteq> 112" using nibbles(2) [of b] by (simp add: of_hex_lower)
    moreover have "(of_char (hd PW_PBKDF2_PREFIX) :: nat) = 112" by (simp add: PW_PBKDF2_PREFIX_def)
    ultimately show ?thesis by metis
  qed
  then have v: "verify_web_password c api (Some p) st = (if compute_hash c salt p = hash then (True, st') else (False, st))"
    using assms(3,7) st' legacy_record [OF assms(1,5,6)]
    by (simp add: verify_web_password_def fast_cache_matches_def verify_stored_def Let_def)
  have "parse_pbkdf2_record (nvs_dup_str api (pw_nvs st') PW_NVS_KEY) = Some (PW_PBKDF2_ITERS, salt', key)"
    using 1(2) parse_pw_record [of salt' key] by (simp add: pw_holds_def pw_consts)
  then show ?thesis using v 1(1) by auto
qed

section \<open>A check that overlaps a change\<close>

text \<open>
  \<open>verify_web_password\<close> reads the record, computes for a second or more, and then fills the cache.
  When another task changes the password in between, the old password ends in the cache and is
  accepted after the change, until the next reset.
\<close>

theorem old_password_survives_race:
  assumes "crypto_ok c" and "pw_holds c api salt key st" and "compute_pbkdf2 c salt p PW_PBKDF2_ITERS = Some key"
    and "set_web_password_hashed c api (Some q) st = (ESP_OK, st1)"
  shows "\<exists>st2. verify_stored c api p (nvs_dup_str api (pw_nvs st) PW_NVS_KEY) st1 = (True, st2) \<and>
    verify_web_password c api (Some p) st2 = (True, st2)"
proof -
  have l: "length salt = 16" "length key = 32" "nvs_dup_str api (pw_nvs st) PW_NVS_KEY = Some (pw_record salt key)"
    using assms(2) by (simp_all add: pw_holds_def pw_consts)
  then have "verify_stored c api p (nvs_dup_str api (pw_nvs st) PW_NVS_KEY) st1 = (True, fast_cache_store c p st1)"
    using verify_pw_record [OF assms(1), of salt key p] assms(3) pw_record_prefix [OF l(1,2)]
    by (simp add: verify_stored_def Let_def pw_consts)
  moreover have "verify_web_password c api (Some p) (fast_cache_store c p st1) = (True, fast_cache_store c p st1)"
    using hashes_equal_iff compute_hash_length [OF assms(1)]
    by (simp add: verify_web_password_def fast_cache_matches_def fast_cache_store_def Let_def)
  ultimately show ?thesis by blast
qed

section \<open>Concrete runs\<close>

text \<open>Instances of the parameters: both hashes pad or cut, so that short inputs do not collide.\<close>

definition pad32 :: "bytes \<Rightarrow> bytes" where "pad32 b = take 32 (b @ replicate 32 0)"

definition demo_hmac :: "bytes \<Rightarrow> bytes \<Rightarrow> bytes" where
  "demo_hmac k m = (if last m = 1 then take 31 (k @ replicate 31 0) @ [0] else replicate 32 0)"

definition demo_crypto :: crypto where
  "demo_crypto = \<lparr>cr_sha256 = pad32, cr_md = True, cr_hmac = (\<lambda>k m. Some (demo_hmac k m)),
     cr_random = (\<lambda>k n. replicate n (of_nat k))\<rparr>"

lemma demo_crypto_ok: "crypto_ok demo_crypto"
  by (simp add: crypto_ok_def demo_crypto_def pad32_def demo_hmac_def min_def)

lemma demo_hmac_eq: "cr_hmac demo_crypto = (\<lambda>k m. Some (demo_hmac k m))"
  by (simp add: demo_crypto_def)

lemma demo_hash: "compute_hash demo_crypto s p = pad32 (s @ c_bytes p)"
  by (simp add: compute_hash_def demo_crypto_def)

lemma demo_key: "compute_pbkdf2 demo_crypto salt p PW_PBKDF2_ITERS = Some (take 31 (c_bytes p @ replicate 31 0) @ [0])"
proof -
  have x: "length h = 32 \<Longrightarrow> xor_into h (replicate 32 0) = h" for h
    by (rule nth_equalityI) (simp_all add: xor_into_def PW_HASH_LEN_def)
  have r: "last u = 0 \<Longrightarrow> length h = 32 \<Longrightarrow> pbkdf2_rounds demo_crypto key n u h = Some h" for key n u h
  proof (induction n arbitrary: u)
    case (Suc n)
    have "cr_hmac demo_crypto key u = Some (replicate 32 0)" using Suc.prems(1) by (simp add: demo_hmac_eq demo_hmac_def)
    then show ?case using Suc.IH [of "replicate 32 0"] Suc.prems(2) by (simp add: x)
  qed simp
  have "cr_hmac demo_crypto (c_bytes p) (salt @ [0, 0, 0, 1]) = Some (take 31 (c_bytes p @ replicate 31 0) @ [0])"
    by (simp add: demo_hmac_eq demo_hmac_def)
  moreover have "cr_md demo_crypto" by (simp add: demo_crypto_def)
  moreover have "\<not> PW_PBKDF2_ITERS < PW_PBKDF2_ITERS_MIN" "\<not> PW_PBKDF2_ITERS_MAX < PW_PBKDF2_ITERS"
    by (simp_all add: pw_consts)
  ultimately show ?thesis by (simp add: compute_pbkdf2_def r min_def)
qed

definition demo_flash :: map_params where "demo_flash = (Map.empty, Map.empty, Map.empty)"

definition demo_set :: "string \<Rightarrow> map_params pw_state" where
  "demo_set p = snd (set_web_password_hashed demo_crypto map_params (Some p) (pw_boot demo_flash 0))"

lemma map_params_write: "nvs_write_str map_params h k v = (ESP_OK, ((fst h)(k \<mapsto> v), snd h))"
  by (cases h) (simp add: nvs_write_str_def map_params_def)

lemma demo_set_ok: "set_web_password_hashed demo_crypto map_params (Some p) (pw_boot demo_flash 0) = (ESP_OK, demo_set p)"
  unfolding demo_set_def by (simp add: set_web_password_hashed_def demo_key map_params_write Let_def)

lemma demo_differ: "take 31 (c_bytes ''old1'' @ replicate 31 0) \<noteq> take 31 (c_bytes ''new1'' @ replicate 31 (0 :: u8))"
proof -
  have "(take 31 (c_bytes ''old1'' @ replicate 31 (0 :: u8))) ! 0 \<noteq> (take 31 (c_bytes ''new1'' @ replicate 31 0)) ! 0"
    by (simp add: c_bytes_def)
  then show ?thesis by metis
qed

lemma compute_pbkdf2_standard_witness:
  "compute_pbkdf2 demo_crypto [1, 2] ''new1'' 10000 = Some (pbkdf2_sha256 demo_hmac (c_bytes ''new1'') [1, 2] 10000)
   \<and> compute_pbkdf2 demo_crypto [1, 2] ''new1'' 9999 = None"
  using compute_pbkdf2_standard [OF demo_crypto_ok demo_hmac_eq, of "[1, 2]" "''new1''"] by (simp add: pw_consts)

lemma password_survives_reboot_witness:
  "fst (verify_web_password demo_crypto map_params (Some ''new1'') (pw_boot (pw_nvs (demo_set ''new1'')) 7)) \<and>
   \<not> fst (verify_web_password demo_crypto map_params (Some ''old1'') (pw_boot (pw_nvs (demo_set ''new1'')) 7))"
  using password_survives_reboot [OF demo_crypto_ok map_params_lawful demo_set_ok [of "''new1''"]] demo_differ
  by (auto simp: demo_key)

lemma password_change_final_witness:
  "let st = verify_all demo_crypto map_params [''old1'', ''new1'', ''old1''] (demo_set ''new1'')
   in fst (verify_web_password demo_crypto map_params (Some ''new1'') st) \<and>
      \<not> fst (verify_web_password demo_crypto map_params (Some ''old1'') st)"
proof -
  have n: "\<not> pw_accepts demo_crypto salt (take 31 (c_bytes ''new1'' @ replicate 31 0) @ [0]) ''old1''" for salt
  proof
    assume "pw_accepts demo_crypto salt (take 31 (c_bytes ''new1'' @ replicate 31 0) @ [0]) ''old1''"
    then obtain p s where 1: "take 31 (c_bytes p @ replicate 31 0) = take 31 (c_bytes ''new1'' @ replicate 31 0)"
      and 2: "length s = 16" "pad32 (s @ c_bytes p) = pad32 (s @ c_bytes ''old1'')"
      by (auto simp: pw_accepts_def demo_key demo_hash PW_SALT_LEN_def)
    have "(take 31 (c_bytes p @ replicate 31 0)) ! 0 = (take 31 (c_bytes ''new1'' @ replicate 31 (0 :: u8))) ! 0" by (simp only: 1)
    moreover have "pad32 (s @ c_bytes p) ! 16 = pad32 (s @ c_bytes ''old1'') ! 16" by (simp only: 2(2))
    ultimately show False using 2(1) by (cases p) (simp_all add: c_bytes_def pad32_def nth_append)
  qed
  show ?thesis
    using password_change_final [OF demo_crypto_ok map_params_lawful demo_set_ok [of "''new1''"], of "[''old1'', ''new1'', ''old1'']"] n
    unfolding Let_def demo_key by auto
qed

lemma password_proof_login_witness:
  "verify_web_password_proof demo_crypto map_params (demo_set ''new1'') [5, 1] (demo_hmac (take 31 (c_bytes ''new1'' @ replicate 31 0) @ [0]) [5, 1])
   \<and> \<not> verify_web_password_proof demo_crypto map_params (demo_set ''new1'') [5, 1] (replicate 32 0)"
proof -
  let ?k = "take 31 (c_bytes ''new1'' @ replicate 31 0) @ [0]"
  have 1: "length (demo_hmac ?k [5, 1]) = PW_HASH_LEN" by (simp add: demo_hmac_def PW_HASH_LEN_def)
  have 2: "length (replicate 32 (0 :: u8)) = PW_HASH_LEN" by (simp add: PW_HASH_LEN_def)
  have "(demo_hmac ?k [5, 1]) ! 0 \<noteq> (replicate 32 (0 :: u8)) ! 0" by (simp add: demo_hmac_def c_bytes_def)
  then have "demo_hmac ?k [5, 1] \<noteq> replicate 32 0" by metis
  then show ?thesis
    using password_proof_login [OF demo_crypto_ok map_params_lawful demo_set_ok [of "''new1''"] _ 1, of "[5, 1]"]
      password_proof_login [OF demo_crypto_ok map_params_lawful demo_set_ok [of "''new1''"] _ 2, of "[5, 1]"]
    by (simp add: demo_key demo_hmac_eq)
qed

lemma password_clear_final_witness:
  "verify_web_password demo_crypto map_params (Some ''new1'') (demo_set []) = (False, demo_set [])"
  using password_clear_final [OF map_params_lawful demo_set_ok [of "[]"], of "[]" "''new1''"] by simp

definition demo_legacy :: "map_params pw_state" where
  "demo_legacy = pw_boot ([PW_NVS_KEY \<mapsto> bytes_to_hex (replicate 16 7) @ '':'' @ bytes_to_hex (pad32 (replicate 16 7 @ c_bytes ''old1''))],
     Map.empty, Map.empty) 0"

lemma legacy_upgrade_witness:
  "case verify_web_password demo_crypto map_params (Some ''old1'') demo_legacy of (ok, st') \<Rightarrow>
     ok \<and> (\<exists>salt' key. parse_pbkdf2_record (nvs_dup_str map_params (pw_nvs st') PW_NVS_KEY) = Some (PW_PBKDF2_ITERS, salt', key))"
proof -
  have "fst (set_web_password_hashed demo_crypto map_params (Some ''old1'') demo_legacy) = ESP_OK"
    by (simp add: set_web_password_hashed_def demo_key map_params_write Let_def)
  moreover have "nvs_dup_str map_params (pw_nvs demo_legacy) PW_NVS_KEY
      = Some (bytes_to_hex (replicate 16 7) @ '':'' @ bytes_to_hex (pad32 (replicate 16 7 @ c_bytes ''old1'')))"
    by (simp add: nvs_dup_str_def map_params_def demo_legacy_def pw_boot_def lookup_param_def)
  moreover have fc: "\<not> fc_valid demo_legacy" by (simp add: demo_legacy_def pw_boot_def)
  moreover have "length (pad32 b) = 32" for b by (simp add: pad32_def)
  ultimately show ?thesis
    using legacy_upgrade [OF demo_crypto_ok map_params_lawful, of demo_legacy "''old1''" "replicate 16 7" "pad32 (replicate 16 7 @ c_bytes ''old1'')"]
    by (auto simp: demo_hash split: prod.splits)
qed

end
