(* ===== verification/Web_Auth.thy ===== *)
theory Web_Auth
  imports Web_Password
begin

text \<open>
  The login of the web interface (\<open>main/web_ui.c\<close>): sessions with a sliding time-out, the delay after
  wrong guesses, one-time challenges, and the handlers under \<open>/api/auth\<close>.  A handler is a function
  from a request to a reply and the new state.  The server runs one handler at a time.

  The text of a request body is turned into its string-valued members by \<open>js\<close>, which stands for
  cJSON; a body that is no JSON object has none.  The values a handler reads from
  \<open>esp_timer_get_time\<close> are its arguments \<open>t0\<close>, \<open>t1\<close>, \<open>t2\<close>; two readings in a row are one value.
\<close>

section \<open>Requests and replies\<close>

text \<open>What one call of \<open>httpd_req_recv\<close> gives.\<close>

datatype recv = Got string | Recv_timeout | Recv_error

text \<open>\<open>rq_cookie\<close>: the header; \<open>rq_peer\<close>, \<open>rq_local\<close>: the IPv4 addresses of the socket.\<close>

record http_req =
  rq_cookie :: "string option"
  rq_peer :: "u32 option"
  rq_local :: "u32 option"
  rq_len :: int
  rq_chunks :: "recv list"

datatype reply =
    Json_ok "string option"
  | Params "(u32 \<times> bytes \<times> bytes) option"
  | Http_err nat
  | Rate_limited u32
  | Dropped

text \<open>\<open>httpd_req_get_hdr_value_str\<close> into a buffer: a value that does not fit is an error.\<close>

definition hdr_value :: "string option \<Rightarrow> nat \<Rightarrow> string option" where
  "hdr_value v z = (case v of None \<Rightarrow> None | Some s \<Rightarrow> if length s < z then Some s else None)"

text \<open>\<open>recv_body\<close>: the text, or the reply to send.\<close>

fun recv_loop :: "nat \<Rightarrow> string \<Rightarrow> recv list \<Rightarrow> reply + string" where
  "recv_loop n acc chunks =
     (if length acc < n
      then case chunks of
          [] \<Rightarrow> Inl Dropped
        | Got d # rest \<Rightarrow> if d = [] then Inl Dropped else recv_loop n (acc @ take (n - length acc) d) rest
        | Recv_timeout # rest \<Rightarrow> Inl (Http_err 408)
        | Recv_error # rest \<Rightarrow> Inl Dropped
      else Inr acc)"

declare recv_loop.simps [simp del]

definition recv_body :: "http_req \<Rightarrow> nat \<Rightarrow> reply + string" where
  "recv_body req z =
     (if rq_len req \<le> 0 \<or> int z \<le> rq_len req then Inl (Http_err 400)
      else recv_loop (nat (rq_len req)) [] (rq_chunks req))"

section \<open>State\<close>

definition WEB_UI_SESSION_TOKEN_LEN :: nat where "WEB_UI_SESSION_TOKEN_LEN = 32"
definition WEB_UI_SESSION_TIMEOUT_DEF_S :: u32 where "WEB_UI_SESSION_TIMEOUT_DEF_S = 30 * 60"
definition WEB_UI_SESSION_TIMEOUT_MIN_S :: u32 where "WEB_UI_SESSION_TIMEOUT_MIN_S = 60"
definition WEB_UI_SESSION_TIMEOUT_MAX_S :: u32 where "WEB_UI_SESSION_TIMEOUT_MAX_S = 8 * 60 * 60"
definition WEB_UI_SESSION_MAX :: nat where "WEB_UI_SESSION_MAX = 4"
definition LOGIN_GUARD_SLOTS :: nat where "LOGIN_GUARD_SLOTS = 16"
definition LOGIN_CHALLENGE_SLOTS :: nat where "LOGIN_CHALLENGE_SLOTS = 8"
definition LOGIN_CHALLENGE_NONCE_LEN :: nat where "LOGIN_CHALLENGE_NONCE_LEN = 16"
definition LOGIN_CHALLENGE_TTL_US :: u64 where "LOGIN_CHALLENGE_TTL_US = 30 * 1000000"
definition WEB_UI_PASSWORD_MIN_LEN :: nat where "WEB_UI_PASSWORD_MIN_LEN = 4"

definition login_proof_context :: bytes where "login_proof_context = c_bytes ''esp32-router-login-v1''"

record session =
  ss_token :: string
  ss_expires :: u64

record guard =
  lg_ip :: u32
  lg_failures :: u8
  lg_blocked :: u64
  lg_seen :: u64

record challenge =
  ch_ip :: u32
  ch_nonce :: bytes
  ch_expires :: u64

definition no_session :: session where "no_session = \<lparr>ss_token = [], ss_expires = 0\<rparr>"
definition no_guard :: guard where "no_guard = \<lparr>lg_ip = 0, lg_failures = 0, lg_blocked = 0, lg_seen = 0\<rparr>"
definition no_challenge :: challenge where
  "no_challenge = \<lparr>ch_ip = 0, ch_nonce = replicate LOGIN_CHALLENGE_NONCE_LEN 0, ch_expires = 0\<rparr>"

record 'h auth_state =
  au_sessions :: "session list"
  au_timeout :: u32
  au_enabled :: bool
  au_guards :: "guard list"
  au_challenges :: "challenge list"
  au_pw :: "'h pw_state"

definition auth_boot :: "'h pw_state \<Rightarrow> 'h auth_state" where
  "auth_boot pw = \<lparr>au_sessions = replicate WEB_UI_SESSION_MAX no_session, au_timeout = WEB_UI_SESSION_TIMEOUT_DEF_S,
     au_enabled = True, au_guards = replicate LOGIN_GUARD_SLOTS no_guard,
     au_challenges = replicate LOGIN_CHALLENGE_SLOTS no_challenge, au_pw = pw\<rparr>"

text \<open>\<open>esp_fill_random\<close>\<close>

definition fill_random :: "crypto \<Rightarrow> nat \<Rightarrow> 'h auth_state \<Rightarrow> bytes \<times> 'h auth_state" where
  "fill_random c n st = (cr_random c (pw_draws (au_pw st)) n, st\<lparr>au_pw := (au_pw st)\<lparr>pw_draws := pw_draws (au_pw st) + 1\<rparr>\<rparr>)"

section \<open>Sessions\<close>

definition session_timeout_clamp :: "u32 \<Rightarrow> u32" where
  "session_timeout_clamp v =
     (if v = 0 then 0
      else if v < WEB_UI_SESSION_TIMEOUT_MIN_S then WEB_UI_SESSION_TIMEOUT_MIN_S
      else if WEB_UI_SESSION_TIMEOUT_MAX_S < v then WEB_UI_SESSION_TIMEOUT_MAX_S
      else v)"

text \<open>The loaders get what the typed accessors of \<open>nvs_params.c\<close> return.\<close>

definition session_timeout_load :: "esp_err + u32 \<Rightarrow> 'h auth_state \<Rightarrow> 'h auth_state" where
  "session_timeout_load r st =
     st\<lparr>au_timeout := (case r of Inr v \<Rightarrow> session_timeout_clamp v | Inl _ \<Rightarrow> WEB_UI_SESSION_TIMEOUT_DEF_S)\<rparr>"

definition web_auth_setting_load :: "esp_err + u8 \<Rightarrow> 'h auth_state \<Rightarrow> 'h auth_state" where
  "web_auth_setting_load r st = st\<lparr>au_enabled := (case r of Inr v \<Rightarrow> v \<noteq> 0 | Inl _ \<Rightarrow> True)\<rparr>"

definition session_alive :: "'h auth_state \<Rightarrow> u64 \<Rightarrow> bool" where
  "session_alive st now = list_ex (\<lambda>s. ss_token s \<noteq> [] \<and> now < ss_expires s) (au_sessions st)"

definition session_clear_all :: "'h auth_state \<Rightarrow> 'h auth_state" where
  "session_clear_all st = st\<lparr>au_sessions := map (\<lambda>_. no_session) (au_sessions st)\<rparr>"

definition session_matches :: "string \<Rightarrow> u64 \<Rightarrow> session \<Rightarrow> bool" where
  "session_matches p now s =
     (let n = length (ss_token s) in
      ss_token s \<noteq> [] \<and> now < ss_expires s \<and> take n p = ss_token s \<and> (drop n p = [] \<or> hd (drop n p) = CHR '';''))"

definition session_find_for_req :: "'h auth_state \<Rightarrow> http_req \<Rightarrow> u64 \<Rightarrow> nat option" where
  "session_find_for_req st req now =
     (case hdr_value (rq_cookie req) 160 of None \<Rightarrow> None
      | Some hdr \<Rightarrow> (case strstr ''ts_session='' hdr of None \<Rightarrow> None
          | Some p \<Rightarrow> find_index (session_matches (drop (length ''ts_session='') p) now) (au_sessions st)))"

text \<open>The first free slot, or the one that expires first.\<close>

fun pick_slot :: "session list \<Rightarrow> nat \<Rightarrow> nat \<Rightarrow> u64 \<Rightarrow> nat" where
  "pick_slot [] i oldest_idx oldest_exp = oldest_idx"
| "pick_slot (s # ss) i oldest_idx oldest_exp =
     (if ss_token s = [] then i
      else if ss_expires s < oldest_exp then pick_slot ss (i + 1) i (ss_expires s)
      else pick_slot ss (i + 1) oldest_idx oldest_exp)"

definition session_pick_new_slot :: "'h auth_state \<Rightarrow> nat" where
  "session_pick_new_slot st = pick_slot (au_sessions st) 0 0 (- 1)"

definition expiry :: "'h auth_state \<Rightarrow> u64 \<Rightarrow> u64" where
  "expiry st now = (if au_timeout st = 0 then - 1 else now + ucast (au_timeout st) * 1000000)"

definition session_create :: "crypto \<Rightarrow> 'h auth_state \<Rightarrow> u64 \<Rightarrow> string \<times> 'h auth_state" where
  "session_create c st now =
     (let idx = session_pick_new_slot st in
      case fill_random c WEB_UI_SESSION_TOKEN_LEN st of (raw, st) \<Rightarrow>
        (bytes_to_hex raw,
         st\<lparr>au_sessions := (au_sessions st)[idx := \<lparr>ss_token = bytes_to_hex raw, ss_expires = expiry st now\<rparr>]\<rparr>))"

definition session_clear_slot :: "nat option \<Rightarrow> 'h auth_state \<Rightarrow> 'h auth_state" where
  "session_clear_slot idx st =
     (case idx of None \<Rightarrow> st
      | Some i \<Rightarrow> if WEB_UI_SESSION_MAX \<le> i then st else st\<lparr>au_sessions := (au_sessions st)[i := no_session]\<rparr>)"

definition session_extend_all_alive :: "'h auth_state \<Rightarrow> u64 \<Rightarrow> 'h auth_state" where
  "session_extend_all_alive st now =
     st\<lparr>au_sessions := map (\<lambda>s. if ss_token s \<noteq> [] \<and> now < ss_expires s then s\<lparr>ss_expires := expiry st now\<rparr> else s) (au_sessions st)\<rparr>"

definition session_remaining_s_for_req :: "'h auth_state \<Rightarrow> http_req \<Rightarrow> u64 \<Rightarrow> u32" where
  "session_remaining_s_for_req st req now =
     (case session_find_for_req st req now of None \<Rightarrow> 0
      | Some idx \<Rightarrow> if au_timeout st = 0 then 0
          else let e = ss_expires (au_sessions st ! idx) in if e \<le> now then 0 else ucast ((e - now) div 1000000))"

definition request_authenticated :: "'h nvs_raw \<Rightarrow> 'h auth_state \<Rightarrow> http_req \<Rightarrow> u64 \<Rightarrow> bool \<times> 'h auth_state" where
  "request_authenticated api st req now =
     (if \<not> au_enabled st \<or> \<not> is_web_password_set api (au_pw st) then (True, st)
      else case session_find_for_req st req now of None \<Rightarrow> (False, st)
      | Some idx \<Rightarrow> (True, st\<lparr>au_sessions := (au_sessions st)[idx := (au_sessions st ! idx)\<lparr>ss_expires := expiry st now\<rparr>]\<rparr>))"

text \<open>The error that was sent, if any.\<close>

definition require_auth :: "'h nvs_raw \<Rightarrow> 'h auth_state \<Rightarrow> http_req \<Rightarrow> u64 \<Rightarrow> reply option \<times> 'h auth_state" where
  "require_auth api st req now =
     (case request_authenticated api st req now of (ok, st) \<Rightarrow> (if ok then None else Some (Http_err 401), st))"

definition require_password_session :: "'h nvs_raw \<Rightarrow> 'h auth_state \<Rightarrow> http_req \<Rightarrow> u64 \<Rightarrow> reply option" where
  "require_password_session api st req now =
     (if is_web_password_set api (au_pw st) \<and> session_find_for_req st req now \<noteq> None then None else Some (Http_err 403))"

section \<open>Wrong guesses\<close>

definition request_peer_ipv4 :: "http_req \<Rightarrow> u32" where
  "request_peer_ipv4 req = (case rq_peer req of None \<Rightarrow> 0 | Some ip \<Rightarrow> ip)"

text \<open>The slot of the client, or the one to reuse: the first unused one, or the one not seen for longest.\<close>

fun guard_scan :: "guard list \<Rightarrow> u32 \<Rightarrow> nat \<Rightarrow> nat \<Rightarrow> u64 \<Rightarrow> bool \<times> nat" where
  "guard_scan [] ip i oldest oldest_seen = (False, oldest)"
| "guard_scan (g # gs) ip i oldest oldest_seen =
     (if lg_ip g = ip \<and> lg_seen g \<noteq> 0 then (True, i)
      else if lg_seen g = 0 then (False, i)
      else if lg_seen g < oldest_seen then guard_scan gs ip (i + 1) i (lg_seen g)
      else guard_scan gs ip (i + 1) oldest oldest_seen)"

definition login_guard_for :: "guard list \<Rightarrow> u32 \<Rightarrow> nat \<times> guard list" where
  "login_guard_for gs ip =
     (case guard_scan gs ip 0 0 (- 1) of
        (True, i) \<Rightarrow> (i, gs)
      | (False, i) \<Rightarrow> (i, gs[i := no_guard\<lparr>lg_ip := ip\<rparr>]))"

definition login_guard_reject :: "guard list \<Rightarrow> u32 \<Rightarrow> u64 \<Rightarrow> reply option \<times> nat \<times> guard list" where
  "login_guard_reject gs ip now =
     (case login_guard_for gs ip of (i, gs) \<Rightarrow>
        let gs = gs[i := (gs ! i)\<lparr>lg_seen := now\<rparr>]; blocked = lg_blocked (gs ! i) in
        (if blocked \<le> now then None else Some (Rate_limited (ucast ((blocked - now + 999999) div 1000000))), i, gs))"

definition login_guard_failed :: "guard list \<Rightarrow> nat \<Rightarrow> u64 \<Rightarrow> guard list" where
  "login_guard_failed gs i now =
     (let g = gs ! i;
          g = (if lg_failures g < 255 then g\<lparr>lg_failures := lg_failures g + 1\<rparr> else g) in
      if lg_failures g < 3 then gs[i := g]
      else
        let shift = unat (lg_failures g) - 3;
            delay_s = (if 6 \<le> shift then 60 else push_bit shift 1 :: u32) in
        gs[i := g\<lparr>lg_blocked := now + ucast delay_s * 1000000\<rparr>])"

section \<open>Challenges\<close>

fun challenge_slot :: "challenge list \<Rightarrow> u64 \<Rightarrow> nat \<Rightarrow> nat \<Rightarrow> u64 \<Rightarrow> nat" where
  "challenge_slot [] now i slot oldest_expiry = slot"
| "challenge_slot (c # cs) now i slot oldest_expiry =
     (if ch_expires c \<le> now then i
      else if ch_expires c < oldest_expiry then challenge_slot cs now (i + 1) i (ch_expires c)
      else challenge_slot cs now (i + 1) slot oldest_expiry)"

definition login_challenge_issue :: "crypto \<Rightarrow> 'h auth_state \<Rightarrow> http_req \<Rightarrow> u64 \<Rightarrow> bytes \<times> 'h auth_state" where
  "login_challenge_issue c st req now =
     (let slot = challenge_slot (au_challenges st) now 0 0 (- 1) in
      case fill_random c LOGIN_CHALLENGE_NONCE_LEN st of (nonce, st) \<Rightarrow>
        (nonce, st\<lparr>au_challenges := (au_challenges st)[slot :=
           \<lparr>ch_ip = request_peer_ipv4 req, ch_nonce = nonce, ch_expires = now + LOGIN_CHALLENGE_TTL_US\<rparr>]\<rparr>))"

definition login_challenge_consume :: "challenge list \<Rightarrow> u32 \<Rightarrow> bytes \<Rightarrow> u64 \<Rightarrow> bool \<times> challenge list" where
  "login_challenge_consume cs ip nonce now =
     (case find_index (\<lambda>c. now < ch_expires c \<and> ch_ip c = ip \<and> ch_nonce c = nonce) cs of
        None \<Rightarrow> (False, cs)
      | Some i \<Rightarrow> (True, cs[i := no_challenge]))"

section \<open>Handlers\<close>

text \<open>\<open>root_ok\<close>, \<open>body_ok\<close>: whether cJSON finds memory.\<close>

definition auth_challenge_handler :: "crypto \<Rightarrow> 'h nvs_raw \<Rightarrow> bool \<Rightarrow> bool \<Rightarrow> http_req \<Rightarrow> u64 \<Rightarrow> u64 \<Rightarrow> 'h auth_state \<Rightarrow> reply \<times> 'h auth_state" where
  "auth_challenge_handler c api root_ok body_ok req t0 t1 st =
     (case login_guard_reject (au_guards st) (request_peer_ipv4 req) t0 of
        (rejected, guard, gs) \<Rightarrow>
          let st = st\<lparr>au_guards := gs\<rparr> in
          (case rejected of Some r \<Rightarrow> (r, st)
           | None \<Rightarrow>
              if \<not> root_ok then (Http_err 500, st)
              else (case web_password_get_proof_params api (au_pw st) of
                  None \<Rightarrow> (if body_ok then Params None else Http_err 500, st)
                | Some (iterations, salt) \<Rightarrow>
                    (case login_challenge_issue c st req t1 of
                       (nonce, st) \<Rightarrow> (if body_ok then Params (Some (iterations, salt, nonce)) else Http_err 500, st)))))"

text \<open>
  What a login attempt proves.  \<open>nonce\<close>, \<open>proof\<close> and \<open>pw\<close> are the members of the body.  The result: whether
  a proof was required and not given, and whether the attempt is right.
\<close>

definition login_check :: "crypto \<Rightarrow> 'h nvs_raw \<Rightarrow> string option \<Rightarrow> string option \<Rightarrow> string option \<Rightarrow> u32 \<Rightarrow> u64 \<Rightarrow> 'h auth_state
    \<Rightarrow> (bool \<times> bool) \<times> 'h auth_state" where
  "login_check c api nonce proof pw ip t1 st =
     (if nonce \<noteq> None \<and> proof \<noteq> None then
        (case (hex_decode_exact nonce LOGIN_CHALLENGE_NONCE_LEN, hex_decode_exact proof PW_HASH_LEN) of
           (Some n, Some pr) \<Rightarrow>
             (case login_challenge_consume (au_challenges st) ip n t1 of
                (consumed, cs) \<Rightarrow> let st = st\<lparr>au_challenges := cs\<rparr> in
                  ((False, consumed \<and> verify_web_password_proof c api (au_pw st) (login_proof_context @ n) pr), st))
         | _ \<Rightarrow> ((False, False), st))
      else if web_password_get_proof_params api (au_pw st) \<noteq> None then ((True, False), st)
      else (case verify_web_password c api pw (au_pw st) of (ok, pws) \<Rightarrow> ((False, ok), st\<lparr>au_pw := pws\<rparr>)))"

definition session_cookie :: "string \<Rightarrow> u32 \<Rightarrow> string" where
  "session_cookie token timeout =
     take (160 - 1) (''ts_session='' @ token @ ''; Path=/; HttpOnly; SameSite=Strict''
       @ (if timeout = 0 then [] else ''; Max-Age='' @ dec (unat timeout)))"

definition auth_login_handler :: "crypto \<Rightarrow> 'h nvs_raw \<Rightarrow> (string \<Rightarrow> string \<Rightarrow> string option) \<Rightarrow> http_req \<Rightarrow> u64 \<Rightarrow> u64 \<Rightarrow> u64
    \<Rightarrow> 'h auth_state \<Rightarrow> reply \<times> 'h auth_state" where
  "auth_login_handler c api js req t0 t1 t2 st =
     (case login_guard_reject (au_guards st) (request_peer_ipv4 req) t0 of
        (rejected, guard, gs) \<Rightarrow>
          let st = st\<lparr>au_guards := gs\<rparr> in
          (case rejected of Some r \<Rightarrow> (r, st)
           | None \<Rightarrow> (case recv_body req 256 of Inl r \<Rightarrow> (r, st)
             | Inr buf \<Rightarrow>
               let pw = js buf ''password''; nonce = js buf ''nonce''; proof = js buf ''proof'' in
               if pw = None \<and> (nonce = None \<or> proof = None) then (Http_err 400, st)
               else (case login_check c api nonce proof pw (request_peer_ipv4 req) t1 st of
                 ((proof_required, ok), st) \<Rightarrow>
                   if proof_required then (Http_err 400, st)
                   else if \<not> ok then (Http_err 401, st\<lparr>au_guards := login_guard_failed (au_guards st) guard t2\<rparr>)
                   else
                     (case session_create c (st\<lparr>au_guards := (au_guards st)[guard := no_guard]\<rparr>) t2 of
                        (token, st) \<Rightarrow> (Json_ok (Some (session_cookie token (au_timeout st))), st))))))"

definition clear_cookie :: string where "clear_cookie = ''ts_session=; Path=/; HttpOnly; Max-Age=0''"

definition auth_logout_handler :: "http_req \<Rightarrow> u64 \<Rightarrow> 'h auth_state \<Rightarrow> reply \<times> 'h auth_state" where
  "auth_logout_handler req t0 st =
     (Json_ok (Some clear_cookie), session_clear_slot (session_find_for_req st req t0) st)"

text \<open>Whether a password is refused.\<close>

definition check_password_policy :: "string option \<Rightarrow> bool" where
  "check_password_policy pw = (case pw of None \<Rightarrow> True | Some s \<Rightarrow> length s < WEB_UI_PASSWORD_MIN_LEN)"

text \<open>\<open>ap_on\<close>: the access point runs; \<open>ap_ip\<close>: its address.\<close>

definition request_arrived_on_ap :: "bool \<Rightarrow> u32 option \<Rightarrow> http_req \<Rightarrow> bool" where
  "request_arrived_on_ap ap_on ap_ip req = (ap_on \<and> rq_local req \<noteq> None \<and> ap_ip \<noteq> None \<and> rq_local req = ap_ip)"

definition auth_setup_handler :: "crypto \<Rightarrow> 'h nvs_raw \<Rightarrow> (string \<Rightarrow> string \<Rightarrow> string option) \<Rightarrow> bool \<Rightarrow> u32 option \<Rightarrow> http_req \<Rightarrow> u64
    \<Rightarrow> 'h auth_state \<Rightarrow> reply \<times> 'h auth_state" where
  "auth_setup_handler c api js ap_on ap_ip req t0 st =
     (if is_web_password_set api (au_pw st) then (Http_err 400, st)
      else if \<not> request_arrived_on_ap ap_on ap_ip req then (Http_err 403, st)
      else (case recv_body req 256 of Inl r \<Rightarrow> (r, st)
        | Inr buf \<Rightarrow>
          let pw = js buf ''password'' in
          if check_password_policy pw then (Http_err 400, st)
          else (case set_web_password_hashed c api pw (au_pw st) of
            (err, pws) \<Rightarrow> let st = st\<lparr>au_pw := pws\<rparr> in
              if err \<noteq> ESP_OK then (Http_err 500, st)
              else (case session_create c st t0 of
                (token, st) \<Rightarrow> (Json_ok (Some (session_cookie token (au_timeout st))), st)))))"

definition auth_change_password_handler :: "crypto \<Rightarrow> 'h nvs_raw \<Rightarrow> (string \<Rightarrow> string \<Rightarrow> string option) \<Rightarrow> http_req \<Rightarrow> u64 \<Rightarrow> u64 \<Rightarrow> u64
    \<Rightarrow> 'h auth_state \<Rightarrow> reply \<times> 'h auth_state" where
  "auth_change_password_handler c api js req t0 t1 t2 st =
     (case require_auth api st req t0 of (Some r, st) \<Rightarrow> (r, st)
      | (None, st) \<Rightarrow>
        (case login_guard_reject (au_guards st) (request_peer_ipv4 req) t1 of
          (rejected, guard, gs) \<Rightarrow>
            let st = st\<lparr>au_guards := gs\<rparr> in
            (case rejected of Some r \<Rightarrow> (r, st)
             | None \<Rightarrow> (case recv_body req 512 of Inl r \<Rightarrow> (r, st)
               | Inr buf \<Rightarrow>
                 let old_pw = js buf ''old_password''; new_pw = js buf ''new_password'' in
                 if old_pw = None \<or> new_pw = None then (Http_err 400, st)
                 else (case verify_web_password c api old_pw (au_pw st) of
                   (ok, pws) \<Rightarrow> let st = st\<lparr>au_pw := pws\<rparr> in
                     if \<not> ok then (Http_err 401, st\<lparr>au_guards := login_guard_failed (au_guards st) guard t2\<rparr>)
                     else if check_password_policy new_pw then (Http_err 400, st)
                     else (case set_web_password_hashed c api new_pw (au_pw st) of
                       (err, pws) \<Rightarrow> let st = st\<lparr>au_pw := pws\<rparr> in
                         if err \<noteq> ESP_OK then (Http_err 500, st)
                         else (Json_ok (Some clear_cookie),
                           session_clear_all (st\<lparr>au_guards := (au_guards st)[guard := no_guard]\<rparr>))))))))"

definition auth_clear_password_handler :: "crypto \<Rightarrow> 'h nvs_raw \<Rightarrow> http_req \<Rightarrow> u64 \<Rightarrow> 'h auth_state \<Rightarrow> reply \<times> 'h auth_state" where
  "auth_clear_password_handler c api req t0 st =
     (case require_password_session api st req t0 of Some r \<Rightarrow> (r, st)
      | None \<Rightarrow> (Json_ok (Some clear_cookie),
          session_clear_all (st\<lparr>au_pw := snd (set_web_password_hashed c api (Some []) (au_pw st))\<rparr>)))"

text \<open>The policy and the state the page asks for.\<close>

record auth_status =
  as_enabled :: bool
  as_password_set :: bool
  as_required :: bool
  as_authenticated :: bool
  as_device_name :: string
  as_timeout :: u32
  as_remaining :: u32

definition device_name_dup :: "'h nvs_raw \<Rightarrow> 'h \<Rightarrow> string" where
  "device_name_dup api h =
     (case nvs_param_get_str api h ''dev_name'' of None \<Rightarrow> ''ESP32 Router'' | Some s \<Rightarrow> if s \<noteq> [] then s else ''ESP32 Router'')"

definition auth_status_handler :: "'h nvs_raw \<Rightarrow> http_req \<Rightarrow> u64 \<Rightarrow> 'h auth_state \<Rightarrow> auth_status \<times> 'h auth_state" where
  "auth_status_handler api req t0 st =
     (case request_authenticated api st req t0 of (ok, st') \<Rightarrow>
       (\<lparr>as_enabled = au_enabled st, as_password_set = is_web_password_set api (au_pw st),
         as_required = au_enabled st \<and> is_web_password_set api (au_pw st), as_authenticated = ok,
         as_device_name = device_name_dup api (pw_nvs (au_pw st)), as_timeout = au_timeout st,
         as_remaining = session_remaining_s_for_req st' req t0\<rparr>, st'))"

section \<open>Runs\<close>

text \<open>
  The calls of the handlers, in the order the server makes them.  A page is any handler behind
  \<open>require_auth\<close>; the two settings are what \<open>system_save_handler\<close> does with them.
\<close>

datatype auth_event =
    Ev_challenge bool bool http_req u64 u64
  | Ev_login http_req u64 u64 u64
  | Ev_logout http_req u64
  | Ev_setup bool "u32 option" http_req u64
  | Ev_change http_req u64 u64 u64
  | Ev_clear http_req u64
  | Ev_page http_req u64
  | Ev_timeout u32 u64
  | Ev_enable bool

fun auth_step :: "crypto \<Rightarrow> 'h nvs_raw \<Rightarrow> (string \<Rightarrow> string \<Rightarrow> string option) \<Rightarrow> auth_event \<Rightarrow> 'h auth_state \<Rightarrow> reply \<times> 'h auth_state" where
  "auth_step c api js (Ev_challenge root_ok body_ok req t0 t1) st = auth_challenge_handler c api root_ok body_ok req t0 t1 st"
| "auth_step c api js (Ev_login req t0 t1 t2) st = auth_login_handler c api js req t0 t1 t2 st"
| "auth_step c api js (Ev_logout req t0) st = auth_logout_handler req t0 st"
| "auth_step c api js (Ev_setup ap_on ap_ip req t0) st = auth_setup_handler c api js ap_on ap_ip req t0 st"
| "auth_step c api js (Ev_change req t0 t1 t2) st = auth_change_password_handler c api js req t0 t1 t2 st"
| "auth_step c api js (Ev_clear req t0) st = auth_clear_password_handler c api req t0 st"
| "auth_step c api js (Ev_page req t0) st =
     (case require_auth api st req t0 of (r, st) \<Rightarrow> (case r of None \<Rightarrow> Json_ok None | Some r \<Rightarrow> r, st))"
| "auth_step c api js (Ev_timeout v t0) st =
     (Json_ok None, session_extend_all_alive (st\<lparr>au_timeout := session_timeout_clamp v\<rparr>) t0)"
| "auth_step c api js (Ev_enable b) st = (Json_ok None, st\<lparr>au_enabled := b\<rparr>)"

fun auth_run :: "crypto \<Rightarrow> 'h nvs_raw \<Rightarrow> (string \<Rightarrow> string \<Rightarrow> string option) \<Rightarrow> auth_event list \<Rightarrow> 'h auth_state
    \<Rightarrow> (auth_event \<times> reply) list \<times> 'h auth_state" where
  "auth_run c api js [] st = ([], st)"
| "auth_run c api js (e # es) st =
     (case auth_step c api js e st of (r, st) \<Rightarrow> (case auth_run c api js es st of (log, st) \<Rightarrow> ((e, r) # log, st)))"

section \<open>The throttle\<close>

definition guard_stop :: "u32 \<Rightarrow> guard \<Rightarrow> bool" where
  "guard_stop ip g \<longleftrightarrow> lg_seen g = 0 \<or> lg_ip g = ip"

lemma guard_scan_found:
  "find_index (guard_stop ip) gs = Some k \<Longrightarrow> guard_scan gs ip i old e = (lg_seen (gs ! k) \<noteq> 0, i + k)"
proof (induction gs arbitrary: i old e k)
  case (Cons g gs)
  show ?case
  proof (cases "guard_stop ip g")
    case False
    then obtain m where m: "find_index (guard_stop ip) gs = Some m" "k = Suc m" using Cons.prems by (auto split: if_splits)
    show ?thesis using False Cons.IH [OF m(1)] m(2) by (auto simp: guard_stop_def)
  qed (use Cons.prems in \<open>auto simp: guard_stop_def\<close>)
qed simp

lemma guard_scan_none: "find_index (guard_stop ip) gs = None \<Longrightarrow> \<not> fst (guard_scan gs ip i old e)"
proof (induction gs arbitrary: i old e)
  case (Cons g gs)
  have "\<not> guard_stop ip g" "find_index (guard_stop ip) gs = None" using Cons.prems by (auto split: if_splits)
  moreover have "\<not> fst (guard_scan gs ip i old e)" for i old e by (rule Cons.IH [OF calculation(2)])
  ultimately show ?case by (simp add: guard_stop_def)
qed simp

lemma guard_scan_bound: "snd (guard_scan gs ip i old e) = old \<or> snd (guard_scan gs ip i old e) < i + length gs"
proof (induction gs arbitrary: i old e)
  case (Cons g gs)
  show ?case using Cons [of "i + 1" i "lg_seen g"] Cons [of "i + 1" old e] by auto
qed simp

lemma find_index_update:
  "i < length xs \<Longrightarrow> P y \<Longrightarrow> (case find_index P xs of None \<Rightarrow> True | Some k \<Rightarrow> i \<le> k) \<Longrightarrow> find_index P (xs[i := y]) = Some i"
proof (induction xs arbitrary: i)
  case (Cons x xs)
  then show ?case by (cases i) (auto split: option.splits if_splits)
qed simp

text \<open>The guard of \<open>ip\<close> is found at \<open>i\<close>.\<close>

definition guard_at :: "guard list \<Rightarrow> u32 \<Rightarrow> nat \<Rightarrow> bool" where
  "guard_at gs ip i \<longleftrightarrow> i < length gs \<and> find_index (guard_stop ip) gs = Some i \<and> lg_seen (gs ! i) \<noteq> 0"

lemma guard_at_for: "guard_at gs ip i \<Longrightarrow> login_guard_for gs ip = (i, gs)"
  using guard_scan_found [of ip gs i 0 0 "- 1"] by (auto simp: guard_at_def login_guard_for_def)



text \<open>Whatever was there before, the client has its guard after the check.\<close>

lemma guard_reject_at:
  assumes "login_guard_reject gs ip now = (r, i, gs')" and "now \<noteq> 0" and "gs \<noteq> []"
  shows "guard_at gs' ip i \<and> lg_seen (gs' ! i) = now \<and> (r = None \<longleftrightarrow> lg_blocked (gs' ! i) \<le> now) \<and> length gs' = length gs"
proof -
  obtain gs1 where 1: "login_guard_for gs ip = (i, gs1)" "gs' = gs1[i := (gs1 ! i)\<lparr>lg_seen := now\<rparr>]"
    using assms(1) by (auto simp: login_guard_reject_def Let_def split: prod.splits)
  have i: "i < length gs" "length gs1 = length gs" "lg_ip (gs1 ! i) = ip"
    "case find_index (guard_stop ip) gs of None \<Rightarrow> True | Some k \<Rightarrow> i \<le> k" "gs1 = gs \<or> gs1 = gs[i := no_guard\<lparr>lg_ip := ip\<rparr>]"
  proof -
    consider (found) k where "find_index (guard_stop ip) gs = Some k" | (full) "find_index (guard_stop ip) gs = None"
      by fastforce
    then have "i < length gs \<and> length gs1 = length gs \<and> lg_ip (gs1 ! i) = ip \<and>
      (case find_index (guard_stop ip) gs of None \<Rightarrow> True | Some k \<Rightarrow> i \<le> k) \<and> (gs1 = gs \<or> gs1 = gs[i := no_guard\<lparr>lg_ip := ip\<rparr>])"
    proof cases
      case found
      then show ?thesis
        using 1(1) guard_scan_found [OF found, of 0 0 "- 1"] find_index_Some [OF found]
        by (auto simp: login_guard_for_def guard_stop_def split: if_splits bool.splits)
    next
      case full
      then show ?thesis
        using 1(1) guard_scan_none [OF full, of 0 0 "- 1"] guard_scan_bound [of gs ip 0 0 "- 1"] assms(3)
        by (auto simp: login_guard_for_def split: bool.splits prod.splits)
    qed
    then show "i < length gs" "length gs1 = length gs" "lg_ip (gs1 ! i) = ip"
      "case find_index (guard_stop ip) gs of None \<Rightarrow> True | Some k \<Rightarrow> i \<le> k" "gs1 = gs \<or> gs1 = gs[i := no_guard\<lparr>lg_ip := ip\<rparr>]"
      by blast+
  qed
  have "gs' = gs[i := (gs1 ! i)\<lparr>lg_seen := now\<rparr>]" using 1(2) i(5) by auto
  then have "guard_at gs' ip i"
    using find_index_update [of i gs "guard_stop ip" "(gs1 ! i)\<lparr>lg_seen := now\<rparr>"] i assms(2)
    by (simp add: guard_at_def guard_stop_def)
  moreover have "(r = None) = (lg_blocked (gs' ! i) \<le> now)" "lg_seen (gs' ! i) = now"
    using assms(1) 1 i by (auto simp: login_guard_reject_def Let_def split: if_splits)
  ultimately show ?thesis using 1(2) i by simp
qed

















text \<open>
  The delay belongs to a client only until another client logs in: its slot becomes free, and the
  search stops at a free slot, so that the guard behind it is not found and a new one is made.
\<close>

lemma login_frees_guard:
  assumes "guard_at gs ip i" and "j < i" and "now \<noteq> 0"
  shows "case login_guard_reject (gs[j := no_guard]) ip now of (r, k, gs') \<Rightarrow>
    r = None \<and> k = j \<and> lg_failures (gs' ! k) = 0 \<and> lg_blocked (gs' ! k) = 0"
proof -
  have "j < length gs" using assms(1,2) by (simp add: guard_at_def)
  then have f: "find_index (guard_stop ip) (gs[j := no_guard]) = Some j"
    using find_index_update [of j gs "guard_stop ip" no_guard] assms(1,2) by (simp add: guard_at_def guard_stop_def no_guard_def)
  have "login_guard_for (gs[j := no_guard]) ip = (j, gs[j := no_guard\<lparr>lg_ip := ip\<rparr>])"
    using guard_scan_found [OF f, of 0 0 "- 1"] \<open>j < length gs\<close> by (simp add: login_guard_for_def no_guard_def)
  then show ?thesis using \<open>j < length gs\<close> by (simp add: login_guard_reject_def Let_def no_guard_def)
qed

section \<open>Sessions\<close>

definition tokens :: "'h auth_state \<Rightarrow> string set" where
  "tokens st = ss_token ` set (au_sessions st)"

text \<open>The tokens handed out by a login or the first setup.\<close>

fun grants :: "auth_event \<Rightarrow> bool" where
  "grants (Ev_login req t0 t1 t2) = True"
| "grants (Ev_setup ap_on ap_ip req t0) = True"
| "grants _ = False"

definition issued :: "(auth_event \<times> reply) list \<Rightarrow> string set" where
  "issued log = {tok. \<exists>e timeout. (e, Json_ok (Some (session_cookie tok timeout))) \<in> set log \<and> grants e}"

lemma issued_Cons: "issued ((e, r) # log) = issued [(e, r)] \<union> issued log"
  by (auto simp: issued_def)

lemma tokens_update: "tokens (st\<lparr>au_sessions := (au_sessions st)[i := s]\<rparr>) \<subseteq> insert (ss_token s) (tokens st)"
  using set_update_subset_insert [of "au_sessions st" i s] by (auto simp: tokens_def)

lemma tokens_same: "au_sessions st' = au_sessions st \<Longrightarrow> tokens st' = tokens st"
  by (simp add: tokens_def)

lemma create_tokens:
  assumes "session_create c st now = (tok, st')"
  shows "tokens st' \<subseteq> insert tok (tokens st) \<and> au_timeout st' = au_timeout st"
proof -
  obtain s i where "au_sessions st' = (au_sessions st)[i := s]" "ss_token s = tok" "au_timeout st' = au_timeout st"
    using assms by (auto simp: session_create_def fill_random_def Let_def)
  then show ?thesis using set_update_subset_insert [of "au_sessions st" i s] by (auto simp: tokens_def)
qed

lemma map_nth_same: "i < length l \<Longrightarrow> (map f l)[i := f (l ! i)] = map f l"
  by (metis list_update_id map_update)

lemma clear_all_tokens: "tokens (session_clear_all st) \<subseteq> {[]}"
  by (auto simp: session_clear_all_def tokens_def no_session_def)

lemma request_authenticated_tokens: "tokens (snd (request_authenticated api st req now)) = tokens st"
proof -
  have "ss_token ` set (l[i := (l ! i)\<lparr>ss_expires := x\<rparr>]) = ss_token ` set l" for l :: "session list" and i x
  proof (cases "i < length l")
    case True
    have "map ss_token (l[i := (l ! i)\<lparr>ss_expires := x\<rparr>]) = map ss_token l" using True by (simp add: map_update map_nth_same)
    then show ?thesis by (metis set_map)
  qed (simp add: not_less list_update_beyond)
  then show ?thesis by (simp add: request_authenticated_def tokens_def split: option.split)
qed

lemma login_tokens:
  assumes "auth_login_handler c api js req t0 t1 t2 st = (r, st')"
  shows "tokens st' \<subseteq> tokens st \<union> issued [(Ev_login req t0 t1 t2, r)]"
proof -
  have lc: "login_check c api n p pw ip t st = (x, st') \<Longrightarrow> au_sessions st' = au_sessions st" for n p pw ip t st x st'
    by (auto simp: login_check_def Let_def split: prod.splits option.splits if_splits)
  obtain rej i gs where rej: "login_guard_reject (au_guards st) (request_peer_ipv4 req) t0 = (rej, i, gs)" by (metis prod_cases3)
  show ?thesis
  proof (cases "rej = None \<and> (\<exists>buf. recv_body req 256 = Inr buf)")
    case False
    then show ?thesis using assms rej by (auto simp: auth_login_handler_def Let_def tokens_def split: option.splits sum.splits)
  next
    case True
    then obtain buf where buf: "recv_body req 256 = Inr buf" "rej = None" by blast
    obtain pr ok st1 where l: "login_check c api (js buf ''nonce'') (js buf ''proof'') (js buf ''password'')
        (request_peer_ipv4 req) t1 (st\<lparr>au_guards := gs\<rparr>) = ((pr, ok), st1)"
      by (metis prod.collapse)
    obtain tok st2 where cr: "session_create c (st1\<lparr>au_guards := (au_guards st1)[i := no_guard]\<rparr>) t2 = (tok, st2)"
      by (metis prod.collapse)
    have "tokens st2 \<subseteq> insert tok (tokens st)"
      using create_tokens [OF cr] lc [OF l] by (simp add: tokens_def)
    then show ?thesis
      using assms rej buf l cr lc [OF l]
      by (auto simp: auth_login_handler_def Let_def tokens_def issued_def split: if_splits)
  qed
qed

lemma setup_tokens:
  assumes "auth_setup_handler c api js ap_on ap_ip req t0 st = (r, st')"
  shows "tokens st' \<subseteq> tokens st \<union> issued [(Ev_setup ap_on ap_ip req t0, r)]"
proof (cases "au_sessions st' = au_sessions st")
  case True
  then show ?thesis by (simp add: tokens_def)
next
  case False
  then obtain pws tok where "session_create c (st\<lparr>au_pw := pws\<rparr>) t0 = (tok, st')"
    "r = Json_ok (Some (session_cookie tok (au_timeout st')))"
    using assms by (auto simp: auth_setup_handler_def Let_def split: if_splits sum.splits prod.splits)
  moreover have "tokens (st\<lparr>au_pw := pws\<rparr>) = tokens st" by (simp add: tokens_def)
  ultimately show ?thesis using create_tokens [of c "st\<lparr>au_pw := pws\<rparr>" t0 tok st'] by (auto simp: issued_def)
qed

lemma step_tokens:
  assumes "auth_step c api js e st = (r, st')"
  shows "tokens st' \<subseteq> insert [] (tokens st \<union> issued [(e, r)])"
proof (cases e)
  case (Ev_challenge root_ok body_ok req t0 t1)
  then have "au_sessions st' = au_sessions st"
    using assms by (auto simp: auth_challenge_handler_def login_challenge_issue_def fill_random_def Let_def
      split: prod.splits option.splits if_splits)
  then show ?thesis using tokens_same by blast
next
  case (Ev_login req t0 t1 t2)
  then show ?thesis using assms login_tokens by fastforce
next
  case (Ev_logout req t0)
  then show ?thesis
    using assms tokens_update [of st _ no_session]
    by (fastforce simp: auth_logout_handler_def session_clear_slot_def no_session_def split: option.splits if_splits)
next
  case (Ev_setup ap_on ap_ip req t0)
  then show ?thesis using assms setup_tokens by fastforce
next
  case (Ev_change req t0 t1 t2)
  obtain a st1 where 1: "request_authenticated api st req t0 = (a, st1)" by (metis prod.collapse)
  have "tokens st1 = tokens st" using request_authenticated_tokens [of api st req t0] 1 by simp
  then show ?thesis
    using assms Ev_change 1 clear_all_tokens
    by (auto simp: auth_change_password_handler_def require_auth_def Let_def tokens_def
      split: prod.splits option.splits if_splits sum.splits)
next
  case (Ev_clear req t0)
  then show ?thesis
    using assms clear_all_tokens by (fastforce simp: auth_clear_password_handler_def split: option.splits)
next
  case (Ev_page req t0)
  then show ?thesis
    using assms request_authenticated_tokens [of api st req t0] by (auto simp: require_auth_def split: prod.splits option.splits if_splits)
next
  case (Ev_timeout v t0)
  then show ?thesis using assms by (auto simp: session_extend_all_alive_def tokens_def)
next
  case (Ev_enable b)
  then show ?thesis using assms by (auto simp: tokens_def)
qed

lemma run_tokens:
  "auth_run c api js es st = (log, st') \<Longrightarrow> tokens st' \<subseteq> insert [] (tokens st \<union> issued log)"
proof (induction es arbitrary: st log)
  case (Cons e es)
  obtain r st1 where r: "auth_step c api js e st = (r, st1)" by (metis prod.collapse)
  obtain log1 where l: "auth_run c api js es st1 = (log1, st')" "log = (e, r) # log1"
    using Cons.prems r by (auto split: prod.splits)
  show ?case using Cons.IH [OF l(1)] step_tokens [OF r] issued_Cons [of e r log1] l(2) by blast
qed auto

lemma strstr_split: "strstr pat s = Some p \<Longrightarrow> \<exists>a. s = a @ p \<and> take (length pat) p = pat"
proof (induction pat s rule: strstr.induct)
  case (2 pat c cs)
  then show ?case by (auto split: if_splits intro: exI [of _ "c # _"])
qed (auto split: if_splits)

lemma session_found:
  assumes "session_find_for_req st req now = Some i"
  shows "\<exists>a tok b. rq_cookie req = Some (a @ ''ts_session='' @ tok @ b) \<and> (b = [] \<or> hd b = CHR '';'') \<and> tok \<noteq> [] \<and>
    tok \<in> tokens st \<and> i < length (au_sessions st) \<and> ss_token (au_sessions st ! i) = tok \<and> now < ss_expires (au_sessions st ! i)"
proof -
  obtain hdr p where 1: "rq_cookie req = Some hdr" "strstr ''ts_session='' hdr = Some p"
    "find_index (session_matches (drop 11 p) now) (au_sessions st) = Some i"
    using assms by (auto simp: session_find_for_req_def hdr_value_def eval_nat_numeral split: option.splits if_splits)
  obtain a where a: "hdr = a @ p" "take 11 p = ''ts_session=''" using strstr_split [OF 1(2)] by (auto simp: eval_nat_numeral)
  note f = find_index_Some [OF 1(3)]
  define tok where "tok = ss_token (au_sessions st ! i)"
  have "session_matches (drop 11 p) now (au_sessions st ! i)" "i < length (au_sessions st)" using f by auto
  then have m: "tok \<noteq> []" "now < ss_expires (au_sessions st ! i)" "take (length tok) (drop 11 p) = tok"
    "drop (length tok) (drop 11 p) = [] \<or> hd (drop (length tok) (drop 11 p)) = CHR '';''"
    by (simp_all add: session_matches_def tok_def Let_def)
  have "p = take 11 p @ take (length tok) (drop 11 p) @ drop (length tok) (drop 11 p)" by (simp only: append_take_drop_id)
  then have "hdr = a @ ''ts_session='' @ tok @ drop (length tok) (drop 11 p)" using a m(3) by metis
  moreover have "tok \<in> tokens st" using \<open>i < length (au_sessions st)\<close> by (simp add: tok_def tokens_def)
  ultimately show ?thesis using 1(1) m f tok_def by blast
qed

text \<open>
  C9: A request passes as logged in only with a token that the device itself handed out in a login or
  the first setup since the last moment without sessions (a start, a password change, a clearing),
  and whose session has not expired; whatever other requests came in between.
\<close>

theorem session_needs_login:
  assumes "tokens st \<subseteq> {[]}" and "auth_run c api js es st = (log, st')" and "session_find_for_req st' req now = Some i"
  shows "\<exists>a tok b. rq_cookie req = Some (a @ ''ts_session='' @ tok @ b) \<and> (b = [] \<or> hd b = CHR '';'') \<and>
    tok \<in> issued log \<and> now < ss_expires (au_sessions st' ! i)"
  using session_found [OF assms(3)] run_tokens [OF assms(2)] assms(1) by blast

lemma recv_body_json: "recv_body req z \<noteq> Inl (Json_ok x)"
proof -
  have "recv_loop n acc ch \<noteq> Inl (Json_ok x)" for n acc ch
  proof (induction n acc ch rule: recv_loop.induct)
    case (1 n acc chunks)
    then show ?case by (subst recv_loop.simps) (auto split: list.splits recv.splits)
  qed
  then show ?thesis by (auto simp: recv_body_def)
qed

lemma no_tokens_no_session: "tokens st \<subseteq> {[]} \<Longrightarrow> session_find_for_req st req now = None"
  using session_found [of st req now] by (cases "session_find_for_req st req now") blast+

lemma auth_boot_tokens: "tokens (auth_boot pw) \<subseteq> {[]}"
  by (auto simp: tokens_def auth_boot_def no_session_def)

text \<open>
  A password change that is confirmed was made with the old password, ends every session, and
  leaves the new password as the one that holds.
\<close>

theorem change_ends_sessions:
  assumes "crypto_ok c" and "np_lawful api" and "auth_change_password_handler c api js req t0 t1 t2 st = (Json_ok x, st')"
  shows "session_find_for_req st' r now = None \<and>
    (\<exists>old new salt key buf. js buf ''old_password'' = Some old \<and> js buf ''new_password'' = Some new \<and> 4 \<le> length new \<and>
       fst (verify_web_password c api (Some old) (au_pw st)) \<and>
       compute_pbkdf2 c salt new PW_PBKDF2_ITERS = Some key \<and> pw_holds c api salt key (au_pw st'))"
proof -
  obtain a st1 where 1: "request_authenticated api st req t0 = (a, st1)" by (metis prod.collapse)
  then have pw1: "au_pw st1 = au_pw st" by (auto simp: request_authenticated_def split: if_splits option.splits)
  obtain rej i gs where rej: "login_guard_reject (au_guards st1) (request_peer_ipv4 req) t1 = (rej, i, gs)" by (metis prod_cases3)
  have a: "a" "rej = None" using assms(3) 1 rej
    by (auto simp: auth_change_password_handler_def require_auth_def Let_def login_guard_reject_def split: if_splits prod.splits)
  obtain buf where buf: "recv_body req 512 = Inr buf"
    using assms(3) 1 a rej by (auto simp: auth_change_password_handler_def require_auth_def Let_def recv_body_json split: sum.splits)
  then obtain old new where 2: "js buf ''old_password'' = Some old" "js buf ''new_password'' = Some new"
    using assms(3) 1 a rej by (auto simp: auth_change_password_handler_def require_auth_def Let_def split: if_splits)
  obtain ok pws where v: "verify_web_password c api (Some old) (au_pw st) = (ok, pws)" by (metis prod.collapse)
  obtain err pws' where w: "set_web_password_hashed c api (Some new) pws = (err, pws')" by (metis prod.collapse)
  have 3: "ok" "\<not> check_password_policy (Some new)" "err = ESP_OK"
    "st' = session_clear_all (st1\<lparr>au_pw := pws', au_guards := gs[i := no_guard]\<rparr>)"
    using assms(3) 1 a rej buf 2 v w pw1
    by (auto simp: auth_change_password_handler_def require_auth_def Let_def split: if_splits)
  have new: "4 \<le> length new" "new \<noteq> []" using 3(2) by (auto simp: check_password_policy_def WEB_UI_PASSWORD_MIN_LEN_def)
  obtain salt key where "compute_pbkdf2 c salt new PW_PBKDF2_ITERS = Some key" "pw_holds c api salt key pws'"
    using set_holds [OF assms(1,2) w [unfolded 3(3)] new(2)] by blast
  moreover have "session_find_for_req st' r now = None" unfolding 3(4) by (rule no_tokens_no_session [OF clear_all_tokens])
  moreover have "au_pw st' = pws'" by (simp add: 3(4) session_clear_all_def)
  moreover have "fst (verify_web_password c api (Some old) (au_pw st))" using v 3(1) by simp
  ultimately show ?thesis using 2 new(1) by blast
qed

text \<open>
  A challenge serves once: after it was used, no later attempt with its nonce passes, and before
  that only from the address it was given to and in its thirty seconds.
\<close>

theorem challenge_one_time:
  assumes "inj_on (\<lambda>k. ch_nonce (cs ! k)) {k. k < length cs \<and> now < ch_expires (cs ! k)}"
    and "login_challenge_consume cs ip nonce now = (True, cs')" and "now \<le> later"
  shows "\<not> fst (login_challenge_consume cs' ip' nonce later) \<and> (\<exists>c \<in> set cs. ch_nonce c = nonce \<and> ch_ip c = ip \<and> now < ch_expires c)"
proof -
  obtain i where i: "find_index (\<lambda>c. now < ch_expires c \<and> ch_ip c = ip \<and> ch_nonce c = nonce) cs = Some i" "cs' = cs[i := no_challenge]"
    using assms(2) by (auto simp: login_challenge_consume_def split: option.splits)
  note f = find_index_Some [OF i(1)]
  have "\<not> (later < ch_expires (cs' ! k) \<and> ch_nonce (cs' ! k) = nonce)" if k: "k < length cs" for k
  proof (cases "k = i")
    case True
    then show ?thesis using i(2) k by (simp add: no_challenge_def)
  next
    case False
    show ?thesis
    proof
      assume "later < ch_expires (cs' ! k) \<and> ch_nonce (cs' ! k) = nonce"
      then have n: "now < ch_expires (cs ! k)" "ch_nonce (cs ! k) = nonce" using i(2) False assms(3) by auto
      have "k = i" by (rule inj_onD [OF assms(1)]) (use n f k i(2) in auto)
      then show False using False by simp
    qed
  qed
  note gone = this
  have "find_index (\<lambda>c. later < ch_expires c \<and> ch_ip c = ip' \<and> ch_nonce c = nonce) cs' = None"
  proof (rule ccontr)
    assume "\<not> ?thesis"
    then obtain k where k: "find_index (\<lambda>c. later < ch_expires c \<and> ch_ip c = ip' \<and> ch_nonce c = nonce) cs' = Some k" by blast
    show False using find_index_Some [OF k] gone [of k] i(2) by simp
  qed
  then show ?thesis using f by (auto simp: login_challenge_consume_def)
qed

section \<open>Login\<close>

lemma holds_params:
  assumes "pw_holds c api salt key pws"
  shows "parse_pbkdf2_record (nvs_dup_str api (pw_nvs pws) PW_NVS_KEY) = Some (PW_PBKDF2_ITERS, salt, key)"
  using assms parse_pw_record [of salt key] by (simp add: pw_holds_def pw_consts)

lemma holds_proof:
  assumes "crypto_ok c" and "pw_holds c api salt key pws" and "length pr = 32" and "m \<noteq> []"
  shows "verify_web_password_proof c api pws m pr \<longleftrightarrow> cr_hmac c key m = Some pr"
proof -
  obtain h where "cr_hmac c key m = Some h" "length h = 32" using assms(1) by (meson crypto_ok_def)
  moreover have "cr_md c" using assms(1) by (simp add: crypto_ok_def)
  ultimately show ?thesis
    using assms(3,4) hashes_equal_iff [of h pr] by (simp add: verify_web_password_proof_def holds_params [OF assms(2)])
qed

lemma context_ne [simp]: "login_proof_context \<noteq> []"
  by (simp add: login_proof_context_def c_bytes_def)

text \<open>
  C10: While a password holds, a login succeeds only with a proof: the HMAC, under the key derived from
  the password, of a challenge that was waiting for this very client.  The password itself is not
  accepted in its place.
\<close>

theorem login_needs_key:
  assumes "crypto_ok c" and "pw_holds c api salt key (au_pw st)"
    and "auth_login_handler c api js req t0 t1 t2 st = (Json_ok x, st')"
  shows "\<exists>buf n pr. recv_body req 256 = Inr buf \<and> hex_decode_exact (js buf ''nonce'') LOGIN_CHALLENGE_NONCE_LEN = Some n \<and>
    hex_decode_exact (js buf ''proof'') PW_HASH_LEN = Some pr \<and> cr_hmac c key (login_proof_context @ n) = Some pr \<and>
    fst (login_challenge_consume (au_challenges st) (request_peer_ipv4 req) n t1)"
proof -
  obtain rej i gs where rej: "login_guard_reject (au_guards st) (request_peer_ipv4 req) t0 = (rej, i, gs)" by (metis prod_cases3)
  have r: "rej = None" using assms(3) rej by (auto simp: auth_login_handler_def Let_def login_guard_reject_def split: if_splits prod.splits)
  obtain buf where buf: "recv_body req 256 = Inr buf"
    using assms(3) r rej by (auto simp: auth_login_handler_def Let_def recv_body_json split: sum.splits)
  obtain pr ok st1 where l: "login_check c api (js buf ''nonce'') (js buf ''proof'') (js buf ''password'')
      (request_peer_ipv4 req) t1 (st\<lparr>au_guards := gs\<rparr>) = ((pr, ok), st1)"
    by (metis prod.collapse)
  then have "\<not> pr" "ok" using assms(3) rej r buf by (auto simp: auth_login_handler_def Let_def split: if_splits)
  then obtain n pf where n: "hex_decode_exact (js buf ''nonce'') LOGIN_CHALLENGE_NONCE_LEN = Some n"
      "hex_decode_exact (js buf ''proof'') PW_HASH_LEN = Some pf"
      "fst (login_challenge_consume (au_challenges st) (request_peer_ipv4 req) n t1)"
      "verify_web_password_proof c api (au_pw st) (login_proof_context @ n) pf"
    using l holds_params [OF assms(2)]
    by (auto simp: login_check_def Let_def web_password_get_proof_params_def split: if_splits option.splits prod.splits)
  then show ?thesis using holds_proof [OF assms(1,2)] hex_decode_length [OF n(2)] buf by (auto simp: PW_HASH_LEN_def)
qed

lemma challenge_slot_bound: "challenge_slot cs now i slot e = slot \<or> challenge_slot cs now i slot e < i + length cs"
proof (induction cs arbitrary: i slot e)
  case (Cons x cs)
  show ?case using Cons [of "i + 1" i "ch_expires x"] Cons [of "i + 1" slot e] by auto
qed simp

lemma pick_slot_bound: "pick_slot ss i old e = old \<or> pick_slot ss i old e < i + length ss"
proof (induction ss arbitrary: i old e)
  case (Cons x ss)
  show ?case using Cons [of "i + 1" i "ss_expires x"] Cons [of "i + 1" old e] by auto
qed simp

lemma consume_found:
  "k < length cs \<Longrightarrow> now < ch_expires (cs ! k) \<Longrightarrow> fst (login_challenge_consume cs (ch_ip (cs ! k)) (ch_nonce (cs ! k)) now)"
  using find_index_None [of "\<lambda>c. now < ch_expires c \<and> ch_ip c = ch_ip (cs ! k) \<and> ch_nonce c = ch_nonce (cs ! k)" cs]
  by (fastforce simp: login_challenge_consume_def split: option.split)

lemma challenge_reply:
  assumes "auth_challenge_handler c api root_ok body_ok req t0 t1 st = (Params (Some (its, s, nonce)), st')"
    and "t0 \<noteq> 0" and "au_guards st \<noteq> []" and "au_challenges st \<noteq> []"
  shows "web_password_get_proof_params api (au_pw st) = Some (its, s) \<and>
    nonce = cr_random c (pw_draws (au_pw st)) LOGIN_CHALLENGE_NONCE_LEN \<and>
    au_sessions st' = au_sessions st \<and> au_timeout st' = au_timeout st \<and> au_enabled st' = au_enabled st \<and>
    au_pw st' = (au_pw st)\<lparr>pw_draws := pw_draws (au_pw st) + 1\<rparr> \<and>
    (\<exists>i. guard_at (au_guards st') (request_peer_ipv4 req) i \<and> lg_blocked (au_guards st' ! i) \<le> t0) \<and>
    (\<exists>k < length (au_challenges st'). au_challenges st' ! k =
       \<lparr>ch_ip = request_peer_ipv4 req, ch_nonce = nonce, ch_expires = t1 + LOGIN_CHALLENGE_TTL_US\<rparr>)"
proof -
  obtain rej i gs where rej: "login_guard_reject (au_guards st) (request_peer_ipv4 req) t0 = (rej, i, gs)" by (metis prod_cases3)
  have r: "rej = None" "root_ok" "body_ok" "web_password_get_proof_params api (au_pw st) = Some (its, s)"
    using assms(1) rej by (auto simp: auth_challenge_handler_def Let_def login_guard_reject_def split: if_splits prod.splits option.splits)
  define k where "k = challenge_slot (au_challenges st) t1 0 0 (- 1)"
  have "k < length (au_challenges st)" using challenge_slot_bound [of "au_challenges st" t1 0 0 "- 1"] assms(4) by (auto simp: k_def)
  moreover have "nonce = cr_random c (pw_draws (au_pw st)) LOGIN_CHALLENGE_NONCE_LEN" "au_guards st' = gs"
    "au_challenges st' = (au_challenges st)[k := \<lparr>ch_ip = request_peer_ipv4 req, ch_nonce = nonce, ch_expires = t1 + LOGIN_CHALLENGE_TTL_US\<rparr>]"
    "au_sessions st' = au_sessions st" "au_timeout st' = au_timeout st" "au_enabled st' = au_enabled st"
    "au_pw st' = (au_pw st)\<lparr>pw_draws := pw_draws (au_pw st) + 1\<rparr>"
    using assms(1) rej r by (auto simp: auth_challenge_handler_def login_challenge_issue_def fill_random_def Let_def k_def)
  ultimately show ?thesis
    using r guard_reject_at [OF rej assms(2,3)] by (metis length_list_update nth_list_update_eq)
qed

lemma session_cookie_whole:
  assumes "length tok = 64"
  shows "session_cookie tok t = ''ts_session='' @ tok @ ''; Path=/; HttpOnly; SameSite=Strict''
       @ (if t = 0 then [] else ''; Max-Age='' @ dec (unat t))"
proof -
  have "unat t < 10 ^ 10" using unsigned_less [of t, where ?'a = nat] by simp
  then have "length (dec (unat t)) \<le> 10" by (rule dec_length) simp
  then show ?thesis using assms by (simp add: session_cookie_def)
qed

lemma created_session:
  assumes "crypto_ok c" and "session_create c st now = (tok, st')" and "au_sessions st \<noteq> []"
  shows "length tok = 64 \<and> \<lparr>ss_token = tok, ss_expires = expiry st now\<rparr> \<in> set (au_sessions st') \<and> au_timeout st' = au_timeout st"
proof -
  let ?i = "session_pick_new_slot st"
  have "?i < length (au_sessions st)"
    using pick_slot_bound [of "au_sessions st" 0 0 "- 1"] assms(3) by (auto simp: session_pick_new_slot_def)
  then have "s \<in> set ((au_sessions st)[?i := s])" for s by (rule set_update_memI)
  then show ?thesis using assms(1,2) by (auto simp: session_create_def fill_random_def Let_def crypto_ok_def WEB_UI_SESSION_TOKEN_LEN_def expiry_def)
qed

lemma cookie_found:
  assumes "s \<in> set (au_sessions st)" and "length (ss_token s) = 64" and "now < ss_expires s"
    and "rq_cookie req = Some (''ts_session='' @ ss_token s)"
  shows "session_find_for_req st req now \<noteq> None"
proof -
  have "session_matches (ss_token s) now s" using assms(2,3) by (auto simp: session_matches_def)
  then have "find_index (session_matches (ss_token s) now) (au_sessions st) \<noteq> None" using assms(1) by (auto simp: find_index_None)
  then show ?thesis using assms(2,4) by (simp add: session_find_for_req_def hdr_value_def)
qed

lemma login_ok:
  assumes "crypto_ok c" and "pw_holds c api salt key (au_pw st)" and "au_sessions st \<noteq> []"
    and "guard_at (au_guards st) (request_peer_ipv4 req) i" and "lg_blocked (au_guards st ! i) \<le> t0"
    and "k < length (au_challenges st)" and "au_challenges st ! k = \<lparr>ch_ip = request_peer_ipv4 req, ch_nonce = nonce, ch_expires = e\<rparr>"
    and "t1 < e" and "length nonce = 16" and "cr_hmac c key (login_proof_context @ nonce) = Some proof"
    and "recv_body req 256 = Inr buf" and "js buf ''nonce'' = Some (bytes_to_hex nonce)" and "js buf ''proof'' = Some (bytes_to_hex proof)"
  shows "\<exists>tok st'. auth_login_handler c api js req t0 t1 t2 st = (Json_ok (Some (session_cookie tok (au_timeout st))), st') \<and>
    length tok = 64 \<and> \<lparr>ss_token = tok, ss_expires = expiry st t2\<rparr> \<in> set (au_sessions st')"
proof -
  let ?ip = "request_peer_ipv4 req"
  have "\<exists>gs. login_guard_reject (au_guards st) ?ip t0 = (None, i, gs)"
    using guard_at_for [OF assms(4)] assms(4,5) by (simp add: login_guard_reject_def guard_at_def Let_def)
  then obtain gs where rej: "login_guard_reject (au_guards st) ?ip t0 = (None, i, gs)" ..
  have "length proof = 32" using assms(1,10) unfolding crypto_ok_def by (metis option.inject)
  then have d: "hex_decode_exact (Some (bytes_to_hex nonce)) LOGIN_CHALLENGE_NONCE_LEN = Some nonce"
    "hex_decode_exact (Some (bytes_to_hex proof)) PW_HASH_LEN = Some proof"
    and v: "verify_web_password_proof c api (au_pw st) (login_proof_context @ nonce) proof"
    using hex_decode_encode [of nonce] hex_decode_encode [of "proof"] assms(9,10) holds_proof [OF assms(1,2)]
    by (simp_all add: LOGIN_CHALLENGE_NONCE_LEN_def PW_HASH_LEN_def)
  have "fst (login_challenge_consume (au_challenges st) ?ip nonce t1)"
    using consume_found [OF assms(6), of t1] assms(7,8) by simp
  then obtain cs where cs: "login_challenge_consume (au_challenges st) ?ip nonce t1 = (True, cs)" by (metis prod.collapse)
  define st1 where "st1 = st\<lparr>au_challenges := cs, au_guards := gs[i := no_guard]\<rparr>"
  obtain tok st' where cr: "session_create c st1 t2 = (tok, st')" by (metis prod.collapse)
  have "auth_login_handler c api js req t0 t1 t2 st = (Json_ok (Some (session_cookie tok (au_timeout st'))), st')"
    using rej assms(11-13) d v cs cr by (simp add: auth_login_handler_def Let_def login_check_def st1_def)
  moreover have "au_sessions st1 \<noteq> []" "expiry st1 t2 = expiry st t2" "au_timeout st1 = au_timeout st"
    using assms(3) by (simp_all add: st1_def expiry_def)
  ultimately show ?thesis using created_session [OF assms(1) cr] by auto
qed

text \<open>
  C12: A browser that knows the password gets in: it asks for a challenge, answers in time with the
  HMAC under its derived key, and the token in the reply then opens every protected page until the
  time-out has passed; with the time-out off it does not expire.
\<close>

theorem login_roundtrip:
  assumes "crypto_ok c" and "pw_holds c api salt key (au_pw st)"
    and "au_sessions st \<noteq> []" and "au_guards st \<noteq> []" and "au_challenges st \<noteq> []"
    and "auth_challenge_handler c api root_ok body_ok req0 t0 t1 st = (Params (Some (its, s, nonce)), st1)"
    and "t0 \<noteq> 0" and "t0 \<le> t2" and "t3 < t1 + LOGIN_CHALLENGE_TTL_US" and "request_peer_ipv4 req = request_peer_ipv4 req0"
    and "compute_pbkdf2 c salt p PW_PBKDF2_ITERS = Some key"
    and "compute_pbkdf2 c s p its = Some k" and "cr_hmac c k (login_proof_context @ nonce) = Some proof"
    and "recv_body req 256 = Inr buf" and "js buf ''nonce'' = Some (bytes_to_hex nonce)" and "js buf ''proof'' = Some (bytes_to_hex proof)"
    and "now < expiry st t4"
  shows "\<exists>tok st2. auth_login_handler c api js req t2 t3 t4 st1 = (Json_ok (Some (session_cookie tok (au_timeout st))), st2) \<and>
    fst (request_authenticated api st2 (req'\<lparr>rq_cookie := Some (''ts_session='' @ tok)\<rparr>) now)"
proof -
  note ch = challenge_reply [OF assms(6,7,4,5)]
  then have sk: "s = salt" "k = key" "pw_holds c api salt key (au_pw st1)"
    using holds_params [OF assms(2)] assms(2,11,12) by (auto simp: web_password_get_proof_params_def pw_holds_def)
  obtain i where i: "guard_at (au_guards st1) (request_peer_ipv4 req) i" "lg_blocked (au_guards st1 ! i) \<le> t2"
    using ch assms(8,10) by auto
  obtain j where j: "j < length (au_challenges st1)"
    "au_challenges st1 ! j = \<lparr>ch_ip = request_peer_ipv4 req, ch_nonce = nonce, ch_expires = t1 + LOGIN_CHALLENGE_TTL_US\<rparr>"
    using ch assms(10) by auto
  have l: "length nonce = 16" using ch assms(1) by (simp add: crypto_ok_def LOGIN_CHALLENGE_NONCE_LEN_def)
  have ne: "au_sessions st1 \<noteq> []" using ch assms(3) by simp
  obtain tok st2 where 2: "auth_login_handler c api js req t2 t3 t4 st1 = (Json_ok (Some (session_cookie tok (au_timeout st1))), st2)"
    "length tok = 64" "\<lparr>ss_token = tok, ss_expires = expiry st1 t4\<rparr> \<in> set (au_sessions st2)"
    using login_ok [OF assms(1) sk(3) ne i j assms(9) l]
      assms(13-16) sk by blast
  have "now < expiry st1 t4" using ch assms(17) unfolding expiry_def by metis
  then have "session_find_for_req st2 (req'\<lparr>rq_cookie := Some (''ts_session='' @ tok)\<rparr>) now \<noteq> None"
    using cookie_found [OF 2(3)] 2(2) by simp
  then have "fst (request_authenticated api st2 (req'\<lparr>rq_cookie := Some (''ts_session='' @ tok)\<rparr>) now)"
    by (auto simp: request_authenticated_def)
  then show ?thesis using 2(1) ch by metis
qed

text \<open>
  Clearing the password is confirmed also when the flash could not be written; the password then
  still holds.
\<close>

lemma clear_hides_write_error:
  assumes "require_password_session api st req t0 = None" and "np_open_rw api (pw_nvs (au_pw st)) \<noteq> ESP_OK"
  shows "case auth_clear_password_handler c api req t0 st of (r, st') \<Rightarrow>
    r = Json_ok (Some clear_cookie) \<and> pw_nvs (au_pw st') = pw_nvs (au_pw st) \<and> is_web_password_set api (au_pw st')"
proof -
  have "is_web_password_set api (au_pw st)" using assms(1) by (auto simp: require_password_session_def split: if_splits)
  then show ?thesis
    using assms by (auto simp: auth_clear_password_handler_def set_web_password_hashed_def nvs_write_str_def Let_def
      fast_cache_invalidate_def session_clear_all_def is_web_password_set_def split: prod.split)
qed

section \<open>Concrete runs\<close>

text \<open>
  The members of a body are taken from a text of the form \<open>key=value\<close>, one per line; a device whose
  password is ''new1'', and two clients.
\<close>

fun demo_lines :: "string \<Rightarrow> string \<Rightarrow> string list" where
  "demo_lines [] acc = [rev acc]"
| "demo_lines (c # cs) acc = (if c = CHR ''&'' then rev acc # demo_lines cs [] else demo_lines cs (c # acc))"

definition demo_js :: "string \<Rightarrow> string \<Rightarrow> string option" where
  "demo_js body name =
     map_option (drop (length name + 1)) (find (\<lambda>l. take (length name + 1) l = name @ ''='') (demo_lines body []))"

definition demo_req :: "u32 \<Rightarrow> string \<Rightarrow> http_req" where
  "demo_req ip body = \<lparr>rq_cookie = None, rq_peer = Some ip, rq_local = None, rq_len = int (length body), rq_chunks = [Got body]\<rparr>"

definition demo_auth :: "map_params auth_state" where "demo_auth = auth_boot (demo_set ''new1'')"

lemma demo_auth_fields:
  "au_pw demo_auth = demo_set ''new1''" "au_sessions demo_auth \<noteq> []" "au_guards demo_auth = replicate LOGIN_GUARD_SLOTS no_guard"
  "au_guards demo_auth \<noteq> []" "au_challenges demo_auth \<noteq> []" "tokens demo_auth \<subseteq> {[]}" "au_timeout demo_auth = 1800"
  using auth_boot_tokens [of "demo_set ''new1''"]
  by (simp_all add: demo_auth_def auth_boot_def WEB_UI_SESSION_MAX_def LOGIN_GUARD_SLOTS_def LOGIN_CHALLENGE_SLOTS_def
    WEB_UI_SESSION_TIMEOUT_DEF_S_def)

lemma demo_recv: "body \<noteq> [] \<Longrightarrow> length body < z \<Longrightarrow> recv_body (demo_req ip body) z = Inr body"
  by (simp add: recv_body_def demo_req_def recv_loop.simps)

definition demo_dkey :: bytes where "demo_dkey = take 31 (c_bytes ''new1'' @ replicate 31 0) @ [0]"

definition demo_salt :: bytes where "demo_salt = cr_random demo_crypto 0 16"

lemma demo_holds: "pw_holds demo_crypto map_params demo_salt demo_dkey (demo_set ''new1'')"
proof -
  have d: "length demo_salt = 16" "length demo_dkey = 32" by (simp_all add: demo_salt_def demo_dkey_def demo_crypto_def)
  have k: "compute_pbkdf2 demo_crypto s ''new1'' PW_PBKDF2_ITERS = Some demo_dkey" for s by (simp add: demo_key demo_dkey_def)
  have "demo_set ''new1'' = fast_cache_store demo_crypto ''new1''
      ((fast_cache_invalidate (pw_boot demo_flash 0))\<lparr>pw_draws := 1, pw_nvs := ((fst demo_flash)(PW_NVS_KEY \<mapsto> pw_record demo_salt demo_dkey), snd demo_flash)\<rparr>)"
    unfolding demo_set_def
    by (simp add: set_web_password_hashed_def k map_params_write Let_def fast_cache_invalidate_def pw_boot_def demo_salt_def PW_SALT_LEN_def)
  moreover have "pw_holds demo_crypto map_params demo_salt demo_dkey
      ((fast_cache_invalidate (pw_boot demo_flash 0))\<lparr>pw_draws := 1, pw_nvs := ((fst demo_flash)(PW_NVS_KEY \<mapsto> pw_record demo_salt demo_dkey), snd demo_flash)\<rparr>)"
    using d by (simp add: pw_holds_def fast_cache_invalidate_def nvs_dup_str_def map_params_def demo_flash_def lookup_param_def pw_consts)
  ultimately show ?thesis using store_holds [OF demo_crypto_ok _ k] by metis
qed

definition demo_nonce :: bytes where "demo_nonce = cr_random demo_crypto 2 16"
definition demo_proof :: bytes where "demo_proof = demo_hmac demo_dkey (login_proof_context @ demo_nonce)"
definition demo_body :: string where
  "demo_body = ''nonce='' @ bytes_to_hex demo_nonce @ ''&proof='' @ bytes_to_hex demo_proof"

definition demo_challenged :: "map_params auth_state" where
  "demo_challenged = snd (auth_challenge_handler demo_crypto map_params True True (demo_req 5 []) 10 10 demo_auth)"

lemma demo_challenge:
  "auth_challenge_handler demo_crypto map_params True True (demo_req 5 []) 10 10 demo_auth
     = (Params (Some (PW_PBKDF2_ITERS, demo_salt, demo_nonce)), demo_challenged)"
proof -
  have p: "web_password_get_proof_params map_params (demo_set ''new1'') = Some (PW_PBKDF2_ITERS, demo_salt)"
    by (simp add: web_password_get_proof_params_def holds_params [OF demo_holds])
  have "login_guard_reject (replicate LOGIN_GUARD_SLOTS no_guard) 5 10 = (None, 0, (replicate LOGIN_GUARD_SLOTS no_guard)[0 := no_guard\<lparr>lg_ip := 5, lg_seen := 10\<rparr>])"
    by (simp add: login_guard_reject_def login_guard_for_def LOGIN_GUARD_SLOTS_def eval_nat_numeral no_guard_def Let_def)
  moreover have "pw_draws (demo_set ''new1'') = 2"
    unfolding demo_set_def by (simp add: set_web_password_hashed_def demo_key map_params_write Let_def fast_cache_store_def
      fast_cache_invalidate_def pw_boot_def)
  ultimately show ?thesis
    unfolding demo_challenged_def
    by (simp add: auth_challenge_handler_def demo_auth_fields request_peer_ipv4_def demo_req_def p login_challenge_issue_def
      fill_random_def Let_def demo_nonce_def LOGIN_CHALLENGE_NONCE_LEN_def)
qed

lemma demo_body_fields:
  "demo_body \<noteq> []" "length demo_body < 256"
  "demo_js demo_body ''nonce'' = Some (bytes_to_hex demo_nonce)" "demo_js demo_body ''proof'' = Some (bytes_to_hex demo_proof)"
proof -
  have l: "demo_lines (a @ b) acc = demo_lines b (rev a @ acc)" if "CHR ''&'' \<notin> set a" for a b acc
    using that by (induction a arbitrary: acc) auto
  have h: "CHR ''&'' \<notin> set (bytes_to_hex bs)" for bs using bytes_to_hex_chars [of "CHR ''&''" bs] by auto
  have "demo_lines demo_body [] = [''nonce='' @ bytes_to_hex demo_nonce, ''proof='' @ bytes_to_hex demo_proof]"
    unfolding demo_body_def using h [of demo_nonce] h [of demo_proof] l [of "bytes_to_hex demo_nonce"] l [of "bytes_to_hex demo_proof" "[]"]
    by simp
  then show "demo_js demo_body ''nonce'' = Some (bytes_to_hex demo_nonce)" "demo_js demo_body ''proof'' = Some (bytes_to_hex demo_proof)"
    by (simp_all add: demo_js_def)
  show "demo_body \<noteq> []" "length demo_body < 256"
    by (simp_all add: demo_body_def demo_nonce_def demo_proof_def demo_crypto_def demo_hmac_def min_def)
qed

lemma login_roundtrip_witness:
  "\<exists>tok st2. auth_login_handler demo_crypto map_params demo_js (demo_req 5 demo_body) 20 21 22 demo_challenged
      = (Json_ok (Some (session_cookie tok 1800)), st2) \<and>
    fst (request_authenticated map_params st2 ((demo_req 5 [])\<lparr>rq_cookie := Some (''ts_session='' @ tok)\<rparr>) 1000000)"
proof -
  have k: "compute_pbkdf2 demo_crypto s ''new1'' PW_PBKDF2_ITERS = Some demo_dkey" for s by (simp add: demo_key demo_dkey_def)
  have h: "cr_hmac demo_crypto demo_dkey (login_proof_context @ demo_nonce) = Some demo_proof" by (simp add: demo_hmac_eq demo_proof_def)
  have e: "1000000 < expiry demo_auth 22" by (simp add: expiry_def demo_auth_fields)
  have p: "request_peer_ipv4 (demo_req 5 demo_body) = request_peer_ipv4 (demo_req 5 [])" by (simp add: request_peer_ipv4_def demo_req_def)
  have t: "(21 :: u64) < 10 + LOGIN_CHALLENGE_TTL_US" by (simp add: LOGIN_CHALLENGE_TTL_US_def)
  show ?thesis
    using login_roundtrip [where js = demo_js, OF demo_crypto_ok _ demo_auth_fields(2,4,5) demo_challenge _ _ t p k k h demo_recv
      demo_body_fields(3,4) e] demo_holds demo_body_fields(1,2) by (simp add: demo_auth_fields)
qed

lemma demo_login:
  "\<exists>tok st2. auth_login_handler demo_crypto map_params demo_js (demo_req 5 demo_body) 20 21 22 demo_challenged
      = (Json_ok (Some (session_cookie tok 1800)), st2) \<and> length tok = 64 \<and>
    \<lparr>ss_token = tok, ss_expires = 22 + 1800 * 1000000\<rparr> \<in> set (au_sessions st2)"
proof -
  have "(10 :: u64) \<noteq> 0" by simp
  note ch = challenge_reply [OF demo_challenge this demo_auth_fields(4,5)]
  have st: "au_sessions demo_challenged \<noteq> []" "au_timeout demo_challenged = 1800"
    "pw_holds demo_crypto map_params demo_salt demo_dkey (au_pw demo_challenged)"
    using ch demo_holds by (simp_all add: demo_auth_fields pw_holds_def)
  obtain i where i: "guard_at (au_guards demo_challenged) (request_peer_ipv4 (demo_req 5 demo_body)) i" "lg_blocked (au_guards demo_challenged ! i) \<le> 20"
  proof -
    obtain i where "guard_at (au_guards demo_challenged) (request_peer_ipv4 (demo_req 5 [])) i" "lg_blocked (au_guards demo_challenged ! i) \<le> 10"
      using ch by blast
    moreover from this(2) have "lg_blocked (au_guards demo_challenged ! i) \<le> 20" by (rule order_trans) simp
    ultimately show ?thesis using that by (simp add: request_peer_ipv4_def demo_req_def)
  qed
  obtain j where j: "j < length (au_challenges demo_challenged)" "au_challenges demo_challenged ! j =
      \<lparr>ch_ip = request_peer_ipv4 (demo_req 5 demo_body), ch_nonce = demo_nonce, ch_expires = 10 + LOGIN_CHALLENGE_TTL_US\<rparr>"
    using ch by (auto simp: request_peer_ipv4_def demo_req_def)
  have "(21 :: u64) < 10 + LOGIN_CHALLENGE_TTL_US" "length demo_nonce = 16"
    "cr_hmac demo_crypto demo_dkey (login_proof_context @ demo_nonce) = Some demo_proof"
    by (simp_all add: LOGIN_CHALLENGE_TTL_US_def demo_nonce_def demo_crypto_def demo_proof_def)
  then show ?thesis
    using login_ok [where js = demo_js and ?t2.0 = 22, OF demo_crypto_ok st(3,1) i j _ _ _ demo_recv [OF demo_body_fields(1,2)] demo_body_fields(3,4)] st(2)
    by (simp add: expiry_def)
qed

lemma session_needs_login_witness:
  "\<exists>es log st' req i tok. auth_run demo_crypto map_params demo_js es demo_auth = (log, st') \<and>
     session_find_for_req st' req 1000 = Some i \<and> tok \<in> issued log \<and> 1000 < ss_expires (au_sessions st' ! i)"
proof -
  obtain tok st2 where 1: "auth_login_handler demo_crypto map_params demo_js (demo_req 5 demo_body) 20 21 22 demo_challenged
      = (Json_ok (Some (session_cookie tok 1800)), st2)" "length tok = 64"
    "\<lparr>ss_token = tok, ss_expires = 22 + 1800 * 1000000\<rparr> \<in> set (au_sessions st2)"
    using demo_login by blast
  let ?es = "[Ev_challenge True True (demo_req 5 []) 10 10, Ev_login (demo_req 5 demo_body) 20 21 22]"
  obtain log where r: "auth_run demo_crypto map_params demo_js ?es demo_auth = (log, st2)" using demo_challenge 1(1) by simp
  have "session_find_for_req st2 ((demo_req 5 [])\<lparr>rq_cookie := Some (''ts_session='' @ tok)\<rparr>) 1000 \<noteq> None"
    using cookie_found [OF 1(3)] 1(2) by simp
  then obtain i where i: "session_find_for_req st2 ((demo_req 5 [])\<lparr>rq_cookie := Some (''ts_session='' @ tok)\<rparr>) 1000 = Some i" by blast
  show ?thesis using session_needs_login [OF demo_auth_fields(6) r i] r i by blast
qed

lemma login_needs_key_witness:
  "\<exists>n pr. cr_hmac demo_crypto demo_dkey (login_proof_context @ n) = Some pr \<and>
     fst (login_challenge_consume (au_challenges demo_challenged) 5 n 21)"
proof -
  have "(10 :: u64) \<noteq> 0" by simp
  note ch = challenge_reply [OF demo_challenge this demo_auth_fields(4,5)]
  then have "pw_holds demo_crypto map_params demo_salt demo_dkey (au_pw demo_challenged)"
    using demo_holds by (simp add: demo_auth_fields pw_holds_def)
  moreover obtain tok st2 where "auth_login_handler demo_crypto map_params demo_js (demo_req 5 demo_body) 20 21 22 demo_challenged
      = (Json_ok (Some (session_cookie tok 1800)), st2)"
    using demo_login by blast
  moreover have "request_peer_ipv4 (demo_req 5 demo_body) = 5" by (simp add: request_peer_ipv4_def demo_req_def)
  ultimately show ?thesis using login_needs_key [OF demo_crypto_ok] by metis
qed

definition demo_change :: string where "demo_change = ''old_password=new1&new_password=next''"

lemma demo_change_fields:
  "demo_js demo_change ''old_password'' = Some ''new1''" "demo_js demo_change ''new_password'' = Some ''next''"
  by code_simp+

lemma change_ends_sessions_witness:
  "\<exists>x st' salt key. auth_change_password_handler demo_crypto map_params demo_js (demo_req 5 demo_change) 10 10 10 (demo_auth\<lparr>au_enabled := False\<rparr>)
     = (Json_ok x, st') \<and> session_find_for_req st' (demo_req 5 []) 20 = None \<and> pw_holds demo_crypto map_params salt key (au_pw st')"
proof -
  let ?st = "demo_auth\<lparr>au_enabled := False\<rparr>"
  obtain ok pws where v: "verify_web_password demo_crypto map_params (Some ''new1'') (demo_set ''new1'') = (ok, pws)" by (metis prod.collapse)
  have ok: "ok" using verify_holds [OF demo_crypto_ok demo_holds v] by (simp add: demo_key demo_dkey_def)
  have "fst (set_web_password_hashed demo_crypto map_params (Some ''next'') pws) = ESP_OK"
    by (simp add: set_web_password_hashed_def demo_key map_params_write Let_def)
  then obtain pws' where w: "set_web_password_hashed demo_crypto map_params (Some ''next'') pws = (ESP_OK, pws')" by (metis prod.collapse)
  have g: "login_guard_reject (replicate LOGIN_GUARD_SLOTS no_guard) 5 10 = (None, 0, (replicate LOGIN_GUARD_SLOTS no_guard)[0 := no_guard\<lparr>lg_ip := 5, lg_seen := 10\<rparr>])"
    by (simp add: login_guard_reject_def login_guard_for_def LOGIN_GUARD_SLOTS_def eval_nat_numeral no_guard_def Let_def)
  have b: "demo_change \<noteq> []" "length demo_change < 512" by (simp_all add: demo_change_def)
  have p: "\<not> check_password_policy (Some ''next'')" by (simp add: check_password_policy_def WEB_UI_PASSWORD_MIN_LEN_def)
  have "\<exists>x st'. auth_change_password_handler demo_crypto map_params demo_js (demo_req 5 demo_change) 10 10 10 ?st = (Json_ok x, st')"
    using demo_recv [OF b] g v ok w p
    by (simp add: auth_change_password_handler_def require_auth_def request_authenticated_def demo_auth_fields Let_def
      demo_change_fields request_peer_ipv4_def demo_req_def)
  then obtain x st' where x: "auth_change_password_handler demo_crypto map_params demo_js (demo_req 5 demo_change) 10 10 10 ?st = (Json_ok x, st')"
    by blast
  show ?thesis
    using change_ends_sessions [OF demo_crypto_ok map_params_lawful x, of "demo_req 5 []" 20] x by blast
qed

definition demo_challenges :: "challenge list" where
  "demo_challenges = (replicate LOGIN_CHALLENGE_SLOTS no_challenge)[0 := \<lparr>ch_ip = 5, ch_nonce = replicate 16 1, ch_expires = 30\<rparr>]"

lemma challenge_one_time_witness:
  "login_challenge_consume demo_challenges 5 (replicate 16 1) 10 = (True, replicate LOGIN_CHALLENGE_SLOTS no_challenge) \<and>
   \<not> fst (login_challenge_consume (replicate LOGIN_CHALLENGE_SLOTS no_challenge) 5 (replicate 16 1) 11)"
proof -
  have c: "login_challenge_consume demo_challenges 5 (replicate 16 1) 10 = (True, replicate LOGIN_CHALLENGE_SLOTS no_challenge)"
    by code_simp
  have "inj_on (\<lambda>k. ch_nonce (demo_challenges ! k)) {k. k < length demo_challenges \<and> 10 < ch_expires (demo_challenges ! k)}"
  proof (rule inj_onI)
    fix j k assume "j \<in> {k. k < length demo_challenges \<and> 10 < ch_expires (demo_challenges ! k)}"
      "k \<in> {k. k < length demo_challenges \<and> 10 < ch_expires (demo_challenges ! k)}"
    then show "j = k" by (cases "j = 0"; cases "k = 0") (simp_all add: demo_challenges_def no_challenge_def)
  qed
  then show ?thesis using challenge_one_time [OF _ c, of 11 5] c by simp
qed











end
