(* ===== verification/Nvs_Typed.thy ===== *)
theory Nvs_Typed
  imports Prelude
begin

text \<open>
  Non-volatile storage with values of several types, for the modules that read and write single
  keys of the namespace themselves.  The calls are a parameter of the model, over an arbitrary
  flash state \<open>'h\<close>; \<open>'b\<close> is what a blob of the module is.  A value is stored under its key and its
  type.
\<close>

datatype 'b nv = V8 u8 | V16 u16 | V32 u32 | VI32 u32 | VStr string | VBlob 'b

datatype nv_kind = T8 | T16 | T32 | TI32 | TStr | TBlob

fun nv_ty :: "'b nv \<Rightarrow> nv_kind" where
  "nv_ty (V8 _) = T8"
| "nv_ty (V16 _) = T16"
| "nv_ty (V32 _) = T32"
| "nv_ty (VI32 _) = TI32"
| "nv_ty (VStr _) = TStr"
| "nv_ty (VBlob _) = TBlob"

record ('h, 'b) nvs_typed =
  nt_open_ro :: "'h \<Rightarrow> esp_err"
  nt_open_rw :: "'h \<Rightarrow> esp_err"
  nt_get :: "'h \<Rightarrow> nv_kind \<Rightarrow> string \<Rightarrow> 'b nv option"
  nt_set :: "'h \<Rightarrow> string \<Rightarrow> 'b nv \<Rightarrow> esp_err \<times> 'h"
  nt_erase :: "'h \<Rightarrow> string \<Rightarrow> esp_err \<times> 'h"
  nt_commit :: "'h \<Rightarrow> esp_err \<times> 'h"

text \<open>The typed reads; \<open>None\<close> is any error.\<close>

definition get_u8 :: "('h, 'b) nvs_typed \<Rightarrow> 'h \<Rightarrow> string \<Rightarrow> u8 option" where
  "get_u8 api h k = (case nt_get api h T8 k of Some (V8 v) \<Rightarrow> Some v | _ \<Rightarrow> None)"

definition get_u16 :: "('h, 'b) nvs_typed \<Rightarrow> 'h \<Rightarrow> string \<Rightarrow> u16 option" where
  "get_u16 api h k = (case nt_get api h T16 k of Some (V16 v) \<Rightarrow> Some v | _ \<Rightarrow> None)"

definition get_u32 :: "('h, 'b) nvs_typed \<Rightarrow> 'h \<Rightarrow> string \<Rightarrow> u32 option" where
  "get_u32 api h k = (case nt_get api h T32 k of Some (V32 v) \<Rightarrow> Some v | _ \<Rightarrow> None)"

definition get_i32 :: "('h, 'b) nvs_typed \<Rightarrow> 'h \<Rightarrow> string \<Rightarrow> u32 option" where
  "get_i32 api h k = (case nt_get api h TI32 k of Some (VI32 v) \<Rightarrow> Some v | _ \<Rightarrow> None)"

definition get_str :: "('h, 'b) nvs_typed \<Rightarrow> 'h \<Rightarrow> string \<Rightarrow> string option" where
  "get_str api h k = (case nt_get api h TStr k of Some (VStr v) \<Rightarrow> Some v | _ \<Rightarrow> None)"

definition get_blob :: "('h, 'b) nvs_typed \<Rightarrow> 'h \<Rightarrow> string \<Rightarrow> 'b option" where
  "get_blob api h k = (case nt_get api h TBlob k of Some (VBlob v) \<Rightarrow> Some v | _ \<Rightarrow> None)"

lemmas nt_getters = get_u8_def get_u16_def get_u32_def get_i32_def get_str_def get_blob_def

text \<open>The accessors of \<open>nvs_params.c\<close>: open, one call, close; a change is committed.\<close>

definition param_str :: "('h, 'b) nvs_typed \<Rightarrow> 'h \<Rightarrow> string \<Rightarrow> string option" where
  "param_str api h k = (if nt_open_ro api h \<noteq> ESP_OK then None else get_str api h k)"

definition param_int :: "('h, 'b) nvs_typed \<Rightarrow> 'h \<Rightarrow> string \<Rightarrow> u32 option" where
  "param_int api h k = (if nt_open_ro api h \<noteq> ESP_OK then None else get_i32 api h k)"

definition param_set :: "('h, 'b) nvs_typed \<Rightarrow> 'h \<Rightarrow> string \<Rightarrow> 'b nv \<Rightarrow> esp_err \<times> 'h" where
  "param_set api h k v =
     (if nt_open_rw api h \<noteq> ESP_OK then (nt_open_rw api h, h)
      else (case nt_set api h k v of (err, h) \<Rightarrow> if err = ESP_OK then nt_commit api h else (err, h)))"

text \<open>
  Documented behaviour: a value that was set is what is read, other keys keep theirs, and a
  commit makes it last.
\<close>

definition nt_lawful :: "('h, 'b) nvs_typed \<Rightarrow> bool" where
  "nt_lawful api \<longleftrightarrow>
     (\<forall>h k v h'. nt_set api h k v = (ESP_OK, h') \<longrightarrow> nt_get api h' (nv_ty v) k = Some v) \<and>
     (\<forall>h k v e h' t j. nt_set api h k v = (e, h') \<longrightarrow> j \<noteq> k \<longrightarrow> nt_get api h' t j = nt_get api h t j) \<and>
     (\<forall>h k e h' t j. nt_erase api h k = (e, h') \<longrightarrow> j \<noteq> k \<longrightarrow> nt_get api h' t j = nt_get api h t j) \<and>
     (\<forall>h k h' t. nt_erase api h k = (ESP_OK, h') \<longrightarrow> nt_get api h' t k = None) \<and>
     (\<forall>h h'. nt_commit api h = (ESP_OK, h') \<longrightarrow> nt_get api h' = nt_get api h \<and> nt_open_ro api h' = ESP_OK)"

text \<open>A flash that accepts every write and erases what it is told to.\<close>

definition nt_healthy :: "('h, 'b) nvs_typed \<Rightarrow> bool" where
  "nt_healthy api \<longleftrightarrow> (\<forall>h. nt_open_ro api h = ESP_OK \<and> nt_open_rw api h = ESP_OK \<and> fst (nt_commit api h) = ESP_OK) \<and>
     (\<forall>h k v. fst (nt_set api h k v) = ESP_OK) \<and> (\<forall>h k t. nt_get api (snd (nt_erase api h k)) t k = None)"

lemma nt_set_same:
  "nt_lawful api \<Longrightarrow> fst (nt_set api h k v) = ESP_OK \<Longrightarrow> nt_get api (snd (nt_set api h k v)) (nv_ty v) k = Some v"
  by (auto simp: nt_lawful_def prod_eq_iff)

lemma nt_set_other:
  "nt_lawful api \<Longrightarrow> j \<noteq> k \<Longrightarrow> nt_get api (snd (nt_set api h k v)) t j = nt_get api h t j"
  by (auto simp: nt_lawful_def prod_eq_iff)

lemma nt_erase_other:
  "nt_lawful api \<Longrightarrow> j \<noteq> k \<Longrightarrow> nt_get api (snd (nt_erase api h k)) t j = nt_get api h t j"
  by (auto simp: nt_lawful_def prod_eq_iff)

lemma nt_commit_get:
  "nt_lawful api \<Longrightarrow> fst (nt_commit api h) = ESP_OK \<Longrightarrow>
   nt_get api (snd (nt_commit api h)) = nt_get api h \<and> nt_open_ro api (snd (nt_commit api h)) = ESP_OK"
  by (auto simp: nt_lawful_def prod_eq_iff)

lemma nt_healthyD:
  assumes "nt_healthy api"
  shows "nt_open_ro api h = ESP_OK" "nt_open_rw api h = ESP_OK" "fst (nt_commit api h) = ESP_OK" "fst (nt_set api h k v) = ESP_OK"
    "nt_get api (snd (nt_erase api h k)) t k = None"
  using assms by (auto simp: nt_healthy_def)

lemma param_set_ok:
  assumes "nt_lawful api" and "param_set api h k v = (ESP_OK, h')"
  shows "nt_get api h' (nv_ty v) k = Some v \<and> nt_open_ro api h' = ESP_OK" and "j \<noteq> k \<Longrightarrow> nt_get api h' t j = nt_get api h t j"
  using assms nt_commit_get [OF assms(1)] nt_set_same [OF assms(1)] nt_set_other [OF assms(1)]
  by (auto simp: param_set_def prod_eq_iff split: if_splits prod.splits)

lemma param_set_healthy: "nt_healthy api \<Longrightarrow> fst (param_set api h k v) = ESP_OK"
  using nt_healthyD [of api] by (auto simp: param_set_def split: prod.split) (metis fst_conv)

text \<open>A concrete store: a map from keys to values of every type.\<close>

type_synonym 'b typed_map = "nv_kind \<Rightarrow> string \<Rightarrow> 'b nv option"

definition map_typed :: "('b typed_map, 'b) nvs_typed" where
  "map_typed = \<lparr>nt_open_ro = (\<lambda>_. ESP_OK), nt_open_rw = (\<lambda>_. ESP_OK), nt_get = (\<lambda>h. h),
     nt_set = (\<lambda>h k v. (ESP_OK, \<lambda>t j. if j = k \<and> t = nv_ty v then Some v else h t j)),
     nt_erase = (\<lambda>h k. (ESP_OK, \<lambda>t j. if j = k then None else h t j)),
     nt_commit = (\<lambda>h. (ESP_OK, h))\<rparr>"

lemma map_typed_lawful: "nt_lawful map_typed"
  by (auto simp: nt_lawful_def map_typed_def)

lemma map_typed_healthy: "nt_healthy map_typed"
  by (auto simp: nt_healthy_def map_typed_def)

end
