(* ===== verification/Wifi_Networks.thy ===== *)
theory Wifi_Networks
  imports Nvs_Typed
begin

text \<open>
  The list of known WiFi networks (\<open>main/wifi_networks.c\<close>): five slots in RAM, one blob in NVS, and
  the readers of the two older blob layouts and of the single-network keys before them.  The
  layouts have different sizes, which is how the code tells them apart; here they are the
  constructors of a datatype.
\<close>

definition WIFI_NETWORKS_MAX :: nat where "WIFI_NETWORKS_MAX = 5"
definition WIFI_KEY :: string where "WIFI_KEY = ''wifi_nets''"

record wifi_network =
  wn_ssid :: string
  wn_passwd :: string
  wn_static_ip :: string
  wn_subnet :: string
  wn_gateway :: string
  wn_dns :: string
  wn_valid :: u8
  wn_eap_method :: u8
  wn_eap_phase2 :: u8
  wn_eap_use_cert_bundle :: u8
  wn_eap_identity :: string
  wn_eap_username :: string
  wn_eap_password :: string

definition no_network :: wifi_network where
  "no_network = \<lparr>wn_ssid = [], wn_passwd = [], wn_static_ip = [], wn_subnet = [], wn_gateway = [], wn_dns = [], wn_valid = 0,
     wn_eap_method = 0, wn_eap_phase2 = 0, wn_eap_use_cert_bundle = 0, wn_eap_identity = [], wn_eap_username = [], wn_eap_password = []\<rparr>"

record wifi_network_v1 =
  w1_ssid :: string
  w1_passwd :: string
  w1_static_ip :: string
  w1_subnet :: string
  w1_gateway :: string
  w1_valid :: u8

record wifi_network_v2 =
  w2_ssid :: string
  w2_passwd :: string
  w2_static_ip :: string
  w2_subnet :: string
  w2_gateway :: string
  w2_dns :: string
  w2_valid :: u8

text \<open>The blob; \<open>Layout_other\<close> has a size that none of the layouts has.\<close>

datatype wifi_blob =
    Layout_v1 "wifi_network_v1 list"
  | Layout_v2 "wifi_network_v2 list"
  | Layout_v3 "wifi_network list"
  | Layout_other

record 'h wifi_state =
  wf_nets :: "wifi_network list"
  wf_count :: nat
  wf_loaded :: bool
  wf_flash :: 'h

text \<open>A boot: nothing is loaded yet.\<close>

definition wifi_boot :: "'h \<Rightarrow> 'h wifi_state" where
  "wifi_boot h = \<lparr>wf_nets = replicate WIFI_NETWORKS_MAX no_network, wf_count = 0, wf_loaded = False, wf_flash = h\<rparr>"

definition clear_cache :: "'h wifi_state \<Rightarrow> 'h wifi_state" where
  "clear_cache st = st\<lparr>wf_nets := replicate WIFI_NETWORKS_MAX no_network, wf_count := 0\<rparr>"

definition wifi_networks_set_all :: "('h, wifi_blob) nvs_typed \<Rightarrow> wifi_network list option \<Rightarrow> int \<Rightarrow> 'h wifi_state \<Rightarrow> esp_err \<times> 'h wifi_state" where
  "wifi_networks_set_all api arr count st =
     (case arr of None \<Rightarrow> (ESP_ERR_INVALID_ARG, st)
      | Some arr \<Rightarrow>
        let count = (if count < 0 then 0 else if int WIFI_NETWORKS_MAX < count then WIFI_NETWORKS_MAX else nat count);
            st = clear_cache st;
            r = slot_fill (\<lambda>n. wn_ssid n \<noteq> []) (\<lambda>n. n\<lparr>wn_valid := 1\<rparr>) (take count arr) (wf_nets st, wf_count st);
            st = st\<lparr>wf_nets := fst r, wf_count := snd r\<rparr> in
        if nt_open_rw api (wf_flash st) \<noteq> ESP_OK then (nt_open_rw api (wf_flash st), st)
        else (case nt_set api (wf_flash st) WIFI_KEY (VBlob (Layout_v3 (wf_nets st))) of
          (err, h) \<Rightarrow> (case (if err = ESP_OK then nt_commit api h else (err, h)) of
             (err, h) \<Rightarrow> (err, st\<lparr>wf_flash := h, wf_loaded := True\<rparr>))))"

definition expand_v1 :: "wifi_network_v1 \<Rightarrow> wifi_network" where
  "expand_v1 n = no_network\<lparr>wn_ssid := w1_ssid n, wn_passwd := w1_passwd n, wn_static_ip := w1_static_ip n,
     wn_subnet := w1_subnet n, wn_gateway := w1_gateway n, wn_valid := w1_valid n\<rparr>"

definition expand_v2 :: "wifi_network_v2 \<Rightarrow> wifi_network" where
  "expand_v2 n = no_network\<lparr>wn_ssid := w2_ssid n, wn_passwd := w2_passwd n, wn_static_ip := w2_static_ip n,
     wn_subnet := w2_subnet n, wn_gateway := w2_gateway n, wn_dns := w2_dns n, wn_valid := w2_valid n\<rparr>"

text \<open>The single-network keys; \<open>strlcpy\<close> cuts a value to its field.\<close>

definition str_or_nil :: "string option \<Rightarrow> nat \<Rightarrow> string" where
  "str_or_nil s z = (case s of None \<Rightarrow> [] | Some s \<Rightarrow> take (z - 1) s)"

definition migrate_legacy :: "('h, wifi_blob) nvs_typed \<Rightarrow> 'h \<Rightarrow> wifi_network option" where
  "migrate_legacy api h =
     (let key = param_str api h in
      case key ''ssid'' of None \<Rightarrow> None
      | Some ssid \<Rightarrow>
         if ssid = [] then None
         else Some (no_network\<lparr>wn_ssid := take 32 ssid, wn_passwd := str_or_nil (key ''passwd'') 65,
             wn_static_ip := str_or_nil (key ''static_ip'') 16, wn_subnet := str_or_nil (key ''subnet'') 16,
             wn_gateway := str_or_nil (key ''gateway'') 16, wn_valid := 1\<rparr>))"

definition usable :: "wifi_network \<Rightarrow> bool" where
  "usable n = (wn_valid n \<noteq> 0 \<and> wn_ssid n \<noteq> [])"

definition wifi_networks_init :: "('h, wifi_blob) nvs_typed \<Rightarrow> 'h wifi_state \<Rightarrow> 'h wifi_state" where
  "wifi_networks_init api st =
     (let st = clear_cache st; h = wf_flash st;
          migrated = (\<lambda>nets. (snd (wifi_networks_set_all api (Some nets) (int WIFI_NETWORKS_MAX)
                               (st\<lparr>wf_nets := nets, wf_count := length (filter usable nets)\<rparr>)))\<lparr>wf_loaded := True\<rparr>);
          legacy = (\<lambda>_ :: unit. (case migrate_legacy api h of
              Some n \<Rightarrow> (snd (wifi_networks_set_all api (Some [n]) 1 st))\<lparr>wf_loaded := True\<rparr>
            | None \<Rightarrow> st\<lparr>wf_loaded := True\<rparr>)) in
      if nt_open_ro api h \<noteq> ESP_OK then legacy ()
      else (case get_blob api h WIFI_KEY of
          None \<Rightarrow> legacy ()
        | Some (Layout_v3 nets) \<Rightarrow> st\<lparr>wf_nets := nets, wf_count := length (filter usable nets), wf_loaded := True\<rparr>
        | Some (Layout_v1 nets) \<Rightarrow> migrated (map expand_v1 nets)
        | Some (Layout_v2 nets) \<Rightarrow> migrated (map expand_v2 nets)
        | Some Layout_other \<Rightarrow> legacy ()))"

definition wifi_networks_count :: "('h, wifi_blob) nvs_typed \<Rightarrow> 'h wifi_state \<Rightarrow> nat \<times> 'h wifi_state" where
  "wifi_networks_count api st = (let st = (if wf_loaded st then st else wifi_networks_init api st) in (wf_count st, st))"

definition wifi_networks_get :: "('h, wifi_blob) nvs_typed \<Rightarrow> int \<Rightarrow> 'h wifi_state \<Rightarrow> wifi_network option \<times> 'h wifi_state" where
  "wifi_networks_get api i st =
     (let st = (if wf_loaded st then st else wifi_networks_init api st) in
      (if i < 0 \<or> int WIFI_NETWORKS_MAX \<le> i then None
       else if \<not> usable (wf_nets st ! nat i) then None
       else Some (wf_nets st ! nat i), st))"

section \<open>What the flash knows\<close>

text \<open>The networks a caller gets by asking for every index, in order.\<close>

definition known_networks :: "'h wifi_state \<Rightarrow> wifi_network list" where
  "known_networks st = filter usable (wf_nets st)"

definition saved_form :: "wifi_network list \<Rightarrow> wifi_network list" where
  "saved_form ns = map (\<lambda>n. n\<lparr>wn_valid := 1\<rparr>) (filter (\<lambda>n. wn_ssid n \<noteq> []) ns)"

text \<open>The same for a flash, whatever layout it holds.\<close>

definition flash_networks :: "('h, wifi_blob) nvs_typed \<Rightarrow> 'h \<Rightarrow> wifi_network list" where
  "flash_networks api h =
     (let legacy = (case migrate_legacy api h of None \<Rightarrow> [] | Some n \<Rightarrow> [n]) in
      case get_blob api h WIFI_KEY of
        None \<Rightarrow> legacy
      | Some Layout_other \<Rightarrow> legacy
      | Some (Layout_v1 ns) \<Rightarrow> saved_form (map expand_v1 ns)
      | Some (Layout_v2 ns) \<Rightarrow> saved_form (map expand_v2 ns)
      | Some (Layout_v3 ns) \<Rightarrow> filter usable ns)"

definition blob_ok :: "wifi_blob option \<Rightarrow> bool" where
  "blob_ok b = (case b of Some (Layout_v1 ns) \<Rightarrow> length ns = WIFI_NETWORKS_MAX
     | Some (Layout_v2 ns) \<Rightarrow> length ns = WIFI_NETWORKS_MAX | Some (Layout_v3 ns) \<Rightarrow> length ns = WIFI_NETWORKS_MAX | _ \<Rightarrow> True)"

definition padded :: "wifi_network list \<Rightarrow> wifi_network list" where
  "padded ns = ns @ replicate (WIFI_NETWORKS_MAX - length ns) no_network"

lemma saved_form_length: "length (saved_form ns) \<le> length ns"
  by (simp add: saved_form_def)

lemma usable_saved [simp]: "filter usable (saved_form ns) = saved_form ns"
  by (auto simp: filter_id_conv saved_form_def usable_def)

lemma usable_padded: "length ns \<le> WIFI_NETWORKS_MAX \<Longrightarrow> filter usable (padded (saved_form ns)) = saved_form ns"
  by (simp add: padded_def usable_def no_network_def)

lemma padded_nth:
  assumes "length ns \<le> WIFI_NETWORKS_MAX" and "i < WIFI_NETWORKS_MAX"
  shows "usable (padded (saved_form ns) ! i) = (i < length (saved_form ns)) \<and> padded (saved_form ns) ! i =
    (if i < length (saved_form ns) then saved_form ns ! i else no_network)"
proof (cases "i < length (saved_form ns)")
  case True
  then have "saved_form ns ! i \<in> set (saved_form ns)" by simp
  then have "usable (saved_form ns ! i)" by (auto simp: saved_form_def usable_def)
  then show ?thesis using True by (simp add: padded_def nth_append)
next
  case False
  then show ?thesis
    using assms saved_form_length [of ns] by (simp add: padded_def nth_append usable_def no_network_def)
qed

lemma set_all_eq:
  assumes "wifi_networks_set_all api (Some arr) n st = (err, st')" and "length arr = nat n" and "0 \<le> n"
  shows "wf_nets st' = padded (saved_form (take WIFI_NETWORKS_MAX arr)) \<and> wf_count st' = length (saved_form (take WIFI_NETWORKS_MAX arr))"
    and "err = ESP_OK \<Longrightarrow> wf_loaded st' \<and> (\<exists>h. nt_set api (wf_flash st) WIFI_KEY
      (VBlob (Layout_v3 (padded (saved_form (take WIFI_NETWORKS_MAX arr))))) = (ESP_OK, h) \<and> nt_commit api h = (ESP_OK, wf_flash st'))"
proof -
  let ?a = "take WIFI_NETWORKS_MAX arr"
  have t: "take (if n < 0 then 0 else if int WIFI_NETWORKS_MAX < n then WIFI_NETWORKS_MAX else nat n) arr = ?a"
    using assms(2,3) by auto
  have "slot_fill (\<lambda>n. wn_ssid n \<noteq> []) (\<lambda>n. n\<lparr>wn_valid := 1\<rparr>) ?a (replicate WIFI_NETWORKS_MAX no_network, 0)
      = (padded (saved_form ?a), length (saved_form ?a))"
    by (subst slot_fill_clear) (simp_all add: padded_def saved_form_def)
  then show "wf_nets st' = padded (saved_form ?a) \<and> wf_count st' = length (saved_form ?a)"
    and "err = ESP_OK \<Longrightarrow> wf_loaded st' \<and> (\<exists>h. nt_set api (wf_flash st) WIFI_KEY (VBlob (Layout_v3 (padded (saved_form ?a)))) = (ESP_OK, h)
      \<and> nt_commit api h = (ESP_OK, wf_flash st'))"
    using assms(1) unfolding wifi_networks_set_all_def option.case Let_def t
    by (auto simp: clear_cache_def split: if_splits prod.splits)
qed

lemma set_all_flash:
  assumes "nt_lawful api" and "wifi_networks_set_all api (Some arr) n st = (ESP_OK, st')" and "length arr = nat n" and "0 \<le> n"
  shows "get_blob api (wf_flash st') WIFI_KEY = Some (Layout_v3 (padded (saved_form (take WIFI_NETWORKS_MAX arr))))
    \<and> nt_open_ro api (wf_flash st') = ESP_OK"
proof -
  obtain h where h: "nt_set api (wf_flash st) WIFI_KEY (VBlob (Layout_v3 (padded (saved_form (take WIFI_NETWORKS_MAX arr))))) = (ESP_OK, h)"
    "nt_commit api h = (ESP_OK, wf_flash st')"
    using set_all_eq(2) [OF assms(2-4)] by blast
  show ?thesis
    using nt_set_same [OF assms(1), of "wf_flash st" WIFI_KEY "VBlob (Layout_v3 (padded (saved_form (take WIFI_NETWORKS_MAX arr))))"]
      nt_commit_get [OF assms(1), of h] h by (simp add: get_blob_def)
qed

text \<open>What a start loads from a saved list, and what every index then gives.\<close>

lemma saved_init:
  assumes "nt_lawful api" and "wifi_networks_set_all api (Some arr) n st = (ESP_OK, st')" and "length arr = nat n" and "0 \<le> n"
  shows "wifi_networks_init api (wifi_boot (wf_flash st')) = (wifi_boot (wf_flash st'))
    \<lparr>wf_nets := padded (saved_form (take WIFI_NETWORKS_MAX arr)), wf_count := length (saved_form (take WIFI_NETWORKS_MAX arr)), wf_loaded := True\<rparr>"
  using set_all_flash [OF assms] usable_padded [of "take WIFI_NETWORKS_MAX arr"]
  by (simp add: wifi_networks_init_def clear_cache_def wifi_boot_def Let_def)

lemma padded_get:
  assumes "length a \<le> WIFI_NETWORKS_MAX" and "wf_nets (if wf_loaded s then s else wifi_networks_init api s) = padded (saved_form a)"
  shows "fst (wifi_networks_get api (int i) s) = (if i < length (saved_form a) then Some (saved_form a ! i) else None)"
proof (cases "i < WIFI_NETWORKS_MAX")
  case True
  then show ?thesis using padded_nth [OF assms(1) True] assms(2) by (auto simp: wifi_networks_get_def Let_def)
qed (use assms saved_form_length [of a] in \<open>simp add: wifi_networks_get_def Let_def\<close>)

text \<open>
  A saved list of networks is what every later boot offers: the named ones of the first five, in
  order, each at its index, and nothing behind them; the keys of older firmware do not come back,
  also when the list is empty.
\<close>

theorem wifi_saved_networks_survive:
  assumes "nt_lawful api" and "wifi_networks_set_all api (Some arr) n st = (ESP_OK, st')" and "length arr = nat n" and "0 \<le> n"
  shows "let kept = saved_form (take WIFI_NETWORKS_MAX arr); st2 = wifi_boot (wf_flash st') in
    fst (wifi_networks_count api st2) = length kept \<and>
    (\<lambda>i. fst (wifi_networks_get api (int i) st2)) = (\<lambda>i. if i < length kept then Some (kept ! i) else None) \<and>
    (\<lambda>i. fst (wifi_networks_get api (int i) st')) = (\<lambda>i. if i < length kept then Some (kept ! i) else None)"
proof -
  let ?a = "take WIFI_NETWORKS_MAX arr" let ?st2 = "wifi_boot (wf_flash st')"
  have now: "wf_nets (if wf_loaded st' then st' else wifi_networks_init api st') = padded (saved_form ?a)"
    using set_all_eq [OF assms(2-4)] by simp
  have boot: "wf_nets (if wf_loaded ?st2 then ?st2 else wifi_networks_init api ?st2) = padded (saved_form ?a)"
    using saved_init [OF assms] by (simp add: wifi_boot_def)
  have "fst (wifi_networks_count api ?st2) = length (saved_form ?a)"
    by (simp add: wifi_networks_count_def saved_init [OF assms]) (simp add: wifi_boot_def)
  then show ?thesis unfolding Let_def by (simp only: padded_get [OF _ now] padded_get [OF _ boot] length_take min.cobounded2 simp_thms)
qed

lemma healthy_set_all:
  assumes "nt_healthy api"
  shows "fst (wifi_networks_set_all api (Some arr) n st) = ESP_OK"
  using nt_healthyD [OF assms] by (auto simp: wifi_networks_set_all_def Let_def prod_eq_iff split: prod.split)

text \<open>What a save leaves, in RAM and in the flash, for a list that fits.\<close>

lemma set_all_kept:
  assumes "nt_lawful api" and "nt_healthy api" and "length arr = nat n" and "0 \<le> n" and "n \<le> int WIFI_NETWORKS_MAX"
    and "st' = (snd (wifi_networks_set_all api (Some arr) n st))\<lparr>wf_loaded := True\<rparr>"
  shows "known_networks st' = saved_form arr \<and> wf_count st' = length (known_networks st') \<and> wf_loaded st' \<and>
    flash_networks api (wf_flash st') = saved_form arr"
proof -
  obtain st1 where s: "wifi_networks_set_all api (Some arr) n st = (ESP_OK, st1)"
    using healthy_set_all [OF assms(2), of arr n st] by (metis prod.collapse)
  have "take WIFI_NETWORKS_MAX arr = arr" "length arr \<le> WIFI_NETWORKS_MAX" using assms(3-5) by auto
  then show ?thesis
    using set_all_eq(1) [OF s assms(3,4)] set_all_flash [OF assms(1) s assms(3,4)] usable_padded [of arr] assms(6) s
    by (simp add: known_networks_def flash_networks_def)
qed

lemma legacy_single: "migrate_legacy api h = Some n \<Longrightarrow> saved_form [n] = [n]"
  by (auto simp: migrate_legacy_def Let_def saved_form_def split: option.splits if_splits)

lemma legacy_start:
  assumes "nt_lawful api" and "nt_healthy api" and "get_blob api h WIFI_KEY = None \<or> get_blob api h WIFI_KEY = Some Layout_other"
  shows "let st = wifi_networks_init api (wifi_boot h); nets = (case migrate_legacy api h of None \<Rightarrow> [] | Some n \<Rightarrow> [n]) in
    known_networks st = nets \<and> wf_count st = length (known_networks st) \<and> wf_loaded st \<and> flash_networks api (wf_flash st) = nets"
proof (cases "migrate_legacy api h")
  case None
  have h: "wf_flash (clear_cache (wifi_boot h)) = h" by (simp add: clear_cache_def wifi_boot_def)
  have "wifi_networks_init api (wifi_boot h) = (clear_cache (wifi_boot h))\<lparr>wf_loaded := True\<rparr>"
    using assms(3) None h by (auto simp: wifi_networks_init_def Let_def)
  then show ?thesis using assms(3) None
    by (auto simp: Let_def known_networks_def clear_cache_def wifi_boot_def flash_networks_def usable_def no_network_def)
next
  case (Some n)
  have h: "wf_flash (clear_cache (wifi_boot h)) = h" by (simp add: clear_cache_def wifi_boot_def)
  have e: "wifi_networks_init api (wifi_boot h) = (snd (wifi_networks_set_all api (Some [n]) 1 (clear_cache (wifi_boot h))))\<lparr>wf_loaded := True\<rparr>"
    using assms(3) Some h by (auto simp: wifi_networks_init_def Let_def)
  show ?thesis
    using set_all_kept [OF assms(1,2) _ _ _ e] legacy_single [OF Some] Some by (simp add: WIFI_NETWORKS_MAX_def)
qed

text \<open>
  Whatever layout the flash holds, the start offers the networks that are in it, and rewrites an
  old layout so that the next start finds the same ones in the new form.
\<close>

theorem wifi_init_refines:
  assumes "nt_lawful api" and "nt_healthy api" and "blob_ok (get_blob api h WIFI_KEY)"
  shows "let st = wifi_networks_init api (wifi_boot h) in
    known_networks st = flash_networks api h \<and> wf_count st = length (known_networks st) \<and> wf_loaded st \<and>
    flash_networks api (wf_flash st) = flash_networks api h"
proof -
  let ?st = "wifi_networks_init api (wifi_boot h)"
  have ro: "nt_open_ro api h = ESP_OK" using nt_healthyD [OF assms(2)] by simp
  have h: "wf_flash (clear_cache (wifi_boot h)) = h" by (simp add: clear_cache_def wifi_boot_def)
  have migrated: ?thesis if "length nets = WIFI_NETWORKS_MAX" "flash_networks api h = saved_form nets"
    "?st = (snd (wifi_networks_set_all api (Some nets) (int WIFI_NETWORKS_MAX) s))\<lparr>wf_loaded := True\<rparr>" for nets s
    using set_all_kept [OF assms(1,2) _ _ _ that(3)] that(1,2) unfolding Let_def by simp
  consider "get_blob api h WIFI_KEY = None \<or> get_blob api h WIFI_KEY = Some Layout_other"
    | (v1) ns where "get_blob api h WIFI_KEY = Some (Layout_v1 ns)"
    | (v2) ns where "get_blob api h WIFI_KEY = Some (Layout_v2 ns)"
    | (v3) ns where "get_blob api h WIFI_KEY = Some (Layout_v3 ns)"
    by (metis wifi_blob.exhaust not_None_eq)
  then show ?thesis
  proof cases
    case 1
    moreover have "flash_networks api h = (case migrate_legacy api h of None \<Rightarrow> [] | Some n \<Rightarrow> [n])"
      using 1 by (auto simp: flash_networks_def Let_def)
    ultimately show ?thesis using legacy_start [OF assms(1,2) 1] unfolding Let_def by simp
  next
    case v1
    then have "length (map expand_v1 ns) = WIFI_NETWORKS_MAX" using assms(3) by (simp add: blob_ok_def)
    then show ?thesis
      using v1 ro h by (intro migrated [of "map expand_v1 ns"]) (auto simp: flash_networks_def wifi_networks_init_def Let_def)
  next
    case v2
    then have "length (map expand_v2 ns) = WIFI_NETWORKS_MAX" using assms(3) by (simp add: blob_ok_def)
    then show ?thesis
      using v2 ro h by (intro migrated [of "map expand_v2 ns"]) (auto simp: flash_networks_def wifi_networks_init_def Let_def)
  next
    case v3
    then show ?thesis using ro h by (simp add: wifi_networks_init_def flash_networks_def Let_def known_networks_def)
  qed
qed

section \<open>Concrete runs\<close>

definition demo_net :: "string \<Rightarrow> wifi_network" where
  "demo_net ssid = no_network\<lparr>wn_ssid := ssid, wn_passwd := ''secret''\<rparr>"

text \<open>A flash of older firmware: a blob of the second layout, and the single-network keys.\<close>

definition demo_old_net :: "string \<Rightarrow> u8 \<Rightarrow> wifi_network_v2" where
  "demo_old_net ssid v = \<lparr>w2_ssid = ssid, w2_passwd = ''pw'', w2_static_ip = [], w2_subnet = [], w2_gateway = [], w2_dns = ''9.9.9.9'', w2_valid = v\<rparr>"

definition demo_old_flash :: "wifi_blob typed_map" where
  "demo_old_flash = (\<lambda>t k. if t = TBlob \<and> k = WIFI_KEY
       then Some (VBlob (Layout_v2 (demo_old_net ''Home'' 1 # demo_old_net ''Work'' 1 # replicate 3 (demo_old_net [] 0))))
     else if t = TStr \<and> k = ''ssid'' then Some (VStr ''Older'') else None)"

lemma wifi_saved_networks_survive_witness:
  "\<exists>st'. wifi_networks_set_all map_typed (Some [demo_net ''A'', demo_net [], demo_net ''B'']) 3 (wifi_boot demo_old_flash) = (ESP_OK, st') \<and>
     fst (wifi_networks_count map_typed (wifi_boot (wf_flash st'))) = 2"
proof -
  let ?arr = "[demo_net ''A'', demo_net [], demo_net ''B'']"
  have s: "fst (wifi_networks_set_all map_typed (Some ?arr) 3 (wifi_boot demo_old_flash)) = ESP_OK"
    by (rule healthy_set_all [OF map_typed_healthy])
  then obtain st' where s: "wifi_networks_set_all map_typed (Some ?arr) 3 (wifi_boot demo_old_flash) = (ESP_OK, st')"
    by (metis prod.collapse)
  have k: "length (saved_form (take WIFI_NETWORKS_MAX ?arr)) = 2"
    by (simp add: saved_form_def WIFI_NETWORKS_MAX_def demo_net_def)
  have "length ?arr = nat 3" "(0 :: int) \<le> 3" by simp_all
  then show ?thesis using wifi_saved_networks_survive [OF map_typed_lawful s] s k unfolding Let_def by metis
qed

lemma wifi_init_refines_witness:
  "let st = wifi_networks_init map_typed (wifi_boot demo_old_flash) in
     known_networks st = flash_networks map_typed demo_old_flash \<and> map wn_ssid (known_networks st) = [''Home'', ''Work''] \<and>
     flash_networks map_typed (wf_flash st) = flash_networks map_typed demo_old_flash"
proof -
  have b: "get_blob map_typed demo_old_flash WIFI_KEY =
      Some (Layout_v2 (demo_old_net ''Home'' 1 # demo_old_net ''Work'' 1 # replicate 3 (demo_old_net [] 0)))"
    by (simp add: get_blob_def map_typed_def demo_old_flash_def)
  then have "blob_ok (get_blob map_typed demo_old_flash WIFI_KEY)" by (simp add: blob_ok_def WIFI_NETWORKS_MAX_def)
  moreover have "map wn_ssid (flash_networks map_typed demo_old_flash) = [''Home'', ''Work'']"
    by (simp add: flash_networks_def b saved_form_def expand_v2_def demo_old_net_def eval_nat_numeral)
  ultimately show ?thesis using wifi_init_refines [OF map_typed_lawful map_typed_healthy] unfolding Let_def by metis
qed

end
