(* ===== verification/Wifi_Policy.thy ===== *)
theory Wifi_Policy
  imports Wifi_Networks
begin

text \<open>
  The WiFi policy of \<open>main/main.c\<close>: which of the known networks the station tries, when the access
  point is up and on which channel, and which resolver its clients are told.

  The board is a parameter over an arbitrary state \<open>'d\<close>: the WiFi driver, the netifs, the scheduler
  and the other modules that are called.  What the code reads of it are functions; a call whose
  result the code ignores is a \<open>wifi_cmd\<close> that the board is told.
\<close>

section \<open>State\<close>

datatype wifi_mode = WIFI_MODE_NULL | WIFI_MODE_STA | WIFI_MODE_AP | WIFI_MODE_APSTA

record sta_config =
  sc_ssid :: string
  sc_passwd :: string

record ap_config =
  ap_ssid :: string
  ap_ssid_len :: nat
  ap_passwd :: string
  ap_channel :: u8
  ap_open :: bool
  ap_hidden :: bool

datatype wifi_cmd =
    Connect | Disconnect | Deauth u16 | Set_sta sta_config | Set_ap ap_config
  | Enterprise_disable | Enterprise_enable | Eap_identity string | Eap_username string | Eap_password string
  | Ttls_phase2 u8 | Use_cert_bundle
  | Dhcpc_stop | Dhcpc_start | Set_ip u32 u32 u32 | Set_sta_dns u32 | Sta_hostname string
  | Set_ap_ip u32 u32 | Napt_enable | Offer_dns u32
  | Start_ts_task | Set_connected_bit | Portmap_install_all | Sdlog_flush

record 'd wifi_board =
  wb_mode :: "'d \<Rightarrow> wifi_mode option"
  wb_set_mode :: "'d \<Rightarrow> wifi_mode \<Rightarrow> esp_err \<times> 'd"
  wb_ap :: "'d \<Rightarrow> ap_config option"
  wb_sta :: "'d \<Rightarrow> sta_config option"
  wb_uplink_channel :: "'d \<Rightarrow> u8 option"
  wb_spawn :: "'d \<Rightarrow> bool \<times> 'd"
  wb_tell :: "wifi_cmd \<Rightarrow> 'd \<Rightarrow> 'd"
  wb_denied :: "'d \<Rightarrow> mac \<Rightarrow> bool"
  wb_relay_answers :: "'d \<Rightarrow> bool"
  wb_ap_ip :: "'d \<Rightarrow> u32 option"
  wb_sta_dns :: "'d \<Rightarrow> u32"

text \<open>
  The statics, with the known networks and the flash in \<open>wp_nets\<close>.  A policy worker is its generation
  and, once it has run up to its delay, the target it then read.
\<close>

record ('h, 'd) wifi_policy =
  wp_board :: 'd
  wp_nets :: "'h wifi_state"
  wp_ap_connect :: bool
  wp_connect_count :: int
  wp_net_current :: int
  wp_net_retries :: int
  wp_manual_scan :: bool
  wp_auto_off :: bool
  wp_target_on :: bool
  wp_generation :: u32
  wp_eap_active :: bool
  wp_workers :: "(u32 \<times> bool option) list"

definition wp_flash :: "('h, 'd) wifi_policy \<Rightarrow> 'h" where "wp_flash s = wf_flash (wp_nets s)"

text \<open>The statics at a start.\<close>

definition policy_boot :: "'d \<Rightarrow> 'h \<Rightarrow> ('h, 'd) wifi_policy" where
  "policy_boot d h = \<lparr>wp_board = d, wp_nets = wifi_boot h, wp_ap_connect = False, wp_connect_count = 0, wp_net_current = 0,
     wp_net_retries = 0, wp_manual_scan = False, wp_auto_off = False, wp_target_on = True, wp_generation = 0,
     wp_eap_active = False, wp_workers = []\<rparr>"

text \<open>The Kconfig values.\<close>

record kconfig =
  kc_sta_ssid :: string
  kc_sta_passwd :: string
  kc_ap_ssid :: string
  kc_ap_passwd :: string
  kc_channel :: u8

definition WIFI_RETRIES_PER_NETWORK :: int where "WIFI_RETRIES_PER_NETWORK = 5"

definition tell :: "'d wifi_board \<Rightarrow> wifi_cmd \<Rightarrow> ('h, 'd) wifi_policy \<Rightarrow> ('h, 'd) wifi_policy" where
  "tell bd c s = s\<lparr>wp_board := wb_tell bd c (wp_board s)\<rparr>"

text \<open>Reads and writes of single settings; an error of a write is ignored.\<close>

definition int_or :: "('h, 'b) nvs_typed \<Rightarrow> 'h \<Rightarrow> string \<Rightarrow> u32" where
  "int_or api h k = (case param_int api h k of None \<Rightarrow> 0 | Some v \<Rightarrow> v)"

definition str_set :: "string option \<Rightarrow> string option" where
  "str_set s = (case s of Some (c # cs) \<Rightarrow> Some (c # cs) | _ \<Rightarrow> None)"

definition save_nv :: "('h, wifi_blob) nvs_typed \<Rightarrow> string \<Rightarrow> wifi_blob nv \<Rightarrow> ('h, 'd) wifi_policy \<Rightarrow> ('h, 'd) wifi_policy" where
  "save_nv api k v s = s\<lparr>wp_nets := (wp_nets s)\<lparr>wf_flash := snd (param_set api (wp_flash s) k v)\<rparr>\<rparr>"

definition good_channel :: "u32 \<Rightarrow> bool" where
  "good_channel v \<longleftrightarrow> 1 \<le> sint v \<and> sint v \<le> 13"

definition learned_channel :: "('h, 'b) nvs_typed \<Rightarrow> 'h \<Rightarrow> u32 option" where
  "learned_channel api h = (case param_int api h ''ap_chan_learned'' of
     Some v \<Rightarrow> if good_channel v then Some v else None | None \<Rightarrow> None)"

section \<open>The resolver that clients are told\<close>

definition offered_dns :: "(string \<Rightarrow> u32 option) \<Rightarrow> ('h, 'b) nvs_typed \<Rightarrow> 'd wifi_board \<Rightarrow> 'd \<Rightarrow> 'h \<Rightarrow> u32" where
  "offered_dns aton api bd d h =
     (let custom = (case str_set (param_str api h ''ap_dns'') of
          Some v \<Rightarrow> (case aton v of Some a \<Rightarrow> if a \<noteq> 0 then a else wb_sta_dns bd d | None \<Rightarrow> wb_sta_dns bd d)
        | None \<Rightarrow> wb_sta_dns bd d) in
      if wb_relay_answers bd d then (case wb_ap_ip bd d of Some a \<Rightarrow> if a \<noteq> 0 then a else custom | None \<Rightarrow> custom)
      else custom)"

definition softap_set_dns_addr ::
  "(string \<Rightarrow> u32 option) \<Rightarrow> ('h, wifi_blob) nvs_typed \<Rightarrow> 'd wifi_board \<Rightarrow> ('h, 'd) wifi_policy \<Rightarrow> ('h, 'd) wifi_policy" where
  "softap_set_dns_addr aton api bd s = tell bd (Offer_dns (offered_dns aton api bd (wp_board s) (wp_flash s))) s"

text \<open>The relay reports that it answers, or no longer does.\<close>

definition dns_relay_state_cb ::
  "(string \<Rightarrow> u32 option) \<Rightarrow> ('h, wifi_blob) nvs_typed \<Rightarrow> 'd wifi_board \<Rightarrow> ('h, 'd) wifi_policy \<Rightarrow> ('h, 'd) wifi_policy" where
  "dns_relay_state_cb aton api bd s = softap_set_dns_addr aton api bd s"

section \<open>The access point\<close>

definition retuned_ap :: "('h, wifi_blob) nvs_typed \<Rightarrow> 'd wifi_board \<Rightarrow> ('h, 'd) wifi_policy \<Rightarrow> ('h, 'd) wifi_policy" where
  "retuned_ap api bd s =
     (case wb_ap bd (wp_board s) of None \<Rightarrow> s
      | Some c \<Rightarrow>
          (let ch = (case wb_uplink_channel bd (wp_board s) of Some ch \<Rightarrow> ch
              | None \<Rightarrow> (case learned_channel api (wp_flash s) of Some v \<Rightarrow> ucast v | None \<Rightarrow> 0))
           in tell bd (Set_ap (if ch \<noteq> 0 then c\<lparr>ap_channel := ch\<rparr> else c)) s))"

definition ap_policy_apply_runtime ::
  "(string \<Rightarrow> u32 option) \<Rightarrow> ('h, wifi_blob) nvs_typed \<Rightarrow> 'd wifi_board \<Rightarrow> bool \<Rightarrow> ('h, 'd) wifi_policy \<Rightarrow> ('h, 'd) wifi_policy" where
  "ap_policy_apply_runtime aton api bd on s =
     (case wb_mode bd (wp_board s) of None \<Rightarrow> s
      | Some mode \<Rightarrow>
          if on then
            (if mode = WIFI_MODE_APSTA \<or> mode = WIFI_MODE_AP then s
             else (let s = retuned_ap api bd s in
               case wb_set_mode bd (wp_board s) WIFI_MODE_APSTA of (e, d) \<Rightarrow>
                 let s = s\<lparr>wp_board := d\<rparr> in
                 if e \<noteq> ESP_OK then s else softap_set_dns_addr aton api bd (tell bd Napt_enable s)))
          else if mode = WIFI_MODE_STA then s
          else s\<lparr>wp_board := snd (wb_set_mode bd (wp_board s) WIFI_MODE_STA)\<rparr>)"

text \<open>The worker up to its delay, and behind it.\<close>

definition worker_start :: "nat \<Rightarrow> ('h, 'd) wifi_policy \<Rightarrow> ('h, 'd) wifi_policy" where
  "worker_start i s =
     (if i < length (wp_workers s) \<and> snd (wp_workers s ! i) = None
      then s\<lparr>wp_workers := (wp_workers s)[i := (fst (wp_workers s ! i), Some (wp_target_on s))]\<rparr> else s)"

definition worker_wake ::
  "(string \<Rightarrow> u32 option) \<Rightarrow> ('h, wifi_blob) nvs_typed \<Rightarrow> 'd wifi_board \<Rightarrow> nat \<Rightarrow> ('h, 'd) wifi_policy \<Rightarrow> ('h, 'd) wifi_policy" where
  "worker_wake aton api bd i s =
     (if i < length (wp_workers s) then
        (case wp_workers s ! i of
           (g, Some target) \<Rightarrow>
             (let s' = s\<lparr>wp_workers := take i (wp_workers s) @ drop (Suc i) (wp_workers s)\<rparr> in
              if g = wp_generation s' \<and> target = wp_target_on s' then ap_policy_apply_runtime aton api bd target s' else s')
         | (g, None) \<Rightarrow> s)
      else s)"

definition ap_policy_request :: "'d wifi_board \<Rightarrow> bool \<Rightarrow> ('h, 'd) wifi_policy \<Rightarrow> ('h, 'd) wifi_policy" where
  "ap_policy_request bd on s =
     (let s = s\<lparr>wp_target_on := on, wp_generation := wp_generation s + 1\<rparr> in
      case wb_spawn bd (wp_board s) of (ok, d) \<Rightarrow>
        let s = s\<lparr>wp_board := d\<rparr> in
        if ok then s\<lparr>wp_workers := wp_workers s @ [(wp_generation s, None)]\<rparr> else s)"

definition wifi_ap_runtime_enabled :: "'d wifi_board \<Rightarrow> 'd \<Rightarrow> bool" where
  "wifi_ap_runtime_enabled bd d = (wb_mode bd d = Some WIFI_MODE_AP \<or> wb_mode bd d = Some WIFI_MODE_APSTA)"

definition wifi_ap_policy_set_auto_off :: "'d wifi_board \<Rightarrow> bool \<Rightarrow> ('h, 'd) wifi_policy \<Rightarrow> ('h, 'd) wifi_policy" where
  "wifi_ap_policy_set_auto_off bd auto_off s = ap_policy_request bd (\<not> auto_off \<or> \<not> wp_ap_connect s) (s\<lparr>wp_auto_off := auto_off\<rparr>)"

definition networks_count :: "('h, wifi_blob) nvs_typed \<Rightarrow> ('h, 'd) wifi_policy \<Rightarrow> nat \<times> ('h, 'd) wifi_policy" where
  "networks_count api s = (case wifi_networks_count api (wp_nets s) of (n, w) \<Rightarrow> (n, s\<lparr>wp_nets := w\<rparr>))"

definition wifi_sta_pause_for_scan :: "'d wifi_board \<Rightarrow> ('h, 'd) wifi_policy \<Rightarrow> ('h, 'd) wifi_policy" where
  "wifi_sta_pause_for_scan bd s = tell bd Disconnect (s\<lparr>wp_manual_scan := True\<rparr>)"

definition wifi_sta_resume_after_scan :: "('h, wifi_blob) nvs_typed \<Rightarrow> 'd wifi_board \<Rightarrow> ('h, 'd) wifi_policy \<Rightarrow> ('h, 'd) wifi_policy" where
  "wifi_sta_resume_after_scan api bd s =
     (if \<not> wp_manual_scan s then s
      else (case networks_count api (s\<lparr>wp_manual_scan := False\<rparr>) of (n, s) \<Rightarrow> if 0 < n then tell bd Connect s else s))"

section \<open>Applying a network\<close>

definition strlcpy_field :: "nat \<Rightarrow> string \<Rightarrow> string" where "strlcpy_field z v = take (z - 1) v"

definition WIFI_EAP_PEAP :: u8 where "WIFI_EAP_PEAP = 1"
definition WIFI_EAP_TTLS :: u8 where "WIFI_EAP_TTLS = 2"

definition eap_outer :: "wifi_network \<Rightarrow> string" where
  "eap_outer n = (if wn_eap_identity n \<noteq> [] then wn_eap_identity n else wn_eap_username n)"

definition wifi_apply_eap :: "'d wifi_board \<Rightarrow> wifi_network \<Rightarrow> ('h, 'd) wifi_policy \<Rightarrow> bool \<times> ('h, 'd) wifi_policy" where
  "wifi_apply_eap bd n s =
     (if wn_eap_method n = 0 then
        (False, if wp_eap_active s then (tell bd Enterprise_disable s)\<lparr>wp_eap_active := False\<rparr> else s)
      else (let s = tell bd Enterprise_disable s in
        if wn_eap_username n = [] then (False, s)
        else (let s = tell bd (Eap_password (wn_eap_password n)) (tell bd (Eap_username (wn_eap_username n))
                        (tell bd (Eap_identity (eap_outer n)) s));
                  s = (if (wn_eap_method n = WIFI_EAP_PEAP \<or> wn_eap_method n = WIFI_EAP_TTLS) \<and> 1 \<le> wn_eap_phase2 n \<and> wn_eap_phase2 n \<le> 4
                       then tell bd (Ttls_phase2 (wn_eap_phase2 n)) s else s);
                  s = (if wn_eap_use_cert_bundle n \<noteq> 0 then tell bd Use_cert_bundle s else s)
              in (True, (tell bd Enterprise_enable s)\<lparr>wp_eap_active := True\<rparr>))))"

definition addr_or_0 :: "(string \<Rightarrow> u32 option) \<Rightarrow> string \<Rightarrow> u32" where
  "addr_or_0 aton v = (case aton v of Some a \<Rightarrow> a | None \<Rightarrow> 0)"

definition apply_addressing :: "(string \<Rightarrow> u32 option) \<Rightarrow> 'd wifi_board \<Rightarrow> wifi_network \<Rightarrow> ('h, 'd) wifi_policy \<Rightarrow> ('h, 'd) wifi_policy" where
  "apply_addressing aton bd n s =
     (let s = tell bd Dhcpc_stop s in
      if wn_static_ip n \<noteq> [] \<and> wn_subnet n \<noteq> [] \<and> wn_gateway n \<noteq> [] then
        (let s = tell bd (Set_ip (addr_or_0 aton (wn_static_ip n)) (addr_or_0 aton (wn_subnet n)) (addr_or_0 aton (wn_gateway n))) s;
             a = addr_or_0 aton (if wn_dns n \<noteq> [] then wn_dns n else wn_gateway n)
         in if a \<noteq> 0 then tell bd (Set_sta_dns a) s else s)
      else tell bd Dhcpc_start s)"

definition wifi_apply_network ::
  "(string \<Rightarrow> u32 option) \<Rightarrow> ('h, wifi_blob) nvs_typed \<Rightarrow> 'd wifi_board \<Rightarrow> int \<Rightarrow> ('h, 'd) wifi_policy \<Rightarrow> ('h, 'd) wifi_policy" where
  "wifi_apply_network aton api bd idx s =
     (case wifi_networks_get api idx (wp_nets s) of (r, w) \<Rightarrow>
        let s = s\<lparr>wp_nets := w\<rparr> in
        case r of None \<Rightarrow> s
        | Some n \<Rightarrow> (case wifi_apply_eap bd n s of (ent, s) \<Rightarrow>
            let cfg = \<lparr>sc_ssid = strlcpy_field 32 (wn_ssid n), sc_passwd = (if ent then [] else strlcpy_field 64 (wn_passwd n))\<rparr>
            in apply_addressing aton bd n (tell bd (Set_sta cfg) s)))"

section \<open>The events of the driver\<close>

definition on_ap_joined :: "'d wifi_board \<Rightarrow> mac \<Rightarrow> u16 \<Rightarrow> ('h, 'd) wifi_policy \<Rightarrow> ('h, 'd) wifi_policy" where
  "on_ap_joined bd m aid s =
     (if wb_denied bd (wp_board s) m then tell bd (Deauth aid) s else s\<lparr>wp_connect_count := wp_connect_count s + 1\<rparr>)"

definition on_ap_left :: "('h, 'd) wifi_policy \<Rightarrow> ('h, 'd) wifi_policy" where
  "on_ap_left s = (if 0 < wp_connect_count s then s\<lparr>wp_connect_count := wp_connect_count s - 1\<rparr> else s)"

definition on_sta_start :: "('h, wifi_blob) nvs_typed \<Rightarrow> 'd wifi_board \<Rightarrow> ('h, 'd) wifi_policy \<Rightarrow> ('h, 'd) wifi_policy" where
  "on_sta_start api bd s = (case networks_count api s of (n, s) \<Rightarrow> if 0 < n then tell bd Connect s else s)"

definition rotate_network ::
  "(string \<Rightarrow> u32 option) \<Rightarrow> ('h, wifi_blob) nvs_typed \<Rightarrow> 'd wifi_board \<Rightarrow> int \<Rightarrow> ('h, 'd) wifi_policy \<Rightarrow> ('h, 'd) wifi_policy" where
  "rotate_network aton api bd n s =
     (let s = s\<lparr>wp_net_retries := wp_net_retries s + 1\<rparr> in
      if WIFI_RETRIES_PER_NETWORK \<le> wp_net_retries s
      then (let s = s\<lparr>wp_net_current := (wp_net_current s + 1) mod n, wp_net_retries := 0\<rparr>
            in wifi_apply_network aton api bd (wp_net_current s) s)
      else s)"

definition on_sta_disconnected ::
  "(string \<Rightarrow> u32 option) \<Rightarrow> ('h, wifi_blob) nvs_typed \<Rightarrow> 'd wifi_board \<Rightarrow> ('h, 'd) wifi_policy \<Rightarrow> ('h, 'd) wifi_policy" where
  "on_sta_disconnected aton api bd s =
     (let s = s\<lparr>wp_ap_connect := False\<rparr>;
          s = (if wp_auto_off s then ap_policy_request bd True s else s) in
      if wp_manual_scan s then s
      else (case networks_count api s of (n, s) \<Rightarrow>
        let s = (if 1 < n then rotate_network aton api bd (int n) s else s)
        in if 0 < n then tell bd Connect s else s))"

text \<open>The part of the address event that may restart the device; \<open>True\<close> means that it does.\<close>

definition ch_why :: "u8 \<Rightarrow> u8 \<Rightarrow> string" where
  "ch_why a b = take 27 (''ch-realign '' @ dec (unat a) @ ''->'' @ dec (unat b))"

definition learn_channel :: "('h, wifi_blob) nvs_typed \<Rightarrow> u8 \<Rightarrow> ('h, 'd) wifi_policy \<Rightarrow> ('h, 'd) wifi_policy" where
  "learn_channel api ch s =
     (if int_or api (wp_flash s) ''ap_chan_learned'' \<noteq> ucast ch then save_nv api ''ap_chan_learned'' (VI32 (ucast ch)) s else s)"

definition ap_mismatch :: "'d wifi_board \<Rightarrow> 'd \<Rightarrow> u8 \<Rightarrow> u8 option" where
  "ap_mismatch bd d ch = (case wb_ap bd d of None \<Rightarrow> None | Some c \<Rightarrow> if ap_channel c \<noteq> ch then Some (ap_channel c) else None)"

definition realign :: "('h, wifi_blob) nvs_typed \<Rightarrow> 'd wifi_board \<Rightarrow> u8 \<Rightarrow> ('h, 'd) wifi_policy \<Rightarrow> bool \<times> ('h, 'd) wifi_policy" where
  "realign api bd ch s =
     (case ap_mismatch bd (wp_board s) ch of
        None \<Rightarrow> (False, if int_or api (wp_flash s) ''ap_realign_cnt'' \<noteq> 0 then save_nv api ''ap_realign_cnt'' (VI32 0) s else s)
      | Some a \<Rightarrow>
          if wp_auto_off s then (False, s)
          else (let rc = int_or api (wp_flash s) ''ap_realign_cnt'' in
            if sint rc < 3
            then (True, tell bd Sdlog_flush (save_nv api ''reboot_why'' (VStr (ch_why a ch)) (save_nv api ''ap_realign_cnt'' (VI32 (rc + 1)) s)))
            else (False, s)))"

definition ip_checked :: "('h, wifi_blob) nvs_typed \<Rightarrow> 'd wifi_board \<Rightarrow> ('h, 'd) wifi_policy \<Rightarrow> bool \<times> ('h, 'd) wifi_policy" where
  "ip_checked api bd s =
     (let s = s\<lparr>wp_net_retries := 0, wp_ap_connect := True\<rparr> in
      case wb_uplink_channel bd (wp_board s) of
        Some ch \<Rightarrow> if 1 \<le> ch \<and> ch \<le> 13 then realign api bd ch (learn_channel api ch s) else (False, s)
      | None \<Rightarrow> (False, s))"

definition on_sta_got_ip ::
  "(string \<Rightarrow> u32 option) \<Rightarrow> ('h, wifi_blob) nvs_typed \<Rightarrow> 'd wifi_board \<Rightarrow> bool \<Rightarrow> ('h, 'd) wifi_policy \<Rightarrow> bool \<times> ('h, 'd) wifi_policy" where
  "on_sta_got_ip aton api bd ts_enabled s =
     (case ip_checked api bd s of
        (True, s) \<Rightarrow> (True, s)
      | (False, s) \<Rightarrow>
          (let s = (if ts_enabled then tell bd Start_ts_task s else s);
               s = softap_set_dns_addr aton api bd (tell bd Set_connected_bit s);
               s = tell bd Portmap_install_all s
           in (False, if wp_auto_off s then ap_policy_request bd False s else s)))"

datatype wifi_event = Ap_joined mac u16 | Ap_left | Sta_start | Sta_disconnected | Sta_got_ip bool

definition wifi_event_handler ::
  "(string \<Rightarrow> u32 option) \<Rightarrow> ('h, wifi_blob) nvs_typed \<Rightarrow> 'd wifi_board \<Rightarrow> wifi_event \<Rightarrow> ('h, 'd) wifi_policy \<Rightarrow> bool \<times> ('h, 'd) wifi_policy" where
  "wifi_event_handler aton api bd ev s = (case ev of
       Ap_joined m aid \<Rightarrow> (False, on_ap_joined bd m aid s)
     | Ap_left \<Rightarrow> (False, on_ap_left s)
     | Sta_start \<Rightarrow> (False, on_sta_start api bd s)
     | Sta_disconnected \<Rightarrow> (False, on_sta_disconnected aton api bd s)
     | Sta_got_ip ts \<Rightarrow> on_sta_got_ip aton api bd ts s)"

section \<open>The start\<close>

definition wifi_init_softap ::
  "(string \<Rightarrow> u32 option) \<Rightarrow> ('h, wifi_blob) nvs_typed \<Rightarrow> 'd wifi_board \<Rightarrow> kconfig \<Rightarrow> ('h, 'd) wifi_policy \<Rightarrow> ('h, 'd) wifi_policy" where
  "wifi_init_softap aton api bd kc s =
     (let h = wp_flash s;
          s = (case (str_set (param_str api h ''ap_ip''), str_set (param_str api h ''ap_mask'')) of
              (Some ip, Some m) \<Rightarrow> (case (aton ip, aton m) of
                  (Some a, Some b) \<Rightarrow> if a \<noteq> 0 \<and> b \<noteq> 0 then tell bd (Set_ap_ip a b) s else s
                | _ \<Rightarrow> s)
            | _ \<Rightarrow> s);
          ssid = (case str_set (param_str api h ''ap_ssid'') of Some v \<Rightarrow> v | None \<Rightarrow> kc_ap_ssid kc);
          pw = (case str_set (param_str api h ''ap_passwd'') of Some v \<Rightarrow> v | None \<Rightarrow> kc_ap_passwd kc);
          ch = (case learned_channel api h of Some v \<Rightarrow> ucast v | None \<Rightarrow> kc_channel kc);
          hidden = (nt_open_ro api h = ESP_OK \<and> (case get_u8 api h ''ap_hidden'' of Some v \<Rightarrow> v \<noteq> 0 | None \<Rightarrow> False))
      in tell bd (Set_ap \<lparr>ap_ssid = strlcpy_field 32 ssid, ap_ssid_len = length ssid mod 256, ap_passwd = strlcpy_field 64 pw,
           ap_channel = ch, ap_open = (pw = []), ap_hidden = hidden\<rparr>) s)"

text \<open>A list that holds nothing but the sample credentials counts as empty.\<close>

definition only_placeholder :: "kconfig \<Rightarrow> nat \<Rightarrow> wifi_network option \<Rightarrow> bool" where
  "only_placeholder kc n net = (n = 1 \<and> (case net of Some w \<Rightarrow> wn_ssid w = kc_sta_ssid kc \<and> wn_passwd w = kc_sta_passwd kc | None \<Rightarrow> False))"

definition cached_network :: "kconfig \<Rightarrow> sta_config option \<Rightarrow> wifi_network option" where
  "cached_network kc c = (case c of None \<Rightarrow> None
     | Some c \<Rightarrow> if sc_ssid c \<noteq> [] \<and> \<not> (sc_ssid c = kc_sta_ssid kc \<and> sc_passwd c = kc_sta_passwd kc)
         then Some (no_network\<lparr>wn_ssid := strlcpy_field 33 (sc_ssid c), wn_passwd := strlcpy_field 65 (sc_passwd c), wn_valid := 1\<rparr>)
         else None)"

definition wifi_init_sta ::
  "(string \<Rightarrow> u32 option) \<Rightarrow> ('h, wifi_blob) nvs_typed \<Rightarrow> 'd wifi_board \<Rightarrow> kconfig \<Rightarrow> ('h, 'd) wifi_policy \<Rightarrow> ('h, 'd) wifi_policy" where
  "wifi_init_sta aton api bd kc s =
     (let s = (case str_set (param_str api (wp_flash s) ''hostname'') of Some v \<Rightarrow> tell bd (Sta_hostname v) s | None \<Rightarrow> s) in
      case networks_count api s of (n, s) \<Rightarrow>
      case (if only_placeholder kc n (fst (wifi_networks_get api 0 (wp_nets s)))
            then (0, s\<lparr>wp_nets := snd (wifi_networks_set_all api (Some [no_network]) 0 (wp_nets s))\<rparr>) else (n, s)) of (n, s) \<Rightarrow>
      if 0 < n then wifi_apply_network aton api bd 0 (s\<lparr>wp_net_current := 0, wp_net_retries := 0\<rparr>)
      else (case cached_network kc (wb_sta bd (wp_board s)) of
          Some w \<Rightarrow> s\<lparr>wp_nets := snd (wifi_networks_set_all api (Some [w]) 1 (wp_nets s))\<rparr>
        | None \<Rightarrow> tell bd (Set_sta \<lparr>sc_ssid = [], sc_passwd = []\<rparr>) s))"

text \<open>The WiFi part of \<open>app_main\<close>, from loading the networks to the start of the driver.\<close>

definition wifi_start ::
  "(string \<Rightarrow> u32 option) \<Rightarrow> ('h, wifi_blob) nvs_typed \<Rightarrow> 'd wifi_board \<Rightarrow> kconfig \<Rightarrow> 'd \<Rightarrow> 'h \<Rightarrow> ('h, 'd) wifi_policy" where
  "wifi_start aton api bd kc d h =
     (let s = policy_boot d h;
          s = s\<lparr>wp_nets := wifi_networks_init api (wp_nets s)\<rparr>;
          s = s\<lparr>wp_auto_off := (nt_open_ro api (wp_flash s) = ESP_OK \<and> (case get_u8 api (wp_flash s) ''ap_auto_off'' of Some v \<Rightarrow> v \<noteq> 0 | None \<Rightarrow> False))\<rparr>;
          s = s\<lparr>wp_board := snd (wb_set_mode bd (wp_board s) WIFI_MODE_APSTA)\<rparr>
      in wifi_init_sta aton api bd kc (wifi_init_softap aton api bd kc s))"

text \<open>The settings of removed features, erased once.\<close>

definition legacy_keys :: "string list" where
  "legacy_keys = [''tm_enabled'', ''tm_url'', ''tm_key'', ''tm_boot_cnt'', ''tm_flash_cnt'', ''tm_ban_ver'', ''ota_auto_in'',
     ''ota_auto_en'', ''ota_inst_h'', ''ota_beta'', ''ota_last_check'', ''ota_last_ver'']"

definition param_erase :: "('h, 'b) nvs_typed \<Rightarrow> 'h \<Rightarrow> string \<Rightarrow> esp_err \<times> 'h" where
  "param_erase api h k =
     (if nt_open_rw api h \<noteq> ESP_OK then (nt_open_rw api h, h)
      else (case nt_erase api h k of (err, h) \<Rightarrow>
        case (if err = ESP_OK then nt_commit api h else (err, h)) of (err, h) \<Rightarrow>
          (if err = ESP_ERR_NVS_NOT_FOUND then ESP_OK else err, h)))"

definition remove_legacy_outbound_settings :: "('h, 'b) nvs_typed \<Rightarrow> 'h \<Rightarrow> 'h" where
  "remove_legacy_outbound_settings api h =
     (if nt_open_ro api h = ESP_OK \<and> get_u8 api h ''privacy_v1'' = Some 1 then h
      else snd (param_set api (fold (\<lambda>k h. snd (param_erase api h k)) legacy_keys h) ''privacy_v1'' (V8 1)))"

section \<open>Runs\<close>

text \<open>
  What happens to a running device: events, requests of the web interface, steps of the workers, a
  power cycle, and anything that the world does to the board.
\<close>

datatype 'd node_action =
    Event wifi_event | Set_auto_off bool | Pause_scan | Resume_scan | Worker_start nat | Worker_wake nat
  | Power_cycle | World "'d \<Rightarrow> 'd"

definition node_restarts ::
  "(string \<Rightarrow> u32 option) \<Rightarrow> ('h, wifi_blob) nvs_typed \<Rightarrow> 'd wifi_board \<Rightarrow> 'd node_action \<Rightarrow> ('h, 'd) wifi_policy \<Rightarrow> bool" where
  "node_restarts aton api bd st s = (case st of Event ev \<Rightarrow> fst (wifi_event_handler aton api bd ev s) | _ \<Rightarrow> False)"

definition node_step ::
  "(string \<Rightarrow> u32 option) \<Rightarrow> ('h, wifi_blob) nvs_typed \<Rightarrow> 'd wifi_board \<Rightarrow> kconfig \<Rightarrow> 'd node_action \<Rightarrow> ('h, 'd) wifi_policy \<Rightarrow> ('h, 'd) wifi_policy" where
  "node_step aton api bd kc st s = (case st of
       Event ev \<Rightarrow> (case wifi_event_handler aton api bd ev s of (r, s) \<Rightarrow> if r then wifi_start aton api bd kc (wp_board s) (wp_flash s) else s)
     | Set_auto_off b \<Rightarrow> wifi_ap_policy_set_auto_off bd b s
     | Pause_scan \<Rightarrow> wifi_sta_pause_for_scan bd s
     | Resume_scan \<Rightarrow> wifi_sta_resume_after_scan api bd s
     | Worker_start i \<Rightarrow> worker_start i s
     | Worker_wake i \<Rightarrow> worker_wake aton api bd i s
     | Power_cycle \<Rightarrow> wifi_start aton api bd kc (wp_board s) (wp_flash s)
     | World f \<Rightarrow> s\<lparr>wp_board := f (wp_board s)\<rparr>)"

text \<open>
  Documented behaviour of the board: a configuration or mode that was set is the one read, and the
  other calls do not change it.
\<close>

definition board_lawful :: "'d wifi_board \<Rightarrow> bool" where
  "board_lawful bd \<longleftrightarrow>
     (\<forall>c d. wb_mode bd (wb_tell bd c d) = wb_mode bd d) \<and>
     (\<forall>c d. wb_sta bd (wb_tell bd c d) = (case c of Set_sta k \<Rightarrow> Some k | _ \<Rightarrow> wb_sta bd d)) \<and>
     (\<forall>c d. wb_ap bd (wb_tell bd c d) = (case c of Set_ap k \<Rightarrow> Some k | _ \<Rightarrow> wb_ap bd d)) \<and>
     (\<forall>d. wb_mode bd (snd (wb_spawn bd d)) = wb_mode bd d \<and> wb_sta bd (snd (wb_spawn bd d)) = wb_sta bd d) \<and>
     (\<forall>d m d'. wb_set_mode bd d m = (ESP_OK, d') \<longrightarrow> wb_mode bd d' = Some m)"

text \<open>A board on which tasks can be created and mode changes succeed.\<close>

definition board_healthy :: "'d wifi_board \<Rightarrow> bool" where
  "board_healthy bd \<longleftrightarrow> (\<forall>d. fst (wb_spawn bd d)) \<and> (\<forall>d m. fst (wb_set_mode bd d m) = ESP_OK)"

lemma board_lawfulD:
  assumes "board_lawful bd"
  shows "wb_mode bd (wb_tell bd c d) = wb_mode bd d"
    "wb_sta bd (wb_tell bd c d) = (case c of Set_sta k \<Rightarrow> Some k | _ \<Rightarrow> wb_sta bd d)"
    "wb_ap bd (wb_tell bd c d) = (case c of Set_ap k \<Rightarrow> Some k | _ \<Rightarrow> wb_ap bd d)"
    "wb_mode bd (snd (wb_spawn bd d)) = wb_mode bd d" "wb_sta bd (snd (wb_spawn bd d)) = wb_sta bd d"
    "fst (wb_set_mode bd d m) = ESP_OK \<Longrightarrow> wb_mode bd (snd (wb_set_mode bd d m)) = Some m"
  using assms by (auto simp: board_lawful_def prod_eq_iff)

section \<open>What the calls leave alone\<close>

text \<open>What the policy of the access point rests on, what the station is set to, and the networks.\<close>

definition ap_view :: "'d wifi_board \<Rightarrow> ('h, 'd) wifi_policy \<Rightarrow> bool \<times> bool \<times> bool \<times> u32 \<times> (u32 \<times> bool option) list \<times> wifi_mode option" where
  "ap_view bd s = (wp_auto_off s, wp_ap_connect s, wp_target_on s, wp_generation s, wp_workers s, wb_mode bd (wp_board s))"

definition sta_view :: "'d wifi_board \<Rightarrow> ('h, 'd) wifi_policy \<Rightarrow> 'h wifi_state \<times> bool \<times> int \<times> int \<times> sta_config option" where
  "sta_view bd s = (wp_nets s, wp_manual_scan s, wp_net_current s, wp_net_retries s, wb_sta bd (wp_board s))"

lemma tell_fields [simp]:
  "wp_nets (tell bd c s) = wp_nets s" "wp_board (tell bd c s) = wb_tell bd c (wp_board s)" "wp_flash (tell bd c s) = wp_flash s"
  "wp_ap_connect (tell bd c s) = wp_ap_connect s" "wp_connect_count (tell bd c s) = wp_connect_count s"
  "wp_net_current (tell bd c s) = wp_net_current s" "wp_net_retries (tell bd c s) = wp_net_retries s"
  "wp_manual_scan (tell bd c s) = wp_manual_scan s" "wp_auto_off (tell bd c s) = wp_auto_off s"
  "wp_target_on (tell bd c s) = wp_target_on s" "wp_generation (tell bd c s) = wp_generation s"
  "wp_eap_active (tell bd c s) = wp_eap_active s" "wp_workers (tell bd c s) = wp_workers s"
  by (simp_all add: tell_def wp_flash_def)

lemma tell_views:
  assumes "board_lawful bd"
  shows "ap_view bd (tell bd c s) = ap_view bd s" and "\<forall>k. c \<noteq> Set_sta k \<Longrightarrow> sta_view bd (tell bd c s) = sta_view bd s"
  using board_lawfulD(1,2) [OF assms] by (auto simp: ap_view_def sta_view_def split: wifi_cmd.split)

lemma eap_views:
  assumes "board_lawful bd"
  shows "ap_view bd (snd (wifi_apply_eap bd n s)) = ap_view bd s" "sta_view bd (snd (wifi_apply_eap bd n s)) = sta_view bd s"
    "fst (wifi_apply_eap bd n s) = (wn_eap_method n \<noteq> 0 \<and> wn_eap_username n \<noteq> [])"
  using board_lawfulD(1,2) [OF assms] by (simp_all add: wifi_apply_eap_def ap_view_def sta_view_def Let_def)

lemma addressing_views:
  assumes "board_lawful bd"
  shows "ap_view bd (apply_addressing aton bd n s) = ap_view bd s" "sta_view bd (apply_addressing aton bd n s) = sta_view bd s"
  using board_lawfulD(1,2) [OF assms] by (simp_all add: apply_addressing_def ap_view_def sta_view_def Let_def)

lemma dns_views:
  assumes "board_lawful bd"
  shows "ap_view bd (softap_set_dns_addr aton api bd s) = ap_view bd s" "sta_view bd (softap_set_dns_addr aton api bd s) = sta_view bd s"
  by (simp_all add: softap_set_dns_addr_def tell_views [OF assms])

text \<open>The configuration that the station gets for a network.\<close>

definition station_config :: "wifi_network \<Rightarrow> sta_config" where
  "station_config n = \<lparr>sc_ssid = strlcpy_field 32 (wn_ssid n),
     sc_passwd = (if wn_eap_method n \<noteq> 0 \<and> wn_eap_username n \<noteq> [] then [] else strlcpy_field 64 (wn_passwd n))\<rparr>"

lemma apply_network_views:
  assumes "board_lawful bd" and "wifi_networks_get api i (wp_nets s) = (r, wp_nets s)"
  shows "ap_view bd (wifi_apply_network aton api bd i s) = ap_view bd s"
    and "sta_view bd (wifi_apply_network aton api bd i s) = (wp_nets s, wp_manual_scan s, wp_net_current s, wp_net_retries s,
      case r of None \<Rightarrow> wb_sta bd (wp_board s) | Some n \<Rightarrow> Some (station_config n))"
proof -
  have "ap_view bd (wifi_apply_network aton api bd i s) = ap_view bd s \<and> sta_view bd (wifi_apply_network aton api bd i s) =
    (wp_nets s, wp_manual_scan s, wp_net_current s, wp_net_retries s, case r of None \<Rightarrow> wb_sta bd (wp_board s) | Some n \<Rightarrow> Some (station_config n))"
  proof (cases r)
    case None
    then show ?thesis using assms(2) by (simp add: wifi_apply_network_def ap_view_def sta_view_def)
  next
    case (Some n)
    let ?s1 = "snd (wifi_apply_eap bd n s)"
    have "wifi_apply_network aton api bd i s = apply_addressing aton bd n (tell bd (Set_sta (station_config n)) ?s1)"
      by (simp add: wifi_apply_network_def assms(2) Some Let_def split_beta station_config_def eap_views(3) [OF assms(1)])
    moreover have "sta_view bd (tell bd (Set_sta (station_config n)) ?s1) =
        (wp_nets s, wp_manual_scan s, wp_net_current s, wp_net_retries s, Some (station_config n))"
      using eap_views(2) [OF assms(1), of n s] by (simp add: sta_view_def board_lawfulD(2) [OF assms(1)])
    ultimately show ?thesis
      by (simp add: addressing_views [OF assms(1)] tell_views(1) [OF assms(1)] eap_views(1) [OF assms(1)] Some)
  qed
  then show "ap_view bd (wifi_apply_network aton api bd i s) = ap_view bd s"
    and "sta_view bd (wifi_apply_network aton api bd i s) = (wp_nets s, wp_manual_scan s, wp_net_current s, wp_net_retries s,
      case r of None \<Rightarrow> wb_sta bd (wp_board s) | Some n \<Rightarrow> Some (station_config n))" by simp_all
qed

lemma request_views:
  assumes "board_lawful bd"
  shows "sta_view bd (ap_policy_request bd on s) = sta_view bd s" "wp_nets (ap_policy_request bd on s) = wp_nets s"
  using board_lawfulD(5) [OF assms, of "wp_board s"] by (simp_all add: ap_policy_request_def sta_view_def Let_def split_beta)

lemma request_view:
  assumes "board_lawful bd" and "board_healthy bd"
  shows "ap_view bd (ap_policy_request bd on s) =
    (wp_auto_off s, wp_ap_connect s, on, wp_generation s + 1, wp_workers s @ [(wp_generation s + 1, None)], wb_mode bd (wp_board s))"
  using board_lawfulD(4) [OF assms(1), of "wp_board s"] assms(2)
  by (simp add: ap_policy_request_def ap_view_def Let_def board_healthy_def split_beta)

section \<open>Which network is tried\<close>

lemma networks_count_loaded: "wf_loaded (wp_nets s) \<Longrightarrow> networks_count api s = (wf_count (wp_nets s), s)"
  by (simp add: networks_count_def wifi_networks_count_def Let_def)

lemma networks_get_loaded: "wf_loaded w \<Longrightarrow> snd (wifi_networks_get api i w) = w"
  by (simp add: wifi_networks_get_def)

lemma rotate_view:
  assumes "board_lawful bd" and "wf_loaded w" and "sta_view bd s = (w, sc, c, r, cfg)"
  shows "sta_view bd (rotate_network aton api bd n s) =
    (if WIFI_RETRIES_PER_NETWORK \<le> r + 1
     then (w, sc, (c + 1) mod n, 0, case fst (wifi_networks_get api ((c + 1) mod n) w) of None \<Rightarrow> cfg | Some net \<Rightarrow> Some (station_config net))
     else (w, sc, c, r + 1, cfg))"
proof (cases "WIFI_RETRIES_PER_NETWORK \<le> r + 1")
  case True
  let ?s = "s\<lparr>wp_net_current := (c + 1) mod n, wp_net_retries := 0\<rparr>"
  have f: "wp_nets s = w" "wp_net_current s = c" "wp_net_retries s = r" "wp_manual_scan s = sc" "wb_sta bd (wp_board s) = cfg"
    using assms(3) by (simp_all add: sta_view_def)
  have "wifi_networks_get api ((c + 1) mod n) (wp_nets ?s) = (fst (wifi_networks_get api ((c + 1) mod n) w), wp_nets ?s)"
    using networks_get_loaded [OF assms(2)] f by (simp add: prod_eq_iff)
  then show ?thesis
    using True f by (simp add: rotate_network_def Let_def apply_network_views(2) [OF assms(1), of api _ ?s] split: option.split)
qed (use assms(3) in \<open>simp add: rotate_network_def sta_view_def\<close>)

lemma failure_view:
  assumes "board_lawful bd" and "wf_loaded w" and "sta_view bd s = (w, False, c, r, cfg)" and "0 < wf_count w"
  shows "sta_view bd (on_sta_disconnected aton api bd s) =
      (if wf_count w = 1 then (w, False, c, r, cfg)
       else if WIFI_RETRIES_PER_NETWORK \<le> r + 1
       then (w, False, (c + 1) mod int (wf_count w), 0, case fst (wifi_networks_get api ((c + 1) mod int (wf_count w)) w) of None \<Rightarrow> cfg | Some net \<Rightarrow> Some (station_config net))
       else (w, False, c, r + 1, cfg))"
    and "\<exists>d. wp_board (on_sta_disconnected aton api bd s) = wb_tell bd Connect d"
proof -
  let ?s = "s\<lparr>wp_ap_connect := False\<rparr>"
  define s1 where "s1 = (if wp_auto_off ?s then ap_policy_request bd True ?s else ?s)"
  define s2 where "s2 = (if 1 < wf_count w then rotate_network aton api bd (int (wf_count w)) s1 else s1)"
  have "sta_view bd ?s = sta_view bd s" by (simp add: sta_view_def)
  then have v: "sta_view bd s1 = (w, False, c, r, cfg)" using assms(3) by (simp add: s1_def request_views(1) [OF assms(1)])
  then have f: "wp_nets s1 = w" "\<not> wp_manual_scan s1" by (simp_all add: sta_view_def)
  have e: "on_sta_disconnected aton api bd s = tell bd Connect s2"
    using f assms(2,4) unfolding on_sta_disconnected_def Let_def s1_def [symmetric] s2_def by (simp add: networks_count_loaded)
  show "\<exists>d. wp_board (on_sta_disconnected aton api bd s) = wb_tell bd Connect d" unfolding e by auto
  have "sta_view bd (tell bd Connect s2) = sta_view bd s2" by (rule tell_views(2) [OF assms(1)]) simp
  moreover have "wf_count w \<noteq> 1 \<Longrightarrow> 1 < wf_count w" using assms(4) by simp
  ultimately show "sta_view bd (on_sta_disconnected aton api bd s) =
      (if wf_count w = 1 then (w, False, c, r, cfg)
       else if WIFI_RETRIES_PER_NETWORK \<le> r + 1
       then (w, False, (c + 1) mod int (wf_count w), 0, case fst (wifi_networks_get api ((c + 1) mod int (wf_count w)) w) of None \<Rightarrow> cfg | Some net \<Rightarrow> Some (station_config net))
       else (w, False, c, r + 1, cfg))"
    unfolding e using v by (cases "wf_count w = 1") (simp_all add: s2_def rotate_view [OF assms(1,2) v])
qed

lemma softap_views:
  assumes "board_lawful bd"
  shows "sta_view bd (wifi_init_softap aton api bd kc s) = sta_view bd s" "ap_view bd (wifi_init_softap aton api bd kc s) = ap_view bd s"
  by (simp_all add: wifi_init_softap_def Let_def tell_views [OF assms] split: option.split)

lemma softap_channel:
  assumes "board_lawful bd"
  shows "map_option ap_channel (wb_ap bd (wp_board (wifi_init_softap aton api bd kc s))) =
    Some (case learned_channel api (wp_flash s) of Some v \<Rightarrow> ucast v | None \<Rightarrow> kc_channel kc)"
  by (simp add: wifi_init_softap_def Let_def board_lawfulD(3) [OF assms] split: option.split)

lemma hostname_view:
  assumes "board_lawful bd"
  shows "sta_view bd (case hn of Some v \<Rightarrow> tell bd (Sta_hostname v) s | None \<Rightarrow> s) = sta_view bd s"
  by (simp add: tell_views(2) [OF assms] split: option.split)

lemma saved_start_view:
  fixes bd :: "'d wifi_board" and api :: "('h, wifi_blob) nvs_typed"
  assumes "board_lawful bd" and "nt_lawful api" and "wifi_networks_set_all api (Some arr) n st = (ESP_OK, st')"
    and "length arr = nat n" and "0 \<le> n" and "kept = saved_form (take WIFI_NETWORKS_MAX arr)" and "kept \<noteq> []"
    and "\<not> only_placeholder kc (length kept) (Some (hd kept))"
  shows "sta_view bd (wifi_start aton api bd kc d (wf_flash st')) =
    (wifi_networks_init api (wifi_boot (wf_flash st')), False, 0, 0, Some (station_config (hd kept)))"
proof -
  let ?w = "wifi_networks_init api (wifi_boot (wf_flash st'))"
  have w: "wf_loaded ?w" "wf_count ?w = length kept" "wf_nets ?w = padded kept"
    using saved_init [OF assms(2-5)] assms(6) by simp_all
  have g: "wifi_networks_get api 0 ?w = (Some (hd kept), ?w)"
    using padded_get [of "take WIFI_NETWORKS_MAX arr" ?w api 0] w assms(6,7) networks_get_loaded [OF w(1), of api 0]
    by (simp add: prod_eq_iff hd_conv_nth)
  have start: "sta_view bd (wifi_init_sta aton api bd kc s) = (?w, False, 0, 0, Some (station_config (hd kept)))"
    if "sta_view bd s = (?w, False, 0, 0, cfg)" for s :: "('h, 'd) wifi_policy" and cfg
  proof -
    define s1 where "s1 = (case str_set (param_str api (wp_flash s) ''hostname'') of Some v \<Rightarrow> tell bd (Sta_hostname v) s | None \<Rightarrow> s)"
    then have v: "sta_view bd s1 = (?w, False, 0, 0, cfg)" using hostname_view [OF assms(1)] that by metis
    then have n: "wp_nets s1 = ?w" by (simp add: sta_view_def)
    let ?s2 = "s1\<lparr>wp_net_current := 0, wp_net_retries := 0\<rparr>"
    have "wifi_init_sta aton api bd kc s = wifi_apply_network aton api bd 0 ?s2"
      unfolding wifi_init_sta_def Let_def s1_def [symmetric]
      using w assms(7,8) n g by (simp add: networks_count_loaded)
    moreover have "sta_view bd (wifi_apply_network aton api bd 0 ?s2) = (?w, False, 0, 0, Some (station_config (hd kept)))"
      using apply_network_views(2) [OF assms(1), of api 0 ?s2 "Some (hd kept)"] v n g by (simp add: sta_view_def)
    ultimately show ?thesis by simp
  qed
  show ?thesis unfolding wifi_start_def Let_def
    by (rule start) (simp add: softap_views [OF assms(1)], simp add: sta_view_def policy_boot_def)
qed

text \<open>
  C20: Every saved network gets its turn: after a start, the station tries the saved networks in their
  order, each five times, and begins again with the first.  After any number of failed attempts it is
  set to the network whose turn it is, and told to connect.
\<close>

theorem saved_networks_tried:
  assumes "board_lawful bd" and "nt_lawful api" and "wifi_networks_set_all api (Some arr) n st = (ESP_OK, st')"
    and "length arr = nat n" and "0 \<le> n" and "kept = saved_form (take WIFI_NETWORKS_MAX arr)" and "kept \<noteq> []"
    and "\<not> only_placeholder kc (length kept) (Some (hd kept))"
  shows "let s = (on_sta_disconnected aton api bd ^^ k) (wifi_start aton api bd kc d (wf_flash st')) in
    wb_sta bd (wp_board s) = Some (station_config (kept ! (k div 5 mod length kept))) \<and>
    (0 < k \<longrightarrow> (\<exists>d'. wp_board s = wb_tell bd Connect d'))"
proof -
  let ?w = "wifi_networks_init api (wifi_boot (wf_flash st'))" and ?n = "length kept"
  let ?s = "\<lambda>k. (on_sta_disconnected aton api bd ^^ k) (wifi_start aton api bd kc d (wf_flash st'))"
  have w: "wf_loaded ?w" "wf_count ?w = ?n" "wf_nets ?w = padded kept"
    using saved_init [OF assms(2-5)] assms(6) by simp_all
  have n: "0 < ?n" using assms(7) by simp
  have g: "fst (wifi_networks_get api (int i) ?w) = Some (kept ! i)" if "i < ?n" for i
    using padded_get [of "take WIFI_NETWORKS_MAX arr" ?w api i] w assms(6) that by simp
  have v: "sta_view bd (?s k) = (?w, False, if ?n = 1 then 0 else int (k div 5 mod ?n), if ?n = 1 then 0 else int (k mod 5),
      Some (station_config (kept ! (k div 5 mod ?n))))" for k
  proof (induction k)
    case 0
    then show ?case using saved_start_view [OF assms] assms(7) by (simp add: hd_conv_nth)
  next
    case (Suc k)
    note f = failure_view(1) [OF assms(1) w(1) Suc, unfolded w(2), OF n]
    show ?case
    proof (cases "?n = 1")
      case False
      let ?j = "Suc k div 5 mod ?n"
      show ?thesis
      proof (cases "Suc (k mod 5) = 5")
        case True
        then have k: "Suc k div 5 = Suc (k div 5)" "Suc k mod 5 = 0" by (simp_all add: div_Suc mod_Suc)
        then have "(int (k div 5 mod ?n) + 1) mod int ?n = int ?j" by (simp add: zmod_int mod_add_right_eq ac_simps)
        then show ?thesis using f False True k g [of ?j] n by (simp add: WIFI_RETRIES_PER_NETWORK_def)
      next
        case nr: False
        then have "Suc k div 5 = k div 5" "Suc k mod 5 = Suc (k mod 5)" by (simp_all add: div_Suc mod_Suc)
        moreover have "k mod 5 < 4" using nr mod_less_divisor [of 5 k] by linarith
        ultimately show ?thesis using f False by (simp add: WIFI_RETRIES_PER_NETWORK_def)
      qed
    qed (use f in simp)
  qed
  have "\<exists>d'. wp_board (?s k) = wb_tell bd Connect d'" if "0 < k"
  proof -
    obtain j where "k = Suc j" using \<open>0 < k\<close> by (cases k) auto
    then show ?thesis using failure_view(2) [OF assms(1) w(1) v [of j], unfolded w(2), OF n] by simp
  qed
  then show ?thesis using v [of k] by (simp add: Let_def sta_view_def)
qed

section \<open>When the access point is up\<close>

lemma ap_view_nets [simp]: "ap_view bd (s\<lparr>wp_nets := w\<rparr>) = ap_view bd s" "ap_view bd (s\<lparr>wp_net_current := c\<rparr>) = ap_view bd s"
  "ap_view bd (s\<lparr>wp_net_retries := r\<rparr>) = ap_view bd s" "ap_view bd (s\<lparr>wp_manual_scan := b\<rparr>) = ap_view bd s"
  "ap_view bd (s\<lparr>wp_connect_count := n\<rparr>) = ap_view bd s"
  by (simp_all add: ap_view_def)

lemma count_ap_view [simp]: "ap_view bd (snd (networks_count api s)) = ap_view bd s"
  by (simp add: networks_count_def split_beta)

lemma save_nv_ap_view [simp]: "ap_view bd (save_nv api k v s) = ap_view bd s"
  by (simp add: save_nv_def)

lemma apply_network_ap_view:
  assumes "board_lawful bd"
  shows "ap_view bd (wifi_apply_network aton api bd i s) = ap_view bd s"
  by (simp add: wifi_apply_network_def Let_def split_beta addressing_views [OF assms] tell_views [OF assms] eap_views [OF assms] split: option.split)

lemma disconnected_ap_view:
  assumes "board_lawful bd" and "board_healthy bd"
  shows "ap_view bd (on_sta_disconnected aton api bd s) =
    (wp_auto_off s, False, if wp_auto_off s then True else wp_target_on s, if wp_auto_off s then wp_generation s + 1 else wp_generation s,
     if wp_auto_off s then wp_workers s @ [(wp_generation s + 1, None)] else wp_workers s, wb_mode bd (wp_board s))"
proof -
  define s1 where "s1 = (if wp_auto_off s then ap_policy_request bd True (s\<lparr>wp_ap_connect := False\<rparr>) else s\<lparr>wp_ap_connect := False\<rparr>)"
  have "ap_view bd (on_sta_disconnected aton api bd s) = ap_view bd s1"
    by (simp add: on_sta_disconnected_def Let_def s1_def [symmetric] split_beta rotate_network_def apply_network_ap_view [OF assms(1)] tell_views [OF assms(1)])
  then show ?thesis by (simp add: s1_def request_view [OF assms]) (simp add: ap_view_def)
qed

lemma realign_ap_view:
  assumes "board_lawful bd"
  shows "ap_view bd (snd (realign api bd ch s)) = ap_view bd s" "ap_view bd (learn_channel api ch s) = ap_view bd s"
  by (simp_all add: realign_def learn_channel_def Let_def tell_views [OF assms] split: option.split)

lemma ip_checked_ap_view:
  assumes "board_lawful bd"
  shows "ap_view bd (snd (ip_checked api bd s)) = (wp_auto_off s, True, wp_target_on s, wp_generation s, wp_workers s, wb_mode bd (wp_board s))"
  by (simp add: ip_checked_def Let_def realign_ap_view [OF assms] split: option.split) (simp add: ap_view_def)

lemma got_ip_ap_view:
  assumes "board_lawful bd" and "board_healthy bd" and "\<not> fst (on_sta_got_ip aton api bd ts s)"
  shows "ap_view bd (snd (on_sta_got_ip aton api bd ts s)) =
    (wp_auto_off s, True, if wp_auto_off s then False else wp_target_on s, if wp_auto_off s then wp_generation s + 1 else wp_generation s,
     if wp_auto_off s then wp_workers s @ [(wp_generation s + 1, None)] else wp_workers s, wb_mode bd (wp_board s))"
proof -
  obtain s1 where s1: "ip_checked api bd s = (False, s1)" using assms(3) by (cases "ip_checked api bd s") (auto simp: on_sta_got_ip_def split: bool.splits)
  define s2 where "s2 = tell bd Portmap_install_all (softap_set_dns_addr aton api bd (tell bd Set_connected_bit (if ts then tell bd Start_ts_task s1 else s1)))"
  have "ap_view bd s2 = ap_view bd s1" by (simp add: s2_def tell_views(1) [OF assms(1)] dns_views(1) [OF assms(1)])
  then have v: "ap_view bd s2 = (wp_auto_off s, True, wp_target_on s, wp_generation s, wp_workers s, wb_mode bd (wp_board s))"
    using ip_checked_ap_view [OF assms(1), of api s] s1 by simp
  have "snd (on_sta_got_ip aton api bd ts s) = (if wp_auto_off s2 then ap_policy_request bd False s2 else s2)"
    by (simp add: on_sta_got_ip_def s1 s2_def Let_def)
  then show ?thesis using v by (simp add: request_view [OF assms(1,2)]) (simp add: ap_view_def)
qed

lemma apply_runtime_ap_view:
  assumes "board_lawful bd" and "board_healthy bd" and "wb_mode bd (wp_board s) \<in> {Some WIFI_MODE_STA, Some WIFI_MODE_APSTA}"
  shows "ap_view bd (ap_policy_apply_runtime aton api bd on s) =
    (wp_auto_off s, wp_ap_connect s, wp_target_on s, wp_generation s, wp_workers s, Some (if on then WIFI_MODE_APSTA else WIFI_MODE_STA))"
proof -
  have ok: "fst (wb_set_mode bd d m) = ESP_OK" for d m using assms(2) by (simp add: board_healthy_def)
  note set = board_lawfulD(6) [OF assms(1) ok]
  have r: "wp_auto_off (retuned_ap api bd s) = wp_auto_off s" "wp_ap_connect (retuned_ap api bd s) = wp_ap_connect s"
    "wp_target_on (retuned_ap api bd s) = wp_target_on s" "wp_generation (retuned_ap api bd s) = wp_generation s"
    "wp_workers (retuned_ap api bd s) = wp_workers s"
    by (simp_all add: retuned_ap_def Let_def split: option.split)
  show ?thesis
    using assms(3)
    by (auto simp: ap_policy_apply_runtime_def Let_def split_beta ok dns_views(1) [OF assms(1)] tell_views(1) [OF assms(1)])
       (simp_all add: ap_view_def set r)
qed

lemma start_ap_view:
  fixes bd :: "'d wifi_board" and api :: "('h, wifi_blob) nvs_typed"
  assumes "board_lawful bd" and "board_healthy bd"
  shows "\<exists>a. ap_view bd (wifi_start aton api bd kc d h) = (a, False, True, 0, [], Some WIFI_MODE_APSTA)"
proof -
  have ok: "fst (wb_set_mode bd d m) = ESP_OK" for d m using assms(2) by (simp add: board_healthy_def)
  have "ap_view bd (wifi_init_sta aton api bd kc s) = ap_view bd s" for s :: "('h, 'd) wifi_policy"
    by (auto simp: wifi_init_sta_def Let_def split_beta apply_network_ap_view [OF assms(1)] tell_views(1) [OF assms(1)] split: option.split)
  then show ?thesis
    by (simp add: wifi_start_def Let_def softap_views(2) [OF assms(1)]) (simp add: ap_view_def policy_boot_def board_lawfulD(6) [OF assms(1) ok])
qed

text \<open>
  The target follows the setting and the uplink, and either a worker is under way that will set the
  mode to it, or the mode is the target's already.
\<close>

definition mode_of :: "bool \<Rightarrow> wifi_mode" where "mode_of on = (if on then WIFI_MODE_APSTA else WIFI_MODE_STA)"

definition will_set :: "u32 \<Rightarrow> bool \<Rightarrow> (u32 \<times> bool option) list \<Rightarrow> bool" where
  "will_set g t ws \<longleftrightarrow> (g, None) \<in> set ws \<or> (g, Some t) \<in> set ws"

definition ap_inv :: "'d wifi_board \<Rightarrow> ('h, 'd) wifi_policy \<Rightarrow> bool" where
  "ap_inv bd s \<longleftrightarrow>
     (case ap_view bd s of (auto_off, uplink, target, g, ws, mode) \<Rightarrow>
        target = (\<not> auto_off \<or> \<not> uplink) \<and> mode \<in> {Some WIFI_MODE_STA, Some WIFI_MODE_APSTA} \<and>
        (will_set g target ws \<or> mode = Some (mode_of target)))"

lemma ap_inv_cong: "ap_view bd s' = ap_view bd s \<Longrightarrow> ap_inv bd s \<Longrightarrow> ap_inv bd s'"
  by (simp add: ap_inv_def)

lemma ap_inv_iff:
  "ap_inv bd s \<longleftrightarrow> wp_target_on s = (\<not> wp_auto_off s \<or> \<not> wp_ap_connect s) \<and>
     wb_mode bd (wp_board s) \<in> {Some WIFI_MODE_STA, Some WIFI_MODE_APSTA} \<and>
     (will_set (wp_generation s) (wp_target_on s) (wp_workers s) \<or> wb_mode bd (wp_board s) = Some (mode_of (wp_target_on s)))"
  by (simp add: ap_inv_def ap_view_def)

lemma will_set_new [simp]: "will_set g t (ws @ [(g, None)])"
  by (simp add: will_set_def)

lemma in_update: "x \<in> set xs \<Longrightarrow> x \<noteq> xs ! i \<Longrightarrow> x \<in> set (xs[i := y])"
  by (metis in_set_conv_nth length_list_update nth_list_update_neq)

lemma in_drop_one: "x \<in> set xs \<Longrightarrow> x \<noteq> xs ! i \<Longrightarrow> i < length xs \<Longrightarrow> x \<in> set (take i xs @ drop (Suc i) xs)"
  by (metis Un_iff id_take_nth_drop insert_iff list.simps(15) set_append)

lemma will_set_started:
  assumes "i < length ws" and "ws ! i = (g, None)" and "will_set g' t ws"
  shows "will_set g' t (ws[i := (g, Some t)])"
proof (cases "g' = g")
  case True
  then show ?thesis using assms(1) by (simp add: will_set_def set_update_memI)
qed (use assms in_update [of _ ws i] in \<open>auto simp: will_set_def\<close>)

lemma will_set_gone:
  assumes "i < length ws" and "ws ! i = (g, Some tg)" and "g \<noteq> g' \<or> tg \<noteq> t" and "will_set g' t ws"
  shows "will_set g' t (take i ws @ drop (Suc i) ws)"
  using assms in_drop_one [of _ ws i] unfolding will_set_def by fastforce

lemma worker_start_inv:
  assumes "ap_inv bd s"
  shows "ap_inv bd (worker_start i s)"
proof (cases "i < length (wp_workers s) \<and> snd (wp_workers s ! i) = None")
  case True
  then obtain g where "wp_workers s ! i = (g, None)" by (cases "wp_workers s ! i") auto
  then show ?thesis using True assms will_set_started [of i "wp_workers s" g] by (auto simp: ap_inv_iff worker_start_def)
qed (use assms in \<open>auto simp: worker_start_def\<close>)

lemma worker_wake_inv:
  assumes "board_lawful bd" and "board_healthy bd" and "ap_inv bd s"
  shows "ap_inv bd (worker_wake aton api bd i s)"
proof (cases "i < length (wp_workers s) \<and> snd (wp_workers s ! i) \<noteq> None")
  case True
  then obtain g tg where g: "wp_workers s ! i = (g, Some tg)" by (cases "wp_workers s ! i") auto
  let ?s = "s\<lparr>wp_workers := take i (wp_workers s) @ drop (Suc i) (wp_workers s)\<rparr>"
  have mode: "wb_mode bd (wp_board ?s) \<in> {Some WIFI_MODE_STA, Some WIFI_MODE_APSTA}" using assms(3) by (simp add: ap_inv_iff)
  show ?thesis
  proof (cases "g = wp_generation s \<and> tg = wp_target_on s")
    case now: True
    then have "worker_wake aton api bd i s = ap_policy_apply_runtime aton api bd tg ?s" using True g by (simp add: worker_wake_def Let_def)
    then show ?thesis
      using now assms(3) unfolding ap_inv_def [of bd "worker_wake aton api bd i s"]
      by (simp add: apply_runtime_ap_view [OF assms(1,2) mode]) (auto simp: ap_inv_iff mode_of_def)
  next
    case stale: False
    then have "worker_wake aton api bd i s = ?s" using True g by (auto simp: worker_wake_def Let_def)
    then show ?thesis using stale True g assms(3) will_set_gone [of i "wp_workers s" g tg] by (auto simp: ap_inv_iff)
  qed
qed (use assms(3) in \<open>auto simp: worker_wake_def split: prod.split option.split\<close>)

definition mode_kept :: "'d wifi_board \<Rightarrow> 'd node_action \<Rightarrow> bool" where
  "mode_kept bd st \<longleftrightarrow> (case st of World f \<Rightarrow> (\<forall>d. wb_mode bd (f d) = wb_mode bd d) | _ \<Rightarrow> True)"

lemma start_inv: "board_lawful bd \<Longrightarrow> board_healthy bd \<Longrightarrow> ap_inv bd (wifi_start aton api bd kc d h)"
  using start_ap_view [of bd aton api kc d h] by (auto simp: ap_inv_def mode_of_def)

lemma event_inv:
  assumes "board_lawful bd" and "board_healthy bd" and "ap_inv bd s"
  shows "ap_inv bd (node_step aton api bd kc (Event ev) s)"
proof (cases ev)
  case (Sta_got_ip ts)
  show ?thesis
  proof (cases "fst (on_sta_got_ip aton api bd ts s)")
    case True
    then show ?thesis using start_inv [OF assms(1,2)] Sta_got_ip by (simp add: node_step_def wifi_event_handler_def split_beta)
  next
    case False
    then show ?thesis
      using got_ip_ap_view [OF assms(1,2) False] assms(3) Sta_got_ip
      by (auto simp: node_step_def wifi_event_handler_def split_beta ap_inv_def [of bd "snd (on_sta_got_ip aton api bd ts s)"] ap_inv_iff [of bd s])
  qed
next
  case Sta_disconnected
  then show ?thesis
    using disconnected_ap_view [OF assms(1,2), of aton api s] assms(3)
    by (auto simp: node_step_def wifi_event_handler_def ap_inv_def [of bd "on_sta_disconnected aton api bd s"] ap_inv_iff [of bd s])
next
  case Sta_start
  have "ap_view bd (on_sta_start api bd s) = ap_view bd s"
    by (simp add: on_sta_start_def split_beta tell_views(1) [OF assms(1)])
  then show ?thesis using ap_inv_cong assms(3) Sta_start by (simp add: node_step_def wifi_event_handler_def)
next
  case (Ap_joined m aid)
  have "ap_view bd (on_ap_joined bd m aid s) = ap_view bd s" by (simp add: on_ap_joined_def tell_views(1) [OF assms(1)])
  then show ?thesis using ap_inv_cong assms(3) Ap_joined by (simp add: node_step_def wifi_event_handler_def)
next
  case Ap_left
  have "ap_view bd (on_ap_left s) = ap_view bd s" by (simp add: on_ap_left_def)
  then show ?thesis using ap_inv_cong assms(3) Ap_left by (simp add: node_step_def wifi_event_handler_def)
qed

lemma node_step_inv:
  assumes "board_lawful bd" and "board_healthy bd" and "ap_inv bd s" and "mode_kept bd st"
  shows "ap_inv bd (node_step aton api bd kc st s)"
proof (cases st)
  case (Event ev)
  then show ?thesis using event_inv [OF assms(1-3)] by simp
next
  case (Set_auto_off b)
  have "ap_view bd (wifi_ap_policy_set_auto_off bd b s) = (b, wp_ap_connect s, \<not> b \<or> \<not> wp_ap_connect s, wp_generation s + 1,
      wp_workers s @ [(wp_generation s + 1, None)], wb_mode bd (wp_board s))"
    by (simp add: wifi_ap_policy_set_auto_off_def request_view [OF assms(1,2)])
  then show ?thesis using assms(3) Set_auto_off by (simp add: node_step_def ap_inv_def [of bd "wifi_ap_policy_set_auto_off bd b s"] ap_inv_iff [of bd s])
next
  case Pause_scan
  have "ap_view bd (wifi_sta_pause_for_scan bd s) = ap_view bd s" by (simp add: wifi_sta_pause_for_scan_def tell_views(1) [OF assms(1)])
  then show ?thesis using ap_inv_cong assms(3) Pause_scan by (simp add: node_step_def)
next
  case Resume_scan
  have "ap_view bd (wifi_sta_resume_after_scan api bd s) = ap_view bd s"
    by (simp add: wifi_sta_resume_after_scan_def split_beta tell_views(1) [OF assms(1)])
  then show ?thesis using ap_inv_cong assms(3) Resume_scan by (simp add: node_step_def)
next
  case (World f)
  then have "ap_view bd (node_step aton api bd kc st s) = ap_view bd s" using assms(4) by (simp add: node_step_def ap_view_def mode_kept_def)
  then show ?thesis using ap_inv_cong assms(3) by blast
qed (use assms worker_start_inv worker_wake_inv start_inv in \<open>auto simp: node_step_def\<close>)

text \<open>Letting the workers run, in their order.\<close>

definition let_workers_run :: "nat \<Rightarrow> 'd node_action list" where
  "let_workers_run n = concat (replicate n [Worker_start 0, Worker_wake 0])"

lemma workers_run:
  assumes "board_lawful bd" and "board_healthy bd" and "ap_inv bd s"
  shows "let s' = fold (node_step aton api bd kc) (let_workers_run (length (wp_workers s))) s in
    wp_workers s' = [] \<and> wp_auto_off s' = wp_auto_off s \<and> wp_ap_connect s' = wp_ap_connect s \<and> ap_inv bd s'"
  using assms(3)
proof (induction "length (wp_workers s)" arbitrary: s)
  case 0
  then show ?case by (simp add: let_workers_run_def)
next
  case (Suc n)
  let ?s = "worker_wake aton api bd 0 (worker_start 0 s)"
  obtain g r ws where ws: "wp_workers s = (g, r) # ws" using Suc(2) by (cases "wp_workers s") auto
  let ?s1 = "(worker_start 0 s)\<lparr>wp_workers := ws\<rparr>"
  have mode: "wb_mode bd (wp_board ?s1) \<in> {Some WIFI_MODE_STA, Some WIFI_MODE_APSTA}"
    using Suc(3) by (simp add: ap_inv_iff worker_start_def)
  have "ap_view bd (ap_policy_apply_runtime aton api bd tg ?s1) =
      (wp_auto_off s, wp_ap_connect s, wp_target_on s, wp_generation s, ws, Some (if tg then WIFI_MODE_APSTA else WIFI_MODE_STA))" for tg
    unfolding apply_runtime_ap_view [OF assms(1,2) mode] by (simp add: worker_start_def)
  then have "wp_workers ?s = ws \<and> wp_auto_off ?s = wp_auto_off s \<and> wp_ap_connect ?s = wp_ap_connect s"
    by (cases r) (auto simp: worker_wake_def worker_start_def ws Let_def ap_view_def)
  moreover have "ap_inv bd ?s" by (intro worker_wake_inv worker_start_inv assms(1,2) Suc(3))
  moreover have "fold (node_step aton api bd kc) (let_workers_run (length (wp_workers s))) s =
      fold (node_step aton api bd kc) (let_workers_run n) ?s"
    using Suc(2) by (simp add: let_workers_run_def node_step_def flip: Suc(2))
  ultimately show ?case using Suc(1) [of ?s] ws Suc(2) by (simp add: Let_def)
qed

lemma quiet_policy: "ap_inv bd s \<Longrightarrow> wp_workers s = [] \<Longrightarrow> wifi_ap_runtime_enabled bd (wp_board s) = (\<not> wp_auto_off s \<or> \<not> wp_ap_connect s)"
  by (auto simp: ap_inv_iff will_set_def mode_of_def wifi_ap_runtime_enabled_def)

text \<open>
  C18: Nobody is locked out: after any sequence of events, settings, restarts and steps of workers in
  any order, once the workers that are under way have run, the access point is up unless the operator
  chose recovery-only mode and the uplink has an address.
\<close>

theorem ap_policy_settles:
  assumes "board_lawful bd" and "board_healthy bd" and "\<forall>st\<in>set steps. mode_kept bd st"
    and "s = fold (node_step aton api bd kc) steps (wifi_start aton api bd kc d h)"
  shows "(let s' = fold (node_step aton api bd kc) (let_workers_run (length (wp_workers s))) s in
      wp_workers s' = [] \<and> wifi_ap_runtime_enabled bd (wp_board s') = (\<not> wp_auto_off s \<or> \<not> wp_ap_connect s)) \<and>
    (wp_workers s = [] \<longrightarrow> wifi_ap_runtime_enabled bd (wp_board s) = (\<not> wp_auto_off s \<or> \<not> wp_ap_connect s))"
proof -
  have "ap_inv bd (fold (node_step aton api bd kc) steps s0)" if "ap_inv bd s0" for s0
    using that assms(3) by (induction steps arbitrary: s0) (auto intro: node_step_inv [OF assms(1,2)])
  then have inv: "ap_inv bd s" unfolding assms(4) by (simp add: start_inv [OF assms(1,2)])
  then show ?thesis using workers_run [OF assms(1,2) inv, of aton api kc] by (simp add: Let_def quiet_policy)
qed

section \<open>The channel of the access point\<close>

text \<open>Only the named keys are written.\<close>

lemma set_all_other:
  assumes "nt_lawful api" and "nt_healthy api" and "j \<noteq> WIFI_KEY"
  shows "nt_get api (wf_flash (snd (wifi_networks_set_all api arr n st))) t j = nt_get api (wf_flash st) t j"
proof (cases arr)
  case (Some a)
  have c: "nt_get api (snd (nt_commit api h)) = nt_get api h" for h using nt_commit_get [OF assms(1) nt_healthyD(3) [OF assms(2)]] by simp
  show ?thesis
    by (simp add: Some wifi_networks_set_all_def Let_def split_beta clear_cache_def c nt_set_other [OF assms(1,3)])
qed (simp add: wifi_networks_set_all_def)

lemma networks_init_other:
  assumes "nt_lawful api" and "nt_healthy api" and "j \<noteq> WIFI_KEY"
  shows "nt_get api (wf_flash (wifi_networks_init api st)) t j = nt_get api (wf_flash st) t j"
  by (auto simp: wifi_networks_init_def Let_def clear_cache_def set_all_other [OF assms] split: option.split wifi_blob.split)

lemma save_nv_get:
  assumes "nt_lawful api" and "nt_healthy api"
  shows "nt_get api (wp_flash (save_nv api k v s)) (nv_ty v) k = Some v"
    and "j \<noteq> k \<Longrightarrow> nt_get api (wp_flash (save_nv api k v s)) t j = nt_get api (wp_flash s) t j"
proof -
  obtain h where "param_set api (wp_flash s) k v = (ESP_OK, h)" using param_set_healthy [OF assms(2)] by (metis prod.collapse)
  then show "nt_get api (wp_flash (save_nv api k v s)) (nv_ty v) k = Some v"
    and "j \<noteq> k \<Longrightarrow> nt_get api (wp_flash (save_nv api k v s)) t j = nt_get api (wp_flash s) t j"
    using param_set_ok [OF assms(1)] by (simp_all add: save_nv_def wp_flash_def)
qed

lemma int_or_get: "nt_healthy api \<Longrightarrow> int_or api h k = (case nt_get api h TI32 k of Some (VI32 v) \<Rightarrow> v | _ \<Rightarrow> 0)"
  by (simp add: int_or_def param_int_def get_i32_def nt_healthyD split: option.split nv.split)

definition same_values :: "('h, wifi_blob) nvs_typed \<Rightarrow> 'h \<Rightarrow> 'h \<Rightarrow> bool" where
  "same_values api h h' \<longleftrightarrow> (\<forall>t j. j \<noteq> WIFI_KEY \<longrightarrow> nt_get api h' t j = nt_get api h t j)"

lemma same_values_refl [simp]: "same_values api h h" by (simp add: same_values_def)

lemma same_int: "nt_healthy api \<Longrightarrow> same_values api h h' \<Longrightarrow> k \<noteq> WIFI_KEY \<Longrightarrow> int_or api h' k = int_or api h k"
  by (simp add: int_or_get same_values_def)

lemma count_flash:
  assumes "nt_lawful api" and "nt_healthy api" and "same_values api h (wp_flash s)"
  shows "same_values api h (wp_flash (snd (networks_count api s)))"
  using assms networks_init_other [OF assms(1,2)]
  by (simp add: networks_count_def wifi_networks_count_def Let_def split_beta wp_flash_def same_values_def)

lemma apply_flash:
  "wp_flash (snd (wifi_apply_eap bd n s)) = wp_flash s" "wp_flash (apply_addressing aton bd n s) = wp_flash s"
  "wp_flash (s\<lparr>wp_nets := w\<rparr>) = wf_flash w" "wp_flash (s\<lparr>wp_eap_active := b\<rparr>) = wp_flash s"
  by (auto simp: wifi_apply_eap_def apply_addressing_def Let_def) (simp_all add: wp_flash_def tell_def)

lemma apply_network_flash:
  assumes "nt_lawful api" and "nt_healthy api" and "same_values api h (wp_flash s)"
  shows "same_values api h (wp_flash (wifi_apply_network aton api bd i s))"
proof -
  have "wp_flash (wifi_apply_network aton api bd i s) = wf_flash (snd (wifi_networks_get api i (wp_nets s)))"
    by (simp add: wifi_apply_network_def Let_def split_beta apply_flash split: option.split)
  then show ?thesis
    using assms networks_init_other [OF assms(1,2)] by (simp add: wifi_networks_get_def Let_def same_values_def wp_flash_def)
qed

lemma flash_fields [simp]:
  "wp_flash (s\<lparr>wp_net_current := c\<rparr>) = wp_flash s" "wp_flash (s\<lparr>wp_net_retries := r\<rparr>) = wp_flash s"
  "wp_flash (s\<lparr>wp_ap_connect := b\<rparr>) = wp_flash s" "wp_flash (s\<lparr>wp_manual_scan := b\<rparr>) = wp_flash s"
  "wp_flash (s\<lparr>wp_auto_off := b\<rparr>) = wp_flash s" "wp_flash (s\<lparr>wp_board := d\<rparr>) = wp_flash s"
  "wp_flash (s\<lparr>wp_workers := ws\<rparr>) = wp_flash s" "wp_flash (s\<lparr>wp_connect_count := n\<rparr>) = wp_flash s"
  "wp_flash (ap_policy_request bd on s) = wp_flash s" "wp_flash (softap_set_dns_addr aton api bd s) = wp_flash s"
  "wp_flash (retuned_ap api bd s) = wp_flash s" "wp_flash (wifi_init_softap aton api bd kc s) = wp_flash s"
  by (auto simp: wp_flash_def ap_policy_request_def softap_set_dns_addr_def retuned_ap_def wifi_init_softap_def Let_def tell_def split_beta
      split: option.split)

lemma runtime_flash [simp]: "wp_flash (ap_policy_apply_runtime aton api bd on s) = wp_flash s"
  by (simp add: ap_policy_apply_runtime_def Let_def split_beta split: option.split)

lemma worker_flash [simp]: "wp_flash (worker_start i s) = wp_flash s" "wp_flash (worker_wake aton api bd i s) = wp_flash s"
  by (auto simp: worker_start_def worker_wake_def Let_def split: prod.split option.split)

lemma disconnected_flash:
  assumes "nt_lawful api" and "nt_healthy api"
  shows "same_values api (wp_flash s) (wp_flash (on_sta_disconnected aton api bd s))"
proof -
  define s1 where "s1 = (if wp_auto_off s then ap_policy_request bd True (s\<lparr>wp_ap_connect := False\<rparr>) else s\<lparr>wp_ap_connect := False\<rparr>)"
  define s2 where "s2 = snd (networks_count api s1)"
  have "wp_flash s1 = wp_flash s" by (simp add: s1_def)
  then have s2: "same_values api (wp_flash s) (wp_flash s2)" using count_flash [OF assms, of _ s1] by (simp add: s2_def)
  have "same_values api (wp_flash s) (wp_flash (rotate_network aton api bd n s2))" for n
    by (simp add: rotate_network_def Let_def s2 apply_network_flash [OF assms])
  then show ?thesis
    using s2 \<open>wp_flash s1 = wp_flash s\<close>
    by (simp add: on_sta_disconnected_def Let_def s1_def [symmetric] split_beta s2_def [symmetric])
qed

lemma start_flash:
  assumes "nt_lawful api" and "nt_healthy api"
  shows "same_values api h (wp_flash (wifi_start aton api bd kc d h))"
proof -
  have i: "same_values api h (wp_flash (wifi_init_sta aton api bd kc s))" if "same_values api h (wp_flash s)" for s
  proof -
    define s1 where "s1 = (case str_set (param_str api (wp_flash s) ''hostname'') of Some v \<Rightarrow> tell bd (Sta_hostname v) s | None \<Rightarrow> s)"
    define s2 where "s2 = snd (networks_count api s1)"
    have "wp_flash s1 = wp_flash s" by (simp add: s1_def split: option.split)
    then have s2: "same_values api h (wp_flash s2)" using count_flash [OF assms, of h s1] that by (simp add: s2_def)
    have sa: "same_values api h (wf_flash (snd (wifi_networks_set_all api arr n (wp_nets s2))))" for arr n
      using s2 set_all_other [OF assms] by (simp add: same_values_def wp_flash_def)
    have sa': "same_values api h (wf_flash (snd (wifi_networks_set_all api arr n (snd (wifi_networks_set_all api arr' n' (wp_nets s2))))))" for arr n arr' n'
      using sa set_all_other [OF assms] by (simp add: same_values_def)
    show ?thesis
      by (simp add: wifi_init_sta_def Let_def s1_def [symmetric] split_beta s2_def [symmetric] apply_flash sa sa' s2
          apply_network_flash [OF assms] split: option.split)
  qed
  show ?thesis unfolding wifi_start_def Let_def
    by (rule i) (simp add: apply_flash, simp add: wp_flash_def policy_boot_def wifi_boot_def same_values_def networks_init_other [OF assms])
qed

text \<open>An address event, as far as the flash goes.\<close>

definition aligned_uplink :: "'d wifi_board \<Rightarrow> 'd \<Rightarrow> bool" where
  "aligned_uplink bd d \<longleftrightarrow> (case wb_uplink_channel bd d of Some ch \<Rightarrow> 1 \<le> ch \<and> ch \<le> 13 \<and> ap_mismatch bd d ch = None | None \<Rightarrow> False)"

lemma got_ip_split:
  "fst (on_sta_got_ip aton api bd ts s) = fst (ip_checked api bd s)"
  "wp_flash (snd (on_sta_got_ip aton api bd ts s)) = wp_flash (snd (ip_checked api bd s))"
  by (cases "ip_checked api bd s"; cases "fst (ip_checked api bd s)"; simp add: on_sta_got_ip_def Let_def)+

lemma learn_flash:
  assumes "nt_lawful api" and "nt_healthy api"
  shows "int_or api (wp_flash (learn_channel api ch s)) ''ap_chan_learned'' = ucast ch"
    and "int_or api (wp_flash (learn_channel api ch s)) ''ap_realign_cnt'' = int_or api (wp_flash s) ''ap_realign_cnt''"
    and "wp_board (learn_channel api ch s) = wp_board s" "wp_auto_off (learn_channel api ch s) = wp_auto_off s"
  using save_nv_get(1) [OF assms, of "''ap_chan_learned''" "VI32 (ucast ch)" s]
  by (simp_all add: learn_channel_def int_or_get [OF assms(2)] save_nv_get(2) [OF assms]) (simp_all add: save_nv_def)

lemma realign_flash:
  assumes "nt_lawful api" and "nt_healthy api"
  shows "int_or api (wp_flash (snd (realign api bd ch s))) ''ap_chan_learned'' = int_or api (wp_flash s) ''ap_chan_learned''"
    and "int_or api (wp_flash (snd (realign api bd ch s))) ''ap_realign_cnt'' =
      (if fst (realign api bd ch s) then int_or api (wp_flash s) ''ap_realign_cnt'' + 1
       else if ap_mismatch bd (wp_board s) ch = None then 0 else int_or api (wp_flash s) ''ap_realign_cnt'')"
    and "fst (realign api bd ch s) = (ap_mismatch bd (wp_board s) ch \<noteq> None \<and> \<not> wp_auto_off s \<and> sint (int_or api (wp_flash s) ''ap_realign_cnt'') < 3)"
proof -
  have o: "int_or api (wp_flash (save_nv api k v u)) j = int_or api (wp_flash u) j" if "j \<noteq> k" for k v j u
    by (simp add: int_or_get [OF assms(2)] save_nv_get(2) [OF assms that])
  have n: "int_or api (wp_flash (save_nv api k (VI32 v) u)) k = v" for k v u
    using save_nv_get(1) [OF assms, of k "VI32 v" u] by (simp add: int_or_get [OF assms(2)])
  show "int_or api (wp_flash (snd (realign api bd ch s))) ''ap_chan_learned'' = int_or api (wp_flash s) ''ap_chan_learned''"
    and "int_or api (wp_flash (snd (realign api bd ch s))) ''ap_realign_cnt'' =
      (if fst (realign api bd ch s) then int_or api (wp_flash s) ''ap_realign_cnt'' + 1
       else if ap_mismatch bd (wp_board s) ch = None then 0 else int_or api (wp_flash s) ''ap_realign_cnt'')"
    and "fst (realign api bd ch s) = (ap_mismatch bd (wp_board s) ch \<noteq> None \<and> \<not> wp_auto_off s \<and> sint (int_or api (wp_flash s) ''ap_realign_cnt'') < 3)"
    by (simp_all add: realign_def Let_def o n split: option.split)
qed

lemma ip_checked_count:
  assumes "nt_lawful api" and "nt_healthy api"
  shows "int_or api (wp_flash (snd (ip_checked api bd s))) ''ap_realign_cnt'' =
      (if fst (ip_checked api bd s) then int_or api (wp_flash s) ''ap_realign_cnt'' + 1
       else if aligned_uplink bd (wp_board s) then 0 else int_or api (wp_flash s) ''ap_realign_cnt'')"
    and "fst (ip_checked api bd s) \<Longrightarrow> sint (int_or api (wp_flash s) ''ap_realign_cnt'') < 3 \<and> \<not> aligned_uplink bd (wp_board s)"
  by (auto simp: ip_checked_def Let_def aligned_uplink_def realign_flash [OF assms] learn_flash [OF assms] split: option.splits if_splits)

lemma step_flash:
  assumes "nt_lawful api" and "nt_healthy api" and "\<forall>ts. st \<noteq> Event (Sta_got_ip ts)"
  shows "same_values api (wp_flash s) (wp_flash (node_step aton api bd kc st s))"
proof -
  have "same_values api (wp_flash s) (wp_flash (node_step aton api bd kc (Event ev) s))" if "\<forall>ts. ev \<noteq> Sta_got_ip ts" for ev
    using that count_flash [OF assms(1,2), of "wp_flash s" s] disconnected_flash [OF assms(1,2), of s aton bd]
    by (cases ev) (auto simp: node_step_def wifi_event_handler_def on_ap_joined_def on_ap_left_def on_sta_start_def split_beta)
  then show ?thesis
    using assms(3) count_flash [OF assms(1,2), of "wp_flash s" "s\<lparr>wp_manual_scan := False\<rparr>"] start_flash [OF assms(1,2)]
    by (cases st) (auto simp: node_step_def wifi_ap_policy_set_auto_off_def wifi_sta_pause_for_scan_def wifi_sta_resume_after_scan_def split_beta)
qed

text \<open>A run that counts the restarts since the uplink was last on the channel of the access point.\<close>

definition counted_step ::
  "(string \<Rightarrow> u32 option) \<Rightarrow> ('h, wifi_blob) nvs_typed \<Rightarrow> 'd wifi_board \<Rightarrow> kconfig \<Rightarrow> 'd node_action \<Rightarrow>
   nat \<times> ('h, 'd) wifi_policy \<Rightarrow> nat \<times> ('h, 'd) wifi_policy" where
  "counted_step aton api bd kc st cs = (case cs of (c, s) \<Rightarrow>
     (if node_restarts aton api bd st s then Suc c
      else (case st of Event (Sta_got_ip _) \<Rightarrow> if aligned_uplink bd (wp_board s) then 0 else c | _ \<Rightarrow> c),
      node_step aton api bd kc st s))"

definition count_inv :: "('h, wifi_blob) nvs_typed \<Rightarrow> nat \<times> ('h, 'd) wifi_policy \<Rightarrow> bool" where
  "count_inv api cs \<longleftrightarrow> (let rc = sint (int_or api (wp_flash (snd cs)) ''ap_realign_cnt'') in int (fst cs) \<le> rc \<and> rc \<le> 3)"

lemma counted_step_inv:
  assumes "nt_lawful api" and "nt_healthy api" and "count_inv api cs"
  shows "count_inv api (counted_step aton api bd kc st cs)"
proof -
  obtain c s where cs: "cs = (c, s)" by (cases cs)
  let ?rc = "\<lambda>h. int_or api h ''ap_realign_cnt''"
  have k: "''ap_realign_cnt'' \<noteq> WIFI_KEY" by (simp add: WIFI_KEY_def)
  show ?thesis
  proof (cases "\<exists>ts. st = Event (Sta_got_ip ts)")
    case False
    then have "?rc (wp_flash (node_step aton api bd kc st s)) = ?rc (wp_flash s)"
      using same_int [OF assms(2) _ k] step_flash [OF assms(1,2)] by blast
    moreover have "\<not> node_restarts aton api bd st s" "(case st of Event (Sta_got_ip _) \<Rightarrow> x | _ \<Rightarrow> c) = c" for x
      using False by (auto simp: node_restarts_def wifi_event_handler_def split: node_action.split wifi_event.split)
    ultimately show ?thesis using assms(3) by (simp add: cs counted_step_def count_inv_def)
  next
    case True
    then obtain ts where st: "st = Event (Sta_got_ip ts)" by blast
    let ?r = "fst (ip_checked api bd s)" and ?h = "wp_flash (snd (ip_checked api bd s))"
    have r: "node_restarts aton api bd st s = ?r" by (simp add: node_restarts_def wifi_event_handler_def st got_ip_split)
    have "?rc (wp_flash (node_step aton api bd kc st s)) = ?rc ?h"
      by (simp add: node_step_def st wifi_event_handler_def split_beta got_ip_split same_int [OF assms(2) start_flash [OF assms(1,2)] k])
    moreover have "sint (?rc (wp_flash s) + 1) = sint (?rc (wp_flash s)) + 1" if "?r"
      using ip_checked_count(2) [OF assms(1,2) that] assms(3) by (simp add: cs count_inv_def Let_def sint_word_ariths signed_take_bit_int_eq_self)
    ultimately show ?thesis
      using assms(3) ip_checked_count [OF assms(1,2), of bd s] by (auto simp: cs counted_step_def count_inv_def Let_def st r [unfolded st])
  qed
qed

text \<open>
  C19: The device does not restart for ever: whatever the uplinks, the driver and the operator do, at
  most three restarts that move the access point to another channel follow one another before an
  address is obtained on the channel that the access point is on.
\<close>

theorem realign_restarts_bounded:
  assumes "nt_lawful api" and "nt_healthy api" and "param_int api h ''ap_realign_cnt'' = None"
  shows "fst (fold (counted_step aton api bd kc) steps (0, wifi_start aton api bd kc d h)) \<le> 3"
proof -
  have "int_or api (wp_flash (wifi_start aton api bd kc d h)) ''ap_realign_cnt'' = 0"
    using same_int [OF assms(2) start_flash [OF assms(1,2), of h], of "''ap_realign_cnt''"] assms(3) by (simp add: WIFI_KEY_def int_or_def)
  then have "count_inv api (0, wifi_start aton api bd kc d h)" by (simp add: count_inv_def Let_def)
  moreover have "count_inv api (fold (counted_step aton api bd kc) steps cs)" if "count_inv api cs" for cs
    using that
  proof (induction steps arbitrary: cs)
    case (Cons st steps)
    show ?case using Cons.IH [OF counted_step_inv [OF assms(1,2) Cons.prems]] by simp
  qed simp
  ultimately show ?thesis by (fastforce simp: count_inv_def Let_def)
qed

text \<open>The access point's channel behind a start.\<close>

lemma init_sta_keeps_ap:
  fixes bd :: "'d wifi_board" and api :: "('h, wifi_blob) nvs_typed"
  assumes "board_lawful bd"
  shows "wb_ap bd (wp_board (wifi_init_sta aton api bd kc s)) = wb_ap bd (wp_board s)"
proof -
  note ap = board_lawfulD(3) [OF assms]
  have c: "wp_board (snd (networks_count api u)) = wp_board u" for u :: "('h, 'd) wifi_policy" by (simp add: networks_count_def split_beta)
  have a: "wb_ap bd (wp_board (wifi_apply_network aton api bd i u)) = wb_ap bd (wp_board u)" for i and u :: "('h, 'd) wifi_policy"
    by (simp add: wifi_apply_network_def apply_addressing_def wifi_apply_eap_def Let_def split_beta ap split: option.split)
  show ?thesis
    by (simp add: wifi_init_sta_def Let_def split_beta c a ap split: option.split)
qed

lemma start_channel:
  assumes "board_lawful bd" and "nt_lawful api" and "nt_healthy api" and "int_or api h ''ap_chan_learned'' = v" and "good_channel v"
  shows "map_option ap_channel (wb_ap bd (wp_board (wifi_start aton api bd kc d h))) = Some (ucast v)"
proof -
  have "v \<noteq> 0" using assms(5) by (auto simp: good_channel_def)
  then have l: "param_int api h' ''ap_chan_learned'' = Some v" if "int_or api h' ''ap_chan_learned'' = v" for h'
    using that by (auto simp: int_or_def split: option.splits)
  have "int_or api (wf_flash (wifi_networks_init api (wifi_boot h))) ''ap_chan_learned'' = v"
    using assms(4) networks_init_other [OF assms(2,3)] by (simp add: int_or_get [OF assms(3)] wifi_boot_def WIFI_KEY_def)
  then show ?thesis
    using l assms(5) unfolding wifi_start_def Let_def init_sta_keeps_ap [OF assms(1)] softap_channel [OF assms(1)]
    by (simp add: learned_channel_def wp_flash_def policy_boot_def)
qed

lemma good_channel_ucast: "1 \<le> (ch :: u8) \<Longrightarrow> ch \<le> 13 \<Longrightarrow> good_channel (ucast ch)"
  by (simp add: good_channel_def sint_uint signed_take_bit_int_eq_self unsigned_ucast_eq word_le_def word_less_def take_bit_int_eq_self)

text \<open>
  One restart is enough: when an address event restarts the device, the access point comes up on
  the channel of the uplink, and as long as the uplink stays there no later address restarts it again;
  the next one clears the count.
\<close>

theorem realign_takes_effect:
  assumes "board_lawful bd" and "nt_lawful api" and "nt_healthy api"
    and "on_sta_got_ip aton api bd ts s = (True, s')" and "wb_uplink_channel bd (wp_board s) = Some ch"
    and "s2 = wifi_start aton api bd kc d (wp_flash s')"
    and "wb_ap bd (wp_board s3) = wb_ap bd (wp_board s2)" and "wb_uplink_channel bd (wp_board s3) = Some ch"
  shows "map_option ap_channel (wb_ap bd (wp_board s2)) = Some ch \<and> \<not> fst (on_sta_got_ip aton api bd ts' s3) \<and>
    int_or api (wp_flash (snd (on_sta_got_ip aton api bd ts' s3))) ''ap_realign_cnt'' = 0"
proof -
  let ?s = "s\<lparr>wp_net_retries := 0, wp_ap_connect := True\<rparr>"
  have r: "fst (ip_checked api bd s)" "wp_flash s' = wp_flash (snd (ip_checked api bd s))"
    using got_ip_split [of aton api bd ts s] assms(4) by simp_all
  have g: "1 \<le> ch \<and> ch \<le> 13" using r(1) assms(5) by (auto simp: ip_checked_def Let_def split: if_splits)
  then have l: "int_or api (wp_flash s') ''ap_chan_learned'' = ucast ch"
    using r(2) assms(5) by (simp add: ip_checked_def Let_def realign_flash [OF assms(2,3)] learn_flash [OF assms(2,3)])
  have "good_channel (ucast ch)" using good_channel_ucast g by blast
  moreover have "(ucast (ucast ch :: u32) :: u8) = ch" by (simp add: unsigned_ucast_eq take_bit_word_eq_self)
  ultimately have ch: "map_option ap_channel (wb_ap bd (wp_board s2)) = Some ch"
    using start_channel [OF assms(1-3) l] assms(6) by simp
  then have "aligned_uplink bd (wp_board s3)"
    using assms(7,8) g by (auto simp: aligned_uplink_def ap_mismatch_def)
  then show ?thesis using ip_checked_count [OF assms(2,3), of bd s3] ch by (auto simp: got_ip_split)
qed

section \<open>What the policy does not promise\<close>

text \<open>
  The bound rests on the count in the flash: when it cannot be written, every address on another
  channel restarts the device, and the flash stays as it was.
\<close>

lemma unwritable_flash_restarts:
  assumes "\<forall>h. nt_open_rw api h \<noteq> ESP_OK" and "wb_uplink_channel bd (wp_board s) = Some ch" and "1 \<le> ch \<and> ch \<le> 13"
    and "ap_mismatch bd (wp_board s) ch \<noteq> None" and "\<not> wp_auto_off s" and "sint (int_or api (wp_flash s) ''ap_realign_cnt'') < 3"
  shows "fst (on_sta_got_ip aton api bd ts s) \<and> wp_flash (snd (on_sta_got_ip aton api bd ts s)) = wp_flash s"
proof -
  have n: "save_nv api k v u = u" for k v u using assms(1) by (simp add: save_nv_def param_set_def wp_flash_def)
  show ?thesis unfolding got_ip_split using assms(2-6)
    by (auto simp: ip_checked_def realign_def learn_channel_def n Let_def)
qed

text \<open>\<open>strlcpy\<close> into the driver's fields leaves room for a terminator that these fields do not need.\<close>

lemma long_ssid_cut:
  "length (wn_ssid n) = 32 \<Longrightarrow> sc_ssid (station_config n) = take 31 (wn_ssid n) \<and> sc_ssid (station_config n) \<noteq> wn_ssid n"
  by (auto simp: station_config_def strlcpy_field_def dest: arg_cong [of _ _ length])

lemma long_psk_cut:
  "length (wn_passwd n) = 64 \<Longrightarrow> wn_eap_method n = 0 \<Longrightarrow> sc_passwd (station_config n) = take 63 (wn_passwd n)"
  by (simp add: station_config_def strlcpy_field_def)

text \<open>A client on the deny list is not counted when it joins, but it is when it leaves.\<close>

lemma denied_client_uncounts:
  "wb_denied bd (wp_board s) m \<Longrightarrow> 0 < wp_connect_count s \<Longrightarrow>
   wp_connect_count (on_ap_left (on_ap_joined bd m aid s)) = wp_connect_count s - 1"
  by (simp add: on_ap_joined_def on_ap_left_def)

text \<open>
  The resolver that clients are told is the device itself exactly while the relay answers and the
  access point has an address; else it is the operator's choice, else the uplink's.
\<close>

lemma offered_dns_cases:
  assumes "nt_healthy api"
  shows "offered_dns aton api bd d h =
    (if wb_relay_answers bd d \<and> wb_ap_ip bd d \<noteq> None \<and> wb_ap_ip bd d \<noteq> Some 0 then the (wb_ap_ip bd d)
     else case get_str api h ''ap_dns'' of None \<Rightarrow> wb_sta_dns bd d
       | Some v \<Rightarrow> if v \<noteq> [] \<and> aton v \<noteq> None \<and> aton v \<noteq> Some 0 then the (aton v) else wb_sta_dns bd d)"
  by (auto simp: offered_dns_def Let_def param_str_def nt_healthyD [OF assms] str_set_def split: option.split list.split)

section \<open>A concrete board\<close>

record demo_world =
  dw_mode :: wifi_mode
  dw_ap :: "ap_config option"
  dw_sta :: "sta_config option"
  dw_uplink :: "u8 option"
  dw_last :: "wifi_cmd option"

definition demo_board :: "demo_world wifi_board" where
  "demo_board = \<lparr>wb_mode = (\<lambda>d. Some (dw_mode d)), wb_set_mode = (\<lambda>d m. (ESP_OK, d\<lparr>dw_mode := m\<rparr>)), wb_ap = dw_ap, wb_sta = dw_sta,
     wb_uplink_channel = dw_uplink, wb_spawn = (\<lambda>d. (True, d)),
     wb_tell = (\<lambda>c d. (case c of Set_sta k \<Rightarrow> d\<lparr>dw_sta := Some k\<rparr> | Set_ap k \<Rightarrow> d\<lparr>dw_ap := Some k\<rparr> | _ \<Rightarrow> d)\<lparr>dw_last := Some c\<rparr>),
     wb_denied = (\<lambda>d m. False), wb_relay_answers = (\<lambda>d. False), wb_ap_ip = (\<lambda>d. None), wb_sta_dns = (\<lambda>d. 0)\<rparr>"

lemma demo_board_lawful: "board_lawful demo_board" and demo_board_healthy: "board_healthy demo_board"
  by (auto simp: board_lawful_def board_healthy_def demo_board_def split: wifi_cmd.split)

definition demo_off :: demo_world where
  "demo_off = \<lparr>dw_mode = WIFI_MODE_NULL, dw_ap = None, dw_sta = None, dw_uplink = None, dw_last = None\<rparr>"

definition demo_kconfig :: kconfig where
  "demo_kconfig = \<lparr>kc_sta_ssid = ''otherapssid'', kc_sta_passwd = ''otherapspassword'', kc_ap_ssid = ''ESP32'', kc_ap_passwd = ''12345678'', kc_channel = 1\<rparr>"

definition demo_start_state :: "(wifi_blob typed_map, demo_world) wifi_policy" where
  "demo_start_state = wifi_start (\<lambda>_. None) map_typed demo_board demo_kconfig demo_off (\<lambda>_ _. None)"

lemma saved_networks_tried_witness:
  "\<exists>st'. wifi_networks_set_all map_typed (Some [demo_net ''A'', demo_net ''B'']) 2 (wifi_boot (\<lambda>_ _. None)) = (ESP_OK, st') \<and>
     wb_sta demo_board (wp_board ((on_sta_disconnected (\<lambda>_. None) map_typed demo_board ^^ 7)
       (wifi_start (\<lambda>_. None) map_typed demo_board demo_kconfig demo_off (wf_flash st')))) = Some (station_config ((demo_net ''B'')\<lparr>wn_valid := 1\<rparr>))"
proof -
  let ?arr = "[demo_net ''A'', demo_net ''B'']"
  obtain st' where s: "wifi_networks_set_all map_typed (Some ?arr) 2 (wifi_boot (\<lambda>_ _. None)) = (ESP_OK, st')"
    using healthy_set_all [OF map_typed_healthy] by (metis prod.collapse)
  have k: "saved_form (take WIFI_NETWORKS_MAX ?arr) = map (\<lambda>n. n\<lparr>wn_valid := 1\<rparr>) ?arr"
    by (simp add: saved_form_def WIFI_NETWORKS_MAX_def demo_net_def)
  have "length ?arr = nat 2" "(0 :: int) \<le> 2" by simp_all
  note saved_networks_tried [OF demo_board_lawful map_typed_lawful s this k [symmetric], where k = 7 and kc = demo_kconfig and d = demo_off and aton = "\<lambda>_. None"]
  moreover have "\<not> only_placeholder demo_kconfig (length (map (\<lambda>n. n\<lparr>wn_valid := 1\<rparr>) ?arr)) (Some (hd (map (\<lambda>n. n\<lparr>wn_valid := 1\<rparr>) ?arr)))"
    by (simp add: only_placeholder_def)
  ultimately show ?thesis using s by (simp add: Let_def numeral_2_eq_2)
qed

text \<open>The operator chooses recovery-only mode and the uplink gets its address before the first worker has run.\<close>

definition demo_policy_steps :: "demo_world node_action list" where
  "demo_policy_steps = [Set_auto_off True, Worker_start 0, Event (Sta_got_ip False), Worker_wake 0]"

lemma ap_policy_settles_witness:
  "let s = fold (node_step (\<lambda>_. None) map_typed demo_board demo_kconfig) demo_policy_steps demo_start_state;
       s' = fold (node_step (\<lambda>_. None) map_typed demo_board demo_kconfig) (let_workers_run (length (wp_workers s))) s
   in wifi_ap_runtime_enabled demo_board (wp_board s) \<and> \<not> wifi_ap_runtime_enabled demo_board (wp_board s')"
proof -
  let ?s = "fold (node_step (\<lambda>_. None) map_typed demo_board demo_kconfig) demo_policy_steps demo_start_state"
  have "\<forall>st\<in>set demo_policy_steps. mode_kept demo_board st" by (simp add: demo_policy_steps_def mode_kept_def)
  note t = ap_policy_settles [OF demo_board_lawful demo_board_healthy this, where s = ?s and aton = "\<lambda>_. None" and api = map_typed
      and kc = demo_kconfig and d = demo_off and h = "\<lambda>_ _. None"]
  have "wp_auto_off ?s \<and> wp_ap_connect ?s \<and> wifi_ap_runtime_enabled demo_board (wp_board ?s)" by code_simp
  then show ?thesis using t by (simp add: demo_start_state_def Let_def)
qed

lemma realign_restarts_bounded_witness:
  "fst (fold (counted_step (\<lambda>_. None) map_typed demo_board demo_kconfig)
     (concat (replicate 9 [World (\<lambda>d. d\<lparr>dw_uplink := Some (if map_option ap_channel (dw_ap d) = Some 6 then 11 else 6)\<rparr>), Event (Sta_got_ip False)]))
     (0, wifi_start (\<lambda>_. None) map_typed demo_board demo_kconfig demo_off (\<lambda>_ _. None))) \<le> 3"
proof -
  have "param_int map_typed (\<lambda>_ _. None) ''ap_realign_cnt'' = None" by (simp add: param_int_def get_i32_def map_typed_def)
  then show ?thesis by (rule realign_restarts_bounded [OF map_typed_lawful map_typed_healthy])
qed

lemma realign_takes_effect_witness:
  "let s = demo_start_state\<lparr>wp_board := (wp_board demo_start_state)\<lparr>dw_uplink := Some 11\<rparr>\<rparr>;
       s2 = wifi_start (\<lambda>_. None) map_typed demo_board demo_kconfig demo_off (wp_flash (snd (on_sta_got_ip (\<lambda>_. None) map_typed demo_board False s)))
   in fst (on_sta_got_ip (\<lambda>_. None) map_typed demo_board False s) \<and> map_option ap_channel (wb_ap demo_board (wp_board s2)) = Some 11"
proof -
  let ?s = "demo_start_state\<lparr>wp_board := (wp_board demo_start_state)\<lparr>dw_uplink := Some 11\<rparr>\<rparr>"
  let ?r = "on_sta_got_ip (\<lambda>_. None) map_typed demo_board False ?s"
  let ?s2 = "wifi_start (\<lambda>_. None) map_typed demo_board demo_kconfig demo_off (wp_flash (snd ?r))"
  let ?s3 = "?s2\<lparr>wp_board := (wp_board ?s2)\<lparr>dw_uplink := Some 11\<rparr>\<rparr>"
  have r: "fst ?r" by code_simp
  then have "?r = (True, snd ?r)" by (simp add: prod_eq_iff)
  moreover have "wb_uplink_channel demo_board (wp_board ?s) = Some 11" "wb_uplink_channel demo_board (wp_board ?s3) = Some 11"
    "wb_ap demo_board (wp_board ?s3) = wb_ap demo_board (wp_board ?s2)" by (simp_all add: demo_board_def)
  ultimately show ?thesis
    using realign_takes_effect [OF demo_board_lawful map_typed_lawful map_typed_healthy, of _ _ ?s "snd ?r" 11 ?s2 demo_kconfig demo_off ?s3] r
    unfolding Let_def by blast
qed

end
