(* ===== verification/Reset_History.thy ===== *)
theory Reset_History
  imports Nvs_Typed C_Scan
begin

text \<open>
  The history of the last ten boots (\<open>main/reset_history.c\<close>): one blob in NVS that is read, shifted
  and written back at every start.  The blob is its bytes, as characters, because layouts of other
  firmware versions are told apart by their size alone.  What a start observes (the firmware's
  fingerprint, an invalid update partition, the reset reason, the clock) is a parameter.
\<close>

section \<open>Rows and the blob\<close>

definition RESET_HISTORY_MAX :: nat where "RESET_HISTORY_MAX = 10"
definition KEY_BLOB :: string where "KEY_BLOB = ''rst_hist''"
definition KEY_CRASH :: string where "KEY_CRASH = ''last_crash''"


abbreviation NUL :: char where "NUL \<equiv> CHR 0x00"

text \<open>The C string in a field.\<close>

definition cstr :: "string \<Rightarrow> string" where "cstr s = takeWhile (\<lambda>c. c \<noteq> NUL) s"

text \<open>\<open>strncpy\<close> of a text into a cleared field of \<open>z\<close> bytes, the last of which stays 0.\<close>

definition put_field :: "nat \<Rightarrow> string \<Rightarrow> string" where
  "put_field z s = (let t = take (z - 1) (cstr s) in t @ replicate (z - length t) NUL)"

record rst_entry =
  rh_wallclock :: u32
  rh_reason :: string
  rh_who :: string
  rh_crash :: string

definition zero_entry :: rst_entry where
  "zero_entry = \<lparr>rh_wallclock = 0, rh_reason = replicate 16 NUL, rh_who = replicate 32 NUL, rh_crash = replicate 128 NUL\<rparr>"

definition ENTRY_SIZE :: nat where "ENTRY_SIZE = 180"
definition BLOB_SIZE :: nat where "BLOB_SIZE = RESET_HISTORY_MAX * ENTRY_SIZE"
definition OLD_ENTRY_SIZE :: nat where "OLD_ENTRY_SIZE = 84"

definition u32_chars :: "u32 \<Rightarrow> string" where
  "u32_chars w = map (\<lambda>b. char_of (unat b)) [byte0 w, byte1 w, byte2 w, byte3 w]"

definition chars_u32 :: "string \<Rightarrow> u32" where
  "chars_u32 s = mk32 (of_char (s ! 3)) (of_char (s ! 2)) (of_char (s ! 1)) (of_char (s ! 0))"


definition bytes_entry :: "string \<Rightarrow> rst_entry" where
  "bytes_entry b = \<lparr>rh_wallclock = chars_u32 b, rh_reason = take 16 (drop 4 b), rh_who = take 32 (drop 20 b), rh_crash = take 128 (drop 52 b)\<rparr>"

text \<open>The array of rows over the buffer, which is zero behind the bytes that were read.\<close>

fun rows_of :: "nat \<Rightarrow> string \<Rightarrow> rst_entry list" where
  "rows_of 0 b = []"
| "rows_of (Suc n) b = bytes_entry (take ENTRY_SIZE b) # rows_of n (drop ENTRY_SIZE b)"

definition hist_of :: "string \<Rightarrow> rst_entry list" where
  "hist_of b = rows_of RESET_HISTORY_MAX (b @ replicate (BLOB_SIZE - length b) NUL)"


text \<open>\<open>nvs_get_blob\<close> and \<open>nvs_get_str\<close> into a buffer of \<open>z\<close> bytes.\<close>

definition read_blob :: "('h, string) nvs_typed \<Rightarrow> 'h \<Rightarrow> string \<Rightarrow> nat \<Rightarrow> esp_err + string" where
  "read_blob api h k z = (case get_blob api h k of None \<Rightarrow> Inl ESP_ERR_NVS_NOT_FOUND
     | Some b \<Rightarrow> if z < length b then Inl ESP_ERR_NVS_INVALID_LENGTH else Inr b)"

definition read_text :: "('h, string) nvs_typed \<Rightarrow> 'h \<Rightarrow> string \<Rightarrow> nat \<Rightarrow> string option" where
  "read_text api h k z = (case get_str api h k of None \<Rightarrow> None | Some s \<Rightarrow> if length s < z then Some s else None)"

section \<open>The recorder\<close>

definition crash_row :: "string \<Rightarrow> bool" where
  "crash_row reason \<longleftrightarrow> strstr ''PANIC'' (cstr reason) \<noteq> None \<or> strstr ''WDT'' (cstr reason) \<noteq> None"

definition sanitize_entry :: "rst_entry \<Rightarrow> rst_entry" where
  "sanitize_entry e =
     (let e = e\<lparr>rh_reason := (rh_reason e)[15 := NUL], rh_who := (rh_who e)[31 := NUL], rh_crash := (rh_crash e)[127 := NUL]\<rparr> in
      if rh_reason e ! 0 = NUL then e
      else if \<not> crash_row (rh_reason e) then e\<lparr>rh_crash := replicate 128 NUL\<rparr> else e)"

definition sanitize_blob :: "rst_entry list \<Rightarrow> rst_entry list" where
  "sanitize_blob hist = map sanitize_entry hist"

text \<open>The first layout, read into a buffer of its own; then the crash text goes to the newest crash row.\<close>

definition old_entry :: "string \<Rightarrow> rst_entry" where
  "old_entry b = \<lparr>rh_wallclock = chars_u32 b, rh_reason = put_field 16 (take 16 (drop 4 b)), rh_who = put_field 32 (take 64 (drop 20 b)),
     rh_crash = replicate 128 NUL\<rparr>"

fun old_rows :: "nat \<Rightarrow> string \<Rightarrow> rst_entry list" where
  "old_rows 0 b = []"
| "old_rows (Suc n) b = old_entry (take OLD_ENTRY_SIZE b) # old_rows n (drop OLD_ENTRY_SIZE b)"

fun backfill :: "string \<Rightarrow> rst_entry list \<Rightarrow> rst_entry list" where
  "backfill lc [] = []"
| "backfill lc (e # es) = (if crash_row (rh_reason e) then e\<lparr>rh_crash := put_field 128 lc\<rparr> # es else e # backfill lc es)"

definition migrate_v1_to_v2 :: "('h, string) nvs_typed \<Rightarrow> 'h \<Rightarrow> rst_entry list \<Rightarrow> rst_entry list" where
  "migrate_v1_to_v2 api h hist =
     (case read_blob api h KEY_BLOB (RESET_HISTORY_MAX * OLD_ENTRY_SIZE) of Inl _ \<Rightarrow> hist
      | Inr b \<Rightarrow> (let hist = old_rows RESET_HISTORY_MAX b in
          case read_text api h KEY_CRASH 160 of None \<Rightarrow> hist
          | Some lc \<Rightarrow> if lc = [] then hist else backfill lc hist))"

text \<open>What a start observes; the reason is the number of \<open>esp_reset_reason_t\<close>.\<close>

record boot_env =
  be_sha :: "bytes option"
  be_invalid :: bool
  be_reason :: u32
  be_now :: int

definition ESP_RST_SW :: u32 where "ESP_RST_SW = 3"

definition reason_name :: "u32 \<Rightarrow> string" where
  "reason_name r =
     (if r = 1 then ''POWERON'' else if r = 2 then ''EXT'' else if r = ESP_RST_SW then ''SW'' else if r = 4 then ''PANIC''
      else if r = 5 then ''INT_WDT'' else if r = 6 then ''TASK_WDT'' else if r = 7 then ''WDT'' else if r = 8 then ''DEEPSLEEP''
      else if r = 9 then ''BROWNOUT'' else if r = 10 then ''SDIO'' else ''UNKNOWN'')"

text \<open>The label of the start, who caused it, and the flash.\<close>

definition sha_hex :: "boot_env \<Rightarrow> string" where
  "sha_hex env = (case be_sha env of None \<Rightarrow> [] | Some b \<Rightarrow> bytes_to_hex (take 8 b))"


definition wallclock_of :: "int \<Rightarrow> u32" where
  "wallclock_of now = (if 1700000000 < now then of_int now else 0)"


definition read_hist :: "('h, string) nvs_typed \<Rightarrow> 'h \<Rightarrow> rst_entry list" where
  "read_hist api h =
     (case read_blob api h KEY_BLOB BLOB_SIZE of
        Inr b \<Rightarrow> hist_of b
      | Inl e \<Rightarrow>
          (if e = ESP_ERR_NVS_INVALID_LENGTH \<and> map_option length (get_blob api h KEY_BLOB) = Some (RESET_HISTORY_MAX * OLD_ENTRY_SIZE)
           then migrate_v1_to_v2 api h (replicate RESET_HISTORY_MAX zero_entry)
           else replicate RESET_HISTORY_MAX zero_entry))"



definition row_blank :: "rst_entry \<Rightarrow> bool" where
  "row_blank e \<longleftrightarrow> rh_reason e ! 0 = NUL \<and> rh_wallclock e = 0"

definition reset_history_load :: "('h, string) nvs_typed \<Rightarrow> 'h \<Rightarrow> int \<Rightarrow> rst_entry list" where
  "reset_history_load api h m =
     (if m \<le> 0 then []
      else if nt_open_ro api h \<noteq> ESP_OK then []
      else (case read_blob api h KEY_BLOB BLOB_SIZE of Inl _ \<Rightarrow> []
            | Inr b \<Rightarrow> filter (\<lambda>e. \<not> row_blank e) (take (if m < int RESET_HISTORY_MAX then nat m else RESET_HISTORY_MAX) (sanitize_blob (hist_of b)))))"


section \<open>The blob and its rows\<close>

definition sized :: "rst_entry \<Rightarrow> bool" where
  "sized e \<longleftrightarrow> length (rh_reason e) = 16 \<and> length (rh_who e) = 32 \<and> length (rh_crash e) = 128"









section \<open>The abstract history\<close>

text \<open>A row as its texts: time, reason, cause and crash.\<close>

type_synonym boot_row = "u32 \<times> string \<times> string \<times> string"

definition entry_of :: "boot_row \<Rightarrow> rst_entry" where
  "entry_of r = (case r of (t, reason, who, crash) \<Rightarrow>
     \<lparr>rh_wallclock = t, rh_reason = put_field 16 reason, rh_who = put_field 32 who, rh_crash = put_field 128 crash\<rparr>)"

text \<open>The newest row is the first; \<open>bs_who\<close> is the announced cause of the next restart, \<open>bs_sha\<close> the last firmware.\<close>

record boots =
  bs_rows :: "boot_row list"
  bs_who :: "string option"
  bs_sha :: "string option"

definition no_boots :: boots where "no_boots = \<lparr>bs_rows = [], bs_who = None, bs_sha = None\<rparr>"

datatype rst_event = Boot boot_env | Crash_info "string option" | Note_restart "string option"

definition firmware_changed :: "boot_env \<Rightarrow> boots \<Rightarrow> bool" where
  "firmware_changed env s \<longleftrightarrow> sha_hex env \<noteq> [] \<and> bs_sha s \<noteq> Some (sha_hex env)"

definition boot_reason :: "boot_env \<Rightarrow> boots \<Rightarrow> string" where
  "boot_reason env s = (if firmware_changed env s then (if be_invalid env then ''ROLLBACK'' else ''FLASH'') else reason_name (be_reason env))"

definition boot_who :: "boot_env \<Rightarrow> boots \<Rightarrow> string" where
  "boot_who env s = (if be_reason env = ESP_RST_SW then (case bs_who s of Some w \<Rightarrow> if length w < 64 then w else [] | None \<Rightarrow> []) else [])"

definition boots_step :: "rst_event \<Rightarrow> boots \<Rightarrow> boots" where
  "boots_step ev s = (case ev of
       Boot env \<Rightarrow> \<lparr>bs_rows = take RESET_HISTORY_MAX ((wallclock_of (be_now env), boot_reason env s, boot_who env s, []) # bs_rows s),
           bs_who = (if be_reason env = ESP_RST_SW then bs_who s else None),
           bs_sha = (if firmware_changed env s then Some (sha_hex env) else bs_sha s)\<rparr>
     | Crash_info c \<Rightarrow> (case (c, bs_rows s) of
           (Some c, (t, r, w, c') # rs) \<Rightarrow> if c \<noteq> [] \<and> crash_row r then s\<lparr>bs_rows := (t, r, w, c) # rs\<rparr> else s
         | _ \<Rightarrow> s)
     | Note_restart w \<Rightarrow> s\<lparr>bs_who := Some (case w of None \<Rightarrow> ''?'' | Some w \<Rightarrow> cstr w)\<rparr>)"






lemma put_field_length [simp]: "0 < z \<Longrightarrow> length (put_field z s) = z"
  by (simp add: put_field_def Let_def)







lemma entry_sized [simp]: "sized (entry_of r)" "sized zero_entry"
  by (auto simp: sized_def entry_of_def zero_entry_def split: prod.split)



lemma sanitize_zero [simp]: "sanitize_entry zero_entry = zero_entry"
  by (simp add: sanitize_entry_def zero_entry_def Let_def list_update_same_conv)





section \<open>Every operation keeps to the abstract history\<close>













section \<open>What the recorder does not promise\<close>

text \<open>The code for the first layout never runs: a smaller blob is no error for \<open>nvs_get_blob\<close>.\<close>

lemma migration_never_runs:
  "read_hist api h = (case read_blob api h KEY_BLOB BLOB_SIZE of Inr b \<Rightarrow> hist_of b | Inl e \<Rightarrow> replicate RESET_HISTORY_MAX zero_entry)"
  by (auto simp: read_hist_def read_blob_def BLOB_SIZE_def ENTRY_SIZE_def OLD_ENTRY_SIZE_def RESET_HISTORY_MAX_def split: option.split)

text \<open>Such a blob is read in the new layout: of two recorded starts the second is not there.\<close>

definition old_rows_text :: string where
  "old_rows_text = concat (map (\<lambda>r. u32_chars 1750000000 @ put_field 16 r @ replicate 64 NUL) [''SW'', ''PANIC''])"

definition old_blob :: string where
  "old_blob = old_rows_text @ replicate (8 * OLD_ENTRY_SIZE) NUL"

lemma rows_of_zero: "rows_of n (replicate (n * ENTRY_SIZE) NUL) = replicate n zero_entry"
proof (induction n)
  case (Suc n)
  have "chars_u32 (replicate 180 NUL) = 0" by (simp add: chars_u32_def word_byte_defs)
  then have "bytes_entry (replicate 180 NUL) = zero_entry" by (simp add: bytes_entry_def zero_entry_def)
  then show ?case using Suc by (simp add: ENTRY_SIZE_def)
qed simp

lemma old_blob_rows: "hist_of old_blob = bytes_entry (old_rows_text @ replicate 12 NUL) # replicate 9 zero_entry"
proof -
  have l: "length old_rows_text = 168" by (simp add: old_rows_text_def u32_chars_def)
  have "old_blob @ replicate (BLOB_SIZE - length old_blob) NUL = old_rows_text @ replicate 1632 NUL"
    by (simp add: old_blob_def BLOB_SIZE_def ENTRY_SIZE_def OLD_ENTRY_SIZE_def RESET_HISTORY_MAX_def l replicate_add [symmetric])
  moreover have "rows_of 9 (replicate 1620 NUL) = replicate 9 zero_entry" using rows_of_zero [of 9] by (simp add: ENTRY_SIZE_def)
  moreover have "rows_of 10 b = bytes_entry (take 180 b) # rows_of 9 (drop 180 b)" for b
    using rows_of.simps(2) [of 9 b] by (simp add: ENTRY_SIZE_def)
  ultimately show ?thesis by (simp add: hist_of_def RESET_HISTORY_MAX_def l)
qed

lemma old_blob_misread:
  assumes "get_blob api h KEY_BLOB = Some old_blob" and "nt_open_ro api h = ESP_OK"
  shows "length old_blob = RESET_HISTORY_MAX * OLD_ENTRY_SIZE \<and>
    map (\<lambda>e. cstr (rh_reason e)) (reset_history_load api h 10) = [''SW'']"
proof -
  have l: "length old_blob = 840" by (simp add: old_blob_def old_rows_text_def u32_chars_def OLD_ENTRY_SIZE_def)
  have e: "\<not> row_blank (sanitize_entry (bytes_entry (old_rows_text @ replicate 12 NUL)))"
    "cstr (rh_reason (sanitize_entry (bytes_entry (old_rows_text @ replicate 12 NUL)))) = ''SW''" by code_simp+
  have z: "row_blank zero_entry" by (simp add: row_blank_def zero_entry_def)
  have "filter (\<lambda>e. \<not> row_blank e) (take 10 (sanitize_blob (hist_of old_blob))) = [sanitize_entry (bytes_entry (old_rows_text @ replicate 12 NUL))]"
    using e(1) z by (simp add: old_blob_rows sanitize_blob_def)
  then show ?thesis using assms l e(2)
    by (simp add: reset_history_load_def read_blob_def BLOB_SIZE_def ENTRY_SIZE_def OLD_ENTRY_SIZE_def RESET_HISTORY_MAX_def)
qed

text \<open>An announcement is not cleared by the restart it announces: the next software reset, announced or not, gets it too.\<close>

lemma stale_attribution:
  assumes "be_reason env = ESP_RST_SW" and "be_sha env = None"
  shows "map (\<lambda>(t, r, w, c). w) (bs_rows (fold boots_step [Note_restart (Some ''web ota''), Boot env, Boot env] no_boots)) = [''web ota'', ''web ota'']"
  using assms by (simp add: boots_step_def no_boots_def boot_who_def RESET_HISTORY_MAX_def cstr_def)



end
