(* ===== verification/Remote_Console.thy ===== *)
theory Remote_Console
  imports Web_Password Nvs_Typed
begin

text \<open>
  The TCP console (\<open>components/remote_console/remote_console.c\<close>): its settings, the admission of a
  connection, the password, the line editor, the session and the capture of what a command prints.

  What a peer sends is a list of readings, one for every turn of the receive loop: whether a kick or
  shutdown is then requested, the clock, and what \<open>recv\<close> returns.  What the console does is a trace.
  The commands themselves (\<open>esp_console_run\<close>) are a parameter.
\<close>

section \<open>Settings\<close>

definition RC_BIND_AP :: u8 where "RC_BIND_AP = 0x01"
definition RC_BIND_STA :: u8 where "RC_BIND_STA = 0x02"
definition RC_BIND_VPN :: u8 where "RC_BIND_VPN = 0x04"

lemmas rc_bind_bits = RC_BIND_AP_def RC_BIND_STA_def RC_BIND_VPN_def

record rc_config =
  rc_enabled :: bool
  rc_port :: u16
  rc_bind :: u8
  rc_timeout :: u32

definition rc_default :: rc_config where
  "rc_default = \<lparr>rc_enabled = False, rc_port = 2323, rc_bind = RC_BIND_AP, rc_timeout = 300\<rparr>"

text \<open>Values up to 2 are taken for the enumeration of older firmware.\<close>

definition bind_of_stored :: "u8 \<Rightarrow> u8" where
  "bind_of_stored v =
     (let b = (if v = 0 then RC_BIND_AP OR RC_BIND_STA else if v = 1 then RC_BIND_AP else if v = 2 then RC_BIND_STA
               else v AND (RC_BIND_AP OR RC_BIND_STA OR RC_BIND_VPN))
      in if b = 0 then RC_BIND_AP else b)"

definition rc_load_config :: "('h, 'b) nvs_typed \<Rightarrow> 'h \<Rightarrow> rc_config \<Rightarrow> rc_config" where
  "rc_load_config api h cfg =
     (if nt_open_ro api h \<noteq> ESP_OK then cfg
      else \<lparr>rc_enabled = (case get_u8 api h ''rc_enabled'' of Some v \<Rightarrow> v \<noteq> 0 | None \<Rightarrow> rc_enabled cfg),
             rc_port = (case get_u16 api h ''rc_port'' of Some v \<Rightarrow> v | None \<Rightarrow> rc_port cfg),
             rc_bind = (case get_u8 api h ''rc_bind'' of Some v \<Rightarrow> bind_of_stored v | None \<Rightarrow> rc_bind cfg),
             rc_timeout = (case get_u32 api h ''rc_timeout'' of Some v \<Rightarrow> v | None \<Rightarrow> rc_timeout cfg)\<rparr>)"

definition rc_save_config :: "('h, 'b) nvs_typed \<Rightarrow> rc_config \<Rightarrow> 'h \<Rightarrow> 'h" where
  "rc_save_config api cfg h =
     (if nt_open_rw api h \<noteq> ESP_OK then h
      else (let h = snd (nt_set api h ''rc_enabled'' (V8 (if rc_enabled cfg then 1 else 0)));
                h = snd (nt_set api h ''rc_port'' (V16 (rc_port cfg)));
                h = snd (nt_set api h ''rc_bind'' (V8 (rc_bind cfg)));
                h = snd (nt_set api h ''rc_timeout'' (V32 (rc_timeout cfg)))
            in snd (nt_commit api h)))"

text \<open>
  The control state: \<open>rt_handle\<close> is \<open>task_handle \<noteq> NULL\<close>, \<open>rt_tasks\<close> the number of console tasks that
  really run.
\<close>

datatype rc_status = RC_STATE_DISABLED | RC_STATE_LISTENING | RC_STATE_AUTH_WAIT | RC_STATE_ACTIVE

record 'h rc_control =
  rt_flash :: 'h
  rt_cfg :: rc_config
  rt_state :: rc_status
  rt_server :: bool
  rt_handle :: bool
  rt_kick :: bool
  rt_shutdown :: bool
  rt_tasks :: nat

definition rc_boot :: "'h \<Rightarrow> 'h rc_control" where
  "rc_boot h = \<lparr>rt_flash = h, rt_cfg = rc_default, rt_state = RC_STATE_DISABLED, rt_server = False, rt_handle = False,
     rt_kick = False, rt_shutdown = False, rt_tasks = 0\<rparr>"

definition rc_saved :: "('h, 'b) nvs_typed \<Rightarrow> rc_config \<Rightarrow> 'h rc_control \<Rightarrow> 'h rc_control" where
  "rc_saved api cfg s = s\<lparr>rt_cfg := cfg, rt_flash := rc_save_config api cfg (rt_flash s)\<rparr>"

text \<open>\<open>spawned\<close>: whether \<open>xTaskCreate\<close> succeeds.\<close>

definition remote_console_init :: "('h, 'b) nvs_typed \<Rightarrow> bool \<Rightarrow> bool \<Rightarrow> 'h rc_control \<Rightarrow> esp_err \<times> 'h rc_control" where
  "remote_console_init api mutex_ok spawned s =
     (if \<not> mutex_ok then (ESP_ERR_NO_MEM, s)
      else (let s = s\<lparr>rt_cfg := rc_load_config api (rt_flash s) (rt_cfg s)\<rparr> in
        if rc_enabled (rt_cfg s)
        then (if \<not> spawned then (ESP_ERR_NO_MEM, s)
              else (ESP_OK, s\<lparr>rt_handle := True, rt_tasks := rt_tasks s + 1, rt_state := RC_STATE_LISTENING\<rparr>))
        else (ESP_OK, s\<lparr>rt_state := RC_STATE_DISABLED\<rparr>)))"

definition remote_console_enable :: "('h, 'b) nvs_typed \<Rightarrow> bool \<Rightarrow> 'h rc_control \<Rightarrow> esp_err \<times> 'h rc_control" where
  "remote_console_enable api spawned s =
     (if rc_enabled (rt_cfg s) then (ESP_OK, s)
      else (let s = rc_saved api ((rt_cfg s)\<lparr>rc_enabled := True\<rparr>) s in
        if rt_handle s then (ESP_OK, s)
        else if \<not> spawned then (ESP_ERR_NO_MEM, rc_saved api ((rt_cfg s)\<lparr>rc_enabled := False\<rparr>) (s\<lparr>rt_shutdown := False\<rparr>))
        else (ESP_OK, s\<lparr>rt_shutdown := False, rt_handle := True, rt_tasks := rt_tasks s + 1, rt_state := RC_STATE_LISTENING\<rparr>)))"

text \<open>A console task that sees the shutdown request ends.\<close>

definition console_task_exit :: "'h rc_control \<Rightarrow> 'h rc_control" where
  "console_task_exit s =
     (if rt_shutdown s \<and> 0 < rt_tasks s
      then s\<lparr>rt_tasks := rt_tasks s - 1, rt_server := False, rt_state := RC_STATE_DISABLED, rt_handle := False\<rparr> else s)"

text \<open>\<open>noticed\<close>: whether the task has ended within the half second that \<open>disable\<close> waits.\<close>

definition remote_console_disable :: "('h, 'b) nvs_typed \<Rightarrow> bool \<Rightarrow> 'h rc_control \<Rightarrow> esp_err \<times> 'h rc_control" where
  "remote_console_disable api noticed s =
     (if \<not> rc_enabled (rt_cfg s) then (ESP_OK, s)
      else (let s = rc_saved api ((rt_cfg s)\<lparr>rc_enabled := False\<rparr>) s;
                s = s\<lparr>rt_shutdown := True, rt_kick := True, rt_server := False\<rparr>;
                s = (if rt_handle s then (if noticed then console_task_exit s else s)\<lparr>rt_handle := False\<rparr> else s)
            in (ESP_OK, s\<lparr>rt_state := RC_STATE_DISABLED\<rparr>)))"

definition remote_console_set_port :: "('h, 'b) nvs_typed \<Rightarrow> u16 \<Rightarrow> 'h rc_control \<Rightarrow> esp_err \<times> 'h rc_control" where
  "remote_console_set_port api port s =
     (if port = 0 then (ESP_ERR_INVALID_ARG, s) else (ESP_OK, rc_saved api ((rt_cfg s)\<lparr>rc_port := port\<rparr>) s))"

definition remote_console_set_bind :: "('h, 'b) nvs_typed \<Rightarrow> u8 \<Rightarrow> 'h rc_control \<Rightarrow> esp_err \<times> 'h rc_control" where
  "remote_console_set_bind api b s =
     (let b = (if b = 0 then RC_BIND_AP else b)
      in (ESP_OK, rc_saved api ((rt_cfg s)\<lparr>rc_bind := b AND (RC_BIND_AP OR RC_BIND_STA OR RC_BIND_VPN)\<rparr>) s))"

definition remote_console_set_timeout :: "('h, 'b) nvs_typed \<Rightarrow> u32 \<Rightarrow> 'h rc_control \<Rightarrow> esp_err \<times> 'h rc_control" where
  "remote_console_set_timeout api t s = (ESP_OK, rc_saved api ((rt_cfg s)\<lparr>rc_timeout := t\<rparr>) s)"

definition remote_console_kick :: "'h rc_control \<Rightarrow> esp_err \<times> 'h rc_control" where
  "remote_console_kick s = (if rt_state s \<noteq> RC_STATE_ACTIVE then (ESP_ERR_NOT_FOUND, s) else (ESP_OK, s\<lparr>rt_kick := True\<rparr>))"

section \<open>Capturing and sending output\<close>

definition RC_CAPTURE_BUF_SIZE :: nat where "RC_CAPTURE_BUF_SIZE = 8192"

definition rc_capture_add :: "string \<Rightarrow> string \<Rightarrow> string" where
  "rc_capture_add data buf =
     (if data = [] then buf
      else if RC_CAPTURE_BUF_SIZE - 1 \<le> length buf then buf
      else buf @ take (if RC_CAPTURE_BUF_SIZE \<le> length buf + length data then RC_CAPTURE_BUF_SIZE - 1 - length buf else length data) data)"

text \<open>One call of an intercepted output function; the stream of \<open>fputs\<close> and \<open>fwrite\<close> may be another file.\<close>

datatype rc_print = Printf string | Puts string | Putchar char | Fputs string bool | Fwrite string bool

fun rc_wrap :: "rc_print \<Rightarrow> string \<Rightarrow> string" where
  "rc_wrap (Printf t) buf = rc_capture_add (take 255 t) buf"
| "rc_wrap (Puts t) buf = rc_capture_add [CHR 0x0A] (rc_capture_add t buf)"
| "rc_wrap (Putchar ch) buf = rc_capture_add [ch] buf"
| "rc_wrap (Fputs t std) buf = (if std then rc_capture_add t buf else buf)"
| "rc_wrap (Fwrite t std) buf = (if std then rc_capture_add t buf else buf)"

text \<open>The buffer of 512 bytes on its way to the peer; the result is the list of sends.\<close>

fun crlf_loop :: "bool \<Rightarrow> string \<Rightarrow> string \<Rightarrow> string list" where
  "crlf_loop prev_cr net [] = (if net \<noteq> [] then [net] else [])"
| "crlf_loop prev_cr net (ch # cs) =
     (let net = (if ch = CHR 0x0A \<and> \<not> prev_cr \<and> length net < 511 then net @ [CHR 0x0D] else net);
          net = (if length net < 512 then net @ [ch] else net)
      in if 510 \<le> length net then net # crlf_loop (ch = CHR 0x0D) [] cs else crlf_loop (ch = CHR 0x0D) net cs)"

definition send_to_client_crlf :: "string \<Rightarrow> string list" where
  "send_to_client_crlf data = crlf_loop False [] data"

section \<open>Reading a line\<close>

datatype rc_recv = Got char | Again | Failed | Eof

record rc_reading =
  ri_stop :: bool
  ri_now :: int
  ri_recv :: rc_recv

text \<open>
  The results of \<open>recv_line\<close>: a length with its text, \<open>-2\<close>, \<open>-3\<close> and \<open>-1\<close>; \<open>Starved\<close> where the list
  of readings is over and the loop goes on waiting.
\<close>

datatype line_result = Line string | Timed_out | Interrupted | Ended | Starved

fun recv_line :: "nat \<Rightarrow> int \<Rightarrow> u32 \<Rightarrow> string \<Rightarrow> rc_reading list \<Rightarrow> line_result \<times> string list \<times> rc_reading list" where
  "recv_line z start t buf [] = (if length buf < z - 1 then Starved else Line buf, [], [])"
| "recv_line z start t buf (i # is) =
     (if \<not> length buf < z - 1 then (Line buf, [], i # is)
      else if ri_stop i then (Ended, [], i # is)
      else if 0 < t \<and> ri_now i - start > int (unat t) * 1000000 then (Timed_out, [], i # is)
      else (case ri_recv i of
          Again \<Rightarrow> recv_line z start t buf is
        | Failed \<Rightarrow> (Ended, [], is)
        | Eof \<Rightarrow> (Ended, [], is)
        | Got ch \<Rightarrow>
            if ch = CHR 0x0D then recv_line z start t buf is
            else if ch = CHR 0x0A then (Line buf, [], is)
            else if ch = CHR 0x08 \<or> ch = CHR 0x7F then
              (if buf \<noteq> []
               then (case recv_line z start t (butlast buf) is of (r, sent, is) \<Rightarrow> (r, [CHR 0x08, CHR 0x20, CHR 0x08] # sent, is))
               else recv_line z start t buf is)
            else if ch = CHR 0x03 then (Interrupted, [], is)
            else if ch = CHR 0x04 then (Ended, [], is)
            else if (0x20 :: nat) \<le> of_char ch \<and> (of_char ch :: nat) < 0x7F then recv_line z start t (buf @ [ch]) is
            else recv_line z start t buf is))"

text \<open>The clock when a call begins.\<close>

definition clock_of :: "rc_reading list \<Rightarrow> int" where "clock_of is = (case is of [] \<Rightarrow> 0 | i # _ \<Rightarrow> ri_now i)"

section \<open>A connection\<close>

datatype rc_out = Sent string | Ran string | Waited nat

definition RC_MAX_LINE_LEN :: nat where "RC_MAX_LINE_LEN = 256"
definition RC_MAX_AUTH_ATTEMPTS :: nat where "RC_MAX_AUTH_ATTEMPTS = 3"
definition RC_AUTH_DELAY_MS :: nat where "RC_AUTH_DELAY_MS = 5000"

definition CRLF :: string where "CRLF = [CHR 0x0D, CHR 0x0A]"
definition RC_PROMPT :: string where "RC_PROMPT = ''esp32> ''"
definition RC_AUTH_PROMPT :: string where "RC_AUTH_PROMPT = ''Password: ''"
definition RC_AUTH_OK :: string where "RC_AUTH_OK = CRLF @ ''Authentication successful.'' @ CRLF @ CRLF"
definition RC_AUTH_FAIL :: string where "RC_AUTH_FAIL = CRLF @ ''Authentication failed.'' @ CRLF"
definition RC_BUSY :: string where "RC_BUSY = ''BUSY: Another session is active.'' @ CRLF"
definition RC_GOODBYE :: string where "RC_GOODBYE = CRLF @ ''Goodbye.'' @ CRLF"
definition RC_BANNER :: string where
  "RC_BANNER = CRLF @ replicate 44 (CHR ''='') @ CRLF @ ''  ESP32 NAT Router - Remote Console'' @ CRLF @
     ''  WARNING: Plain TCP (not encrypted)'' @ CRLF @ replicate 44 (CHR ''='') @ CRLF @ CRLF"
definition RC_LOCKED :: string where "RC_LOCKED = ''Remote console locked: configure an admin password in the web UI.'' @ CRLF"

text \<open>The attempts, counted down.  \<open>rv_failed\<close> is \<open>failed_auths\<close>.\<close>

record 'h rc_server =
  rv_pw :: "'h pw_state"
  rv_total :: u32
  rv_failed :: u32
  rv_commands :: nat

fun auth_attempts :: "crypto \<Rightarrow> 'h nvs_raw \<Rightarrow> nat \<Rightarrow> 'h rc_server \<Rightarrow> rc_reading list \<Rightarrow> bool \<times> rc_out list \<times> 'h rc_server \<times> rc_reading list" where
  "auth_attempts c api 0 s is = (False, [Waited RC_AUTH_DELAY_MS], s, is)"
| "auth_attempts c api (Suc m) s is =
     (case recv_line 64 (clock_of is) 60 [] is of
        (Line p, sent, is) \<Rightarrow>
          (case verify_web_password c api (Some p) (rv_pw s) of (ok, pw) \<Rightarrow>
             let s = s\<lparr>rv_pw := pw\<rparr>; out = Sent RC_AUTH_PROMPT # map Sent sent in
             if ok then (True, out @ [Sent RC_AUTH_OK], s, is)
             else (case auth_attempts c api m (s\<lparr>rv_failed := rv_failed s + 1\<rparr>) is of (r, out', s, is) \<Rightarrow>
               (r, out @ [Sent RC_AUTH_FAIL] @ (if 0 < m then [Sent CRLF] else []) @ out', s, is)))
      | (_, sent, is) \<Rightarrow> (False, Sent RC_AUTH_PROMPT # map Sent sent, s, is))"

definition authenticate_client :: "crypto \<Rightarrow> 'h nvs_raw \<Rightarrow> 'h rc_server \<Rightarrow> rc_reading list \<Rightarrow> bool \<times> rc_out list \<times> 'h rc_server \<times> rc_reading list" where
  "authenticate_client c api s is =
     (if \<not> is_web_password_set api (rv_pw s) then (False, [Sent RC_LOCKED], s, is)
      else auth_attempts c api RC_MAX_AUTH_ATTEMPTS s is)"

text \<open>The \<open>k\<close>-th command: its result code, the name of that code, and what it prints.\<close>

type_synonym rc_exec = "nat \<Rightarrow> string \<Rightarrow> esp_err \<times> string \<times> rc_print list"

definition run_command :: "rc_exec \<Rightarrow> string \<Rightarrow> 'h rc_server \<Rightarrow> rc_out list \<times> 'h rc_server" where
  "run_command exec line s =
     (case exec (rv_commands s) line of (err, name, prints) \<Rightarrow>
        let buf = fold rc_wrap prints [];
            report = (if err = ESP_ERR_NOT_FOUND then [Sent (''Unknown command. Type '' @ [CHR 0x27] @ ''help'' @ [CHR 0x27] @ '' for list.'' @ CRLF)]
              else if err = ESP_ERR_INVALID_ARG \<or> err = ESP_OK then []
              else [Sent (take 63 (''Error: '' @ name @ CRLF))])
        in (Ran line # (if buf \<noteq> [] then map Sent (send_to_client_crlf buf) else []) @ report, s\<lparr>rv_commands := rv_commands s + 1\<rparr>))"

lemma recv_line_le: "length (snd (snd (recv_line z start t buf is))) \<le> length is"
proof (induction "is" arbitrary: buf)
  case (Cons i js)
  then have "length (snd (snd (recv_line z start t b js))) \<le> Suc (length js)" for b using le_SucI by blast
  then show ?case by (simp add: split_beta split: rc_recv.split)
qed simp

lemma recv_line_less:
  assumes "recv_line z start t buf is = (r, sent, rest)" and "length buf < z - 1" and "(\<exists>l. r = Line l) \<or> r = Interrupted"
  shows "length rest < length is"
proof (cases "is")
  case (Cons i js)
  have le: "length (snd (snd (recv_line z start t b js))) \<le> length js" for b by (rule recv_line_le)
  have "\<not> ri_stop i" "\<not> (0 < t \<and> ri_now i - start > int (unat t) * 1000000)" using assms Cons by (auto split: if_splits)
  then have "length (snd (snd (recv_line z start t buf (i # js)))) \<le> length js"
    using assms(2) le by (simp add: split_beta split: rc_recv.split)
  then show ?thesis using assms(1) Cons by simp
qed (use assms in auto)

section \<open>The session\<close>

function session_loop :: "u32 \<Rightarrow> rc_exec \<Rightarrow> 'h rc_server \<Rightarrow> rc_reading list \<Rightarrow> rc_out list \<times> 'h rc_server" where
  "session_loop t exec s is =
     (if is = [] \<or> ri_stop (hd is) then ([], s)
      else (case recv_line RC_MAX_LINE_LEN (clock_of is) t [] is of (r, sent, rest) \<Rightarrow>
        let out = map Sent sent in
        case r of
          Timed_out \<Rightarrow> (out @ [Sent (CRLF @ ''Session timeout.'' @ CRLF)], s)
        | Interrupted \<Rightarrow> (case session_loop t exec s rest of (out', s) \<Rightarrow> (out @ [Sent (''^C'' @ CRLF), Sent RC_PROMPT] @ out', s))
        | Ended \<Rightarrow> (out, s)
        | Starved \<Rightarrow> (out, s)
        | Line l \<Rightarrow>
            if l = [] then (case session_loop t exec s rest of (out', s) \<Rightarrow> (out @ Sent RC_PROMPT # out', s))
            else if l = ''quit'' \<or> l = ''exit'' then (out @ [Sent RC_GOODBYE], s)
            else (case run_command exec l s of (shown, s) \<Rightarrow>
                    case session_loop t exec s rest of (out', s) \<Rightarrow> (out @ shown @ Sent RC_PROMPT # out', s))))"
  by pat_completeness auto
termination
proof (relation "measure (\<lambda>(t, exec, s, is). length is)")
qed (auto simp: RC_MAX_LINE_LEN_def dest!: sym [of "(_, _)" "recv_line _ _ _ _ _"] recv_line_less)

definition handle_session :: "u32 \<Rightarrow> rc_exec \<Rightarrow> 'h rc_server \<Rightarrow> rc_reading list \<Rightarrow> rc_out list \<times> 'h rc_server" where
  "handle_session t exec s is = (case session_loop t exec s is of (out, s) \<Rightarrow> (Sent RC_PROMPT # out, s))"

text \<open>A connection as it is accepted: the addresses of both ends and of the interfaces, in network order.\<close>

record rc_connection =
  cn_client :: u32
  cn_local :: u32
  cn_ap_ip :: u32
  cn_sta_ip :: u32
  cn_mutex_free :: bool
  cn_readings :: "rc_reading list"

definition from_tailnet :: "u32 \<Rightarrow> bool" where
  "from_tailnet ip \<longleftrightarrow> htonl ip AND 0xFFC00000 = 0x64400000"

definition bind_has :: "u8 \<Rightarrow> u8 \<Rightarrow> bool" where "bind_has b f \<longleftrightarrow> b AND f \<noteq> 0"

definition admitted :: "u8 \<Rightarrow> rc_connection \<Rightarrow> bool" where
  "admitted b cn \<longleftrightarrow>
     \<not> (from_tailnet (cn_client cn) \<and> \<not> bind_has b RC_BIND_VPN) \<and>
     (bind_has b RC_BIND_AP \<and> cn_ap_ip cn \<noteq> 0 \<and> cn_local cn = cn_ap_ip cn \<or>
      bind_has b RC_BIND_STA \<and> cn_sta_ip cn \<noteq> 0 \<and> cn_local cn = cn_sta_ip cn \<or>
      bind_has b RC_BIND_VPN \<and> from_tailnet (cn_client cn))"

text \<open>One turn of the accept loop.\<close>

definition serve_connection ::
  "crypto \<Rightarrow> 'h nvs_raw \<Rightarrow> rc_exec \<Rightarrow> rc_config \<Rightarrow> rc_connection \<Rightarrow> 'h rc_server \<Rightarrow> rc_out list \<times> 'h rc_server" where
  "serve_connection c api exec cfg cn s =
     (if \<not> admitted (rc_bind cfg) cn then ([], s)
      else (let s = s\<lparr>rv_total := rv_total s + 1\<rparr> in
        if \<not> cn_mutex_free cn then ([Sent RC_BUSY], s)
        else (case authenticate_client c api s (cn_readings cn) of (ok, out, s, is) \<Rightarrow>
          if ok then (case handle_session (rc_timeout cfg) exec s is of (out', s) \<Rightarrow> (Sent RC_BANNER # out @ out', s))
          else (Sent RC_BANNER # out, s))))"

section \<open>Output arrives whole\<close>

text \<open>What a terminal wants: every line feed without a carriage return before it gets one.\<close>

fun to_crlf :: "bool \<Rightarrow> string \<Rightarrow> string" where
  "to_crlf prev_cr [] = []"
| "to_crlf prev_cr (ch # cs) = (if ch = CHR 0x0A \<and> \<not> prev_cr then [CHR 0x0D, ch] else [ch]) @ to_crlf (ch = CHR 0x0D) cs"

lemma crlf_loop_whole:
  "length net < 510 \<Longrightarrow> concat (crlf_loop p net s) = net @ to_crlf p s \<and> (\<forall>b\<in>set (crlf_loop p net s). b \<noteq> [] \<and> length b \<le> 511)"
proof (induction s arbitrary: p net)
  case (Cons ch cs)
  let ?net = "net @ (if ch = CHR 0x0A \<and> \<not> p then [CHR 0x0D, ch] else [ch])"
  have e: "crlf_loop p net (ch # cs) = (if 510 \<le> length ?net then ?net # crlf_loop (ch = CHR 0x0D) [] cs else crlf_loop (ch = CHR 0x0D) ?net cs)"
    using Cons.prems by (auto simp: Let_def)
  show ?case
  proof (cases "510 \<le> length ?net")
    case True
    then show ?thesis using Cons.IH [of "[]" "ch = CHR 0x0D"] Cons.prems unfolding e by auto
  next
    case False
    then show ?thesis using Cons.IH [of ?net "ch = CHR 0x0D"] unfolding e by simp
  qed
qed simp

text \<open>
  What a command printed reaches the peer whole: the sends are, put together, the captured text
  with every bare line feed turned into a carriage return and a line feed, however the text falls on
  the buffer of 512 bytes, and no send is empty or larger than the buffer.
\<close>

theorem crlf_output_whole:
  "concat (send_to_client_crlf data) = to_crlf False data \<and> (\<forall>b\<in>set (send_to_client_crlf data). b \<noteq> [] \<and> length b \<le> 512)"
  using crlf_loop_whole [of "[]" False data] by (fastforce simp: send_to_client_crlf_def)

lemma rc_capture_add_take:
  "length buf < RC_CAPTURE_BUF_SIZE \<Longrightarrow> rc_capture_add data buf = take (RC_CAPTURE_BUF_SIZE - 1) (buf @ data)"
  by (auto simp: rc_capture_add_def RC_CAPTURE_BUF_SIZE_def)

section \<open>Who gets to run a command\<close>

text \<open>The lines that a peer types at the password prompt, at most \<open>n\<close> of them.\<close>

fun typed_lines :: "nat \<Rightarrow> rc_reading list \<Rightarrow> string list" where
  "typed_lines 0 is = []"
| "typed_lines (Suc m) is = (case recv_line 64 (clock_of is) 60 [] is of (Line p, sent, rest) \<Rightarrow> p # typed_lines m rest | _ \<Rightarrow> [])"

lemma auth_attempts_sound:
  assumes "crypto_ok c" and "pw_holds c api salt key (rv_pw s)" and "auth_attempts c api n s is = (ok, out, s', rest)"
  shows "pw_holds c api salt key (rv_pw s') \<and> (\<forall>l. Ran l \<notin> set out) \<and> (ok \<longrightarrow> (\<exists>q\<in>set (typed_lines n is). pw_accepts c salt key q)) \<and>
    ((\<exists>q\<in>set (typed_lines n is). compute_pbkdf2 c salt q PW_PBKDF2_ITERS = Some key) \<longrightarrow> ok) \<and>
    (Waited RC_AUTH_DELAY_MS \<in> set out \<longrightarrow> length (typed_lines n is) = n)"
  using assms(2,3)
proof (induction n arbitrary: s "is" ok out s' rest)
  case (Suc m)
  obtain r sent is1 where r: "recv_line 64 (clock_of is) 60 [] is = (r, sent, is1)" by (metis prod_cases3)
  show ?case
  proof (cases "\<exists>p. r = Line p")
    case True
    then obtain p where p: "r = Line p" by blast
    obtain ok1 pw where v: "verify_web_password c api (Some p) (rv_pw s) = (ok1, pw)" by (metis surj_pair)
    note h = verify_holds [OF assms(1) Suc.prems(1) v]
    show ?thesis
    proof (cases ok1)
      case True
      then show ?thesis using h v r p Suc.prems(2) by (auto simp: Let_def)
    next
      case False
      let ?s = "s\<lparr>rv_pw := pw, rv_failed := rv_failed s + 1\<rparr>"
      obtain r' out' s2 is2 where a: "auth_attempts c api m ?s is1 = (r', out', s2, is2)" by (metis prod_cases4)
      then have "ok = r'" "s' = s2" "out = Sent RC_AUTH_PROMPT # map Sent sent @ [Sent RC_AUTH_FAIL] @ (if 0 < m then [Sent CRLF] else []) @ out'"
        using Suc.prems(2) r p v False by (simp_all add: Let_def)
      then show ?thesis using Suc.IH [OF _ a] h False r p by auto
    qed
  next
    case False
    then have "(ok, out, s', rest) = (False, Sent RC_AUTH_PROMPT # map Sent sent, s, is1)" using Suc.prems(2) r by (cases r) auto
    moreover have "typed_lines (Suc m) is = []" using False r by (cases r) auto
    ultimately show ?thesis using Suc.prems(1) by auto
  qed
qed auto

lemma serve_cases:
  assumes "serve_connection c api exec cfg cn s = (out, s')" and "Ran l \<in> set out"
  shows "admitted (rc_bind cfg) cn \<and> cn_mutex_free cn \<and> is_web_password_set api (rv_pw s) \<and>
    (\<exists>out1 s1 is1. auth_attempts c api RC_MAX_AUTH_ATTEMPTS (s\<lparr>rv_total := rv_total s + 1\<rparr>) (cn_readings cn) = (True, out1, s1, is1) \<or>
       (\<exists>ok. auth_attempts c api RC_MAX_AUTH_ATTEMPTS (s\<lparr>rv_total := rv_total s + 1\<rparr>) (cn_readings cn) = (ok, out1, s1, is1) \<and> Ran l \<in> set out1))"
  using assms by (auto simp: serve_connection_def authenticate_client_def Let_def split: if_splits prod.splits)

text \<open>
  C21: The console is never anonymous: once a password was set, after any number of right and wrong
  attempts, a connection that makes the device run a command came in over an interface that the
  settings allow, and one of its first three lines was the password, or one that the cache's hash does
  not tell from it.
\<close>

theorem console_commands_authorised:
  assumes "crypto_ok c" and "np_lawful api" and "set_web_password_hashed c api (Some p) st0 = (ESP_OK, st1)" and "p \<noteq> []"
    and "rv_pw s = verify_all c api qs st1" and "serve_connection c api exec cfg cn s = (out, s')"
  shows "\<exists>salt key. compute_pbkdf2 c salt p PW_PBKDF2_ITERS = Some key \<and>
    {l. Ran l \<in> set out} \<subseteq> {l. admitted (rc_bind cfg) cn \<and> cn_mutex_free cn \<and>
      (\<exists>q\<in>set (typed_lines 3 (cn_readings cn)). pw_accepts c salt key q)}"
proof -
  obtain salt key where k: "compute_pbkdf2 c salt p PW_PBKDF2_ITERS = Some key" "pw_holds c api salt key st1"
    using set_holds [OF assms(1-4)] by blast
  let ?s = "s\<lparr>rv_total := rv_total s + 1\<rparr>"
  have h: "pw_holds c api salt key (rv_pw ?s)" using verify_all_holds [OF assms(1) k(2)] assms(5) by simp
  have "admitted (rc_bind cfg) cn \<and> cn_mutex_free cn \<and> (\<exists>q\<in>set (typed_lines 3 (cn_readings cn)). pw_accepts c salt key q)"
    if "Ran l \<in> set out" for l
    using serve_cases [OF assms(6) that] auth_attempts_sound [OF assms(1) h] unfolding RC_MAX_AUTH_ATTEMPTS_def by metis
  then show ?thesis using k(1) by blast
qed

lemma console_locked: "\<not> is_web_password_set api (rv_pw s) \<Longrightarrow> Ran l \<notin> set (fst (serve_connection c api exec cfg cn s))"
  using serve_cases [of c api exec cfg cn s "fst (serve_connection c api exec cfg cn s)" "snd (serve_connection c api exec cfg cn s)" l] by auto

section \<open>The settings\<close>

definition bind_ok :: "u8 \<Rightarrow> bool" where "bind_ok b \<longleftrightarrow> b \<in> {1, 2, 3, 4, 5, 6, 7}"

lemma bind_of_stored_id: "bind_ok b \<Longrightarrow> bind_of_stored b = b"
  by (auto simp: bind_ok_def bind_of_stored_def rc_bind_bits)

lemma rc_config_survives:
  assumes "nt_lawful api" and "nt_healthy api" and "bind_ok (rc_bind cfg)"
  shows "rc_load_config api (rc_save_config api cfg h) old = cfg"
proof -
  have same: "nt_get api (snd (nt_set api u k v)) (nv_ty v) k = Some v" for u k v by (rule nt_set_same [OF assms(1) nt_healthyD(4) [OF assms(2)]])
  have keys: "''rc_enabled'' \<noteq> ''rc_port''" "''rc_enabled'' \<noteq> ''rc_bind''" "''rc_enabled'' \<noteq> ''rc_timeout''" "''rc_port'' \<noteq> ''rc_bind''"
    "''rc_port'' \<noteq> ''rc_timeout''" "''rc_bind'' \<noteq> ''rc_timeout''" by simp_all
  have c: "nt_get api (snd (nt_commit api u)) = nt_get api u" for u using nt_commit_get [OF assms(1) nt_healthyD(3) [OF assms(2)]] by simp
  have s8: "nt_get api (snd (nt_set api u k (V8 v))) T8 k = Some (V8 v)" "nt_get api (snd (nt_set api u k (V16 w))) T16 k = Some (V16 w)"
    "nt_get api (snd (nt_set api u k (V32 x))) T32 k = Some (V32 x)" for u k v w x
    using same [of u k "V8 v"] same [of u k "V16 w"] same [of u k "V32 x"] by simp_all
  show ?thesis
    by (simp add: rc_load_config_def rc_save_config_def nt_healthyD [OF assms(2)] Let_def nt_getters c s8 nt_set_other [OF assms(1)] bind_of_stored_id [OF assms(3)])
qed

section \<open>What the console does not promise\<close>

text \<open>The readings of a peer that types without pause.\<close>

definition typed :: "string \<Rightarrow> rc_reading list" where
  "typed = map (\<lambda>ch. \<lparr>ri_stop = False, ri_now = 0, ri_recv = Got ch\<rparr>)"

definition plain :: "string \<Rightarrow> bool" where
  "plain s \<longleftrightarrow> (\<forall>ch\<in>set s. (0x20 :: nat) \<le> of_char ch \<and> (of_char ch :: nat) < 0x7F)"

lemma plain_char: "(0x20 :: nat) \<le> of_char ch \<Longrightarrow> (of_char ch :: nat) < 0x7F \<Longrightarrow> ch \<notin> {CHR 0x0D, CHR 0x0A, CHR 0x08, CHR 0x7F, CHR 0x03, CHR 0x04}"
  by auto

lemma recv_line_full:
  "plain s \<Longrightarrow> z - 1 \<le> length buf + length s \<Longrightarrow>
   recv_line z 0 t buf (typed s @ js) = (Line (buf @ take (z - 1 - length buf) s), [], typed (drop (z - 1 - length buf) s) @ js)"
proof (induction s arbitrary: buf)
  case Nil
  then show ?case by (cases js) (auto simp: typed_def)
next
  case (Cons ch s)
  have ch: "(0x20 :: nat) \<le> of_char ch" "(of_char ch :: nat) < 0x7F" "plain s" using Cons.prems(1) by (simp_all add: plain_def)
  show ?case
  proof (cases "length buf < z - 1")
    case True
    have "recv_line z 0 t buf (typed (ch # s) @ js) = recv_line z 0 t (buf @ [ch]) (typed s @ js)"
      using True ch plain_char [OF ch(1,2)] by (simp add: typed_def)
    moreover obtain n where "z - 1 - length buf = Suc n" using True by (metis Suc_diff_Suc)
    moreover have "z - 1 - length (buf @ [ch]) = n" using \<open>z - 1 - length buf = Suc n\<close> by simp
    ultimately show ?thesis using Cons.IH [OF ch(3), of "buf @ [ch]"] Cons.prems(2) by simp
  qed (simp add: typed_def)
qed

text \<open>A command of more than 255 characters is not refused: its rest is the next command.\<close>

lemma long_line_splits:
  assumes "plain s" and "length s = 255"
  shows "recv_line RC_MAX_LINE_LEN 0 t [] (typed (s @ ''reset'' @ [CHR 0x0A])) = (Line s, [], typed (''reset'' @ [CHR 0x0A])) \<and>
    fst (recv_line RC_MAX_LINE_LEN 0 t [] (typed (''reset'' @ [CHR 0x0A]))) = Line ''reset''"
  using recv_line_full [OF assms(1), of RC_MAX_LINE_LEN "[]" t "typed (''reset'' @ [CHR 0x0A])"] assms(2)
  by (simp add: RC_MAX_LINE_LEN_def typed_def)

text \<open>A password of more than 63 characters, which the web interface takes, is never the line that is checked.\<close>

lemma long_password_cut:
  assumes "plain q" and "63 < length q"
  shows "hd (typed_lines 3 (typed (q @ [CHR 0x0A]))) = take 63 q \<and> take 63 q \<noteq> q"
proof -
  have "recv_line 64 0 60 [] (typed (q @ [CHR 0x0A])) = (Line (take 63 q), [], typed (drop 63 q @ [CHR 0x0A]))"
    using recv_line_full [OF assms(1), of 64 "[]" 60 "typed [CHR 0x0A]"] assms(2) by (simp add: typed_def)
  moreover have "clock_of (typed (q @ [CHR 0x0A])) = 0" by (cases q) (simp_all add: clock_of_def typed_def)
  ultimately show ?thesis using assms(2) by (auto simp: numeral_3_eq_3 dest: arg_cong [of _ _ length])
qed

text \<open>The delay comes behind the third wrong line only: who hangs up before it is never slowed down.\<close>

lemma delay_needs_three_lines:
  "auth_attempts c api n s is = (ok, out, s', rest) \<Longrightarrow> Waited d \<in> set out \<Longrightarrow> length (typed_lines n is) = n"
  by (induction n arbitrary: s "is" ok out s' rest) (auto simp: Let_def split: prod.splits line_result.splits if_splits)

text \<open>A neighbour on an uplink whose provider uses 100.64.0.0/10 counts as a peer of the tailnet.\<close>

lemma cgnat_neighbour_admitted:
  assumes "from_tailnet (cn_client cn)"
  shows "admitted RC_BIND_VPN cn"
  using assms by (simp add: admitted_def bind_has_def rc_bind_bits)

text \<open>Disabling clears the handle whether or not the task has ended; enabling then starts a second one.\<close>

lemma two_console_tasks:
  assumes "rc_enabled (rt_cfg s)" and "rt_handle s" and "rt_tasks s = 1"
  shows "let s2 = snd (remote_console_enable api True (snd (remote_console_disable api False s))) in rt_tasks s2 = 2 \<and> \<not> rt_shutdown s2"
  using assms by (simp add: remote_console_enable_def remote_console_disable_def rc_saved_def Let_def)

text \<open>A mask without a known bit leaves no interface, and after a restart it is read as two of them.\<close>

lemma unknown_bind_opens_two:
  "rc_bind (rt_cfg (snd (remote_console_set_bind api 8 s))) = 0 \<and> bind_of_stored 0 = RC_BIND_AP OR RC_BIND_STA"
  by (simp add: remote_console_set_bind_def rc_saved_def bind_of_stored_def rc_bind_bits)

section \<open>A concrete connection\<close>

definition demo_server :: "map_params rc_server" where
  "demo_server = \<lparr>rv_pw = verify_all demo_crypto map_params [''old1''] (demo_set ''new1''), rv_total = 0, rv_failed = 0, rv_commands = 0\<rparr>"

definition demo_exec :: rc_exec where "demo_exec k l = (ESP_OK, ''ESP_OK'', [Puts l])"

definition demo_connection :: "string \<Rightarrow> rc_connection" where
  "demo_connection s = \<lparr>cn_client = 0x0204A8C0, cn_local = 0x0104A8C0, cn_ap_ip = 0x0104A8C0, cn_sta_ip = 0, cn_mutex_free = True,
     cn_readings = typed s\<rparr>"

lemma console_commands_authorised_witness:
  "\<exists>salt key. compute_pbkdf2 demo_crypto salt ''new1'' PW_PBKDF2_ITERS = Some key \<and>
     {l. Ran l \<in> set (fst (serve_connection demo_crypto map_params demo_exec rc_default (demo_connection (''new1'' @ [CHR 0x0A] @ ''help'' @ [CHR 0x0A])) demo_server))}
     \<subseteq> {l. admitted (rc_bind rc_default) (demo_connection (''new1'' @ [CHR 0x0A] @ ''help'' @ [CHR 0x0A])) \<and>
         cn_mutex_free (demo_connection (''new1'' @ [CHR 0x0A] @ ''help'' @ [CHR 0x0A])) \<and>
         (\<exists>q\<in>set (typed_lines 3 (cn_readings (demo_connection (''new1'' @ [CHR 0x0A] @ ''help'' @ [CHR 0x0A])))). pw_accepts demo_crypto salt key q)}"
  by (rule console_commands_authorised [OF demo_crypto_ok map_params_lawful demo_set_ok [of "''new1''"], of demo_server "[''old1'']" demo_exec rc_default
        "demo_connection (''new1'' @ [CHR 0x0A] @ ''help'' @ [CHR 0x0A])" _ "snd (serve_connection demo_crypto map_params demo_exec rc_default
          (demo_connection (''new1'' @ [CHR 0x0A] @ ''help'' @ [CHR 0x0A])) demo_server)"])
     (simp_all add: demo_server_def)

end
