(* ===== verification/Sd_Log.thy ===== *)
theory Sd_Log
  imports Nvs_Typed C_Scan "HOL-Library.Sublist"
begin

text \<open>
  The flight recorder (\<open>components/sdlog/sdlog.c\<close>): the print hook that collects log lines and queues
  them, the writer that appends them to a rotating set of files on the card, and the calls that list,
  read and erase these files.

  The log directory is a list of files; of each file the model has what was written and what a power
  cut leaves (what was there at the last \<open>fsync\<close>).  Whether a call of the card succeeds is a parameter.
\<close>

section \<open>Levels and texts\<close>

definition SDLOG_LVL_OFF :: u8 where "SDLOG_LVL_OFF = 0"
definition SDLOG_LVL_ERROR :: u8 where "SDLOG_LVL_ERROR = 1"
definition SDLOG_LVL_WARN :: u8 where "SDLOG_LVL_WARN = 2"
definition SDLOG_LVL_INFO :: u8 where "SDLOG_LVL_INFO = 3"

lemmas sdlog_levels = SDLOG_LVL_OFF_def SDLOG_LVL_ERROR_def SDLOG_LVL_WARN_def SDLOG_LVL_INFO_def

definition SDLOG_NAME_MAX :: nat where "SDLOG_NAME_MAX = 16"
definition SDLOG_LINE_MAX :: nat where "SDLOG_LINE_MAX = 256"
definition SDLOG_QUEUE_DEPTH :: nat where "SDLOG_QUEUE_DEPTH = 32"
definition SDLOG_FILE_MAX_BYTES :: u32 where "SDLOG_FILE_MAX_BYTES = 1048576"
definition SDLOG_DEFAULT_MAXFILES :: u16 where "SDLOG_DEFAULT_MAXFILES = 128"

abbreviation ESC :: char where "ESC \<equiv> CHR 0x1B"

text \<open>The text behind a colour sequence.\<close>

definition skip_sgr :: "string \<Rightarrow> string" where
  "skip_sgr s = (case dropWhile (\<lambda>ch. ch \<noteq> CHR ''m'') s of [] \<Rightarrow> [] | m # r \<Rightarrow> r)"

text \<open>The level letter of a line, if it has one, and the line behind its colour.\<close>

definition extract_level :: "string \<Rightarrow> char option \<times> string" where
  "extract_level msg =
     (let p = (case msg of a # b # r \<Rightarrow> if a = ESC \<and> b = CHR ''['' then skip_sgr r else msg | _ \<Rightarrow> msg)
      in (case p of a # b # r \<Rightarrow> if b = CHR '' '' \<or> b = CHR ''('' then Some a else None | _ \<Rightarrow> None, p))"

definition level_passes :: "char option \<Rightarrow> u8 \<Rightarrow> bool" where
  "level_passes lv thr =
     (if thr = SDLOG_LVL_OFF then False
      else if lv = Some (CHR ''E'') then SDLOG_LVL_ERROR \<le> thr
      else if lv = Some (CHR ''W'') then SDLOG_LVL_WARN \<le> thr
      else if lv = Some (CHR ''I'') then SDLOG_LVL_INFO \<le> thr
      else \<not> (lv = Some (CHR ''D'') \<or> lv = Some (CHR ''V'')))"

lemma skip_sgr_length: "length (skip_sgr s) \<le> length s"
  using length_dropWhile_le [of "\<lambda>ch. ch \<noteq> CHR ''m''" s] by (auto simp: skip_sgr_def split: list.split)

text \<open>The copy without colours, at most \<open>z\<close> characters of it, and then without trailing line ends.\<close>

function sd_strip_loop :: "nat \<Rightarrow> string \<Rightarrow> string" where
  "sd_strip_loop z s =
     (if z = 0 then []
      else case s of [] \<Rightarrow> []
      | ch # r \<Rightarrow> if ch = ESC then (case r of b # r' \<Rightarrow> if b = CHR ''['' then sd_strip_loop z (skip_sgr r') else sd_strip_loop z r | [] \<Rightarrow> [])
          else ch # sd_strip_loop (z - 1) r)"
  by pat_completeness auto

termination
  by (relation "measure (\<lambda>(z, s). length s)") (auto simp: less_Suc_eq_le skip_sgr_length le_SucI)

declare sd_strip_loop.simps [simp del]

definition drop_ends :: "string \<Rightarrow> string" where
  "drop_ends s = rev (dropWhile (\<lambda>ch. ch = CHR 0x0A \<or> ch = CHR 0x0D) (rev s))"

definition sd_strip_ansi :: "nat \<Rightarrow> string \<Rightarrow> string" where
  "sd_strip_ansi z s = drop_ends (sd_strip_loop (z - 1) s)"

section \<open>State\<close>

text \<open>A file: its name, what was written to it, and what a power cut leaves of it.\<close>

record sd_file =
  sf_name :: string
  sf_data :: string
  sf_safe :: string

datatype sd_msg = Log_line string | Flush_marker | Poison

text \<open>The variables of the writer task; times in microseconds.\<close>

record sd_writer =
  wr_last_fsync :: int
  wr_last_snap :: int
  wr_dirty :: bool

record 'h sd_log =
  sd_flash :: 'h
  sd_present :: bool
  sd_enabled :: bool
  sd_sd_level :: u8
  sd_console_level :: u8
  sd_max_files :: u16
  sd_next_seq :: u32
  sd_boot :: u32
  sd_files :: "sd_file list"
  sd_fp :: "string option"
  sd_cur_bytes :: u32
  sd_written :: u64
  sd_cur_name :: string
  sd_queue :: "sd_msg list option"
  sd_dropped :: u32
  sd_rawbuf :: "string option"
  sd_task :: "sd_writer option"
  sd_flushed :: nat
  sd_con_emit :: bool
  sd_con_start :: bool

text \<open>The statics at a start; the card keeps what was safe.\<close>

definition sd_power_up :: "'h \<Rightarrow> sd_file list \<Rightarrow> 'h sd_log" where
  "sd_power_up h fs = \<lparr>sd_flash = h, sd_present = False, sd_enabled = False, sd_sd_level = SDLOG_LVL_WARN, sd_console_level = SDLOG_LVL_WARN,
     sd_max_files = SDLOG_DEFAULT_MAXFILES, sd_next_seq = 1, sd_boot = 0, sd_files = map (\<lambda>f. f\<lparr>sf_data := sf_safe f\<rparr>) fs,
     sd_fp = None, sd_cur_bytes = 0, sd_written = 0, sd_cur_name = [], sd_queue = None, sd_dropped = 0, sd_rawbuf = None, sd_task = None, sd_flushed = 0, sd_con_emit = True, sd_con_start = True\<rparr>"

text \<open>The card: which names can be opened and removed, how much of a write it takes, and what the header lines say.\<close>

record sd_card =
  cd_fopen :: "string \<Rightarrow> bool"
  cd_unlink :: "string \<Rightarrow> bool"
  cd_takes :: "string \<Rightarrow> nat"
  cd_reason :: nat
  cd_idf :: string
  cd_fw :: string
  cd_heap :: u32
  cd_heap_min :: u32
  cd_uptime :: nat

section \<open>Settings\<close>

definition or_default :: "'a option \<Rightarrow> 'a \<Rightarrow> 'a" where "or_default x d = (case x of Some v \<Rightarrow> v | None \<Rightarrow> d)"

definition sd_load_config :: "('h, 'b) nvs_typed \<Rightarrow> 'h sd_log \<Rightarrow> 'h sd_log" where
  "sd_load_config api s =
     (let h = sd_flash s in
      if nt_open_ro api h \<noteq> ESP_OK then s
      else (let cl = or_default (get_u8 api h ''sdlog_con'') SDLOG_LVL_WARN;
                sl = or_default (get_u8 api h ''sdlog_sdl'') SDLOG_LVL_WARN;
                seq = or_default (get_u32 api h ''sdlog_seq'') (sd_next_seq s)
            in s\<lparr>sd_enabled := (or_default (get_u8 api h ''sdlog_en'') 0 \<noteq> 0),
                 sd_console_level := (if cl \<le> SDLOG_LVL_INFO then cl else SDLOG_LVL_WARN),
                 sd_sd_level := (if SDLOG_LVL_ERROR \<le> sl \<and> sl \<le> SDLOG_LVL_INFO then sl else SDLOG_LVL_WARN),
                 sd_max_files := (case get_u16 api h ''sdlog_maxmb'' of Some m \<Rightarrow> if 0 < m then m else sd_max_files s | None \<Rightarrow> sd_max_files s),
                 sd_next_seq := (if seq = 0 then 1 else seq)\<rparr>))"

text \<open>The level from which a line is formatted at all.\<close>

definition master_level :: "'h sd_log \<Rightarrow> u8" where
  "master_level s = (let sd = (if sd_enabled s then sd_sd_level s else SDLOG_LVL_OFF) in if sd < sd_console_level s then sd_console_level s else sd)"

definition sd_save :: "('h, 'b) nvs_typed \<Rightarrow> string \<Rightarrow> 'b nv \<Rightarrow> 'h sd_log \<Rightarrow> 'h sd_log" where
  "sd_save api k v s =
     (if nt_open_rw api (sd_flash s) \<noteq> ESP_OK then s
      else s\<lparr>sd_flash := snd (nt_commit api (snd (nt_set api (sd_flash s) k v)))\<rparr>)"

definition bump_boot_counter :: "('h, 'b) nvs_typed \<Rightarrow> 'h sd_log \<Rightarrow> 'h sd_log" where
  "bump_boot_counter api s =
     (if nt_open_rw api (sd_flash s) \<noteq> ESP_OK then s\<lparr>sd_boot := 0\<rparr>
      else (let b = or_default (get_u32 api (sd_flash s) ''sdlog_boot'') 0 + 1 in sd_save api ''sdlog_boot'' (V32 b) (s\<lparr>sd_boot := b\<rparr>)))"

section \<open>Files\<close>

definition to_lower :: "char \<Rightarrow> nat" where
  "to_lower ch = (let n = of_char ch in if 65 \<le> n \<and> n \<le> 90 then n + 32 else n)"

text \<open>\<open>strcasecmp a b < 0\<close>.\<close>

fun case_less :: "string \<Rightarrow> string \<Rightarrow> bool" where
  "case_less [] b = (b \<noteq> [])"
| "case_less (x # a) [] = False"
| "case_less (x # a) (y # b) = (if to_lower x = to_lower y then case_less a b else to_lower x < to_lower y)"

text \<open>The text from the last dot on.\<close>

fun last_dot :: "string \<Rightarrow> string option" where
  "last_dot [] = None"
| "last_dot (ch # s) = (case last_dot s of Some r \<Rightarrow> Some r | None \<Rightarrow> if ch = CHR ''.'' then Some (ch # s) else None)"

definition is_log :: "sd_file \<Rightarrow> bool" where
  "is_log f \<longleftrightarrow> (case last_dot (sf_name f) of None \<Rightarrow> False | Some r \<Rightarrow> strcaseeq r ''.LOG'')"

text \<open>The scan for the oldest: the first of the least names.\<close>

definition older :: "string option \<Rightarrow> sd_file \<Rightarrow> string option" where
  "older o1 f = (case o1 of None \<Rightarrow> Some (sf_name f) | Some n \<Rightarrow> if case_less (sf_name f) n then Some (sf_name f) else Some n)"

definition oldest_log :: "sd_file list \<Rightarrow> string option" where
  "oldest_log fs = foldl older None (filter is_log fs)"

text \<open>The result of \<open>unlink\<close> is not looked at: where it fails, the loop does not end, which is \<open>None\<close>.\<close>

partial_function (option) prune_old_files :: "sd_card \<Rightarrow> nat \<Rightarrow> sd_file list \<Rightarrow> sd_file list option" where
  "prune_old_files cd m fs =
     (if length (filter is_log fs) \<le> m then Some fs
      else case oldest_log fs of None \<Rightarrow> Some fs
      | Some o1 \<Rightarrow> prune_old_files cd m (if cd_unlink cd o1 then filter (\<lambda>f. sf_name f \<noteq> o1) fs else fs))"

declare prune_old_files.simps [code]

definition fsync_active :: "'h sd_log \<Rightarrow> 'h sd_log" where
  "fsync_active s = s\<lparr>sd_files := map (\<lambda>f. if sd_fp s = Some (sf_name f) then f\<lparr>sf_safe := sf_data f\<rparr> else f) (sd_files s)\<rparr>"

definition file_put :: "sd_card \<Rightarrow> string \<Rightarrow> 'h sd_log \<Rightarrow> 'h sd_log" where
  "file_put cd t s =
     s\<lparr>sd_files := map (\<lambda>f. if sd_fp s = Some (sf_name f) then f\<lparr>sf_data := sf_data f @ take (cd_takes cd t) t\<rparr> else f) (sd_files s)\<rparr>"

definition add_bytes :: "nat \<Rightarrow> 'h sd_log \<Rightarrow> 'h sd_log" where
  "add_bytes n s = s\<lparr>sd_cur_bytes := sd_cur_bytes s + of_nat n, sd_written := sd_written s + of_nat n\<rparr>"

definition file_append :: "sd_card \<Rightarrow> string \<Rightarrow> 'h sd_log \<Rightarrow> 'h sd_log" where
  "file_append cd t s = add_bytes (min (cd_takes cd t) (length t)) (file_put cd t s)"

definition pad8 :: "nat \<Rightarrow> string" where
  "pad8 n = replicate (8 - length (dec n)) (CHR ''0'') @ dec n"

definition log_name :: "u32 \<Rightarrow> string" where
  "log_name n = pad8 (unat n) @ ''.LOG''"

text \<open>\<open>fopen\<close> with \<open>w\<close>: the file is there and empty.\<close>

definition file_create :: "string \<Rightarrow> sd_file list \<Rightarrow> sd_file list" where
  "file_create n fs = filter (\<lambda>f. sf_name f \<noteq> n) fs @ [\<lparr>sf_name = n, sf_data = [], sf_safe = []\<rparr>]"

text \<open>The header lines; the buffer has 160 bytes.\<close>

definition boot_text :: "sd_card \<Rightarrow> u32 \<Rightarrow> string" where
  "boot_text cd b =
     ''==== BOOT #'' @ dec (unat b) @ '' reason='' @ dec (cd_reason cd) @ '' idf='' @ cd_idf cd @ '' fw='' @ cd_fw cd
     @ '' heap='' @ dec (unat (cd_heap cd)) @ ''/'' @ dec (unat (cd_heap_min cd)) @ '' ===='' @ [CHR 0x0A]"

definition rotate_text :: "u32 \<Rightarrow> nat \<Rightarrow> string" where
  "rotate_text q up = ''==== ROTATE seq='' @ dec (unat q) @ '' uptime='' @ dec up @ ''s ===='' @ [CHR 0x0A]"

text \<open>The header counts with its full length, whatever the card took of it.\<close>

definition write_header :: "sd_card \<Rightarrow> bool \<Rightarrow> 'h sd_log \<Rightarrow> 'h sd_log" where
  "write_header cd boot s =
     (let t = (if boot then boot_text cd (sd_boot s) else rotate_text (sd_next_seq s - 1) (cd_uptime cd))
      in add_bytes (length t) (file_put cd t s))"

definition open_new_file :: "('h, 'b) nvs_typed \<Rightarrow> sd_card \<Rightarrow> bool \<Rightarrow> 'h sd_log \<Rightarrow> (esp_err \<times> 'h sd_log) option" where
  "open_new_file api cd boot s =
     (let s = (if sd_fp s \<noteq> None then (fsync_active s)\<lparr>sd_fp := None\<rparr> else s);
          n = log_name (sd_next_seq s) in
      if \<not> cd_fopen cd n then Some (ESP_FAIL, s)
      else (let s = s\<lparr>sd_files := file_create n (sd_files s), sd_fp := Some n, sd_cur_name := n, sd_cur_bytes := 0, sd_next_seq := sd_next_seq s + 1\<rparr>;
                s = fsync_active (write_header cd boot (sd_save api ''sdlog_seq'' (V32 (sd_next_seq s)) s))
            in map_option (\<lambda>fs. (ESP_OK, s\<lparr>sd_files := fs\<rparr>)) (prune_old_files cd (unat (sd_max_files s)) (sd_files s))))"

section \<open>The writer\<close>

text \<open>What a turn of the writer reads; a task state outside 0..4 and -1 prints as a question mark.\<close>

record sd_health =
  sh_free :: u32
  sh_min :: u32
  sh_spi :: u32
  sh_dram :: u32
  sh_dram_min :: u32
  sh_tasks :: "(int \<times> int \<times> int \<times> int) option"
  sh_diag :: "(int \<times> nat \<times> nat) option"

record sd_reading =
  sr_now :: int
  sr_heartbeat_ms :: int
  sr_control_ms :: int
  sr_health :: sd_health

definition task_state_char :: "int \<Rightarrow> char" where
  "task_state_char st =
     (if st = 0 then CHR ''R'' else if st = 1 then CHR ''r'' else if st = 2 then CHR ''B'' else if st = 3 then CHR ''S''
      else if st = 4 then CHR ''D'' else if st = -1 then CHR ''-'' else CHR ''?'')"

definition ml_state_str :: "int \<Rightarrow> string" where
  "ml_state_str st =
     (if st = 0 then ''IDLE'' else if st = 1 then ''WIFI'' else if st = 2 then ''CONN'' else if st = 3 then ''REG''
      else if st = 4 then ''UP'' else if st = 5 then ''RECON'' else if st = 6 then ''ERR'' else ''?'')"

definition kib :: "u32 \<Rightarrow> string" where "kib w = dec (unat w div 1024)"

text \<open>The health line: the times in seconds, the heaps in kilobytes, the peers that are online of all.\<close>

definition snap_text :: "sd_health \<Rightarrow> u32 \<Rightarrow> u32 \<Rightarrow> u32 \<Rightarrow> u32 \<Rightarrow> string" where
  "snap_text h up hb_age coord_age dropped =
     (let (coord, derp, wg, netio) =
            (case sh_tasks h of None \<Rightarrow> (CHR ''-'', CHR ''-'', CHR ''-'', CHR ''-'')
             | Some (a, b, d, e) \<Rightarrow> (task_state_char a, task_state_char b, task_state_char d, task_state_char e));
          (st, peers, online) = (case sh_diag h of None \<Rightarrow> (-1, 0, 0) | Some d \<Rightarrow> d) in
      ''SNAP up='' @ dec (unat up) @ ''s heap='' @ dec (unat (sh_free h)) @ ''/'' @ kib (sh_spi h) @ ''k min='' @ kib (sh_min h)
      @ ''k idram='' @ kib (sh_dram h) @ ''k/min'' @ kib (sh_dram_min h) @ ''k | coord='' @ [coord] @ '' derp='' @ [derp]
      @ '' wg='' @ [wg] @ '' netio='' @ [netio] @ '' | derp_hb_age='' @ dec (unat hb_age) @ ''s coord_age='' @ dec (unat coord_age)
      @ ''s ml='' @ ml_state_str st @ '' peers='' @ dec online @ ''/'' @ dec peers @ '' | dropped='' @ dec (unat dropped) @ [CHR 0x0A])"

definition age_s :: "int \<Rightarrow> int \<Rightarrow> u32" where
  "age_s now_ms t = (if t \<noteq> 0 \<and> t < now_ms then of_int ((now_ms - t) div 1000) else 0)"

definition hb_age :: "sd_reading \<Rightarrow> u32" where "hb_age rd = age_s (sr_now rd div 1000) (sr_heartbeat_ms rd)"
definition coord_age :: "sd_reading \<Rightarrow> u32" where "coord_age rd = age_s (sr_now rd div 1000) (sr_control_ms rd)"

definition snap_interval_us :: "sd_reading \<Rightarrow> int" where
  "snap_interval_us rd = (if 15 < hb_age rd \<or> 30 < coord_age rd then 1000 * 1000 else 10000 * 1000)"

definition emit_snap :: "sd_card \<Rightarrow> sd_reading \<Rightarrow> 'h sd_log \<Rightarrow> 'h sd_log" where
  "emit_snap cd rd s =
     file_append cd (snap_text (sr_health rd) (of_int (sr_now rd div 1000 div 1000)) (hb_age rd) (coord_age rd) (sd_dropped s)) s"

definition write_line ::
  "('h, 'b) nvs_typed \<Rightarrow> sd_card \<Rightarrow> int \<Rightarrow> string \<Rightarrow> sd_writer \<times> 'h sd_log \<Rightarrow> (sd_writer \<times> 'h sd_log) option" where
  "write_line api cd now t ls = (case ls of (l, s) \<Rightarrow>
     let s = file_append cd t s; l = l\<lparr>wr_dirty := True\<rparr> in
     if SDLOG_FILE_MAX_BYTES \<le> sd_cur_bytes s
     then map_option (\<lambda>r. (l\<lparr>wr_dirty := False, wr_last_fsync := now\<rparr>, snd r)) (open_new_file api cd False s)
     else Some (l, s))"

definition write_snap :: "sd_card \<Rightarrow> sd_reading \<Rightarrow> sd_writer \<times> 'h sd_log \<Rightarrow> sd_writer \<times> 'h sd_log" where
  "write_snap cd rd ls = (case ls of (l, s) \<Rightarrow>
     if sd_fp s \<noteq> None \<and> snap_interval_us rd \<le> sr_now rd - wr_last_snap l
     then (l\<lparr>wr_last_snap := sr_now rd, wr_dirty := True\<rparr>, emit_snap cd rd s) else (l, s))"

definition periodic_fsync :: "sd_reading \<Rightarrow> sd_writer \<times> 'h sd_log \<Rightarrow> sd_writer \<times> 'h sd_log" where
  "periodic_fsync rd ls = (case ls of (l, s) \<Rightarrow>
     if wr_dirty l \<and> 2000 * 1000 \<le> sr_now rd - wr_last_fsync l
     then (l\<lparr>wr_dirty := False, wr_last_fsync := sr_now rd\<rparr>, fsync_active s) else (l, s))"

text \<open>A turn with a log line, or with none when the wait timed out; the clock is read once per turn here.\<close>

definition writer_log_turn ::
  "('h, 'b) nvs_typed \<Rightarrow> sd_card \<Rightarrow> sd_reading \<Rightarrow> string option \<Rightarrow> sd_writer \<times> 'h sd_log \<Rightarrow> (sd_writer \<times> 'h sd_log) option" where
  "writer_log_turn api cd rd got ls = (case ls of (l, s) \<Rightarrow>
     case (if sd_fp s = None
           then map_option (\<lambda>r. (l\<lparr>wr_last_fsync := sr_now rd, wr_dirty := False\<rparr>, snd r)) (open_new_file api cd False s)
           else Some (l, s)) of
       None \<Rightarrow> None
     | Some (l, s) \<Rightarrow>
         (case (case got of Some t \<Rightarrow> if sd_fp s \<noteq> None \<and> t \<noteq> [] then write_line api cd (sr_now rd) t (l, s) else Some (l, s)
                | None \<Rightarrow> Some (l, s)) of
            None \<Rightarrow> None
          | Some ls \<Rightarrow> Some (periodic_fsync rd (write_snap cd rd ls))))"

definition close_active :: "'h sd_log \<Rightarrow> 'h sd_log" where
  "close_active s = (if sd_fp s \<noteq> None then (fsync_active s)\<lparr>sd_fp := None, sd_cur_name := []\<rparr> else s)"

definition writer_turn :: "('h, 'b) nvs_typed \<Rightarrow> sd_card \<Rightarrow> sd_reading \<Rightarrow> 'h sd_log \<Rightarrow> 'h sd_log option" where
  "writer_turn api cd rd s =
     (case (sd_task s, sd_queue s) of
        (Some l, Some q) \<Rightarrow>
          (let s' = s\<lparr>sd_queue := Some (tl q)\<rparr>;
               log = (\<lambda>got s. map_option (\<lambda>(l, s). s\<lparr>sd_task := Some l\<rparr>) (writer_log_turn api cd rd got (l, s))) in
           case q of
             [] \<Rightarrow> log None s
           | Poison # _ \<Rightarrow> Some ((close_active s')\<lparr>sd_cur_name := [], sd_task := None\<rparr>)
           | Flush_marker # _ \<Rightarrow> Some ((fsync_active s')\<lparr>sd_flushed := sd_flushed s' + 1\<rparr>)
           | Log_line t # _ \<Rightarrow> log (Some t) s')
      | _ \<Rightarrow> Some s)"

text \<open>The writer begins with the file of this boot.\<close>

definition writer_begin :: "('h, 'b) nvs_typed \<Rightarrow> sd_card \<Rightarrow> int \<Rightarrow> 'h sd_log \<Rightarrow> 'h sd_log option" where
  "writer_begin api cd now s =
     map_option (\<lambda>r. (snd r)\<lparr>sd_task := Some \<lparr>wr_last_fsync = now, wr_last_snap = now, wr_dirty = False\<rparr>\<rparr>) (open_new_file api cd True s)"

section \<open>The hook\<close>

definition enqueue :: "sd_msg \<Rightarrow> 'h sd_log \<Rightarrow> bool \<times> 'h sd_log" where
  "enqueue m s = (case sd_queue s of None \<Rightarrow> (False, s)
     | Some q \<Rightarrow> if length q < SDLOG_QUEUE_DEPTH then (True, s\<lparr>sd_queue := Some (q @ [m])\<rparr>) else (False, s))"

definition post_line :: "string \<Rightarrow> 'h sd_log \<Rightarrow> 'h sd_log" where
  "post_line raw s =
     (case extract_level raw of (level, p) \<Rightarrow>
        let clean = sd_strip_ansi SDLOG_LINE_MAX p in
        if clean \<noteq> [] \<and> level_passes level (sd_sd_level s)
        then (case enqueue (Log_line (take (SDLOG_LINE_MAX - 1) clean @ [CHR 0x0A])) s of
                (True, s) \<Rightarrow> s | (False, s) \<Rightarrow> s\<lparr>sd_dropped := sd_dropped s + 1\<rparr>)
        else s)"

text \<open>Collecting in the line buffer; a full buffer is posted as a line.\<close>

definition hook_store :: "string \<Rightarrow> 'h sd_log \<Rightarrow> 'h sd_log" where
  "hook_store t s =
     (case sd_rawbuf s of None \<Rightarrow> s
      | Some raw \<Rightarrow>
          (let raw = raw @ take (SDLOG_LINE_MAX - length raw - 1) t in
           if raw \<noteq> [] \<and> (SDLOG_LINE_MAX - 1 \<le> length raw \<or> CHR 0x0A \<in> set raw)
           then post_line raw (s\<lparr>sd_rawbuf := Some []\<rparr>) else s\<lparr>sd_rawbuf := Some raw\<rparr>))"

text \<open>
  \<open>fmt\<close> is the format string, \<open>t\<close> what it expands to; \<open>own\<close>: the task is in the recorder itself;
  \<open>lock\<close>: the formatting lock is free.  The first result is what the console gets.
\<close>

definition sdlog_vprintf :: "string \<Rightarrow> string \<Rightarrow> bool \<Rightarrow> bool \<Rightarrow> 'h sd_log \<Rightarrow> string option \<times> 'h sd_log" where
  "sdlog_vprintf fmt t own lock s =
     (let emit = (if sd_con_start s then level_passes (fst (extract_level fmt)) (sd_console_level s) else sd_con_emit s);
          s = s\<lparr>sd_con_emit := emit, sd_con_start := (fmt \<noteq> [] \<and> last fmt = CHR 0x0A)\<rparr> in
      (if emit then Some t else None,
       if \<not> sd_enabled s \<or> own \<or> sd_queue s = None \<or> \<not> lock then s else hook_store t s))"

section \<open>The calls\<close>

text \<open>\<open>mounted\<close>: the microSD card can be mounted.\<close>

definition start_writer :: "('h, 'b) nvs_typed \<Rightarrow> sd_card \<Rightarrow> int \<Rightarrow> 'h sd_log \<Rightarrow> 'h sd_log option" where
  "start_writer api cd now s =
     (let s = s\<lparr>sd_queue := Some (case sd_queue s of None \<Rightarrow> [] | Some q \<Rightarrow> q), sd_rawbuf := Some (case sd_rawbuf s of None \<Rightarrow> [] | Some r \<Rightarrow> r)\<rparr>
      in if sd_task s = None then writer_begin api cd now s else Some s)"

definition sdlog_init :: "('h, 'b) nvs_typed \<Rightarrow> sd_card \<Rightarrow> bool \<Rightarrow> int \<Rightarrow> 'h sd_log \<Rightarrow> 'h sd_log option" where
  "sdlog_init api cd mounted now s =
     (let s = (sd_load_config api s)\<lparr>sd_present := mounted\<rparr> in
      if mounted \<and> sd_enabled s then start_writer api cd now (bump_boot_counter api s)
      else Some (if mounted then s else s\<lparr>sd_enabled := False\<rparr>))"

definition clamp_level :: "u8 \<Rightarrow> u8" where
  "clamp_level v = (if v < SDLOG_LVL_ERROR then SDLOG_LVL_ERROR else if SDLOG_LVL_INFO < v then SDLOG_LVL_INFO else v)"

definition sdlog_enable :: "('h, 'b) nvs_typed \<Rightarrow> sd_card \<Rightarrow> int \<Rightarrow> u8 \<Rightarrow> 'h sd_log \<Rightarrow> (esp_err \<times> 'h sd_log) option" where
  "sdlog_enable api cd now level s =
     (if \<not> sd_present s then Some (ESP_ERR_INVALID_STATE, s)
      else (let was = sd_enabled s; s = s\<lparr>sd_sd_level := clamp_level level, sd_enabled := True\<rparr> in
        map_option (\<lambda>s. (ESP_OK, sd_save api ''sdlog_en'' (V8 1) (sd_save api ''sdlog_sdl'' (V8 (clamp_level level)) s)))
          (if was then Some s else start_writer api cd now (bump_boot_counter api s))))"

text \<open>A writer that works off its queue before it stops, one reading for each turn.\<close>

fun writer_run :: "('h, 'b) nvs_typed \<Rightarrow> sd_card \<Rightarrow> sd_reading list \<Rightarrow> 'h sd_log \<Rightarrow> 'h sd_log option" where
  "writer_run api cd [] s = Some s"
| "writer_run api cd (rd # rds) s = (case writer_turn api cd rd s of None \<Rightarrow> None | Some s \<Rightarrow> writer_run api cd rds s)"

text \<open>The queue and the buffers go when the wait is over, whether or not the writer has stopped.\<close>

definition stop_writer :: "('h, 'b) nvs_typed \<Rightarrow> sd_card \<Rightarrow> sd_reading list \<Rightarrow> 'h sd_log \<Rightarrow> 'h sd_log option" where
  "stop_writer api cd rds s =
     map_option (\<lambda>s. s\<lparr>sd_queue := None, sd_rawbuf := None\<rparr>)
       (writer_run api cd rds (if sd_queue s \<noteq> None \<and> sd_task s \<noteq> None then snd (enqueue Poison s) else s))"

definition sdlog_disable :: "('h, 'b) nvs_typed \<Rightarrow> sd_card \<Rightarrow> sd_reading list \<Rightarrow> 'h sd_log \<Rightarrow> 'h sd_log option" where
  "sdlog_disable api cd rds s = map_option (sd_save api ''sdlog_en'' (V8 0)) (stop_writer api cd rds (s\<lparr>sd_enabled := False\<rparr>))"

definition sdlog_set_console_level :: "('h, 'b) nvs_typed \<Rightarrow> u8 \<Rightarrow> 'h sd_log \<Rightarrow> 'h sd_log" where
  "sdlog_set_console_level api level s =
     (let v = (if SDLOG_LVL_INFO < level then SDLOG_LVL_INFO else level) in sd_save api ''sdlog_con'' (V8 v) (s\<lparr>sd_console_level := v\<rparr>))"

text \<open>\<open>sdlog_flush\<close> while the writer runs \<open>rds\<close>; success is a signal since the marker was posted.\<close>

definition sdlog_flush :: "('h, 'b) nvs_typed \<Rightarrow> sd_card \<Rightarrow> sd_reading list \<Rightarrow> 'h sd_log \<Rightarrow> (bool \<times> 'h sd_log) option" where
  "sdlog_flush api cd rds s =
     (if sd_queue s = None \<or> sd_task s = None then Some (False, s)
      else (case enqueue Flush_marker s of (False, s) \<Rightarrow> Some (False, s)
        | (True, s) \<Rightarrow> map_option (\<lambda>s'. (sd_flushed s < sd_flushed s', s')) (writer_run api cd rds s)))"

definition name_char :: "char \<Rightarrow> bool" where
  "name_char ch \<longleftrightarrow> (let n = of_char ch :: nat in (65 \<le> n \<and> n \<le> 90) \<or> (97 \<le> n \<and> n \<le> 122) \<or> (48 \<le> n \<and> n \<le> 57)) \<or> ch \<in> {CHR ''.'', CHR ''_'', CHR ''-''}"

definition name_is_safe :: "string option \<Rightarrow> bool" where
  "name_is_safe name \<longleftrightarrow> (case name of None \<Rightarrow> False
     | Some n \<Rightarrow> n \<noteq> [] \<and> length n < SDLOG_NAME_MAX \<and> strstr ''..'' n = None \<and> (\<forall>ch\<in>set n. name_char ch))"

definition cmp_name_desc :: "string \<Rightarrow> string \<Rightarrow> bool" where "cmp_name_desc x y \<longleftrightarrow> \<not> case_less x y"

fun insert_desc :: "string \<times> u32 \<Rightarrow> (string \<times> u32) list \<Rightarrow> (string \<times> u32) list" where
  "insert_desc e [] = [e]"
| "insert_desc e (f # fs) = (if cmp_name_desc (fst e) (fst f) then e # f # fs else f # insert_desc e fs)"

text \<open>Names and lengths of at most \<open>n\<close> files in the order of the directory, then sorted; the time stamps are left out.\<close>

definition sdlog_list_files :: "int \<Rightarrow> 'h sd_log \<Rightarrow> (string \<times> u32) list option" where
  "sdlog_list_files n s =
     (if n \<le> 0 \<or> \<not> sd_present s then None
      else Some (foldr insert_desc (map (\<lambda>f. (take (SDLOG_NAME_MAX - 1) (sf_name f), of_nat (length (sf_data f)))) (take (nat n) (filter is_log (sd_files s)))) []))"

record sd_status =
  st_present :: bool
  st_enabled :: bool
  st_sd_level :: u8
  st_console_level :: u8
  st_cur_file :: string
  st_file_count :: nat
  st_dropped :: u32
  st_written :: u64

definition sdlog_get_status :: "'h sd_log \<Rightarrow> sd_status" where
  "sdlog_get_status s =
     \<lparr>st_present = sd_present s, st_enabled = sd_enabled s, st_sd_level = sd_sd_level s, st_console_level = sd_console_level s,
      st_cur_file = (if sd_present s then sd_cur_name s else []),
      st_file_count = (if sd_present s then length (filter is_log (sd_files s)) else 0),
      st_dropped = sd_dropped s, st_written = (if sd_present s then sd_written s else 0)\<rparr>"

definition build_path :: "string \<Rightarrow> string" where
  "build_path n = ''/sdcard/eslog/'' @ take (SDLOG_NAME_MAX - 1) n"

definition fopen_read :: "string \<Rightarrow> 'h sd_log \<Rightarrow> string option" where
  "fopen_read n s = map_option sf_data (find (\<lambda>f. strcaseeq (''/sdcard/eslog/'' @ sf_name f) (build_path n)) (sd_files s))"

text \<open>The pieces of 1024 bytes go to \<open>cb\<close> until it reports an error.\<close>

function read_chunks :: "(string \<Rightarrow> 'x \<Rightarrow> esp_err \<times> 'x) \<Rightarrow> string \<Rightarrow> 'x \<Rightarrow> esp_err \<times> 'x" where
  "read_chunks cb t x =
     (if t = [] then (ESP_OK, x)
      else case cb (take 1024 t) x of (e, x) \<Rightarrow> if e \<noteq> ESP_OK then (e, x) else read_chunks cb (drop 1024 t) x)"
  by pat_completeness auto

termination by (relation "measure (\<lambda>(cb, t, x). length t)") auto

declare read_chunks.simps [simp del]

definition sdlog_read_file :: "string option \<Rightarrow> (string \<Rightarrow> 'x \<Rightarrow> esp_err \<times> 'x) \<Rightarrow> 'x \<Rightarrow> 'h sd_log \<Rightarrow> esp_err \<times> 'x" where
  "sdlog_read_file name cb x s =
     (if \<not> name_is_safe name then (ESP_ERR_INVALID_ARG, x)
      else if \<not> sd_present s then (ESP_ERR_INVALID_STATE, x)
      else (case fopen_read (the name) s of None \<Rightarrow> (ESP_ERR_NOT_FOUND, x) | Some t \<Rightarrow> read_chunks cb t x))"

text \<open>The last \<open>bufsz - 1\<close> bytes, cut behind the newline before the last \<open>n\<close> lines.\<close>

fun cut_scan :: "nat \<Rightarrow> nat \<Rightarrow> string \<Rightarrow> nat" where
  "cut_scan n seen [] = 0"
| "cut_scan n seen (ch # back) =
     (if ch = CHR 0x0A then (if n < seen + 1 then length back + 1 else cut_scan n (seen + 1) back) else cut_scan n seen back)"

definition tail_text :: "int \<Rightarrow> nat \<Rightarrow> string \<Rightarrow> string" where
  "tail_text n bufsz data =
     (let n = (if n \<le> 0 then 50 else nat n);
          got = drop (length data - (bufsz - 1)) data
      in drop (cut_scan n 0 (rev got)) got)"

definition sdlog_tail_file :: "string option \<Rightarrow> int \<Rightarrow> nat \<Rightarrow> 'h sd_log \<Rightarrow> esp_err + string" where
  "sdlog_tail_file name n bufsz s =
     (if \<not> name_is_safe name \<or> bufsz < 2 then Inl ESP_ERR_INVALID_ARG
      else if \<not> sd_present s then Inl ESP_ERR_INVALID_STATE
      else (case fopen_read (the name) s of None \<Rightarrow> Inl ESP_ERR_NOT_FOUND | Some t \<Rightarrow> Inr (tail_text n bufsz t)))"

definition sdlog_erase_all :: "sd_card \<Rightarrow> 'h sd_log \<Rightarrow> esp_err \<times> 'h sd_log" where
  "sdlog_erase_all cd s =
     (if \<not> sd_present s then (ESP_ERR_INVALID_STATE, s)
      else (let s = close_active s in (ESP_OK, s\<lparr>sd_files := filter (\<lambda>f. \<not> (is_log f \<and> cd_unlink cd (sf_name f))) (sd_files s)\<rparr>)))"


section \<open>The hook: what reaches the queue\<close>

lemma sd_strip_loop_0 [simp]: "sd_strip_loop 0 s = []" and sd_strip_loop_Nil [simp]: "sd_strip_loop z [] = []"
  by (subst sd_strip_loop.simps; simp)+

lemma sd_strip_loop_esc [simp]:
  "0 < z \<Longrightarrow> sd_strip_loop z [ESC] = []"
  "0 < z \<Longrightarrow> sd_strip_loop z (ESC # CHR ''['' # r) = sd_strip_loop z (skip_sgr r)"
  "0 < z \<Longrightarrow> b \<noteq> CHR ''['' \<Longrightarrow> sd_strip_loop z (ESC # b # r) = sd_strip_loop z (b # r)"
  by (subst sd_strip_loop.simps; simp)+

lemma sd_strip_loop_char [simp]: "0 < z \<Longrightarrow> ch \<noteq> ESC \<Longrightarrow> sd_strip_loop z (ch # r) = ch # sd_strip_loop (z - 1) r"
  by (subst sd_strip_loop.simps) simp

lemma sd_strip_loop_props: "ESC \<notin> set (sd_strip_loop z s) \<and> length (sd_strip_loop z s) \<le> z"
proof (induction z s rule: sd_strip_loop.induct)
  case (1 z s)
  show ?case
  proof (cases "z = 0 \<or> s = []")
    case True then show ?thesis by auto
  next
    case False
    then obtain ch r where [simp]: "s = ch # r" by (cases s) auto
    have z: "0 < z" using False by simp
    consider "ch \<noteq> ESC" | "ch = ESC" "r = []" | r' where "ch = ESC" "r = CHR ''['' # r'" | b r' where "ch = ESC" "r = b # r'" "b \<noteq> CHR ''[''"
      by (metis neq_Nil_conv)
    then show ?thesis
    proof cases
      case 1
      then have "ESC \<notin> set (sd_strip_loop (z - 1) r) \<and> length (sd_strip_loop (z - 1) r) \<le> z - 1" using "1.IH"(3) z by simp
      then show ?thesis using 1 z by auto
    qed (use "1.IH" z in auto)
  qed
qed

lemma drop_ends_props:
  "set (drop_ends s) \<subseteq> set s" "length (drop_ends s) \<le> length s"
  "drop_ends s \<noteq> [] \<Longrightarrow> last (drop_ends s) \<notin> {CHR 0x0A, CHR 0x0D}"
proof -
  let ?p = "\<lambda>ch. ch = CHR 0x0A \<or> ch = CHR 0x0D"
  show "set (drop_ends s) \<subseteq> set s" unfolding drop_ends_def by (metis set_rev set_dropWhileD subsetI)
  show "length (drop_ends s) \<le> length s" unfolding drop_ends_def by (metis length_dropWhile_le length_rev)
  assume "drop_ends s \<noteq> []"
  then have "dropWhile ?p (rev s) \<noteq> []" by (simp add: drop_ends_def)
  from hd_dropWhile [OF this] show "last (drop_ends s) \<notin> {CHR 0x0A, CHR 0x0D}" by (simp add: drop_ends_def last_rev)
qed

text \<open>A line of the queue: some text without colours and line ends at its end, then the newline.\<close>

definition line_ok :: "string \<Rightarrow> bool" where
  "line_ok t \<longleftrightarrow> t \<noteq> [] \<and> last t = CHR 0x0A \<and> butlast t \<noteq> [] \<and> length t \<le> SDLOG_LINE_MAX \<and> ESC \<notin> set t
     \<and> last (butlast t) \<notin> {CHR 0x0A, CHR 0x0D}"

fun msg_ok :: "sd_msg \<Rightarrow> bool" where "msg_ok (Log_line t) = line_ok t" | "msg_ok _ = True"

text \<open>Between two calls: the queue is within its depth with good lines, the line buffer is not full and has no newline.\<close>

definition hook_inv :: "'h sd_log \<Rightarrow> bool" where
  "hook_inv s \<longleftrightarrow> (case sd_queue s of None \<Rightarrow> True | Some q \<Rightarrow> length q \<le> SDLOG_QUEUE_DEPTH \<and> list_all msg_ok q)
     \<and> (case sd_rawbuf s of None \<Rightarrow> True | Some r \<Rightarrow> length r < SDLOG_LINE_MAX - 1 \<and> CHR 0x0A \<notin> set r)"

lemma sd_strip_ansi_line:
  assumes "sd_strip_ansi SDLOG_LINE_MAX p \<noteq> []"
  shows "line_ok (take (SDLOG_LINE_MAX - 1) (sd_strip_ansi SDLOG_LINE_MAX p) @ [CHR 0x0A])"
proof -
  let ?t = "sd_strip_loop (SDLOG_LINE_MAX - 1) p"
  have t: "ESC \<notin> set ?t" "length ?t \<le> SDLOG_LINE_MAX - 1" using sd_strip_loop_props by blast+
  have l: "length (sd_strip_ansi SDLOG_LINE_MAX p) \<le> SDLOG_LINE_MAX - 1"
    using drop_ends_props(2) [of ?t] t(2) by (simp add: sd_strip_ansi_def)
  have "ESC \<notin> set (sd_strip_ansi SDLOG_LINE_MAX p)" using drop_ends_props(1) [of ?t] t(1) by (auto simp: sd_strip_ansi_def)
  moreover have "last (sd_strip_ansi SDLOG_LINE_MAX p) \<notin> {CHR 0x0A, CHR 0x0D}"
    using drop_ends_props(3) [of ?t] assms by (simp add: sd_strip_ansi_def)
  ultimately show ?thesis using assms l by (simp add: line_ok_def SDLOG_LINE_MAX_def)
qed

lemma post_line_inv:
  assumes "hook_inv s"
  shows "hook_inv (post_line raw s)"
  using assms sd_strip_ansi_line [of "snd (extract_level raw)"]
  by (auto simp: post_line_def hook_inv_def enqueue_def Let_def split: prod.split option.splits)

lemma hook_store_inv:
  assumes "hook_inv s"
  shows "hook_inv (hook_store t s)"
proof (cases "sd_rawbuf s")
  case None then show ?thesis using assms by (simp add: hook_store_def)
next
  case (Some r0)
  define raw where "raw = r0 @ take (SDLOG_LINE_MAX - length r0 - 1) t"
  have eq: "hook_store t s = (if raw \<noteq> [] \<and> (SDLOG_LINE_MAX - 1 \<le> length raw \<or> CHR 0x0A \<in> set raw)
      then post_line raw (s\<lparr>sd_rawbuf := Some []\<rparr>) else s\<lparr>sd_rawbuf := Some raw\<rparr>)"
    unfolding hook_store_def Some raw_def Let_def option.case ..
  have "hook_inv (post_line raw (s\<lparr>sd_rawbuf := Some []\<rparr>))"
    using assms by (intro post_line_inv) (simp add: hook_inv_def SDLOG_LINE_MAX_def)
  moreover have "hook_inv (s\<lparr>sd_rawbuf := Some raw\<rparr>)"
    if "\<not> (raw \<noteq> [] \<and> (SDLOG_LINE_MAX - 1 \<le> length raw \<or> CHR 0x0A \<in> set raw))"
    using that assms by (auto simp: hook_inv_def SDLOG_LINE_MAX_def)
  ultimately show ?thesis unfolding eq by (simp split: if_split)
qed

lemma sdlog_vprintf_inv:
  assumes "hook_inv s"
  shows "hook_inv (snd (sdlog_vprintf fmt t own lock s))"
proof -
  define e where "e = (if sd_con_start s then level_passes (fst (extract_level fmt)) (sd_console_level s) else sd_con_emit s)"
  let ?s = "s\<lparr>sd_con_emit := e, sd_con_start := fmt \<noteq> [] \<and> last fmt = CHR 0x0A\<rparr>"
  have s: "hook_inv ?s" using assms by (simp add: hook_inv_def)
  have "snd (sdlog_vprintf fmt t own lock s) = (if \<not> sd_enabled ?s \<or> own \<or> sd_queue ?s = None \<or> \<not> lock then ?s else hook_store t ?s)"
    unfolding sdlog_vprintf_def Let_def e_def by simp
  then show ?thesis using s hook_store_inv [OF s] by (simp only: simp_thms split: if_split)
qed

section \<open>The fixed buffers suffice\<close>

lemma dec_u32: "length (dec (unat (w :: u32))) \<le> 10"
  by (rule dec_length) (use unsigned_less [of w, where 'a = nat] in simp_all)

lemma kib_length: "length (kib w) \<le> 10"
  unfolding kib_def by (rule dec_length) (use unsigned_less [of w, where 'a = nat] in \<open>simp_all add: less_mult_imp_div_less\<close>)

lemma ml_state_length: "length (ml_state_str st) \<le> 5"
  by (simp add: ml_state_str_def)

lemma snap_fits:
  assumes "\<And>a b e. sh_diag h = Some (a, b, e) \<Longrightarrow> b < 2 ^ 31 \<and> e < 2 ^ 31"
  shows "length (snap_text h up hb co dr) < 256"
proof -
  obtain a b d e where t: "(case sh_tasks h of None \<Rightarrow> (CHR ''-'', CHR ''-'', CHR ''-'', CHR ''-'')
      | Some (a, b, d, e) \<Rightarrow> (task_state_char a, task_state_char b, task_state_char d, task_state_char e)) = (a, b, d, e)"
    by (meson prod_cases4)
  obtain st pe ne where g: "(case sh_diag h of None \<Rightarrow> (-1, 0, 0) | Some d \<Rightarrow> d) = (st :: int, pe :: nat, ne :: nat)" by (meson prod_cases3)
  have "pe < 10 ^ 10" "ne < 10 ^ 10" using g assms by (force split: option.splits)+
  then have n: "length (dec pe) \<le> 10" "length (dec ne) \<le> 10" by (auto intro: dec_length)
  show ?thesis
    unfolding snap_text_def t g Let_def prod.case
    using dec_u32 [of up] dec_u32 [of hb] dec_u32 [of co] dec_u32 [of dr] dec_u32 [of "sh_free h"] kib_length [of "sh_spi h"]
      kib_length [of "sh_min h"] kib_length [of "sh_dram h"] kib_length [of "sh_dram_min h"] ml_state_length [of st] n
    by simp
qed

lemma boot_text_fits:
  assumes "length (cd_idf cd) < 32" "length (cd_fw cd) < 32" "cd_reason cd < 2 ^ 31"
  shows "length (boot_text cd b) < 160"
proof -
  have "length (dec (cd_reason cd)) \<le> 10" using assms(3) by (intro dec_length) auto
  then show ?thesis
    using assms dec_u32 [of b] dec_u32 [of "cd_heap cd"] dec_u32 [of "cd_heap_min cd"] by (simp add: boot_text_def)
qed


section \<open>The names\<close>

lemma case_less_irrefl [simp]: "\<not> case_less a a"
  by (induction a) auto

lemma case_less_trans: "case_less a b \<Longrightarrow> case_less b d \<Longrightarrow> case_less a d"
proof (induction a b arbitrary: d rule: case_less.induct)
  case (1 b) then show ?case by (cases d; cases b) auto
next
  case (3 x a y b) then show ?case by (cases d) (auto split: if_splits)
qed simp

lemma case_less_neg_trans: "case_less a d \<Longrightarrow> case_less a b \<or> case_less b d"
proof (induction a b arbitrary: d rule: case_less.induct)
  case (1 b) then show ?case by (cases d; cases b) auto
next
  case (2 x a) then show ?case by (cases d) auto
next
  case (3 x a y b) then show ?case by (cases d) (auto split: if_splits)
qed

lemma to_lower_digit: "is_digit ch \<Longrightarrow> to_lower ch = of_char ch"
  by (auto simp: to_lower_def is_digit_def Let_def)

lemma digits_val_bound:
  "\<forall>ch\<in>set a. is_digit ch \<Longrightarrow> acc * 10 ^ length a \<le> digits_val acc a \<and> digits_val acc a < (acc + 1) * 10 ^ length a"
proof (induction a arbitrary: acc)
  case (Cons ch a)
  let ?d = "of_char ch - 48 :: nat"
  have d: "?d \<le> 9" using Cons.prems by (auto simp: is_digit_def)
  have "(10 * acc + ?d) * 10 ^ length a \<le> digits_val (10 * acc + ?d) a \<and> digits_val (10 * acc + ?d) a < (10 * acc + ?d + 1) * 10 ^ length a"
    using Cons by simp
  moreover have "acc * 10 * 10 ^ length a \<le> (10 * acc + ?d) * 10 ^ length a" by (intro mult_right_mono) auto
  moreover have "(10 * acc + ?d + 1) * 10 ^ length a \<le> (acc + 1) * 10 * 10 ^ length a" using d by (intro mult_right_mono) auto
  ultimately show ?case using Cons.prems by (simp add: algebra_simps)
qed simp

text \<open>Texts of digits of one length compare as their numbers.\<close>

lemma case_less_digits:
  assumes "length a = length b" "\<forall>ch\<in>set a. is_digit ch" "\<forall>ch\<in>set b. is_digit ch"
  shows "case_less (a @ t) (b @ t) \<longleftrightarrow> digits_val acc a < digits_val acc b"
  using assms
proof (induction a b arbitrary: acc rule: list_induct2)
  case (Cons x a y b)
  have d: "is_digit x" "is_digit y" using Cons.prems by auto
  let ?u = "10 * acc + (of_char x - 48) :: nat" and ?v = "10 * acc + (of_char y - 48) :: nat"
  show ?case
  proof (cases "(of_char x :: nat) = of_char y")
    case True
    then show ?thesis using Cons d by (simp add: to_lower_digit)
  next
    case False
    have u: "digits_val ?u a < (?u + 1) * 10 ^ length a" "?u * 10 ^ length a \<le> digits_val ?u a"
      and v: "digits_val ?v b < (?v + 1) * 10 ^ length a" "?v * 10 ^ length a \<le> digits_val ?v b"
      using digits_val_bound [of a ?u] digits_val_bound [of b ?v] Cons.prems Cons.hyps by simp_all
    have "(of_char x :: nat) < of_char y \<longleftrightarrow> digits_val ?u a < digits_val ?v b"
    proof (cases "(of_char x :: nat) < of_char y")
      case True
      then have "?u + 1 \<le> ?v" using d by (auto simp: is_digit_def)
      then have "(?u + 1) * 10 ^ length a \<le> ?v * 10 ^ length a" by (rule mult_right_mono) simp
      then show ?thesis using True u v by linarith
    next
      case ge: False
      then have "(of_char y :: nat) < of_char x" using False by linarith
      then have "?v + 1 \<le> ?u" using d by (simp add: is_digit_def)
      then have "(?v + 1) * 10 ^ length a \<le> ?u * 10 ^ length a" by (rule mult_right_mono) simp
      then show ?thesis using ge u v by linarith
    qed
    then show ?thesis using d False by (simp add: to_lower_digit)
  qed
qed simp

lemma pad8_digits: "\<forall>ch\<in>set (pad8 n). is_digit ch" and pad8_length: "n < 10 ^ 8 \<Longrightarrow> length (pad8 n) = 8"
  using dec_digits [of _ n] dec_length [of n 8] by (auto simp: pad8_def is_digit_def)

lemma digits_val_zeros: "digits_val 0 (replicate k (CHR ''0'') @ s) = digits_val 0 s"
  by (induction k) (auto simp: is_digit_def)

lemma digits_val_pad8: "digits_val 0 (pad8 n) = n"
  by (simp add: pad8_def digits_val_zeros digits_val_dec)

text \<open>The names of the files are ordered as their numbers, up to 99999999.\<close>

lemma log_name_less:
  assumes "unat a < 10 ^ 8" "unat b < 10 ^ 8"
  shows "case_less (log_name a) (log_name b) \<longleftrightarrow> a < b"
  unfolding log_name_def using assms
  by (simp add: case_less_digits [where acc = 0] pad8_digits pad8_length digits_val_pad8 word_less_nat_alt)

lemma last_dot_digits: "\<forall>ch\<in>set a. is_digit ch \<Longrightarrow> last_dot (a @ ''.LOG'') = Some ''.LOG''"
  by (induction a) simp_all

lemma log_name_is_log [simp]: "sf_name f = log_name n \<Longrightarrow> is_log f"
  by (simp add: is_log_def log_name_def last_dot_digits pad8_digits strcaseeq_def)

section \<open>Pruning\<close>

lemma oldest_fold:
  assumes "\<And>f. f \<in> set fs \<Longrightarrow> is_log f"
  shows "(case foldl older o1 fs of None \<Rightarrow> o1 = None \<and> fs = []
     | Some n \<Rightarrow> (o1 = Some n \<or> n \<in> sf_name ` set fs) \<and> (\<forall>x. o1 = Some x \<longrightarrow> \<not> case_less x n) \<and> (\<forall>f\<in>set fs. \<not> case_less (sf_name f) n))"
proof (induction fs arbitrary: o1)
  case Nil then show ?case by (auto split: option.splits)
next
  case (Cons f fs)
  obtain m where m: "older o1 f = Some m" by (cases "older o1 f") (auto simp: older_def split: option.splits if_splits)
  have a: "m = sf_name f \<or> o1 = Some m" "\<not> case_less (sf_name f) m" "\<And>x. o1 = Some x \<Longrightarrow> \<not> case_less x m"
    using m case_less_trans [of m _ m] by (auto simp: older_def split: option.splits if_splits)
  have "case foldl older (Some m) fs of None \<Rightarrow> False
     | Some n \<Rightarrow> (m = n \<or> n \<in> sf_name ` set fs) \<and> \<not> case_less m n \<and> (\<forall>f\<in>set fs. \<not> case_less (sf_name f) n)"
    using Cons.IH [of "Some m"] by (auto split: option.splits)
  then obtain n where n: "foldl older (Some m) fs = Some n" "m = n \<or> n \<in> sf_name ` set fs" "\<not> case_less m n"
    "\<forall>f\<in>set fs. \<not> case_less (sf_name f) n" by (auto split: option.splits)
  have tot: "\<not> case_less x n" if "\<not> case_less x m" for x
    using that n(3) case_less_neg_trans by blast
  show ?case using n m a tot by auto
qed

lemma is_log_name: "sf_name f = sf_name g \<Longrightarrow> is_log f = is_log g"
  by (simp add: is_log_def)

lemma is_log_safe [simp]: "is_log (f\<lparr>sf_safe := x\<rparr>) = is_log f"
  by (simp add: is_log_def)

lemma oldest_log_cases:
  "case oldest_log fs of None \<Rightarrow> filter is_log fs = []
   | Some n \<Rightarrow> (\<exists>f\<in>set fs. is_log f \<and> sf_name f = n) \<and> (\<forall>f\<in>set fs. is_log f \<longrightarrow> \<not> case_less (sf_name f) n)"
proof -
  have "f \<in> set (filter is_log fs) \<Longrightarrow> is_log f" for f by simp
  from oldest_fold [of "filter is_log fs" None, OF this] show ?thesis
    by (cases "oldest_log fs") (auto simp: oldest_log_def)
qed

lemma remove_one:
  assumes "distinct (map sf_name fs)" "f \<in> set fs" "is_log f"
  shows "length (filter is_log (filter (\<lambda>g. sf_name g \<noteq> sf_name f) fs)) = length (filter is_log fs) - 1"
    "0 < length (filter is_log fs)"
proof -
  have "filter (\<lambda>g. sf_name g \<noteq> sf_name f) fs = filter (\<lambda>g. g \<noteq> f) fs"
    using assms by (intro filter_cong) (auto simp: distinct_map inj_on_def)
  also have "\<dots> = remove1 f fs" using assms by (simp add: distinct_map distinct_remove1_removeAll removeAll_filter_not_eq eq_commute)
  finally show "length (filter is_log (filter (\<lambda>g. sf_name g \<noteq> sf_name f) fs)) = length (filter is_log fs) - 1"
    using assms by (simp add: filter_remove1 length_remove1)
  show "0 < length (filter is_log fs)" using assms(2,3) by (auto simp: length_pos_if_in_set filter_empty_conv)
qed

definition prune_result :: "nat \<Rightarrow> sd_file list \<Rightarrow> sd_file list \<Rightarrow> bool" where
  "prune_result m fs fs' \<longleftrightarrow> distinct (map sf_name fs') \<and> set fs' \<subseteq> set fs
     \<and> length (filter is_log fs') = min m (length (filter is_log fs))
     \<and> (\<forall>f\<in>set fs - set fs'. is_log f \<and> (\<forall>g\<in>set fs'. is_log g \<longrightarrow> \<not> case_less (sf_name g) (sf_name f)))"

lemma prune_ends:
  assumes "\<forall>f\<in>set fs. is_log f \<longrightarrow> cd_unlink cd (sf_name f)" "distinct (map sf_name fs)"
  shows "\<exists>fs'. prune_old_files cd m fs = Some fs' \<and> prune_result m fs fs'"
  using assms
proof (induction "length (filter is_log fs)" arbitrary: fs rule: less_induct)
  case less
  show ?case
  proof (cases "length (filter is_log fs) \<le> m")
    case True
    then show ?thesis using less.prems by (subst prune_old_files.simps) (simp add: prune_result_def)
  next
    case False
    then obtain n f where n: "oldest_log fs = Some n" "f \<in> set fs" "is_log f" "sf_name f = n" "\<forall>f\<in>set fs. is_log f \<longrightarrow> \<not> case_less (sf_name f) n"
      using oldest_log_cases [of fs] by (auto split: option.splits)
    let ?fs = "filter (\<lambda>g. sf_name g \<noteq> n) fs"
    have l: "length (filter is_log ?fs) = length (filter is_log fs) - 1" "0 < length (filter is_log fs)"
      using remove_one [OF less.prems(2) n(2,3)] n(4) by simp_all
    have "distinct (map sf_name ?fs)" using less.prems(2) by (simp add: distinct_map_filter)
    then obtain fs' where fs': "prune_old_files cd m ?fs = Some fs'" "prune_result m ?fs fs'"
      using less.hyps [of ?fs] l less.prems by fastforce
    have "prune_old_files cd m fs = prune_old_files cd m ?fs"
      using False n less.prems(1) by (subst prune_old_files.simps) auto
    moreover have "prune_result m fs fs'"
      unfolding prune_result_def
    proof (intro conjI ballI impI)
      fix g assume g: "g \<in> set fs - set fs'"
      show "is_log g"
      proof (cases "sf_name g = n")
        case True then show ?thesis using n(3,4) is_log_name [of g f] by simp
      next
        case False then show ?thesis using fs'(2) g by (auto simp: prune_result_def)
      qed
      fix h assume h: "h \<in> set fs'" "is_log h"
      show "\<not> case_less (sf_name h) (sf_name g)"
      proof (cases "sf_name g = n")
        case True
        have "h \<in> set fs" using fs'(2) h(1) by (auto simp: prune_result_def)
        then show ?thesis using n(5) h(2) True by simp
      next
        case False then show ?thesis using fs'(2) g h by (auto simp: prune_result_def)
      qed
    qed (use fs'(2) l False in \<open>auto simp: prune_result_def\<close>)
    ultimately show ?thesis using fs'(1) by simp
  qed
qed

text \<open>Where files cannot be removed, the loop that does not look at the result never ends.\<close>

lemma prune_bound: "prune_old_files cd m fs = Some fs' \<Longrightarrow> length (filter is_log fs') \<le> m"
proof (rule prune_old_files.raw_induct [where P = "\<lambda>cd m fs fs'. length (filter is_log fs') \<le> m", rotated], assumption)
  fix prune :: "sd_card \<Rightarrow> nat \<Rightarrow> sd_file list \<Rightarrow> sd_file list option" and cd m fs fs'
  assume ih: "\<And>cd m fs fs'. prune cd m fs = Some fs' \<Longrightarrow> length (filter is_log fs') \<le> m"
    and eq: "(if length (filter is_log fs) \<le> m then Some fs
      else case oldest_log fs of None \<Rightarrow> Some fs
      | Some o1 \<Rightarrow> prune cd m (if cd_unlink cd o1 then filter (\<lambda>f. sf_name f \<noteq> o1) fs else fs)) = Some fs'"
  show "length (filter is_log fs') \<le> m"
    using eq ih oldest_log_cases [of fs] by (auto split: if_split_asm option.split_asm)
qed

lemma prune_stuck_raw:
  "prune_old_files cd m fs = Some fs' \<Longrightarrow> (\<forall>n. \<not> cd_unlink cd n) \<longrightarrow> length (filter is_log fs) \<le> m"
proof (rule prune_old_files.raw_induct [where P = "\<lambda>cd m fs fs'. (\<forall>n. \<not> cd_unlink cd n) \<longrightarrow> length (filter is_log fs) \<le> m", rotated], assumption)
  fix prune :: "sd_card \<Rightarrow> nat \<Rightarrow> sd_file list \<Rightarrow> sd_file list option" and cd m fs fs'
  assume ih: "\<And>cd m fs fs'. prune cd m fs = Some fs' \<Longrightarrow> (\<forall>n. \<not> cd_unlink cd n) \<longrightarrow> length (filter is_log fs) \<le> m"
    and eq: "(if length (filter is_log fs) \<le> m then Some fs
      else case oldest_log fs of None \<Rightarrow> Some fs
      | Some o1 \<Rightarrow> prune cd m (if cd_unlink cd o1 then filter (\<lambda>f. sf_name f \<noteq> o1) fs else fs)) = Some fs'"
  show "(\<forall>n. \<not> cd_unlink cd n) \<longrightarrow> length (filter is_log fs) \<le> m"
    using eq ih [of cd m fs fs'] oldest_log_cases [of fs] by (auto split: if_split_asm option.split_asm)
qed

text \<open>Where files cannot be removed, the loop that does not look at the result of \<open>unlink\<close> never ends.\<close>

lemma sdlog_prune_never_ends:
  assumes "\<And>n. \<not> cd_unlink cd n" "m < length (filter is_log fs)"
  shows "prune_old_files cd m fs = None"
  using prune_stuck_raw [of cd m fs] assms by (cases "prune_old_files cd m fs") auto


section \<open>Opening a file\<close>

text \<open>Every log has the name of a number below the next one, no name is there twice, and the open file exists.\<close>

definition seq_inv :: "'h sd_log \<Rightarrow> bool" where
  "seq_inv s \<longleftrightarrow> distinct (map sf_name (sd_files s)) \<and> unat (sd_next_seq s) < 10 ^ 8
     \<and> (\<forall>f\<in>set (sd_files s). is_log f \<longrightarrow> (\<exists>k < sd_next_seq s. sf_name f = log_name k))"

lemma sd_save_keeps [simp]:
  "sd_files (sd_save api k v s) = sd_files s" "sd_fp (sd_save api k v s) = sd_fp s" "sd_next_seq (sd_save api k v s) = sd_next_seq s"
  "sd_max_files (sd_save api k v s) = sd_max_files s" "sd_boot (sd_save api k v s) = sd_boot s" "sd_queue (sd_save api k v s) = sd_queue s"
  "sd_task (sd_save api k v s) = sd_task s" "sd_enabled (sd_save api k v s) = sd_enabled s" "sd_cur_bytes (sd_save api k v s) = sd_cur_bytes s"
  by (simp_all add: sd_save_def)

lemma fsync_keeps [simp]:
  "sd_fp (fsync_active s) = sd_fp s" "sd_next_seq (fsync_active s) = sd_next_seq s" "sd_max_files (fsync_active s) = sd_max_files s"
  "sd_queue (fsync_active s) = sd_queue s" "sd_task (fsync_active s) = sd_task s" "sd_cur_bytes (fsync_active s) = sd_cur_bytes s"
  "sd_enabled (fsync_active s) = sd_enabled s" "sd_flushed (fsync_active s) = sd_flushed s" "sd_boot (fsync_active s) = sd_boot s"
  by (simp_all add: fsync_active_def)

lemma fsync_names [simp]: "map sf_name (sd_files (fsync_active s)) = map sf_name (sd_files s)"
  by (simp add: fsync_active_def)

text \<open>\<open>fsync\<close> and a write change only the open file: of the others nothing, of it not the name.\<close>

lemma fsync_files:
  "sd_files (fsync_active s) = map (\<lambda>f. if sd_fp s = Some (sf_name f) then f\<lparr>sf_safe := sf_data f\<rparr> else f) (sd_files s)"
  by (simp add: fsync_active_def)

lemma header_keeps [simp]:
  "sd_fp (write_header cd b s) = sd_fp s" "sd_next_seq (write_header cd b s) = sd_next_seq s" "sd_max_files (write_header cd b s) = sd_max_files s"
  "sd_queue (write_header cd b s) = sd_queue s" "sd_task (write_header cd b s) = sd_task s" "sd_enabled (write_header cd b s) = sd_enabled s"
  by (simp_all add: write_header_def add_bytes_def file_put_def Let_def)

lemma header_files:
  "sd_files (write_header cd b s) =
     (let t = (if b then boot_text cd (sd_boot s) else rotate_text (sd_next_seq s - 1) (cd_uptime cd))
      in map (\<lambda>f. if sd_fp s = Some (sf_name f) then f\<lparr>sf_data := sf_data f @ take (cd_takes cd t) t\<rparr> else f) (sd_files s))"
  by (simp add: write_header_def add_bytes_def file_put_def Let_def)

lemma log_name_inj: "unat a < 10 ^ 8 \<Longrightarrow> unat b < 10 ^ 8 \<Longrightarrow> log_name a = log_name b \<Longrightarrow> a = b"
  using log_name_less [of a b] log_name_less [of b a] case_less_irrefl by (metis not_less_iff_gr_or_eq)

text \<open>The files before the old ones are pruned: those there were, the open one made safe, and the new one.\<close>

definition with_new :: "sd_card \<Rightarrow> bool \<Rightarrow> 'h sd_log \<Rightarrow> sd_file list" where
  "with_new cd b s =
     (let n = log_name (sd_next_seq s);
          t = (if b then boot_text cd (sd_boot s) else rotate_text (sd_next_seq s) (cd_uptime cd));
          d = take (cd_takes cd t) t
      in sd_files (fsync_active s) @ [\<lparr>sf_name = n, sf_data = d, sf_safe = d\<rparr>])"

lemma seq_inv_fresh:
  assumes "seq_inv s"
  shows "log_name (sd_next_seq s) \<notin> sf_name ` set (sd_files s)"
proof
  assume "log_name (sd_next_seq s) \<in> sf_name ` set (sd_files s)"
  then obtain f where f: "f \<in> set (sd_files s)" and n: "sf_name f = log_name (sd_next_seq s)" by force
  then obtain k where k: "k < sd_next_seq s" "sf_name f = log_name k" using assms by (force simp: seq_inv_def)
  have "unat k < 10 ^ 8" using k(1) assms by (simp add: seq_inv_def word_less_nat_alt)
  with n k assms show False using log_name_inj [of k "sd_next_seq s"] by (auto simp: seq_inv_def)
qed

lemma open_new_file_eq:
  assumes "seq_inv s" "cd_fopen cd (log_name (sd_next_seq s))"
  shows "\<exists>s1. open_new_file api cd b s =
       map_option (\<lambda>fs. (ESP_OK, s1\<lparr>sd_files := fs\<rparr>)) (prune_old_files cd (unat (sd_max_files s)) (with_new cd b s))
     \<and> sd_next_seq s1 = sd_next_seq s + 1 \<and> sd_fp s1 = Some (log_name (sd_next_seq s)) \<and> sd_max_files s1 = sd_max_files s
     \<and> sd_queue s1 = sd_queue s \<and> sd_task s1 = sd_task s"
proof -
  define n where "n = log_name (sd_next_seq s)"
  define s0 where "s0 = (if sd_fp s \<noteq> None then (fsync_active s)\<lparr>sd_fp := None\<rparr> else s)"
  have s0: "sd_next_seq s0 = sd_next_seq s" "sd_files s0 = sd_files (fsync_active s)" "sd_max_files s0 = sd_max_files s" "sd_boot s0 = sd_boot s"
    "sd_queue s0 = sd_queue s" "sd_task s0 = sd_task s"
    by (simp_all add: s0_def fsync_files)
  have fresh: "sf_name f \<noteq> n" if "f \<in> set (sd_files (fsync_active s))" for f
    using that seq_inv_fresh [OF assms(1)] by (force simp: fsync_files n_def)
  have fresh': False if "f \<in> set (sd_files (fsync_active s))" "log_name (sd_next_seq s) = sf_name f" for f
    using fresh that by (metis n_def)
  define s1 where "s1 = s0\<lparr>sd_files := file_create n (sd_files s0), sd_fp := Some n, sd_cur_name := n, sd_cur_bytes := 0, sd_next_seq := sd_next_seq s0 + 1\<rparr>"
  define s2 where "s2 = fsync_active (write_header cd b (sd_save api ''sdlog_seq'' (V32 (sd_next_seq s1)) s1))"
  have s1: "sd_files s1 = sd_files (fsync_active s) @ [\<lparr>sf_name = n, sf_data = [], sf_safe = []\<rparr>]" "sd_fp s1 = Some n"
    "sd_next_seq s1 = sd_next_seq s + 1" "sd_boot s1 = sd_boot s" "sd_max_files s1 = sd_max_files s" "sd_queue s1 = sd_queue s" "sd_task s1 = sd_task s"
    using fresh by (simp_all add: s1_def file_create_def s0 filter_id_conv)
  have "sd_files s2 = with_new cd b s"
    by (auto dest: fresh' simp: s2_def fsync_files [of "write_header _ _ _"] header_files Let_def s1 with_new_def n_def intro!: map_idI)
  moreover have "open_new_file api cd b s = map_option (\<lambda>fs. (ESP_OK, s2\<lparr>sd_files := fs\<rparr>)) (prune_old_files cd (unat (sd_max_files s2)) (sd_files s2))"
    using assms(2) unfolding open_new_file_def Let_def s0_def [symmetric] s0(1) n_def [symmetric] s1_def [symmetric] s2_def by (simp add: s1_def s0 n_def)
  moreover have "sd_max_files s2 = sd_max_files s" "sd_next_seq s2 = sd_next_seq s + 1" "sd_fp s2 = Some n" "sd_queue s2 = sd_queue s" "sd_task s2 = sd_task s"
    by (simp_all add: s2_def s1)
  ultimately show ?thesis unfolding n_def by (intro exI [of _ s2]) simp
qed


lemma with_new_set:
  "set (with_new cd b s) = insert (last (with_new cd b s)) (set (sd_files (fsync_active s)))"
  "sf_name (last (with_new cd b s)) = log_name (sd_next_seq s)" "sf_safe (last (with_new cd b s)) = sf_data (last (with_new cd b s))"
  by (simp_all add: with_new_def Let_def)

lemma with_new_names: "map sf_name (with_new cd b s) = map sf_name (sd_files s) @ [log_name (sd_next_seq s)]"
  by (simp add: with_new_def Let_def)

lemma with_new_logs: "length (filter is_log (with_new cd b s)) = Suc (length (filter is_log (sd_files s)))"
proof -
  have "length (filter is_log (sd_files (fsync_active s))) = length (filter is_log (sd_files s))"
    by (simp add: fsync_files filter_map o_def if_distrib [of is_log])
  then show ?thesis by (simp add: with_new_def Let_def)
qed

lemma seq_inv_pruned:
  assumes "seq_inv s" "unat (sd_next_seq s) + 1 < 10 ^ 8" "prune_result m (with_new cd b s) fs'"
    "f \<in> set fs'" "is_log f"
  shows "\<exists>k \<le> sd_next_seq s. sf_name f = log_name k"
proof -
  have "f \<in> set (with_new cd b s)" using assms(3,4) by (auto simp: prune_result_def)
  then consider "f = last (with_new cd b s)" | "sf_name f \<in> set (map sf_name (sd_files s))"
    using with_new_set(1) [of cd b s] fsync_names [of s] by (metis image_eqI insertE list.set_map)
  then show ?thesis
  proof cases
    case 1 then show ?thesis using with_new_set(2) [of cd b s] by auto
  next
    case 2
    then obtain g where "g \<in> set (sd_files s)" "sf_name g = sf_name f" by auto
    then show ?thesis using assms(1,5) is_log_name [of g f] by (metis seq_inv_def order_less_imp_le)
  qed
qed

lemma newest_stays:
  assumes "seq_inv s" "unat (sd_next_seq s) + 1 < 10 ^ 8" "prune_result m (with_new cd b s) fs'" "0 < m"
  shows "last (with_new cd b s) \<in> set fs'"
proof (rule ccontr)
  let ?f = "last (with_new cd b s)"
  assume nin: "?f \<notin> set fs'"
  have old: "\<forall>g\<in>set fs'. is_log g \<longrightarrow> \<not> case_less (sf_name g) (sf_name ?f)"
    using assms(3) nin with_new_set(1) [of cd b s] by (auto simp: prune_result_def)
  have "length (filter is_log fs') \<noteq> 0" using assms(3,4) by (simp add: prune_result_def with_new_logs del: length_0_conv)
  then obtain g where g: "g \<in> set fs'" "is_log g" by (auto simp: filter_empty_conv)
  obtain k where k: "k \<le> sd_next_seq s" "sf_name g = log_name k" using seq_inv_pruned [OF assms(1-3) g] by blast
  have "g \<in> set (with_new cd b s)" "g \<noteq> ?f" using assms(3) g(1) nin by (auto simp: prune_result_def)
  then have "g \<in> set (sd_files (fsync_active s))" using with_new_set(1) [of cd b s] by auto
  then have "sf_name g \<in> set (map sf_name (sd_files s))" by (auto simp: fsync_files image_iff)
  then have "sf_name g \<noteq> log_name (sd_next_seq s)" using seq_inv_fresh [OF assms(1)] by force
  then have "k < sd_next_seq s" using k by (metis order_le_imp_less_or_eq)
  then have "case_less (log_name k) (log_name (sd_next_seq s))"
    using assms(2) log_name_less [of k "sd_next_seq s"] by (simp add: word_less_nat_alt)
  then show False using old g k with_new_set(2) [of cd b s] by auto
qed

text \<open>
  C22: opening the next log file, at a start and when the file before is full, neither overwrites a log
  nor removes a newer one than it keeps: under the invariant of the directory and with a card that can open
  and remove files, it returns; the new file is open, safe and the newest; as many logs remain as the limit
  allows; a removed file is a log older than every log that remains; what the others hold is unchanged.
\<close>

theorem sdlog_rotation:
  assumes "seq_inv s" "unat (sd_next_seq s) + 1 < 10 ^ 8" "0 < sd_max_files s" "\<And>n. cd_fopen cd n \<and> cd_unlink cd n"
  shows "\<exists>s'. open_new_file api cd b s = Some (ESP_OK, s') \<and> seq_inv s' \<and> sd_next_seq s' = sd_next_seq s + 1
     \<and> sd_fp s' = Some (log_name (sd_next_seq s))
     \<and> (\<exists>f\<in>set (sd_files s'). sf_name f = log_name (sd_next_seq s) \<and> sf_safe f = sf_data f)
     \<and> length (filter is_log (sd_files s')) = min (unat (sd_max_files s)) (length (filter is_log (sd_files s)) + 1)
     \<and> (\<forall>f\<in>set (sd_files (fsync_active s)). f \<in> set (sd_files s')
         \<or> is_log f \<and> (\<forall>g\<in>set (sd_files s'). is_log g \<longrightarrow> case_less (sf_name f) (sf_name g)))"
proof -
  let ?m = "unat (sd_max_files s)" and ?fs = "with_new cd b s"
  have d: "distinct (map sf_name ?fs)" using assms(1) seq_inv_fresh [OF assms(1)] by (auto simp: with_new_names seq_inv_def)
  obtain fs' where fs': "prune_old_files cd ?m ?fs = Some fs'" "prune_result ?m ?fs fs'"
    using prune_ends [of ?fs cd ?m] d assms(4) by auto
  obtain s1 where s1: "open_new_file api cd b s = map_option (\<lambda>fs. (ESP_OK, s1\<lparr>sd_files := fs\<rparr>)) (prune_old_files cd ?m ?fs)"
    "sd_next_seq s1 = sd_next_seq s + 1" "sd_fp s1 = Some (log_name (sd_next_seq s))"
    using open_new_file_eq [OF assms(1), of cd api b] assms(4) by blast
  have u: "unat (sd_next_seq s + 1) = unat (sd_next_seq s) + 1" using assms(2) by (subst unat_word_ariths) simp
  have le: "k \<le> sd_next_seq s \<longleftrightarrow> k < sd_next_seq s + 1" for k using u by (simp add: word_less_nat_alt word_le_nat_alt less_Suc_eq_le)
  have m: "0 < ?m" using assms(3) by (simp add: unat_gt_0 word_neq_0_conv)
  note new = newest_stays [OF assms(1,2) fs'(2) m]
  have inv: "seq_inv (s1\<lparr>sd_files := fs'\<rparr>)"
    using fs'(2) assms(2) seq_inv_pruned [OF assms(1,2) fs'(2)] by (auto simp: seq_inv_def prune_result_def s1 u le)
  have old: "case_less (sf_name f) (sf_name g)"
    if f: "f \<in> set (sd_files (fsync_active s))" "f \<notin> set fs'" and g: "g \<in> set fs'" "is_log g" for f g
  proof -
    have fl: "is_log f" "\<not> case_less (sf_name g) (sf_name f)" using fs'(2) f g with_new_set(1) [of cd b s] by (auto simp: prune_result_def)
    obtain h where h: "h \<in> set (sd_files s)" "sf_name h = sf_name f" using f(1) by (auto simp: fsync_files split: if_splits)
    then obtain k where k: "k < sd_next_seq s" "sf_name f = log_name k" using assms(1) fl(1) is_log_name [of h f] by (metis seq_inv_def)
    obtain j where j: "j \<le> sd_next_seq s" "sf_name g = log_name j" using seq_inv_pruned [OF assms(1,2) fs'(2) g] by blast
    have "sf_name f \<noteq> sf_name g"
    proof
      assume "sf_name f = sf_name g"
      moreover have "g \<in> set ?fs" "f \<in> set ?fs" using fs'(2) g(1) f(1) with_new_set(1) [of cd b s] by (auto simp: prune_result_def)
      ultimately have "f = g" using d by (simp add: distinct_map inj_on_def)
      then show False using f(2) g(1) by simp
    qed
    then have "j \<noteq> k" using k j by auto
    moreover have "unat j < 10 ^ 8" "unat k < 10 ^ 8" using k(1) j(1) assms(2) by (auto simp: word_less_nat_alt word_le_nat_alt)
    ultimately show ?thesis using fl(2) k j log_name_less [of j k] log_name_less [of k j] by auto
  qed
  have "f \<in> set fs' \<or> is_log f" if "f \<in> set (sd_files (fsync_active s))" for f
    using fs'(2) that with_new_set(1) [of cd b s] by (auto simp: prune_result_def)
  then show ?thesis
    using s1 fs' inv new with_new_set(2,3) [of cd b s] old
    by (intro exI [of _ "s1\<lparr>sd_files := fs'\<rparr>"]) (auto simp: prune_result_def with_new_logs)
qed


text \<open>A directory of two logs with room for two.\<close>

definition demo_card :: sd_card where
  "demo_card = \<lparr>cd_fopen = (\<lambda>_. True), cd_unlink = (\<lambda>_. True), cd_takes = length, cd_reason = 1, cd_idf = ''v5.3'', cd_fw = ''1.0'',
     cd_heap = 1000, cd_heap_min = 900, cd_uptime = 7\<rparr>"

definition demo_log :: "(unit typed_map) sd_log" where
  "demo_log = (sd_power_up (\<lambda>_ _. None) [\<lparr>sf_name = log_name 1, sf_data = ''a'', sf_safe = ''a''\<rparr>, \<lparr>sf_name = log_name 2, sf_data = ''b'', sf_safe = ''b''\<rparr>])
     \<lparr>sd_next_seq := 3, sd_max_files := 2, sd_queue := Some [Log_line ''x'', Log_line ''y''], sd_fp := Some (log_name 2),
      sd_task := Some \<lparr>wr_last_fsync = 0, wr_last_snap = 0, wr_dirty = False\<rparr>, sd_cur_bytes := 1\<rparr>"

lemma sdlog_rotation_witness:
  "\<exists>s'. open_new_file map_typed demo_card False demo_log = Some (ESP_OK, s') \<and> sd_fp s' = Some (log_name 3)
     \<and> length (filter is_log (sd_files s')) = 2"
proof -
  have "seq_inv demo_log"
    using log_name_inj [of 1 2] by (auto simp: seq_inv_def demo_log_def sd_power_up_def intro: exI [of _ "1 :: u32"] exI [of _ "2 :: u32"])
  from sdlog_rotation [OF this, of demo_card map_typed False] show ?thesis
    by (auto simp: demo_log_def sd_power_up_def demo_card_def)
qed

section \<open>Flushing\<close>

definition file_data :: "string \<Rightarrow> sd_file list \<Rightarrow> string option" where
  "file_data n fs = map_option sf_data (find (\<lambda>f. sf_name f = n) fs)"

definition file_safe :: "string \<Rightarrow> sd_file list \<Rightarrow> string option" where
  "file_safe n fs = map_option sf_safe (find (\<lambda>f. sf_name f = n) fs)"

lemma file_data_Cons: "file_data n (f # fs) = (if sf_name f = n then Some (sf_data f) else file_data n fs)"
  and file_safe_Cons: "file_safe n (f # fs) = (if sf_name f = n then Some (sf_safe f) else file_safe n fs)"
  and file_data_Nil [simp]: "file_data n [] = None" and file_safe_Nil [simp]: "file_safe n [] = None"
  by (simp_all add: file_data_def file_safe_def)

lemma data_after_fsync [simp]: "file_data n (sd_files (fsync_active s)) = file_data n (sd_files s)"
proof -
  have "file_data n (map (\<lambda>f. if sd_fp s = Some (sf_name f) then f\<lparr>sf_safe := sf_data f\<rparr> else f) fs) = file_data n fs" for fs
    by (induction fs) (auto simp: file_data_Cons)
  then show ?thesis by (simp add: fsync_files)
qed

lemma safe_after_fsync:
  assumes "sd_fp s = Some n"
  shows "file_safe n (sd_files (fsync_active s)) = file_data n (sd_files s)"
proof -
  have "file_safe n (map (\<lambda>f. if sd_fp s = Some (sf_name f) then f\<lparr>sf_safe := sf_data f\<rparr> else f) fs) = file_data n fs" for fs
    using assms by (induction fs) (auto simp: file_data_Cons file_safe_Cons)
  then show ?thesis by (simp add: fsync_files)
qed

lemma append_keeps [simp]:
  "sd_fp (file_append cd t s) = sd_fp s" "sd_queue (file_append cd t s) = sd_queue s" "sd_task (file_append cd t s) = sd_task s"
  "sd_flushed (file_append cd t s) = sd_flushed s" "sd_cur_bytes (file_append cd t s) = sd_cur_bytes s + of_nat (min (cd_takes cd t) (length t))"
  by (simp_all add: file_append_def add_bytes_def file_put_def)

lemma data_after_append:
  assumes "sd_fp s = Some n" "file_data n (sd_files s) = Some d" "length t \<le> cd_takes cd t"
  shows "file_data n (sd_files (file_append cd t s)) = Some (d @ t)"
proof -
  have "file_data n (map (\<lambda>f. if sd_fp s = Some (sf_name f) then f\<lparr>sf_data := sf_data f @ take (cd_takes cd t) t\<rparr> else f) fs)
      = map_option (\<lambda>d. d @ t) (file_data n fs)" for fs
    using assms(1,3) by (induction fs) (auto simp: file_data_Cons)
  then show ?thesis using assms(2) by (simp add: file_append_def add_bytes_def file_put_def)
qed

text \<open>The writer with an open file that holds \<open>d\<close>; \<open>k\<close> bytes fit before the next rotation.\<close>

definition writing :: "string \<Rightarrow> string \<Rightarrow> sd_msg list \<Rightarrow> nat \<Rightarrow> 'h sd_log \<Rightarrow> bool" where
  "writing n d q k s \<longleftrightarrow> sd_fp s = Some n \<and> file_data n (sd_files s) = Some d \<and> sd_queue s = Some q \<and> sd_task s \<noteq> None
     \<and> unat (sd_cur_bytes s) + k < 2 ^ 20"

definition good_reading :: "sd_reading \<Rightarrow> bool" where
  "good_reading rd \<longleftrightarrow> (case sh_diag (sr_health rd) of None \<Rightarrow> True | Some (_, p, q) \<Rightarrow> p < 2 ^ 31 \<and> q < 2 ^ 31)"

lemma bytes_add:
  assumes "unat (w :: u32) + k < 2 ^ 20" "j \<le> k"
  shows "unat (w + of_nat j) = unat w + j"
proof -
  have "unat (of_nat j :: u32) = j" using assms by (simp add: unsigned_of_nat take_bit_nat_eq_self)
  then show ?thesis using assms by (subst unat_word_ariths) simp
qed

lemma append_writing:
  assumes "writing n d q (length t + k) s" "length t \<le> cd_takes cd t"
  shows "writing n (d @ t) q k (file_append cd t s)"
  using assms bytes_add [of "sd_cur_bytes s" "length t + k" "length t"] data_after_append [of s n d t cd]
  by (simp add: writing_def min_absorb2)

lemma fsync_writing: "writing n d q k s \<Longrightarrow> writing n d q k (fsync_active s)"
  by (simp add: writing_def)

lemma snap_writing:
  assumes "writing n d q (256 + k) s" "\<And>t. length t \<le> cd_takes cd t" "good_reading rd"
  shows "\<exists>c l' s'. write_snap cd rd (l, s) = (l', s') \<and> writing n (d @ c) q k s' \<and> sd_flushed s' = sd_flushed s"
proof (cases "sd_fp s \<noteq> None \<and> snap_interval_us rd \<le> sr_now rd - wr_last_snap l")
  case True
  let ?t = "snap_text (sr_health rd) (of_int (sr_now rd div 1000 div 1000)) (hb_age rd) (coord_age rd) (sd_dropped s)"
  have "length ?t < 256" using assms(3) by (intro snap_fits) (auto simp: good_reading_def split: option.splits)
  then have "writing n d q (length ?t + k) s" using assms(1) by (simp add: writing_def)
  from append_writing [OF this assms(2)] have "writing n (d @ ?t) q k (emit_snap cd rd s)" by (simp add: emit_snap_def)
  then show ?thesis using True by (auto simp: write_snap_def emit_snap_def)
next
  case False
  have "writing n (d @ []) q k s" using assms(1) by (simp add: writing_def)
  then show ?thesis using False by (auto simp: write_snap_def intro: exI [of _ "[]"])
qed

lemma periodic_writing:
  assumes "writing n d q k s"
  shows "\<exists>l' s'. periodic_fsync rd (l, s) = (l', s') \<and> writing n d q k s' \<and> sd_flushed s' = sd_flushed s"
  using assms fsync_writing [OF assms] by (auto simp: periodic_fsync_def)

lemma line_turn:
  assumes "writing n d (Log_line t # q) (length t + (256 + k)) s" "\<And>t. length t \<le> cd_takes cd t" "good_reading rd" "t \<noteq> []"
  shows "\<exists>c s'. writer_turn api cd rd s = Some s' \<and> writing n (d @ t @ c) q k s' \<and> sd_flushed s' = sd_flushed s"
proof -
  obtain l where l: "sd_task s = Some l" using assms(1) by (auto simp: writing_def)
  let ?s = "s\<lparr>sd_queue := Some q\<rparr>"
  have w: "writing n d q (length t + (256 + k)) ?s" using assms(1) by (simp add: writing_def)
  let ?u = "file_append cd t ?s"
  have w2: "writing n (d @ t) q (256 + k) ?u" using append_writing [OF w] assms(2) by simp
  have small: "\<not> SDLOG_FILE_MAX_BYTES \<le> sd_cur_bytes ?u"
    using w2 by (simp add: writing_def SDLOG_FILE_MAX_BYTES_def word_le_nat_alt)
  have line: "write_line api cd (sr_now rd) t (l, ?s) = Some (l\<lparr>wr_dirty := True\<rparr>, ?u)"
    using small by (simp add: write_line_def)
  obtain c l1 s1 where s1: "write_snap cd rd (l\<lparr>wr_dirty := True\<rparr>, ?u) = (l1, s1)" "writing n ((d @ t) @ c) q k s1" "sd_flushed s1 = sd_flushed ?u"
    using snap_writing [OF w2 assms(2,3)] by blast
  obtain l2 s2 where s2: "periodic_fsync rd (l1, s1) = (l2, s2)" "writing n ((d @ t) @ c) q k s2" "sd_flushed s2 = sd_flushed s1"
    using periodic_writing [OF s1(2)] by blast
  have "writer_log_turn api cd rd (Some t) (l, ?s) = Some (l2, s2)"
    using assms(4) w line s1(1) s2(1) by (simp add: writer_log_turn_def writing_def)
  then have "writer_turn api cd rd s = Some (s2\<lparr>sd_task := Some l2\<rparr>)"
    using assms(1) l by (simp add: writer_turn_def writing_def)
  moreover have "writing n (d @ t @ c) q k (s2\<lparr>sd_task := Some l2\<rparr>)" using s2(2) by (simp add: writing_def)
  ultimately show ?thesis using s1(3) s2(3) by (auto intro!: exI [of _ c])
qed

lemma lines_run:
  assumes "writing n d (map Log_line ls @ q) (k + sum_list (map (\<lambda>t. length t + 256) ls)) s" "\<And>t. length t \<le> cd_takes cd t"
    "length rds = length ls" "\<forall>rd\<in>set rds. good_reading rd" "\<forall>t\<in>set ls. t \<noteq> []"
  shows "\<exists>w s'. writer_run api cd (rds @ rds') s = writer_run api cd rds' s' \<and> writing n (d @ concat w) q k s' \<and> subseq ls w
     \<and> sd_flushed s' = sd_flushed s"
  using assms
proof (induction ls arbitrary: rds d s)
  case Nil
  then have "writing n (d @ concat []) q k s" by simp
  then show ?case using Nil.prems(3) by (intro exI [of _ "[]"] exI [of _ s]) simp
next
  case (Cons t ls)
  obtain rd rds1 where rds: "rds = rd # rds1" using Cons.prems(3) by (cases rds) auto
  let ?k = "k + sum_list (map (\<lambda>t. length t + 256) ls)"
  have "writing n d (Log_line t # (map Log_line ls @ q)) (length t + (256 + ?k)) s"
    using Cons.prems(1) by (simp add: add.assoc add.commute add.left_commute)
  moreover have "good_reading rd" "t \<noteq> []" using Cons.prems(4,5) rds by simp_all
  ultimately obtain c s1 where s1: "writer_turn api cd rd s = Some s1"
    "writing n (d @ t @ c) (map Log_line ls @ q) ?k s1" "sd_flushed s1 = sd_flushed s"
    using line_turn [OF _ Cons.prems(2), where api = api] by blast
  have ih: "\<exists>w s'. writer_run api cd (rds1 @ rds') s1 = writer_run api cd rds' s' \<and> writing n ((d @ t @ c) @ concat w) q k s' \<and> subseq ls w
     \<and> sd_flushed s' = sd_flushed s1"
    using s1(2) Cons.prems(2-5) rds by (intro Cons.IH) simp_all
  obtain w s' where w: "writer_run api cd (rds1 @ rds') s1 = writer_run api cd rds' s'" "writing n ((d @ t @ c) @ concat w) q k s'"
    "subseq ls w" "sd_flushed s' = sd_flushed s1"
    using ih by blast
  have "subseq (t # ls) (t # c # w)" using w(3) by (simp add: list_emb_Cons)
  moreover have "writing n (d @ concat (t # c # w)) q k s'" using w(2) by simp
  ultimately show ?case using w(1,4) s1(1,3) rds by (intro exI [of _ "t # c # w"] exI [of _ s']) simp
qed

text \<open>
  C23: when \<open>sdlog_flush\<close> reports success, what was queued before it would survive a power cut: the part of
  the open file that is safe is what the file held before the call and then, whole, in their order and with
  nothing but health lines between them, all the lines of the queue.  The card takes what is written, and
  the file is not so full that the lines need the next one.
\<close>

theorem sdlog_flush_durable:
  fixes s :: "'h sd_log"
  assumes "writing n d (map Log_line ls) (sum_list (map (\<lambda>t. length t + 256) ls)) s" "\<And>t. length t \<le> cd_takes cd t"
    "length rds = length ls + 1" "\<forall>rd\<in>set rds. good_reading rd" "\<forall>t\<in>set ls. t \<noteq> []" "length ls < SDLOG_QUEUE_DEPTH"
  shows "\<exists>w s'. sdlog_flush api cd rds s = Some (True, s') \<and> subseq ls w
     \<and> file_safe n (sd_files s') = Some (d @ concat w) \<and> file_data n (sd_files s') = Some (d @ concat w)"
proof -
  obtain r0 rd where r0: "rds = r0 @ [rd]" "length r0 = length ls" using assms(3) by (metis Suc_eq_plus1 length_Suc_conv_rev)
  let ?s = "s\<lparr>sd_queue := Some (map Log_line ls @ [Flush_marker])\<rparr>"
  have q: "sd_queue s = Some (map Log_line ls)" "sd_task s \<noteq> None" using assms(1) by (simp_all add: writing_def)
  have w0: "writing n d (map Log_line ls @ [Flush_marker]) (0 + sum_list (map (\<lambda>t. length t + 256) ls)) ?s" using assms(1) by (simp add: writing_def)
  obtain w s1 where s1: "writer_run api cd (r0 @ [rd]) ?s = writer_run api cd [rd] s1" "writing n (d @ concat w) [Flush_marker] 0 s1"
    "subseq ls w" "sd_flushed s1 = sd_flushed ?s"
    using lines_run [OF w0 assms(2) r0(2), where api = api and rds' = "[rd]"] assms(4,5) r0(1) by auto
  let ?s1 = "s1\<lparr>sd_queue := Some []\<rparr>"
  let ?s2 = "(fsync_active ?s1)\<lparr>sd_flushed := sd_flushed ?s1 + 1\<rparr>"
  have turn: "writer_run api cd [rd] s1 = Some ?s2" using s1(2) by (auto simp: writer_turn_def writing_def)
  have "sdlog_flush api cd rds s = Some (True, ?s2)"
    using q assms(6) s1(1,4) turn r0(1) by (simp add: sdlog_flush_def enqueue_def)
  moreover have "file_safe n (sd_files ?s2) = Some (d @ concat w)" "file_data n (sd_files ?s2) = Some (d @ concat w)"
    using s1(2) safe_after_fsync [of ?s1 n] by (simp_all add: writing_def)
  ultimately show ?thesis using s1(3) by blast
qed

definition demo_reading :: sd_reading where
  "demo_reading = \<lparr>sr_now = 5000000, sr_heartbeat_ms = 0, sr_control_ms = 0,
     sr_health = \<lparr>sh_free = 1, sh_min = 1, sh_spi = 1, sh_dram = 1, sh_dram_min = 1, sh_tasks = None, sh_diag = None\<rparr>\<rparr>"

lemma sdlog_flush_durable_witness:
  "\<exists>w s'. sdlog_flush map_typed demo_card [demo_reading, demo_reading, demo_reading] demo_log = Some (True, s') \<and> subseq [''x'', ''y''] w
     \<and> file_safe (log_name 2) (sd_files s') = Some (''b'' @ concat w)"
proof -
  have "writing (log_name 2) ''b'' (map Log_line [''x'', ''y'']) (sum_list (map (\<lambda>t. length t + 256) [''x'', ''y''])) demo_log"
    using log_name_inj [of 1 2] by (auto simp: writing_def demo_log_def sd_power_up_def file_data_def)
  from sdlog_flush_durable [OF this, of demo_card "[demo_reading, demo_reading, demo_reading]" map_typed] show ?thesis
    by (auto simp: demo_card_def demo_reading_def good_reading_def SDLOG_QUEUE_DEPTH_def)
qed

section \<open>Names and tails\<close>

text \<open>A name that is accepted stays in the directory of the logs: one component, not a dot pair, and uncut.\<close>

lemma name_is_safe_path:
  assumes "name_is_safe (Some n)"
  shows "build_path n = ''/sdcard/eslog/'' @ n" "CHR ''/'' \<notin> set n" "n \<noteq> ''..''" "n \<noteq> []"
  using assms by (auto simp: name_is_safe_def build_path_def SDLOG_NAME_MAX_def name_char_def)

text \<open>The listing is sorted, newest first, but of a directory with more files it has the first ones found, not the newest.\<close>

lemma insert_desc_sorted:
  "sorted_wrt (\<lambda>x y. \<not> case_less (fst x) (fst y)) fs \<Longrightarrow> sorted_wrt (\<lambda>x y. \<not> case_less (fst x) (fst y)) (insert_desc e fs)"
proof (induction fs)
  case (Cons f fs)
  show ?case
  proof (cases "case_less (fst e) (fst f)")
    case False
    then show ?thesis using Cons.prems case_less_neg_trans by (fastforce simp: cmp_name_desc_def)
  next
    case True
    have "set (insert_desc e fs) = insert e (set fs)" by (induction fs) auto
    moreover have "\<not> case_less (fst f) (fst e)" using True case_less_trans [of "fst e" "fst f" "fst e"] by auto
    ultimately show ?thesis using Cons True by (simp add: cmp_name_desc_def)
  qed
qed simp

lemma list_sorted: "sdlog_list_files m s = Some es \<Longrightarrow> sorted_wrt (\<lambda>x y. \<not> case_less (fst x) (fst y)) es \<and> length es \<le> nat m"
proof -
  have len: "length (foldr insert_desc fs []) = length fs" for fs
  proof (induction fs)
    case (Cons f fs)
    have "length (insert_desc f es) = Suc (length es)" for es by (induction es) auto
    then show ?case using Cons by simp
  qed simp
  have "sorted_wrt (\<lambda>x y. \<not> case_less (fst x) (fst y)) (foldr insert_desc fs [])" for fs
    by (induction fs) (simp_all add: insert_desc_sorted)
  then show "sdlog_list_files m s = Some es \<Longrightarrow> ?thesis" by (auto simp: sdlog_list_files_def len split: if_splits)
qed


section \<open>What the code does not do\<close>

text \<open>
  The number of the next file is in the settings, the files are on the card: on a card from another device, or
  after the settings were erased, the numbers start again.  Then the new file is opened over an old log, and
  with more logs than the limit it is the oldest, and is removed while it is open.
\<close>

definition demo_reset :: "nat \<Rightarrow> (unit typed_map) sd_log" where
  "demo_reset m = demo_log\<lparr>sd_next_seq := 1, sd_max_files := of_nat m, sd_fp := None\<rparr>"

lemma old_log_overwritten:
  "map_option (\<lambda>r. map sf_name (sd_files (snd r))) (open_new_file map_typed demo_card False (demo_reset 2)) = Some [''00000002.LOG'', ''00000001.LOG'']
   \<and> map_option (\<lambda>r. file_data ''00000001.LOG'' (sd_files (snd r)) = Some ''a'') (open_new_file map_typed demo_card False (demo_reset 2)) = Some False"
  by code_simp

lemma new_log_pruned:
  "map_option (\<lambda>r. (sd_fp (snd r), map sf_name (sd_files (snd r)))) (open_new_file map_typed demo_card False (demo_reset 1))
     = Some (Some ''00000001.LOG'', [''00000002.LOG''])"
  by code_simp

text \<open>A writer that does not stop in a second still runs when its queue is deleted.\<close>

lemma queue_deleted_under_writer:
  assumes "sd_task s \<noteq> None"
  shows "\<exists>s'. sdlog_disable api cd [] s = Some s' \<and> sd_task s' \<noteq> None \<and> sd_queue s' = None"
proof -
  have "sd_task (snd (enqueue Poison (s\<lparr>sd_enabled := False\<rparr>))) = sd_task s" by (simp add: enqueue_def split: option.split)
  then show ?thesis using assms by (auto simp: sdlog_disable_def stop_writer_def)
qed

text \<open>A listing that is too short for the directory has the first files of it, here the oldest.\<close>

lemma newest_not_listed: "map_option (map fst) (sdlog_list_files 1 (demo_log\<lparr>sd_present := True\<rparr>)) = Some [''00000001.LOG'']"
  by code_simp

text \<open>The second piece of a long line has no level: it is recorded although the line is below the level.\<close>

lemma long_line_leaks:
  "(let s = demo_log\<lparr>sd_enabled := True, sd_sd_level := SDLOG_LVL_WARN, sd_queue := Some [], sd_rawbuf := Some []\<rparr>;
        s = snd (sdlog_vprintf ''I (1) x'' (''I (1) x'' @ replicate 250 (CHR ''z'')) False True s)
    in sd_queue (snd (sdlog_vprintf ''tail'' (''tail'' @ [CHR 0x0A]) False True s)) = Some [Log_line (''tail'' @ [CHR 0x0A])])"
  by code_simp

end
