(* ===== verification/Tailscale_Mtu.thy ===== *)
theory Tailscale_Mtu
  imports Nvs_Typed Route_Hook
begin

text \<open>
  The tunnel's MTU (\<open>main/tailscale_mtu.c\<close>): chosen by the user or from the path of the peers, and
  applied to the tunnel's interface and to the two values that the packet hooks read,
  \<open>ap_mss_clamp\<close> and \<open>ap_pmtu\<close>.  The peer list of microlink is a parameter; a peer whose
  \<open>microlink_get_peer_info\<close> fails is \<open>None\<close>.  The periodic timer is the event that runs
  \<open>tailscale_mtu_update\<close> again.
\<close>

datatype ts_mtu_mode = TS_MTU_AUTO | TS_MTU_FIXED

definition TS_MTU_DIRECT_DEFAULT :: u16 where "TS_MTU_DIRECT_DEFAULT = 1420"
definition TS_MTU_DERP_DEFAULT :: u16 where "TS_MTU_DERP_DEFAULT = 1280"
definition TS_MTU_MIN :: u16 where "TS_MTU_MIN = 576"
definition TS_MTU_MAX :: u16 where "TS_MTU_MAX = 1500"

lemmas mtu_constants = TS_MTU_DIRECT_DEFAULT_def TS_MTU_DERP_DEFAULT_def TS_MTU_MIN_def TS_MTU_MAX_def

record mtu_netif = lw_netif +
  ni_mtu :: u16

record path_peer = ml_peer +
  pp_online :: bool
  pp_direct :: bool

record ts_mtu_state =
  mt_mode :: ts_mtu_mode
  mt_fixed :: u16
  mt_eff_mtu :: u16
  mt_eff_mss :: u16
  mt_eff_pmtu :: u16
  mt_source :: string

text \<open>The module's state, the two values it owns for the hooks, and the interface list.\<close>

record mtu_world =
  mw_state :: ts_mtu_state
  mw_ap_mss_clamp :: u16
  mw_ap_pmtu :: u16
  mw_netifs :: "mtu_netif list"
  mw_timer :: bool

text \<open>What it reads: the settings and the peers (\<open>None\<close>: no microlink).\<close>

record mtu_env =
  me_enabled :: bool
  me_exit_node :: u32
  me_peers :: "path_peer option list option"

definition mtu_state_boot :: ts_mtu_state where
  "mtu_state_boot = \<lparr>mt_mode = TS_MTU_AUTO, mt_fixed = TS_MTU_DERP_DEFAULT, mt_eff_mtu = 0, mt_eff_mss = 0, mt_eff_pmtu = 0, mt_source = ''off''\<rparr>"

definition mtu_boot :: "mtu_netif list \<Rightarrow> mtu_world" where
  "mtu_boot nl = \<lparr>mw_state = mtu_state_boot, mw_ap_mss_clamp = 0, mw_ap_pmtu = 0, mw_netifs = nl, mw_timer = False\<rparr>"

definition is_wg_name :: "'a lw_netif_scheme \<Rightarrow> bool" where
  "is_wg_name n \<longleftrightarrow> ni_name n = (CHR ''w'', CHR ''g'')"

definition live_direct :: "path_peer \<Rightarrow> bool" where
  "live_direct p \<longleftrightarrow> pp_online p \<and> pp_direct p"

fun any_direct_loop :: "path_peer option list \<Rightarrow> bool" where
  "any_direct_loop [] = False"
| "any_direct_loop (None # ps) = any_direct_loop ps"
| "any_direct_loop (Some p # ps) = (if live_direct p then True else any_direct_loop ps)"

definition any_direct_peer :: "mtu_env \<Rightarrow> bool" where
  "any_direct_peer e = (case me_peers e of None \<Rightarrow> False | Some ps \<Rightarrow> any_direct_loop ps)"

fun exit_derp_loop :: "u32 \<Rightarrow> path_peer option list \<Rightarrow> bool" where
  "exit_derp_loop ip [] = True"
| "exit_derp_loop ip (None # ps) = exit_derp_loop ip ps"
| "exit_derp_loop ip (Some p # ps) = (if mp_vpn_ip p = ip then \<not> live_direct p else exit_derp_loop ip ps)"

definition exit_path_is_derp :: "mtu_env \<Rightarrow> bool" where
  "exit_path_is_derp e =
     (if me_exit_node e = 0 then False
      else case me_peers e of None \<Rightarrow> True | Some ps \<Rightarrow> exit_derp_loop (me_exit_node e) ps)"

text \<open>The first interface called \<open>wg\<close> gets the MTU.\<close>

fun set_wg_mtu :: "u16 \<Rightarrow> mtu_netif list \<Rightarrow> mtu_netif list" where
  "set_wg_mtu m [] = []"
| "set_wg_mtu m (n # ns) = (if is_wg_name n then (if 0 < m \<and> ni_mtu n \<noteq> m then n\<lparr>ni_mtu := m\<rparr> else n) # ns else n # set_wg_mtu m ns)"

definition mtu_apply :: "u16 \<Rightarrow> u16 \<Rightarrow> u16 \<Rightarrow> string \<Rightarrow> mtu_world \<Rightarrow> mtu_world" where
  "mtu_apply mtu mss pmtu src w =
     w\<lparr>mw_state := (mw_state w)\<lparr>mt_eff_mtu := mtu, mt_eff_mss := mss, mt_eff_pmtu := pmtu, mt_source := src\<rparr>,
       mw_ap_mss_clamp := mss, mw_ap_pmtu := pmtu, mw_netifs := set_wg_mtu mtu (mw_netifs w)\<rparr>"

text \<open>The MTU and the text that says where it comes from.\<close>

definition choose_mtu :: "mtu_env \<Rightarrow> ts_mtu_state \<Rightarrow> u16 \<times> string" where
  "choose_mtu e s =
     (if mt_mode s = TS_MTU_FIXED
      then (let mtu = mt_fixed s;
                mtu = (if mtu < TS_MTU_MIN then TS_MTU_MIN else mtu);
                mtu = (if TS_MTU_MAX < mtu then TS_MTU_MAX else mtu) in (mtu, ''user''))
      else (let (derp, src) =
              (if me_exit_node e \<noteq> 0
               then (let derp = exit_path_is_derp e in (derp, if derp then ''auto-DERP (exit relayed)'' else ''auto-direct (exit direct)''))
               else (let derp = \<not> any_direct_peer e in (derp, if derp then ''auto-DERP'' else ''auto-direct'')))
            in (if derp then TS_MTU_DERP_DEFAULT else TS_MTU_DIRECT_DEFAULT, src)))"

definition tailscale_mtu_update :: "mtu_env \<Rightarrow> mtu_world \<Rightarrow> mtu_world" where
  "tailscale_mtu_update e w =
     (if \<not> me_enabled e then mtu_apply 0 0 0 ''off'' w
      else (let (mtu, src) = choose_mtu e (mw_state w);
                mss = (if 40 < mtu then mtu - 40 else 0);
                pmtu = (if 0 < mtu then mtu + 20 else 0)
            in mtu_apply mtu mss pmtu src w))"

definition mode_byte :: "ts_mtu_mode \<Rightarrow> u8" where
  "mode_byte m = (case m of TS_MTU_AUTO \<Rightarrow> 0 | TS_MTU_FIXED \<Rightarrow> 1)"

definition tailscale_mtu_set ::
  "('h, 'b) nvs_typed \<Rightarrow> mtu_env \<Rightarrow> ts_mtu_mode \<Rightarrow> u16 \<Rightarrow> 'h \<times> mtu_world \<Rightarrow> esp_err \<times> 'h \<times> mtu_world" where
  "tailscale_mtu_set api e mode fixed_mtu hw =
     (let (h, w) = hw in
      if mode = TS_MTU_FIXED \<and> (fixed_mtu < TS_MTU_MIN \<or> TS_MTU_MAX < fixed_mtu) then (ESP_ERR_INVALID_ARG, h, w)
      else (let w = w\<lparr>mw_state := (mw_state w)\<lparr>mt_mode := mode, mt_fixed := fixed_mtu\<rparr>\<rparr>;
                h = (if nt_open_rw api h \<noteq> ESP_OK then h
                     else (let h = snd (nt_set api h ''ts_mtu_mode'' (V8 (mode_byte mode)));
                               h = snd (nt_set api h ''ts_mtu'' (V16 fixed_mtu))
                           in snd (nt_commit api h)))
            in (ESP_OK, h, tailscale_mtu_update e w)))"

text \<open>What the flash says of the two settings.\<close>

definition mtu_load :: "('h, 'b) nvs_typed \<Rightarrow> 'h \<Rightarrow> ts_mtu_state \<Rightarrow> ts_mtu_state" where
  "mtu_load api h s =
     (if nt_open_ro api h \<noteq> ESP_OK then s
      else (let s = (case get_u8 api h ''ts_mtu_mode'' of None \<Rightarrow> s
                     | Some m \<Rightarrow> s\<lparr>mt_mode := (if m = mode_byte TS_MTU_FIXED then TS_MTU_FIXED else TS_MTU_AUTO)\<rparr>)
            in (case get_u16 api h ''ts_mtu'' of None \<Rightarrow> s
                | Some fm \<Rightarrow> if TS_MTU_MIN \<le> fm \<and> fm \<le> TS_MTU_MAX then s\<lparr>mt_fixed := fm\<rparr> else s)))"

definition tailscale_mtu_init :: "('h, 'b) nvs_typed \<Rightarrow> mtu_env \<Rightarrow> bool \<Rightarrow> 'h \<Rightarrow> mtu_world \<Rightarrow> mtu_world" where
  "tailscale_mtu_init api e timer_ok h w =
     (let w = tailscale_mtu_update e (w\<lparr>mw_state := mtu_load api h (mw_state w)\<rparr>)
      in if mw_timer w then w else w\<lparr>mw_timer := timer_ok\<rparr>)"

definition tailscale_mtu_get :: "mtu_world \<Rightarrow> ts_mtu_state" where
  "tailscale_mtu_get w = mw_state w"

section \<open>The values are consistent\<close>

definition mtu_consistent :: "mtu_world \<Rightarrow> bool" where
  "mtu_consistent w \<longleftrightarrow> (let s = mw_state w in
     mw_ap_mss_clamp w = mt_eff_mss s \<and> mw_ap_pmtu w = mt_eff_pmtu s \<and>
     (if mt_eff_mtu s = 0 then mt_eff_mss s = 0 \<and> mt_eff_pmtu s = 0
      else 576 \<le> unat (mt_eff_mtu s) \<and> unat (mt_eff_mtu s) \<le> 1500 \<and>
           unat (mt_eff_mss s) = unat (mt_eff_mtu s) - 40 \<and> unat (mt_eff_pmtu s) = unat (mt_eff_mtu s) + 20))"

lemma choose_mtu_range: "576 \<le> unat (fst (choose_mtu e s)) \<and> unat (fst (choose_mtu e s)) \<le> 1500"
proof (cases "mt_mode s")
  case TS_MTU_AUTO
  then show ?thesis by (simp add: choose_mtu_def Let_def mtu_constants split: prod.split)
next
  case TS_MTU_FIXED
  then show ?thesis by (auto simp: choose_mtu_def Let_def mtu_constants word_less_nat_alt not_less)
qed

lemma range_mss:
  assumes "576 \<le> unat (m :: u16)" and "unat m \<le> 1500"
  shows "40 < m" "0 < m" "unat (m - 40) = unat m - 40" "unat (m + 20) = unat m + 20"
proof -
  show g: "40 < m" using assms(1) by (simp add: word_less_nat_alt)
  show "0 < m" using assms(1) by (simp add: word_less_nat_alt)
  show "unat (m - 40) = unat m - 40" using g by (simp add: unat_sub order.strict_implies_order)
  show "unat (m + 20) = unat m + 20" using assms(2) by (subst unat_add_lem [THEN iffD1]) simp_all
qed

lemma wg_of_set_wg_mtu:
  "find is_wg_name (set_wg_mtu m nl) = map_option (\<lambda>n. if 0 < m then n\<lparr>ni_mtu := m\<rparr> else n) (find is_wg_name nl)"
  by (induction nl) (auto simp: is_wg_name_def)

lemma update_shape:
  "tailscale_mtu_update e w =
     (if me_enabled e
      then (let m = fst (choose_mtu e (mw_state w)) in mtu_apply m (m - 40) (m + 20) (snd (choose_mtu e (mw_state w))) w)
      else mtu_apply 0 0 0 ''off'' w)"
proof (cases "choose_mtu e (mw_state w)")
  case (Pair m s)
  then have "40 < m" "0 < m" using range_mss choose_mtu_range [of e "mw_state w"] by auto
  then show ?thesis by (simp add: tailscale_mtu_update_def Let_def Pair)
qed

lemma update_values:
  "let w' = tailscale_mtu_update e w; m = mt_eff_mtu (mw_state w') in
     mtu_consistent w' \<and>
     (if me_enabled e then m \<noteq> 0 \<and> map_option ni_mtu (find is_wg_name (mw_netifs w')) = map_option (\<lambda>_. m) (find is_wg_name (mw_netifs w))
      else m = 0 \<and> mw_netifs w' = mw_netifs w)"
proof -
  have off: "set_wg_mtu 0 nl = nl" for nl by (induction nl) auto
  note r = choose_mtu_range [of e "mw_state w"]
  note f = range_mss [OF conjunct1 [OF r] conjunct2 [OF r]]
  from f(2) have "fst (choose_mtu e (mw_state w)) \<noteq> 0" by auto
  then show ?thesis using r f
    by (auto simp: update_shape Let_def mtu_apply_def mtu_consistent_def off wg_of_set_wg_mtu option.map_comp o_def intro!: option.map_cong)
qed

text \<open>
  After every update the values fit together: with the tunnel on, the MTU is between 576 and 1500,
  the MSS clamp is 40 bytes below it and the path MTU 20 above, without wrap-around, and the tunnel's
  interface has that MTU; with the tunnel off, both clamps are off.
\<close>

theorem mtu_values_fit:
  "let w' = tailscale_mtu_update e w; m = mt_eff_mtu (mw_state w') in
     mtu_consistent w' \<and>
     (if me_enabled e then m \<noteq> 0 \<and> map_option ni_mtu (find is_wg_name (mw_netifs w')) = map_option (\<lambda>_. m) (find is_wg_name (mw_netifs w))
      else m = 0 \<and> mw_netifs w' = mw_netifs w)"
  by (rule update_values)

section \<open>Which path counts\<close>

lemma any_direct_iff: "any_direct_loop ps \<longleftrightarrow> (\<exists>p. Some p \<in> set ps \<and> live_direct p)"
  by (induction ps rule: any_direct_loop.induct) auto

lemma exit_derp_iff:
  "exit_derp_loop ip ps \<longleftrightarrow> \<not> (\<exists>p. find (\<lambda>q. case q of None \<Rightarrow> False | Some p \<Rightarrow> mp_vpn_ip p = ip) ps = Some (Some p) \<and> live_direct p)"
  by (induction ip ps rule: exit_derp_loop.induct) auto

text \<open>The path that the forwarded packets take is known to be direct.\<close>

definition egress_direct :: "mtu_env \<Rightarrow> bool" where
  "egress_direct e \<longleftrightarrow> (case me_peers e of None \<Rightarrow> False | Some ps \<Rightarrow>
     if me_exit_node e = 0 then (\<exists>p. Some p \<in> set ps \<and> live_direct p)
     else (\<exists>p. find (\<lambda>q. case q of None \<Rightarrow> False | Some p \<Rightarrow> mp_vpn_ip p = me_exit_node e) ps = Some (Some p) \<and> live_direct p))"

text \<open>
  In automatic mode the tunnel gets the large MTU of a direct path exactly when the peer that
  carries the traffic is online with a direct path: the exit node itself when one is selected (other
  peers do not count), any peer otherwise.  An unknown exit node or no tunnel means the small MTU.
\<close>

theorem mtu_auto_follows_path:
  assumes "me_enabled e" and "mt_mode (mw_state w) = TS_MTU_AUTO"
  shows "mt_eff_mtu (mw_state (tailscale_mtu_update e w)) = (if egress_direct e then TS_MTU_DIRECT_DEFAULT else TS_MTU_DERP_DEFAULT)"
proof -
  have "fst (choose_mtu e (mw_state w)) = (if egress_direct e then TS_MTU_DIRECT_DEFAULT else TS_MTU_DERP_DEFAULT)"
    using assms(2) by (auto simp: choose_mtu_def Let_def egress_direct_def exit_path_is_derp_def any_direct_peer_def
        any_direct_iff exit_derp_iff split: option.splits)
  then show ?thesis using assms(1) by (simp add: update_shape Let_def mtu_apply_def)
qed

section \<open>Settings survive a reset\<close>

lemma mtu_set_flash:
  assumes "nt_lawful api" and "nt_healthy api" and "tailscale_mtu_set api e mode f (h, w) = (ESP_OK, h', w')"
  shows "get_u8 api h' ''ts_mtu_mode'' = Some (mode_byte mode) \<and> get_u16 api h' ''ts_mtu'' = Some f \<and>
    w' = tailscale_mtu_update e (w\<lparr>mw_state := (mw_state w)\<lparr>mt_mode := mode, mt_fixed := f\<rparr>\<rparr>) \<and>
    (mode = TS_MTU_AUTO \<or> TS_MTU_MIN \<le> f \<and> f \<le> TS_MTU_MAX)"
proof -
  let ?h1 = "snd (nt_set api h ''ts_mtu_mode'' (V8 (mode_byte mode)))"
  let ?h2 = "snd (nt_set api ?h1 ''ts_mtu'' (V16 f))"
  note ok = nt_healthyD [OF assms(2)]
  have h': "h' = snd (nt_commit api ?h2)" and w': "w' = tailscale_mtu_update e (w\<lparr>mw_state := (mw_state w)\<lparr>mt_mode := mode, mt_fixed := f\<rparr>\<rparr>)"
    and m: "\<not> (mode = TS_MTU_FIXED \<and> (f < TS_MTU_MIN \<or> TS_MTU_MAX < f))"
    using assms(3) ok by (auto simp: tailscale_mtu_set_def Let_def split: if_splits)
  have "nt_get api h' = nt_get api ?h2" using nt_commit_get [OF assms(1) ok(3)] h' by simp
  moreover have "nt_get api ?h2 T16 ''ts_mtu'' = Some (V16 f)" using nt_set_same [OF assms(1) ok(4), of ?h1 "''ts_mtu''" "V16 f"] by simp
  moreover have "nt_get api ?h2 T8 ''ts_mtu_mode'' = Some (V8 (mode_byte mode))"
    using nt_set_same [OF assms(1) ok(4), of h "''ts_mtu_mode''" "V8 (mode_byte mode)"] nt_set_other [OF assms(1), of "''ts_mtu_mode''" "''ts_mtu''" ?h1 "V16 f" T8]
    by simp
  ultimately show ?thesis using w' m by (cases mode) (auto simp: get_u8_def get_u16_def not_less)
qed

lemma choose_mtu_cong:
  "mt_mode s = mt_mode s' \<Longrightarrow> mt_mode s' = TS_MTU_AUTO \<or> mt_fixed s = mt_fixed s' \<Longrightarrow> choose_mtu e s = choose_mtu e s'"
  by (auto simp: choose_mtu_def)

text \<open>
  An accepted MTU setting is what every later boot uses: with the same peers the tunnel gets the
  same MTU, MSS clamp and path MTU as right after the setting.  A fixed MTU out of range is refused
  and changes nothing.
\<close>

theorem mtu_setting_survives:
  assumes "nt_lawful api" and "nt_healthy api"
  shows "case tailscale_mtu_set api e mode f (h, w) of (err, h', w') \<Rightarrow>
     if mode = TS_MTU_FIXED \<and> \<not> (576 \<le> unat f \<and> unat f \<le> 1500) then err = ESP_ERR_INVALID_ARG \<and> h' = h \<and> w' = w
     else err = ESP_OK \<and>
       (let w2 = tailscale_mtu_init api e t h' (mtu_boot nl) in
        mt_mode (mw_state w2) = mode \<and> mt_eff_mtu (mw_state w2) = mt_eff_mtu (mw_state w') \<and>
        mw_ap_mss_clamp w2 = mw_ap_mss_clamp w' \<and> mw_ap_pmtu w2 = mw_ap_pmtu w' \<and> mt_source (mw_state w2) = mt_source (mw_state w'))"
proof (cases "mode = TS_MTU_FIXED \<and> \<not> (576 \<le> unat f \<and> unat f \<le> 1500)")
  case True
  then show ?thesis by (auto simp: tailscale_mtu_set_def Let_def mtu_constants word_less_nat_alt)
next
  case False
  obtain err h' w' where r: "tailscale_mtu_set api e mode f (h, w) = (err, h', w')" by (metis prod.collapse)
  then have err: "err = ESP_OK" using False by (auto simp: tailscale_mtu_set_def Let_def mtu_constants word_less_nat_alt split: if_splits)
  note s = mtu_set_flash [OF assms r [unfolded err]]
  let ?l = "mtu_load api h' (mw_state (mtu_boot nl))"
  have "mt_mode ?l = mode" using s nt_healthyD(1) [OF assms(2)] by (cases mode) (auto simp: mtu_load_def mode_byte_def Let_def)
  moreover have "mode = TS_MTU_AUTO \<or> mt_fixed ?l = f" using s nt_healthyD(1) [OF assms(2)] by (cases mode) (auto simp: mtu_load_def Let_def)
  ultimately have "choose_mtu e ?l = choose_mtu e ((mw_state w)\<lparr>mt_mode := mode, mt_fixed := f\<rparr>)" and m: "mt_mode ?l = mode"
    by (auto intro!: choose_mtu_cong)
  then show ?thesis using False s err unfolding r
    by (auto simp: tailscale_mtu_init_def update_shape Let_def mtu_apply_def mtu_boot_def)
qed

section \<open>Concrete runs\<close>

definition demo_peer :: "u32 \<Rightarrow> bool \<Rightarrow> path_peer" where
  "demo_peer ip d = \<lparr>mp_vpn_ip = ip, mp_hostname = ''peer'', mp_routes = [], pp_online = True, pp_direct = d\<rparr>"

text \<open>A direct peer at home, and an exit node behind a relay.\<close>

definition demo_mtu_env :: mtu_env where
  "demo_mtu_env = \<lparr>me_enabled = True, me_exit_node = 0x64400002,
     me_peers = Some [Some (demo_peer 0x64400001 True), None, Some (demo_peer 0x64400002 False)]\<rparr>"

lemma mtu_auto_follows_path_witness:
  "mt_eff_mtu (mw_state (tailscale_mtu_update demo_mtu_env (mtu_boot []))) = 1280 \<and>
   mt_eff_mtu (mw_state (tailscale_mtu_update (demo_mtu_env\<lparr>me_exit_node := 0\<rparr>) (mtu_boot []))) = 1420"
proof -
  have "me_enabled demo_mtu_env" "me_enabled (demo_mtu_env\<lparr>me_exit_node := 0\<rparr>)" "mt_mode (mw_state (mtu_boot [])) = TS_MTU_AUTO"
    by (simp_all add: demo_mtu_env_def mtu_boot_def mtu_state_boot_def)
  from mtu_auto_follows_path [OF this(1,3)] mtu_auto_follows_path [OF this(2,3)] show ?thesis
    by (simp add: egress_direct_def demo_mtu_env_def demo_peer_def live_direct_def mtu_constants ex_disj_distrib conj_disj_distribR)
qed

lemma mtu_setting_survives_witness:
  "case tailscale_mtu_set (map_typed :: (unit typed_map, unit) nvs_typed) demo_mtu_env TS_MTU_FIXED 1300 (\<lambda>_ _. None, mtu_boot []) of (err, h', w') \<Rightarrow>
     err = ESP_OK \<and> mw_ap_mss_clamp (tailscale_mtu_init map_typed demo_mtu_env True h' (mtu_boot [])) = mw_ap_mss_clamp w'"
  using mtu_setting_survives [where api = "map_typed :: (unit typed_map, unit) nvs_typed" and e = demo_mtu_env and mode = TS_MTU_FIXED
      and f = 1300 and h = "\<lambda>_ _. None" and w = "mtu_boot []" and t = True and nl = "[]", OF map_typed_lawful map_typed_healthy]
  by (auto simp: Let_def split: prod.splits)

end
