(* ===== verification/Tailscale.thy ===== *)
theory Tailscale
  imports Nvs_Typed Fourvia6
begin

text \<open>
  The tunnel's settings and life cycle (\<open>main/tailscale_manager.c\<close>).  microlink is a parameter: a
  record of its calls over a state \<open>'w\<close>, with handles \<open>'m\<close>.  \<open>tr_sdlog\<close> is the handle that the SD
  recorder samples from its own task (\<open>sdlog_set_microlink\<close>).  \<open>tr_calls\<close> is the history of the calls
  that create, use and free an instance; the code does not keep it, the theorems speak about it.
\<close>

section \<open>Settings\<close>

text \<open>The globals; integers are \<open>int32_t\<close>, a string that was not loaded yet is \<open>NULL\<close>.\<close>

record ts_settings =
  ts_enabled :: u32
  ts_auth_key :: "string option"
  ts_hostname :: "string option"
  ts_login_server :: "string option"
  ts_advertise_routes :: "string option"
  ts_advertise_exit_node :: u32
  ts_max_peers :: u32
  ts_exit_node_ip :: u32
  ts_netcheck_override :: u32
  ts_netcheck_threshold_ms :: u32
  ts_default_derp_region :: u32
  ts_lan_bypass :: u32
  ts_accept_routes :: u32
  ts_snat_subnet_routes :: u32

definition ts_defaults :: ts_settings where
  "ts_defaults = \<lparr>ts_enabled = 0, ts_auth_key = None, ts_hostname = None, ts_login_server = None, ts_advertise_routes = None,
     ts_advertise_exit_node = 0, ts_max_peers = 16, ts_exit_node_ip = 0, ts_netcheck_override = 0, ts_netcheck_threshold_ms = 100,
     ts_default_derp_region = 0, ts_lan_bypass = 1, ts_accept_routes = 0, ts_snat_subnet_routes = 0\<rparr>"

definition flag :: "u32 \<Rightarrow> u32" where "flag v = (if v \<noteq> 0 then 1 else 0)"

definition nvs_str_or_empty :: "('h, 'b) nvs_typed \<Rightarrow> 'h \<Rightarrow> string \<Rightarrow> string option" where
  "nvs_str_or_empty api h k = Some (case param_str api h k of None \<Rightarrow> [] | Some s \<Rightarrow> s)"

text \<open>A setting that is there, acceptable, and what becomes of it; \<open>old\<close> otherwise.\<close>

definition load_int :: "('h, 'b) nvs_typed \<Rightarrow> 'h \<Rightarrow> string \<Rightarrow> (u32 \<Rightarrow> bool) \<Rightarrow> (u32 \<Rightarrow> u32) \<Rightarrow> u32 \<Rightarrow> u32" where
  "load_int api h k ok f old = (case param_int api h k of None \<Rightarrow> old | Some v \<Rightarrow> if ok v then f v else old)"

definition always :: "u32 \<Rightarrow> bool" where "always v = True"

definition max_peers_ok :: "u32 \<Rightarrow> bool" where "max_peers_ok v \<longleftrightarrow> 1 \<le> sint v \<and> sint v \<le> 64"
definition threshold_ok :: "u32 \<Rightarrow> bool" where "threshold_ok v \<longleftrightarrow> 0 \<le> sint v \<and> sint v \<le> 5000"
definition region_ok :: "u32 \<Rightarrow> bool" where "region_ok v \<longleftrightarrow> 0 \<le> sint v \<and> sint v \<le> 65535"

text \<open>Every setting is read on its own; one that is missing or out of range keeps its value.\<close>

definition ts_load :: "('h, 'b) nvs_typed \<Rightarrow> 'h \<Rightarrow> ts_settings \<Rightarrow> ts_settings" where
  "ts_load api h s =
     s\<lparr>ts_enabled := load_int api h ''ts_enabled'' always id (ts_enabled s),
       ts_auth_key := nvs_str_or_empty api h ''ts_authkey'',
       ts_hostname := nvs_str_or_empty api h ''ts_hostname'',
       ts_login_server := nvs_str_or_empty api h ''ts_login'',
       ts_advertise_routes := nvs_str_or_empty api h ''ts_routes'',
       ts_advertise_exit_node := load_int api h ''ts_adv_exit'' always flag (ts_advertise_exit_node s),
       ts_max_peers := load_int api h ''ts_maxpeers'' max_peers_ok id (ts_max_peers s),
       ts_exit_node_ip := load_int api h ''ts_exit_node'' always id (ts_exit_node_ip s),
       ts_netcheck_override := load_int api h ''ts_nc_ovr'' always flag (ts_netcheck_override s),
       ts_netcheck_threshold_ms := load_int api h ''ts_nc_thr'' threshold_ok id (ts_netcheck_threshold_ms s),
       ts_default_derp_region := load_int api h ''ts_def_derp'' region_ok id (ts_default_derp_region s),
       ts_lan_bypass := load_int api h ''ts_lan_bp'' always flag (ts_lan_bypass s),
       ts_accept_routes := load_int api h ''ts_acpt_rt'' always flag (ts_accept_routes s),
       ts_snat_subnet_routes := load_int api h ''ts_snat_sr'' always flag (ts_snat_subnet_routes s)\<rparr>"

definition tailscale_init :: "('h, 'b) nvs_typed \<Rightarrow> 'h \<times> ts_settings \<Rightarrow> 'h \<times> ts_settings" where
  "tailscale_init api hs =
     (let (h, s) = hs; s = ts_load api h s
      in if ts_advertise_exit_node s \<noteq> 0 \<and> ts_exit_node_ip s \<noteq> 0
         then (snd (param_set api h ''ts_adv_exit'' (VI32 0)), s\<lparr>ts_advertise_exit_node := 0\<rparr>)
         else (h, s))"

section \<open>Life cycle\<close>

record ml_config =
  mc_auth_key :: string
  mc_device_name :: "string option"
  mc_max_peers :: u8
  mc_exit_node_ip :: u32
  mc_ctrl_host :: "string option"
  mc_advertise_routes :: "string option"
  mc_netcheck_override :: bool
  mc_netcheck_threshold_ms :: u32
  mc_preferred_derp_region :: u16

record ('m, 'w) microlink =
  ml_init :: "ml_config \<Rightarrow> 'w \<Rightarrow> 'm option \<times> 'w"
  ml_start :: "'m \<Rightarrow> 'w \<Rightarrow> esp_err \<times> 'w"
  ml_stop :: "'m \<Rightarrow> 'w \<Rightarrow> 'w"
  ml_destroy :: "'m \<Rightarrow> 'w \<Rightarrow> 'w"
  ml_connected :: "'m \<Rightarrow> 'w \<Rightarrow> bool"
  ml_vpn_ip :: "'m \<Rightarrow> 'w \<Rightarrow> u32"

datatype 'm ml_call =
    Called_init ml_config "'m option"
  | Called_start 'm
  | Called_stop 'm
  | Called_destroy 'm
  | Recorder_set "'m option"

record ('m, 'w) ts_run =
  tr_settings :: ts_settings
  tr_connected :: bool
  tr_tunnel_ip :: u32
  tr_subnet_ip :: u32
  tr_subnet_mask :: u32
  tr_microlink :: "'m option"
  tr_sdlog :: "'m option"
  tr_calls :: "'m ml_call list"
  tr_world :: 'w

definition ts_run_boot :: "ts_settings \<Rightarrow> 'w \<Rightarrow> ('m, 'w) ts_run" where
  "ts_run_boot s w = \<lparr>tr_settings = s, tr_connected = False, tr_tunnel_ip = 0, tr_subnet_ip = 0, tr_subnet_mask = 0,
     tr_microlink = None, tr_sdlog = None, tr_calls = [], tr_world = w\<rparr>"

definition tailscale_set_subnet :: "u32 \<Rightarrow> u32 \<Rightarrow> ('m, 'w) ts_run \<Rightarrow> ('m, 'w) ts_run" where
  "tailscale_set_subnet ip m st = st\<lparr>tr_subnet_ip := ip, tr_subnet_mask := m\<rparr>"

definition tailscale_in_subnet :: "('m, 'w) ts_run \<Rightarrow> u32 \<Rightarrow> bool" where
  "tailscale_in_subnet st ip \<longleftrightarrow> tr_subnet_mask st \<noteq> 0 \<and> ip AND tr_subnet_mask st = tr_subnet_ip st"

text \<open>One call each.\<close>

definition sdlog_set_microlink :: "'m option \<Rightarrow> ('m, 'w) ts_run \<Rightarrow> ('m, 'w) ts_run" where
  "sdlog_set_microlink m st = st\<lparr>tr_sdlog := m, tr_calls := tr_calls st @ [Recorder_set m]\<rparr>"

definition do_stop :: "('m, 'w) microlink \<Rightarrow> 'm \<Rightarrow> ('m, 'w) ts_run \<Rightarrow> ('m, 'w) ts_run" where
  "do_stop ml m st = st\<lparr>tr_world := ml_stop ml m (tr_world st), tr_calls := tr_calls st @ [Called_stop m]\<rparr>"

definition do_destroy :: "('m, 'w) microlink \<Rightarrow> 'm \<Rightarrow> ('m, 'w) ts_run \<Rightarrow> ('m, 'w) ts_run" where
  "do_destroy ml m st = st\<lparr>tr_world := ml_destroy ml m (tr_world st), tr_calls := tr_calls st @ [Called_destroy m]\<rparr>"

definition do_init :: "('m, 'w) microlink \<Rightarrow> ml_config \<Rightarrow> ('m, 'w) ts_run \<Rightarrow> 'm option \<times> ('m, 'w) ts_run" where
  "do_init ml cfg st = (case ml_init ml cfg (tr_world st) of
     (m, w) \<Rightarrow> (m, st\<lparr>tr_world := w, tr_calls := tr_calls st @ [Called_init cfg m]\<rparr>))"

definition do_start :: "('m, 'w) microlink \<Rightarrow> 'm \<Rightarrow> ('m, 'w) ts_run \<Rightarrow> esp_err \<times> ('m, 'w) ts_run" where
  "do_start ml m st = (case ml_start ml m (tr_world st) of
     (e, w) \<Rightarrow> (e, st\<lparr>tr_world := w, tr_calls := tr_calls st @ [Called_start m]\<rparr>))"

lemmas call_defs = sdlog_set_microlink_def do_stop_def do_destroy_def do_init_def do_start_def

text \<open>The two identical blocks that take the instance down.\<close>

definition ml_teardown :: "('m, 'w) microlink \<Rightarrow> ('m, 'w) ts_run \<Rightarrow> ('m, 'w) ts_run" where
  "ml_teardown ml st = (case tr_microlink st of None \<Rightarrow> st
     | Some m \<Rightarrow> (do_destroy ml m (do_stop ml m (sdlog_set_microlink None st)))\<lparr>tr_microlink := None\<rparr>)"

text \<open>The routes to advertise, in the buffer of 512 bytes; \<open>None\<close>: the default routes do not fit.\<close>

definition EXIT_ROUTES :: string where
  "EXIT_ROUTES = ''0.0.0.0/0'' @ [char_of (10 :: nat)] @ ''::/0''"

definition routes_buffer :: "via_state \<Rightarrow> ts_settings \<Rightarrow> string option" where
  "routes_buffer via s =
     (let r = fourvia6_effective_routes via (ts_advertise_routes s) 512 in
      if ts_advertise_exit_node s \<noteq> 0
      then (let used = length r; added = (if used \<noteq> 0 then [char_of (10 :: nat)] else []) @ EXIT_ROUTES
            in if 512 - used \<le> length added then None else Some (r @ added))
      else Some r)"

definition non_empty :: "string option \<Rightarrow> string option" where
  "non_empty s = (if s = Some [] then None else s)"

definition ml_config_of :: "ts_settings \<Rightarrow> string \<Rightarrow> ml_config" where
  "ml_config_of s routes = \<lparr>mc_auth_key = the (ts_auth_key s), mc_device_name = non_empty (ts_hostname s),
     mc_max_peers = ucast (ts_max_peers s), mc_exit_node_ip = ts_exit_node_ip s, mc_ctrl_host = non_empty (ts_login_server s),
     mc_advertise_routes = non_empty (Some routes), mc_netcheck_override = (ts_netcheck_override s \<noteq> 0),
     mc_netcheck_threshold_ms = ts_netcheck_threshold_ms s, mc_preferred_derp_region = ucast (ts_default_derp_region s)\<rparr>"

definition tailscale_connect :: "('m, 'w) microlink \<Rightarrow> via_state \<Rightarrow> ('m, 'w) ts_run \<Rightarrow> esp_err \<times> ('m, 'w) ts_run" where
  "tailscale_connect ml via st =
     (let s = tr_settings st in
      if ts_enabled s = 0 then (ESP_ERR_INVALID_STATE, st)
      else if non_empty (ts_auth_key s) = None then (ESP_ERR_INVALID_ARG, st)
      else (let st = ml_teardown ml st in
        case routes_buffer via s of None \<Rightarrow> (ESP_ERR_INVALID_SIZE, st)
        | Some routes \<Rightarrow>
          (case do_init ml (ml_config_of s routes) st of (h, st) \<Rightarrow>
             let st = st\<lparr>tr_microlink := h\<rparr> in
             (case h of None \<Rightarrow> (ESP_FAIL, st)
              | Some m \<Rightarrow>
                (case do_start ml m (sdlog_set_microlink (Some m) st) of (err, st) \<Rightarrow>
                   if err \<noteq> ESP_OK then (err, (do_destroy ml m (sdlog_set_microlink None st))\<lparr>tr_microlink := None\<rparr>)
                   else (ESP_OK, st\<lparr>tr_connected := True\<rparr>))))))"

definition tailscale_disconnect :: "('m, 'w) microlink \<Rightarrow> ('m, 'w) ts_run \<Rightarrow> ('m, 'w) ts_run" where
  "tailscale_disconnect ml st = ml_teardown ml (st\<lparr>tr_connected := False, tr_tunnel_ip := 0\<rparr>)"

definition tailscale_is_connected :: "('m, 'w) microlink \<Rightarrow> ('m, 'w) ts_run \<Rightarrow> bool \<times> ('m, 'w) ts_run" where
  "tailscale_is_connected ml st =
     (case tr_microlink st of None \<Rightarrow> (False, st)
      | Some m \<Rightarrow>
         (let connected = ml_connected ml m (tr_world st) in
          (connected,
           if connected then (let host_ip = ml_vpn_ip ml m (tr_world st) in
             if host_ip \<noteq> 0 then st\<lparr>tr_tunnel_ip := htonl host_ip\<rparr> else st)
           else st)))"

text \<open>
  The task that connects after the station got an address: it waits for the clock, which \<open>now i\<close>
  gives at the \<open>i\<close>-th reading, for at most 60 readings of half a second each.  The result is the
  number of delays.
\<close>

definition MAX_SYNC_RETRY :: nat where "MAX_SYNC_RETRY = 60"
definition SYNCED_AFTER :: int where "SYNCED_AFTER = 1577836800"

function sync_wait :: "(nat \<Rightarrow> int) \<Rightarrow> nat \<Rightarrow> nat" where
  "sync_wait now retry =
     (if retry < MAX_SYNC_RETRY then (if SYNCED_AFTER < now retry then retry else sync_wait now (retry + 1)) else retry)"
  by auto
termination by (relation "measure (\<lambda>(now, retry). MAX_SYNC_RETRY - retry)") auto

declare sync_wait.simps [simp del]

definition tailscale_connect_task ::
  "('m, 'w) microlink \<Rightarrow> via_state \<Rightarrow> (nat \<Rightarrow> int) \<Rightarrow> ('m, 'w) ts_run \<Rightarrow> nat \<times> ('m, 'w) ts_run" where
  "tailscale_connect_task ml via now st = (sync_wait now 0, snd (tailscale_connect ml via st))"

section \<open>The recorder and the instance\<close>

text \<open>
  What the history of calls must look like: there is one instance at a time, only it is used, it is
  freed when the recorder does not hold it, and the recorder gets no other.  The monitor's state is
  the live instance and the recorder's; \<open>None\<close> as result is a violation.
\<close>

fun monitor :: "'m ml_call \<Rightarrow> 'm option \<times> 'm option \<Rightarrow> ('m option \<times> 'm option) option" where
  "monitor (Called_init cfg r) (live, rec) = (if live = None then Some (r, rec) else None)"
| "monitor (Called_start m) (live, rec) = (if live = Some m then Some (live, rec) else None)"
| "monitor (Called_stop m) (live, rec) = (if live = Some m then Some (live, rec) else None)"
| "monitor (Called_destroy m) (live, rec) = (if live = Some m \<and> rec \<noteq> Some m then Some (None, rec) else None)"
| "monitor (Recorder_set x) (live, rec) = (if x = None \<or> x = live then Some (live, x) else None)"

fun replay :: "'m ml_call list \<Rightarrow> 'm option \<times> 'm option \<Rightarrow> ('m option \<times> 'm option) option" where
  "replay [] s = Some s"
| "replay (c # cs) s = (case monitor c s of None \<Rightarrow> None | Some s \<Rightarrow> replay cs s)"

lemma replay_append: "replay (xs @ ys) s = (case replay xs s of None \<Rightarrow> None | Some s \<Rightarrow> replay ys s)"
  by (induction xs arbitrary: s) (auto split: option.splits)

definition recorder_ok :: "('m, 'w) ts_run \<Rightarrow> bool" where
  "recorder_ok st \<longleftrightarrow> replay (tr_calls st) (None, None) = Some (tr_microlink st, tr_sdlog st) \<and> tr_sdlog st = tr_microlink st"

lemma teardown_ok: "recorder_ok st \<Longrightarrow> recorder_ok (ml_teardown ml st) \<and> tr_microlink (ml_teardown ml st) = None"
  by (auto simp: recorder_ok_def ml_teardown_def call_defs replay_append split: option.splits)

lemma connect_ok: "recorder_ok st \<Longrightarrow> recorder_ok (snd (tailscale_connect ml via st))"
proof -
  assume ok: "recorder_ok st"
  let ?d = "ml_teardown ml st"
  have d: "replay (tr_calls ?d) (None, None) = Some (None, None)" "tr_sdlog ?d = None" "tr_microlink ?d = None" "recorder_ok ?d"
    using teardown_ok [OF ok, of ml] by (auto simp: recorder_ok_def)
  show ?thesis
    using ok d(4) by (auto simp: tailscale_connect_def Let_def split: option.splits prod.splits)
      (auto simp: recorder_ok_def call_defs replay_append d split: prod.splits)
qed

datatype ts_event = Settings ts_settings | Connect via_state | Disconnect | Ask_connected | Subnet u32 u32

definition ts_step :: "('m, 'w) microlink \<Rightarrow> ts_event \<Rightarrow> ('m, 'w) ts_run \<Rightarrow> ('m, 'w) ts_run" where
  "ts_step ml ev st = (case ev of
       Settings s \<Rightarrow> st\<lparr>tr_settings := s\<rparr>
     | Connect via \<Rightarrow> snd (tailscale_connect ml via st)
     | Disconnect \<Rightarrow> tailscale_disconnect ml st
     | Ask_connected \<Rightarrow> snd (tailscale_is_connected ml st)
     | Subnet ip m \<Rightarrow> tailscale_set_subnet ip m st)"

lemma recorder_ok_fields:
  "recorder_ok st \<Longrightarrow> tr_calls st' = tr_calls st \<Longrightarrow> tr_microlink st' = tr_microlink st \<Longrightarrow> tr_sdlog st' = tr_sdlog st \<Longrightarrow> recorder_ok st'"
  by (simp add: recorder_ok_def)

lemma ts_step_ok: "recorder_ok st \<Longrightarrow> recorder_ok (ts_step ml ev st)"
  by (cases ev) (auto simp: ts_step_def connect_ok tailscale_disconnect_def tailscale_is_connected_def Let_def tailscale_set_subnet_def
      intro!: teardown_ok [THEN conjunct1] elim: recorder_ok_fields split: option.splits)

text \<open>
  C14: In every sequence of connects, disconnects and setting changes, whatever microlink answers, there
  is at most one instance; only that one is started and stopped; and an instance is freed only after the
  SD recorder was told to let go of it.  After each step the recorder samples exactly the instance that
  exists.
\<close>

theorem recorder_never_dangles:
  "let st = fold (ts_step ml) evs (ts_run_boot s w) in
     replay (tr_calls st) (None, None) = Some (tr_microlink st, tr_sdlog st) \<and> tr_sdlog st = tr_microlink st"
proof -
  have "recorder_ok (fold (ts_step ml) evs st)" if "recorder_ok st" for st
    using that by (induction evs arbitrary: st) (auto simp: ts_step_ok)
  from this [of "ts_run_boot s w"] show ?thesis by (simp add: recorder_ok_def ts_run_boot_def)
qed

section \<open>What is advertised\<close>

fun lines_from :: "string \<Rightarrow> string \<Rightarrow> string list" where
  "lines_from cur [] = (if cur = [] then [] else [cur])"
| "lines_from cur (c # cs) = (if c = char_of (10 :: nat) then (if cur = [] then [] else [cur]) @ lines_from [] cs else lines_from (cur @ [c]) cs)"

definition lines_of :: "string \<Rightarrow> string list" where "lines_of t = lines_from [] t"

lemma lines_from_sep: "lines_from cur (a @ char_of (10 :: nat) # b) = lines_from cur a @ lines_from [] b"
  by (induction cur a rule: lines_from.induct) auto

lemma lines_of_sep: "lines_of (a @ char_of (10 :: nat) # b) = lines_of a @ lines_of b"
  by (simp add: lines_of_def lines_from_sep)

lemma lines_of_Nil [simp]: "lines_of [] = []" by (simp add: lines_of_def)

lemma lines_of_single: "char_of (10 :: nat) \<notin> set t \<Longrightarrow> lines_of t = (if t = [] then [] else [t])"
proof -
  have "char_of (10 :: nat) \<notin> set t \<Longrightarrow> lines_from cur t = (if cur @ t = [] then [] else [cur @ t])" for cur
    by (induction cur t rule: lines_from.induct) auto
  from this [of "[]"] show "char_of (10 :: nat) \<notin> set t \<Longrightarrow> lines_of t = (if t = [] then [] else [t])" by (simp add: lines_of_def)
qed

lemma lines_EXIT_ROUTES: "lines_of EXIT_ROUTES = [''0.0.0.0/0'', ''::/0'']"
proof -
  have "lines_of ''0.0.0.0/0'' = [''0.0.0.0/0'']" "lines_of ''::/0'' = [''::/0'']" by code_simp+
  then show ?thesis by (simp only: EXIT_ROUTES_def append_Cons append_Nil lines_of_sep [of "''0.0.0.0/0''", simplified])
qed

text \<open>The lines the settings ask for.\<close>

definition wanted_routes :: "via_state \<Rightarrow> ts_settings \<Rightarrow> string list" where
  "wanted_routes via s = lines_of (case ts_advertise_routes s of None \<Rightarrow> [] | Some r \<Rightarrow> r)
     @ (if via_enabled via \<and> via_text via \<noteq> [] then [via_text via] else [])
     @ (if ts_advertise_exit_node s \<noteq> 0 then [''0.0.0.0/0'', ''::/0''] else [])"

text \<open>They fit into the buffer, one separator included; the 4via6 prefix is one line.\<close>

definition routes_fit :: "via_state \<Rightarrow> ts_settings \<Rightarrow> bool" where
  "routes_fit via s \<longleftrightarrow> length (case ts_advertise_routes s of None \<Rightarrow> [] | Some r \<Rightarrow> r) + 1 + length (via_text via) \<le> 511
     \<and> length (via_text via) \<le> 63 \<and> char_of (10 :: nat) \<notin> set (via_text via)"

lemma effective_lines:
  assumes "routes_fit via s"
  shows "lines_of (fourvia6_effective_routes via (ts_advertise_routes s) 512) =
    lines_of (case ts_advertise_routes s of None \<Rightarrow> [] | Some r \<Rightarrow> r) @ (if via_enabled via \<and> via_text via \<noteq> [] then [via_text via] else [])"
proof -
  let ?r = "case ts_advertise_routes s of None \<Rightarrow> [] | Some r \<Rightarrow> r"
  let ?sep = "if length ?r \<noteq> 0 then [char_of (10 :: nat)] else []"
  have "length ?r \<le> 511" using assms by (simp add: routes_fit_def)
  then have base: "(case ts_advertise_routes s of None \<Rightarrow> [] | Some r \<Rightarrow> take (512 - 1) r) = ?r" by (auto split: option.splits)
  have cut: "take (512 - length ?r - 1) (?sep @ take 63 (via_text via)) = ?sep @ via_text via"
    using assms by (auto simp: routes_fit_def)
  have "fourvia6_effective_routes via (ts_advertise_routes s) 512 =
      (if via_enabled via \<and> via_text via \<noteq> [] then ?r @ ?sep @ via_text via else ?r)"
    unfolding fourvia6_effective_routes_def base Let_def cut by simp
  moreover have "lines_of (?r @ ?sep @ via_text via) = lines_of ?r @ lines_of (via_text via)" by (simp add: lines_of_sep)
  ultimately show ?thesis using assms lines_of_single [of "via_text via"] by (auto simp: routes_fit_def)
qed

lemma routes_buffer_lines:
  assumes "routes_buffer via s = Some r"
  shows "lines_of r = lines_of (fourvia6_effective_routes via (ts_advertise_routes s) 512)
      @ (if ts_advertise_exit_node s \<noteq> 0 then [''0.0.0.0/0'', ''::/0''] else [])"
    and "length r < 512"
proof -
  let ?e = "fourvia6_effective_routes via (ts_advertise_routes s) 512"
  have e: "length ?e < 512"
    by (auto simp: fourvia6_effective_routes_def Let_def split: option.splits)
  show "length r < 512" using assms e by (auto simp: routes_buffer_def Let_def split: if_splits)
  have "lines_of (?e @ [char_of (10 :: nat)] @ EXIT_ROUTES) = lines_of ?e @ [''0.0.0.0/0'', ''::/0'']"
    by (simp add: lines_of_sep lines_EXIT_ROUTES)
  then show "lines_of r = lines_of ?e @ (if ts_advertise_exit_node s \<noteq> 0 then [''0.0.0.0/0'', ''::/0''] else [])"
    using assms by (auto simp: routes_buffer_def Let_def lines_EXIT_ROUTES split: if_splits)
qed

lemma connect_shape:
  assumes "tailscale_connect ml via st = (ESP_OK, st')"
  obtains r m where "routes_buffer via (tr_settings st) = Some r" "tr_microlink st' = Some m" "tr_sdlog st' = Some m" "tr_connected st'"
    "tr_calls st' = tr_calls (ml_teardown ml st) @ [Called_init (ml_config_of (tr_settings st) r) (Some m), Recorder_set (Some m), Called_start m]"
  using assms
  by (auto simp: tailscale_connect_def Let_def call_defs split: if_splits option.splits prod.splits)

lemma connect_registers:
  assumes "tailscale_connect ml via st = (ESP_OK, st')" and "routes_fit via (tr_settings st)"
  shows "\<exists>before cfg m. tr_calls st' = before @ [Called_init cfg (Some m), Recorder_set (Some m), Called_start m] \<and> tr_microlink st' = Some m \<and>
    lines_of (case mc_advertise_routes cfg of None \<Rightarrow> [] | Some r \<Rightarrow> r) = wanted_routes via (tr_settings st)"
proof -
  obtain r m where c: "routes_buffer via (tr_settings st) = Some r" "tr_microlink st' = Some m" "tr_sdlog st' = Some m" "tr_connected st'"
    "tr_calls st' = tr_calls (ml_teardown ml st) @ [Called_init (ml_config_of (tr_settings st) r) (Some m), Recorder_set (Some m), Called_start m]"
    by (rule connect_shape [OF assms(1)])
  have "lines_of (case mc_advertise_routes (ml_config_of (tr_settings st) r) of None \<Rightarrow> [] | Some r \<Rightarrow> r) = lines_of r"
    by (simp add: ml_config_of_def non_empty_def)
  also have "\<dots> = wanted_routes via (tr_settings st)"
    using routes_buffer_lines(1) [OF c(1)] effective_lines [OF assms(2)] by (simp add: wanted_routes_def)
  finally show ?thesis using c(2,5) by blast
qed

text \<open>
  A successful connect hands microlink the configured routes, then the 4via6 prefix when that is
  on, then, for an exit node, both default routes: each on a line of its own and nothing else.
\<close>

theorem connect_advertises:
  assumes "tailscale_connect ml via st = (ESP_OK, st')" and "routes_fit via (tr_settings st)"
  shows "\<exists>before cfg m. tr_calls st' = before @ [Called_init cfg (Some m), Recorder_set (Some m), Called_start m] \<and> tr_microlink st' = Some m \<and>
    lines_of (case mc_advertise_routes cfg of None \<Rightarrow> [] | Some r \<Rightarrow> r) = wanted_routes via (tr_settings st)"
  using assms by (rule connect_registers)

text \<open>
  A longer list is cut at the end of the buffer, in the middle of a line if it comes to that.
\<close>

lemma long_routes_cut:
  assumes "ts_advertise_routes s = Some r" and "511 < length r" and "ts_advertise_exit_node s = 0"
  shows "routes_buffer via s = Some (take 511 r)"
  using assms by (simp add: routes_buffer_def fourvia6_effective_routes_def Let_def)

definition route_line :: "string \<Rightarrow> string" where "route_line r = r @ [char_of (10 :: nat)]"

definition demo_many_routes :: string where
  "demo_many_routes = concat (replicate 39 (route_line ''10.0.0.0/24'')) @ concat (replicate 2 (route_line ''172.16.0.0/24'')) @ ''100.100.100.0/24''"

text \<open>A subnet of 256 addresses is advertised as a quarter of the address space.\<close>

lemma route_widened:
  assumes "ts_advertise_routes s = Some demo_many_routes" and "ts_advertise_exit_node s = 0"
  shows "\<exists>r. routes_buffer via s = Some r \<and> last (lines_of r) = ''100.100.100.0/2'' \<and> last (lines_of demo_many_routes) = ''100.100.100.0/24''"
proof -
  have "511 < length demo_many_routes" "last (lines_of (take 511 demo_many_routes)) = ''100.100.100.0/2''"
    "last (lines_of demo_many_routes) = ''100.100.100.0/24''" by code_simp+
  then show ?thesis using long_routes_cut [OF assms(1) _ assms(2)] by simp
qed

section \<open>Settings\<close>

definition settings_ok :: "ts_settings \<Rightarrow> bool" where
  "settings_ok s \<longleftrightarrow> max_peers_ok (ts_max_peers s) \<and> threshold_ok (ts_netcheck_threshold_ms s) \<and> region_ok (ts_default_derp_region s) \<and>
     {ts_advertise_exit_node s, ts_netcheck_override s, ts_lan_bypass s, ts_accept_routes s, ts_snat_subnet_routes s} \<subseteq> {0, 1} \<and>
     (ts_advertise_exit_node s = 0 \<or> ts_exit_node_ip s = 0) \<and>
     None \<notin> {ts_auth_key s, ts_hostname s, ts_login_server s, ts_advertise_routes s}"

lemma flag_range: "flag v = 0 \<or> flag v = 1" by (simp add: flag_def)

lemma load_int_inv: "P old \<Longrightarrow> (\<And>v. ok v \<Longrightarrow> P (f v)) \<Longrightarrow> P (load_int api h k ok f old)"
  by (simp add: load_int_def split: option.split)

lemma load_flag: "old \<in> {0, 1} \<Longrightarrow> load_int api h k always flag old \<in> {0, 1}"
  by (rule load_int_inv) (use flag_range in auto)

text \<open>
  C37: Whatever the flash holds, the settings after the start are well formed: the numbers of peers,
  milliseconds and region are in their ranges, a flag is 0 or 1, every string is there, and the device
  is not at the same time an exit node and a client of one.
\<close>

theorem init_settings_ok: "settings_ok (snd (tailscale_init api (h, ts_defaults)))"
proof -
  have "max_peers_ok (load_int api h ''ts_maxpeers'' max_peers_ok id 16)" "threshold_ok (load_int api h ''ts_nc_thr'' threshold_ok id 100)"
    "region_ok (load_int api h ''ts_def_derp'' region_ok id 0)"
    by (rule load_int_inv; simp add: max_peers_ok_def threshold_ok_def region_ok_def)+
  moreover have "load_int api h k always flag 0 \<in> {0, 1}" "load_int api h k always flag 1 \<in> {0, 1}" for k
    by (rule load_flag; simp)+
  ultimately show ?thesis by (simp add: tailscale_init_def ts_load_def Let_def settings_ok_def ts_defaults_def nvs_str_or_empty_def)
qed

section \<open>Waiting for the clock\<close>

lemma sync_wait_props:
  "retry \<le> MAX_SYNC_RETRY \<Longrightarrow> (let r = sync_wait now retry in
     retry \<le> r \<and> r \<le> MAX_SYNC_RETRY \<and> (r = MAX_SYNC_RETRY \<or> SYNCED_AFTER < now r) \<and> {retry..<r} \<subseteq> {i. now i \<le> SYNCED_AFTER})"
proof (induction now retry rule: sync_wait.induct)
  case (1 now retry)
  show ?case
  proof (cases "retry < MAX_SYNC_RETRY \<and> now retry \<le> SYNCED_AFTER")
    case True
    then have "sync_wait now retry = sync_wait now (retry + 1)" by (subst sync_wait.simps) simp
    moreover have "{retry..<r} = insert retry {retry + 1..<r}" if "retry + 1 \<le> r" for r using that by auto
    ultimately show ?thesis using 1(1) True by (auto simp: Let_def)
  next
    case False
    then have "sync_wait now retry = retry" by (subst sync_wait.simps) auto
    then show ?thesis using False 1(2) by (auto simp: Let_def)
  qed
qed

text \<open>
  C38: The connect task ends: it waits until the first reading of a set clock, or for 60 readings (30
  seconds) when the clock is never set, and then makes its one connection attempt.
\<close>

theorem connect_task_ends:
  "case tailscale_connect_task ml via now st of (r, st') \<Rightarrow>
     500 * r \<le> 30000 \<and> (if r < MAX_SYNC_RETRY then SYNCED_AFTER < now r else r = MAX_SYNC_RETRY) \<and>
     {0..<r} \<subseteq> {i. now i \<le> SYNCED_AFTER} \<and> st' = snd (tailscale_connect ml via st)"
  using sync_wait_props [of 0 now] by (auto simp: tailscale_connect_task_def Let_def MAX_SYNC_RETRY_def)

section \<open>Two connect tasks\<close>

text \<open>
  Every address the station gets starts such a task, and nothing keeps two of them apart.  The calls
  of a task one by one, each reading the global handle where the code does:
\<close>

datatype 'm connect_pc =
    At_check | At_stop | At_destroy | At_clear | At_init | At_hook | At_start
  | At_unhook esp_err | At_fail_destroy esp_err | At_fail_clear esp_err | At_end esp_err

definition on_handle :: "('m \<Rightarrow> ('m, 'w) ts_run \<Rightarrow> ('m, 'w) ts_run) \<Rightarrow> ('m, 'w) ts_run \<Rightarrow> ('m, 'w) ts_run" where
  "on_handle f st = (case tr_microlink st of None \<Rightarrow> st | Some m \<Rightarrow> f m st)"

fun connect_step :: "('m, 'w) microlink \<Rightarrow> via_state \<Rightarrow> 'm connect_pc \<times> ('m, 'w) ts_run \<Rightarrow> 'm connect_pc \<times> ('m, 'w) ts_run" where
  "connect_step ml via (At_check, st) =
     (let s = tr_settings st in
      if ts_enabled s = 0 then (At_end ESP_ERR_INVALID_STATE, st)
      else if non_empty (ts_auth_key s) = None then (At_end ESP_ERR_INVALID_ARG, st)
      else if tr_microlink st \<noteq> None then (At_stop, sdlog_set_microlink None st) else (At_init, st))"
| "connect_step ml via (At_stop, st) = (At_destroy, on_handle (do_stop ml) st)"
| "connect_step ml via (At_destroy, st) = (At_clear, on_handle (do_destroy ml) st)"
| "connect_step ml via (At_clear, st) = (At_init, st\<lparr>tr_microlink := None\<rparr>)"
| "connect_step ml via (At_init, st) =
     (case routes_buffer via (tr_settings st) of None \<Rightarrow> (At_end ESP_ERR_INVALID_SIZE, st)
      | Some routes \<Rightarrow> (case do_init ml (ml_config_of (tr_settings st) routes) st of
          (h, st) \<Rightarrow> (if h = None then At_end ESP_FAIL else At_hook, st\<lparr>tr_microlink := h\<rparr>)))"
| "connect_step ml via (At_hook, st) = (At_start, sdlog_set_microlink (tr_microlink st) st)"
| "connect_step ml via (At_start, st) =
     (case tr_microlink st of None \<Rightarrow> (At_end ESP_FAIL, st)
      | Some m \<Rightarrow> (case do_start ml m st of
          (err, st) \<Rightarrow> if err \<noteq> ESP_OK then (At_unhook err, st) else (At_end ESP_OK, st\<lparr>tr_connected := True\<rparr>)))"
| "connect_step ml via (At_unhook err, st) = (At_fail_destroy err, sdlog_set_microlink None st)"
| "connect_step ml via (At_fail_destroy err, st) = (At_fail_clear err, on_handle (do_destroy ml) st)"
| "connect_step ml via (At_fail_clear err, st) = (At_end err, st\<lparr>tr_microlink := None\<rparr>)"
| "connect_step ml via (At_end err, st) = (At_end err, st)"

text \<open>Alone, the steps are the function.\<close>

lemma connect_steps_alone:
  "(connect_step ml via ^^ 10) (At_check, st) = (At_end (fst (tailscale_connect ml via st)), snd (tailscale_connect ml via st))"
proof -
  have funpow: "(f ^^ 10) x = f (f (f (f (f (f (f (f (f (f x)))))))))" for f :: "'c \<Rightarrow> 'c" and x by (simp add: eval_nat_numeral)
  show ?thesis
    unfolding funpow
    by (auto simp: tailscale_connect_def Let_def ml_teardown_def on_handle_def call_defs split: option.splits prod.splits)
qed

text \<open>Two tasks under a schedule: \<open>False\<close> runs the first.\<close>

type_synonym ('m, 'w) two_tasks = "'m connect_pc \<times> 'm connect_pc \<times> ('m, 'w) ts_run"

definition pair_step :: "('m, 'w) microlink \<Rightarrow> via_state \<Rightarrow> bool \<Rightarrow> ('m, 'w) two_tasks \<Rightarrow> ('m, 'w) two_tasks" where
  "pair_step ml via b x = (case x of (p, q, st) \<Rightarrow>
     if b then (case connect_step ml via (q, st) of (q, st) \<Rightarrow> (p, q, st))
     else (case connect_step ml via (p, st) of (p, st) \<Rightarrow> (p, q, st)))"

text \<open>
  Both tasks find no instance, and both make one: the first is lost, it runs on without being
  reachable.
\<close>

lemma connect_tasks_race:
  assumes "ts_enabled s \<noteq> 0" and "non_empty (ts_auth_key s) \<noteq> None" and "routes_buffer via s = Some r"
    and "ml_init ml (ml_config_of s r) w = (Some m, w')"
  shows "case fold (pair_step ml via) [False, True, False, True] (At_check, At_check, ts_run_boot s w) of
    (p, q, st) \<Rightarrow> replay (tr_calls st) (None, None) = None"
  using assms by (auto simp: pair_step_def ts_run_boot_def Let_def do_init_def split: prod.splits)

text \<open>A reconnect that fails leaves the device without an instance but marked as connected.\<close>

lemma failed_reconnect_marked_connected:
  assumes "tr_connected st" and "ts_enabled (tr_settings st) \<noteq> 0" and "non_empty (ts_auth_key (tr_settings st)) \<noteq> None"
    and "routes_buffer via (tr_settings st) = None"
  shows "case tailscale_connect ml via st of (err, st') \<Rightarrow> err = ESP_ERR_INVALID_SIZE \<and> tr_microlink st' = None \<and> tr_connected st'"
  using assms by (simp add: tailscale_connect_def Let_def ml_teardown_def call_defs split: option.split)

section \<open>Concrete runs\<close>

text \<open>A microlink that numbers its instances.\<close>

definition demo_microlink :: "(nat, nat) microlink" where
  "demo_microlink = \<lparr>ml_init = (\<lambda>cfg w. (Some w, w + 1)), ml_start = (\<lambda>m w. (ESP_OK, w)), ml_stop = (\<lambda>m w. w), ml_destroy = (\<lambda>m w. w),
     ml_connected = (\<lambda>m w. True), ml_vpn_ip = (\<lambda>m w. 0x64400001)\<rparr>"

definition demo_ts :: ts_settings where
  "demo_ts = ts_defaults\<lparr>ts_enabled := 1, ts_auth_key := Some ''tskey-1'', ts_hostname := Some [], ts_login_server := Some [],
     ts_advertise_routes := Some ''192.168.4.0/24'', ts_advertise_exit_node := 1\<rparr>"

lemma connect_advertises_witness:
  "\<exists>st' before cfg. tailscale_connect demo_microlink demo_via (ts_run_boot demo_ts 7) = (ESP_OK, st') \<and>
     tr_calls st' = before @ [Called_init cfg (Some 7), Recorder_set (Some 7), Called_start 7] \<and>
     lines_of (case mc_advertise_routes cfg of None \<Rightarrow> [] | Some r \<Rightarrow> r)
       = [''192.168.4.0/24'', ''fd7a:115c:a1e0:b1a:0:7:a01:0/112'', ''0.0.0.0/0'', ''::/0'']"
proof -
  have fit: "routes_fit demo_via demo_ts" and b: "routes_buffer demo_via demo_ts \<noteq> None"
    and w: "wanted_routes demo_via demo_ts = [''192.168.4.0/24'', ''fd7a:115c:a1e0:b1a:0:7:a01:0/112'', ''0.0.0.0/0'', ''::/0'']"
    by code_simp+
  let ?st = "ts_run_boot demo_ts 7 :: (nat, nat) ts_run"
  have s: "tr_settings ?st = demo_ts" by (simp add: ts_run_boot_def)
  obtain st' where c: "tailscale_connect demo_microlink demo_via ?st = (ESP_OK, st')"
    using b by (auto simp: tailscale_connect_def Let_def ml_teardown_def call_defs ts_run_boot_def demo_microlink_def non_empty_def demo_ts_def)
  then have "last (tr_calls st') = Called_start 7"
    by (auto simp: tailscale_connect_def Let_def ml_teardown_def call_defs ts_run_boot_def demo_microlink_def split: if_splits option.splits)
  with connect_advertises [OF c, unfolded s, OF fit, unfolded w] c show ?thesis by auto
qed

end
