(* ===== verification/Web_Tailscale.thy ===== *)
theory Web_Tailscale
  imports Tailscale Tailscale_Mtu
begin

text \<open>
  Saving the tunnel's settings from the web interface (\<open>tailscale_save_handler\<close> of \<open>main/web_ui.c\<close>),
  after the login check and the reading of the body.  An object of the body is the function that
  \<open>cJSON_GetObjectItem\<close> is; a number is the 32-bit integer that the code casts it to.
\<close>

datatype item = It_bool bool | It_num u32 | It_str string | It_obj "string \<Rightarrow> item option" | It_other

type_synonym json_object = "string \<Rightarrow> item option"

section \<open>Writes whose errors are collected\<close>

record save_err =
  sr_count :: nat
  sr_first_err :: esp_err
  sr_first_key :: string

definition nvs_save_errors_reset :: save_err where
  "nvs_save_errors_reset = \<lparr>sr_count = 0, sr_first_err = ESP_OK, sr_first_key = []\<rparr>"

definition nvs_save_record_err :: "string \<Rightarrow> esp_err \<Rightarrow> save_err \<Rightarrow> save_err" where
  "nvs_save_record_err key err e =
     (if err = ESP_OK then e
      else (let e = e\<lparr>sr_count := sr_count e + 1\<rparr> in
            if sr_first_err e = ESP_OK then e\<lparr>sr_first_err := err, sr_first_key := take 23 key\<rparr> else e))"

text \<open>\<open>nvs_save_str\<close> and \<open>nvs_save_int\<close>, by the type of the value.\<close>

definition nvs_save :: "('h, 'b) nvs_typed \<Rightarrow> string \<times> 'b nv \<Rightarrow> 'h \<times> save_err \<Rightarrow> 'h \<times> save_err" where
  "nvs_save api kv he = (case kv of (k, v) \<Rightarrow> (case he of (h, e) \<Rightarrow>
     (case param_set api h k v of (err, h) \<Rightarrow> (h, nvs_save_record_err k err e))))"

text \<open>The members: their name, their key in NVS, and which type of value is accepted.\<close>

datatype item_kind = K_str | K_int | K_flag

definition item_value :: "json_object \<Rightarrow> string \<Rightarrow> item_kind \<Rightarrow> 'b nv option" where
  "item_value obj j kind = (case (kind, obj j) of
       (K_str, Some (It_str v)) \<Rightarrow> Some (VStr v)
     | (K_int, Some (It_num v)) \<Rightarrow> Some (VI32 v)
     | (K_flag, Some (It_bool b)) \<Rightarrow> Some (VI32 (if b then 1 else 0))
     | _ \<Rightarrow> None)"

fun item_writes :: "json_object \<Rightarrow> (string \<times> string \<times> item_kind) list \<Rightarrow> (string \<times> 'b nv) list" where
  "item_writes obj [] = []"
| "item_writes obj ((j, k, kind) # specs) =
     (case item_value obj j kind of None \<Rightarrow> item_writes obj specs | Some v \<Rightarrow> (k, v) # item_writes obj specs)"

definition ts_items :: "(string \<times> string \<times> item_kind) list" where
  "ts_items = [(''enabled'', ''ts_enabled'', K_flag),
     (''auth_key'', ''ts_authkey'', K_str), (''hostname'', ''ts_hostname'', K_str), (''login_server'', ''ts_login'', K_str),
     (''advertise_routes'', ''ts_routes'', K_str),
     (''max_peers'', ''ts_maxpeers'', K_int), (''default_derp_region'', ''ts_def_derp'', K_int), (''netcheck_threshold_ms'', ''ts_nc_thr'', K_int),
     (''netcheck_override'', ''ts_nc_ovr'', K_flag), (''lan_bypass'', ''ts_lan_bp'', K_flag), (''accept_routes'', ''ts_acpt_rt'', K_flag),
     (''snat_subnet_routes'', ''ts_snat_sr'', K_flag), (''advertise_exit_node'', ''ts_adv_exit'', K_flag)]"

section \<open>The globals follow\<close>

definition refresh_str :: "json_object \<Rightarrow> string \<Rightarrow> string option \<Rightarrow> string option" where
  "refresh_str obj j old = (case obj j of Some (It_str v) \<Rightarrow> Some v | _ \<Rightarrow> old)"

definition refresh_num :: "json_object \<Rightarrow> string \<Rightarrow> u32 \<Rightarrow> u32" where
  "refresh_num obj j old = (case obj j of Some (It_num v) \<Rightarrow> v | _ \<Rightarrow> old)"

definition refresh_bool :: "json_object \<Rightarrow> string \<Rightarrow> u32 \<Rightarrow> u32" where
  "refresh_bool obj j old = (case obj j of Some (It_bool b) \<Rightarrow> if b then 1 else 0 | _ \<Rightarrow> old)"

definition ts_refresh :: "json_object \<Rightarrow> ts_settings \<Rightarrow> ts_settings" where
  "ts_refresh obj s =
     s\<lparr>ts_enabled := refresh_bool obj ''enabled'' (ts_enabled s),
       ts_auth_key := refresh_str obj ''auth_key'' (ts_auth_key s),
       ts_hostname := refresh_str obj ''hostname'' (ts_hostname s),
       ts_login_server := refresh_str obj ''login_server'' (ts_login_server s),
       ts_advertise_routes := refresh_str obj ''advertise_routes'' (ts_advertise_routes s),
       ts_advertise_exit_node := refresh_bool obj ''advertise_exit_node'' (ts_advertise_exit_node s),
       ts_max_peers := refresh_num obj ''max_peers'' (ts_max_peers s),
       ts_netcheck_override := refresh_bool obj ''netcheck_override'' (ts_netcheck_override s),
       ts_netcheck_threshold_ms := refresh_num obj ''netcheck_threshold_ms'' (ts_netcheck_threshold_ms s),
       ts_default_derp_region := refresh_num obj ''default_derp_region'' (ts_default_derp_region s),
       ts_lan_bypass := refresh_bool obj ''lan_bypass'' (ts_lan_bypass s),
       ts_accept_routes := refresh_bool obj ''accept_routes'' (ts_accept_routes s),
       ts_snat_subnet_routes := refresh_bool obj ''snat_subnet_routes'' (ts_snat_subnet_routes s)\<rparr>"

section \<open>The handler\<close>

text \<open>\<open>aton\<close> is \<open>ip4addr_aton\<close>: the address in network byte order.\<close>

datatype save_reply = Save_rejected string | Save_done save_err

definition want_selected :: "(string \<Rightarrow> u32 option) \<Rightarrow> json_object \<Rightarrow> ts_settings \<Rightarrow> bool option" where
  "want_selected aton obj s = (case obj ''exit_node_ip'' of
       Some (It_str t) \<Rightarrow> if t = [] then Some False else if aton t = None then None else Some True
     | _ \<Rightarrow> Some (ts_exit_node_ip s \<noteq> 0))"

definition want_advertise :: "json_object \<Rightarrow> ts_settings \<Rightarrow> bool" where
  "want_advertise obj s = (case obj ''advertise_exit_node'' of Some (It_bool b) \<Rightarrow> b | _ \<Rightarrow> ts_advertise_exit_node s \<noteq> 0)"

text \<open>The exit node that the body selects, in host byte order.\<close>

definition exit_choice :: "(string \<Rightarrow> u32 option) \<Rightarrow> json_object \<Rightarrow> u32 option" where
  "exit_choice aton obj = (case obj ''exit_node_ip'' of
       Some (It_str t) \<Rightarrow> if t = [] then Some 0 else map_option htonl (aton t)
     | _ \<Rightarrow> None)"

text \<open>The calls of \<open>nvs_params.c\<close> that the 4via6 module uses, on the same flash.\<close>

definition raw_of :: "('h, 'b) nvs_typed \<Rightarrow> ('h \<Rightarrow> esp_err \<times> 'h) \<Rightarrow> 'h nvs_raw" where
  "raw_of api erase_all = \<lparr>np_open_ro = nt_open_ro api, np_open_rw = nt_open_rw api,
     np_get_str = (\<lambda>h k. case get_str api h k of None \<Rightarrow> Inl ESP_ERR_NVS_NOT_FOUND | Some v \<Rightarrow> Inr v),
     np_set_str = (\<lambda>h k v. nt_set api h k (VStr v)),
     np_get_u8 = (\<lambda>h k. case get_u8 api h k of None \<Rightarrow> Inl ESP_ERR_NVS_NOT_FOUND | Some v \<Rightarrow> Inr v),
     np_set_u8 = (\<lambda>h k v. nt_set api h k (V8 v)),
     np_get_u16 = (\<lambda>h k. case get_u16 api h k of None \<Rightarrow> Inl ESP_ERR_NVS_NOT_FOUND | Some v \<Rightarrow> Inr v),
     np_set_u16 = (\<lambda>h k v. nt_set api h k (V16 v)),
     np_commit = nt_commit api, np_erase_key = nt_erase api, np_erase_all = erase_all, np_alloc = True\<rparr>"

record 'h ts_device =
  td_flash :: 'h
  td_settings :: ts_settings
  td_via :: via_state
  td_mtu :: mtu_world

definition save_fourvia6 :: "'h nvs_raw \<Rightarrow> json_object \<Rightarrow> 'h ts_device \<Rightarrow> bool \<times> 'h ts_device" where
  "save_fourvia6 raw v6 d =
     (let via = td_via d;
          enabled4 = (case v6 ''enabled'' of Some (It_bool b) \<Rightarrow> b | _ \<Rightarrow> via_enabled via);
          lan4 = (case v6 ''lan_cidr'' of Some (It_str t) \<Rightarrow> t | _ \<Rightarrow> via_lan via);
          site4 = (case v6 ''site_id'' of Some (It_num v) \<Rightarrow> sint v | _ \<Rightarrow> uint (via_site_id via))
      in if site4 < 0 \<or> 65535 < site4 then (False, d)
         else (case fourvia6_set_config raw (td_flash d) via enabled4 (Some lan4) (of_int site4) of
           (err, h, via) \<Rightarrow> (err = ESP_OK, d\<lparr>td_flash := h, td_via := via\<rparr>)))"

definition mtu_env_of :: "path_peer option list option \<Rightarrow> ts_settings \<Rightarrow> mtu_env" where
  "mtu_env_of peers s = \<lparr>me_enabled = (ts_enabled s \<noteq> 0), me_exit_node = ts_exit_node_ip s, me_peers = peers\<rparr>"

definition save_mtu :: "('h, 'b) nvs_typed \<Rightarrow> path_peer option list option \<Rightarrow> json_object \<Rightarrow> 'h ts_device \<Rightarrow> 'h ts_device" where
  "save_mtu api peers mtu_j d =
     (let cur = tailscale_mtu_get (td_mtu d);
          mode = (case mtu_j ''mode'' of Some (It_num v) \<Rightarrow> if v = 0 then TS_MTU_AUTO else if v = 1 then TS_MTU_FIXED else mt_mode cur | _ \<Rightarrow> mt_mode cur);
          fixed_mtu = (case mtu_j ''fixed_mtu'' of Some (It_num v) \<Rightarrow>
              if 576 \<le> sint v \<and> sint v \<le> 1500 then ucast v else mt_fixed cur | _ \<Rightarrow> mt_fixed cur)
      in (case tailscale_mtu_set api (mtu_env_of peers (td_settings d)) mode fixed_mtu (td_flash d, td_mtu d) of
        (_, h, w) \<Rightarrow> d\<lparr>td_flash := h, td_mtu := w\<rparr>))"

text \<open>The settings: rejected before any write, or written; then the 4via6 part, which can still fail.\<close>

definition ts_writes :: "(string \<Rightarrow> u32 option) \<Rightarrow> json_object \<Rightarrow> (string \<times> 'b nv) list" where
  "ts_writes aton obj = item_writes obj ts_items @ (case exit_choice aton obj of None \<Rightarrow> [] | Some ip \<Rightarrow> [(''ts_exit_node'', VI32 ip)])"

definition save_settings ::
  "('h, 'b) nvs_typed \<Rightarrow> 'h nvs_raw \<Rightarrow> (string \<Rightarrow> u32 option) \<Rightarrow> json_object \<Rightarrow> 'h ts_device \<Rightarrow> (string + save_err) \<times> 'h ts_device" where
  "save_settings api raw aton obj d =
     (let s = td_settings d in
      case want_selected aton obj s of None \<Rightarrow> (Inl ''invalid exit node IP'', d)
      | Some sel \<Rightarrow>
        if want_advertise obj s \<and> sel then (Inl ''cannot advertise and use an exit node at the same time'', d)
        else (case fold (nvs_save api) (ts_writes aton obj) (td_flash d, nvs_save_errors_reset) of (h, e) \<Rightarrow>
          let s = ts_refresh obj s;
              s = (case exit_choice aton obj of None \<Rightarrow> s | Some ip \<Rightarrow> s\<lparr>ts_exit_node_ip := ip\<rparr>);
              d = d\<lparr>td_flash := h, td_settings := s\<rparr>
          in (case obj ''fourvia6'' of
                Some (It_obj v6) \<Rightarrow> (case save_fourvia6 raw v6 d of (ok, d) \<Rightarrow> (if ok then Inr e else Inl ''invalid 4via6 settings'', d))
              | _ \<Rightarrow> (Inr e, d))))"

definition tailscale_save ::
  "('h, 'b) nvs_typed \<Rightarrow> 'h nvs_raw \<Rightarrow> (string \<Rightarrow> u32 option) \<Rightarrow> path_peer option list option \<Rightarrow> json_object option \<Rightarrow> 'h ts_device
     \<Rightarrow> save_reply \<times> 'h ts_device" where
  "tailscale_save api raw aton peers body d =
     (case body of None \<Rightarrow> (Save_rejected ''invalid JSON'', d)
      | Some root \<Rightarrow>
        (case (case root ''settings'' of Some (It_obj obj) \<Rightarrow> save_settings api raw aton obj d | _ \<Rightarrow> (Inr nvs_save_errors_reset, d)) of
           (Inl msg, d) \<Rightarrow> (Save_rejected msg, d)
         | (Inr e, d) \<Rightarrow> (Save_done e,
             case root ''mtu'' of Some (It_obj mtu_j) \<Rightarrow> save_mtu api peers mtu_j d | _ \<Rightarrow> d)))"

section \<open>What the writes leave\<close>

lemma item_writes_Cons:
  "item_writes obj (q # specs) = (case item_value obj (fst q) (snd (snd q)) of None \<Rightarrow> item_writes obj specs
     | Some v \<Rightarrow> (fst (snd q), v) # item_writes obj specs)"
  by (cases q) (simp split: option.split)

declare item_writes.simps(2) [simp del]

lemma item_writes_keys: "fst ` set (item_writes obj specs :: (string \<times> 'b nv) list) \<subseteq> (fst \<circ> snd) ` set specs"
  by (induction specs) (auto simp: item_writes_Cons split: option.splits)

lemma item_writes_distinct:
  "distinct (map (fst \<circ> snd) specs) \<Longrightarrow> distinct (map fst (item_writes obj specs :: (string \<times> 'b nv) list))"
proof (induction specs)
  case (Cons q specs)
  have "fst (snd q) \<notin> fst ` set (item_writes obj specs :: (string \<times> 'b nv) list)"
    using Cons(2) item_writes_keys [of obj specs, where ?'b = 'b] by auto
  then show ?case using Cons by (auto simp: item_writes_Cons split: option.split)
qed simp

lemma item_writes_value:
  "distinct (map (fst \<circ> snd) specs) \<Longrightarrow> (j, k, kind) \<in> set specs \<Longrightarrow>
   map_of (item_writes obj specs :: (string \<times> 'b nv) list) k = item_value obj j kind"
proof (induction specs)
  case (Cons q specs)
  have n: "map_of (item_writes obj specs :: (string \<times> 'b nv) list) (fst (snd q)) = None"
    using Cons(2) item_writes_keys [of obj specs, where ?'b = 'b] by (auto simp: map_of_eq_None_iff)
  show ?case
  proof (cases "(j, k, kind) = q")
    case True
    then have "fst q = j" "fst (snd q) = k" "snd (snd q) = kind" by auto
    then show ?thesis using n by (simp add: item_writes_Cons split: option.split)
  next
    case False
    then have m: "(j, k, kind) \<in> set specs" using Cons(3) by simp
    then have "k \<noteq> fst (snd q)" using Cons(2) by (force simp: image_iff)
    then show ?thesis using Cons(1,2) m by (auto simp: item_writes_Cons split: option.split)
  qed
qed simp

text \<open>The keys of a flash after a run of writes that succeed.\<close>

lemma fold_save_get:
  assumes "nt_lawful api" and "nt_healthy api" and "distinct (map fst ws)"
  shows "case fold (nvs_save api) ws (h, e) of (h', e') \<Rightarrow> e' = e \<and>
    (case map_of ws k of None \<Rightarrow> \<forall>t. nt_get api h' t k = nt_get api h t k | Some v \<Rightarrow> nt_get api h' (nv_ty v) k = Some v)"
  using assms(3)
proof (induction ws arbitrary: h)
  case (Cons w ws)
  obtain j v where w: "w = (j, v)" by fastforce
  obtain h1 where h1: "param_set api h j v = (ESP_OK, h1)" using param_set_healthy [OF assms(2)] by (metis prod.collapse)
  then have s: "nvs_save api w (h, e) = (h1, e)" by (simp add: nvs_save_def w nvs_save_record_err_def)
  obtain h' e' where r: "fold (nvs_save api) ws (h1, e) = (h', e')" by fastforce
  note ih = Cons(1) [of h1]
  have d: "distinct (map fst ws)" "j \<notin> fst ` set ws" using Cons(2) w by auto
  then have jn: "map_of ws j = None" by (simp add: map_of_eq_None_iff)
  show ?case
  proof (cases "k = j")
    case True
    then show ?thesis using ih [OF d(1)] r s w jn param_set_ok(1) [OF assms(1) h1] by simp
  next
    case False
    then show ?thesis using ih [OF d(1)] r s w param_set_ok(2) [OF assms(1) h1 False] by (cases "map_of ws k") simp_all
  qed
qed simp

lemma ts_items_distinct: "distinct (map (fst \<circ> snd) ts_items)" "''ts_exit_node'' \<notin> (fst \<circ> snd) ` set ts_items"
  by (simp_all add: ts_items_def)

lemma ts_writes_distinct: "distinct (map fst (ts_writes aton obj :: (string \<times> 'b nv) list))"
proof -
  have "''ts_exit_node'' \<notin> fst ` set (item_writes obj ts_items :: (string \<times> 'b nv) list)"
    using ts_items_distinct(2) item_writes_keys by blast
  then show ?thesis using item_writes_distinct [OF ts_items_distinct(1), of obj, where ?'b = 'b] by (simp add: ts_writes_def split: option.split)
qed

lemma ts_writes_value:
  "(j, k, kind) \<in> set ts_items \<Longrightarrow> map_of (ts_writes aton obj :: (string \<times> 'b nv) list) k = item_value obj j kind"
  "map_of (ts_writes aton obj :: (string \<times> 'b nv) list) ''ts_exit_node'' = map_option VI32 (exit_choice aton obj)"
proof -
  have n: "map_of (item_writes obj ts_items :: (string \<times> 'b nv) list) ''ts_exit_node'' = None"
    unfolding map_of_eq_None_iff using ts_items_distinct(2) item_writes_keys by blast
  then show "map_of (ts_writes aton obj :: (string \<times> 'b nv) list) ''ts_exit_node'' = map_option VI32 (exit_choice aton obj)"
    by (auto simp: ts_writes_def map_add_def split: option.split)
  assume m: "(j, k, kind) \<in> set ts_items"
  then have "k \<noteq> ''ts_exit_node''" using ts_items_distinct(2) by force
  then show "map_of (ts_writes aton obj :: (string \<times> 'b nv) list) k = item_value obj j kind"
    using item_writes_value [OF ts_items_distinct(1) m, of obj, where ?'b = 'b] by (auto simp: ts_writes_def map_add_def split: option.split)
qed

text \<open>The flash after the settings part, for a flash that accepts every write.\<close>

lemma written:
  fixes api :: "('h, 'b) nvs_typed"
  assumes "nt_lawful api" and "nt_healthy api" and "fold (nvs_save api) (ts_writes aton obj) (h, e) = (h', e')"
  shows "e' = e" and "case map_of (ts_writes aton obj :: (string \<times> 'b nv) list) k of None \<Rightarrow> \<forall>t. nt_get api h' t k = nt_get api h t k
     | Some v \<Rightarrow> nt_get api h' (nv_ty v) k = Some v"
  using fold_save_get [OF assms(1,2) ts_writes_distinct [of aton obj], where h = h and e = e and k = k] assms(3) by simp_all

lemma load_after:
  fixes api :: "('h, 'b) nvs_typed"
  assumes "nt_lawful api" and "nt_healthy api" and "fold (nvs_save api) (ts_writes aton obj) (h, e) = (h', e')"
  shows "(j, k, K_flag) \<in> set ts_items \<Longrightarrow> load_int api h' k always flag old = refresh_bool obj j (load_int api h k always flag old)"
    and "(j, k, K_flag) \<in> set ts_items \<Longrightarrow> load_int api h' k always id old = refresh_bool obj j (load_int api h k always id old)"
    and "(j, k, K_str) \<in> set ts_items \<Longrightarrow> nvs_str_or_empty api h' k = refresh_str obj j (nvs_str_or_empty api h k)"
    and "(j, k, K_int) \<in> set ts_items \<Longrightarrow> (case obj j of Some (It_num v) \<Rightarrow> ok v | _ \<Rightarrow> True) \<Longrightarrow>
      load_int api h' k ok id old = refresh_num obj j (load_int api h k ok id old)"
    and "load_int api h' ''ts_exit_node'' always id old = (case exit_choice aton obj of None \<Rightarrow> load_int api h ''ts_exit_node'' always id old | Some ip \<Rightarrow> ip)"
proof -
  note w = written(2) [OF assms] and v = ts_writes_value(1) [where aton = aton and obj = obj and ?'b = 'b]
  note defs = load_int_def param_int_def get_i32_def nvs_str_or_empty_def param_str_def get_str_def item_value_def refresh_bool_def
    refresh_str_def refresh_num_def always_def flag_def nt_healthyD(1) [OF assms(2)]
  show "(j, k, K_flag) \<in> set ts_items \<Longrightarrow> load_int api h' k always flag old = refresh_bool obj j (load_int api h k always flag old)"
    "(j, k, K_flag) \<in> set ts_items \<Longrightarrow> load_int api h' k always id old = refresh_bool obj j (load_int api h k always id old)"
    "(j, k, K_str) \<in> set ts_items \<Longrightarrow> nvs_str_or_empty api h' k = refresh_str obj j (nvs_str_or_empty api h k)"
    using w [of k] v [of j k] by (auto simp: defs split: option.splits item.splits if_splits)
  show "(j, k, K_int) \<in> set ts_items \<Longrightarrow> (case obj j of Some (It_num v) \<Rightarrow> ok v | _ \<Rightarrow> True) \<Longrightarrow>
      load_int api h' k ok id old = refresh_num obj j (load_int api h k ok id old)"
    using w [of k] v [of j k] by (auto simp: defs split: option.splits item.splits)
  show "load_int api h' ''ts_exit_node'' always id old = (case exit_choice aton obj of None \<Rightarrow> load_int api h ''ts_exit_node'' always id old | Some ip \<Rightarrow> ip)"
    using w [of "''ts_exit_node''"] by (auto simp: ts_writes_value(2) defs split: option.splits)
qed

text \<open>The numbers of the body are in the ranges that the next start accepts.\<close>

definition numbers_ok :: "json_object \<Rightarrow> bool" where
  "numbers_ok obj \<longleftrightarrow> (case obj ''max_peers'' of Some (It_num v) \<Rightarrow> max_peers_ok v | _ \<Rightarrow> True) \<and>
     (case obj ''netcheck_threshold_ms'' of Some (It_num v) \<Rightarrow> threshold_ok v | _ \<Rightarrow> True) \<and>
     (case obj ''default_derp_region'' of Some (It_num v) \<Rightarrow> region_ok v | _ \<Rightarrow> True)"

lemma load_after_writes:
  assumes "nt_lawful api" and "nt_healthy api" and "fold (nvs_save api) (ts_writes aton obj) (h, e) = (h', e')" and "numbers_ok obj"
  shows "ts_load api h' s = (let r = ts_refresh obj (ts_load api h s) in case exit_choice aton obj of None \<Rightarrow> r | Some ip \<Rightarrow> r\<lparr>ts_exit_node_ip := ip\<rparr>)"
proof -
  note n = assms(4) [unfolded numbers_ok_def]
  note flags = load_after(1,2) [OF assms(1-3)] and nums = load_after(4) [OF assms(1-3)] and strs = load_after(3) [OF assms(1-3)]
  have m: "(''enabled'', ''ts_enabled'', K_flag) \<in> set ts_items" "(''auth_key'', ''ts_authkey'', K_str) \<in> set ts_items"
    "(''hostname'', ''ts_hostname'', K_str) \<in> set ts_items" "(''login_server'', ''ts_login'', K_str) \<in> set ts_items"
    "(''advertise_routes'', ''ts_routes'', K_str) \<in> set ts_items" "(''max_peers'', ''ts_maxpeers'', K_int) \<in> set ts_items"
    "(''default_derp_region'', ''ts_def_derp'', K_int) \<in> set ts_items" "(''netcheck_threshold_ms'', ''ts_nc_thr'', K_int) \<in> set ts_items"
    "(''netcheck_override'', ''ts_nc_ovr'', K_flag) \<in> set ts_items" "(''lan_bypass'', ''ts_lan_bp'', K_flag) \<in> set ts_items"
    "(''accept_routes'', ''ts_acpt_rt'', K_flag) \<in> set ts_items" "(''snat_subnet_routes'', ''ts_snat_sr'', K_flag) \<in> set ts_items"
    "(''advertise_exit_node'', ''ts_adv_exit'', K_flag) \<in> set ts_items"
    by (simp_all add: ts_items_def)
  show ?thesis
    unfolding ts_load_def ts_refresh_def flags(2) [OF m(1)] flags(1) [OF m(9)] flags(1) [OF m(10)] flags(1) [OF m(11)]
      flags(1) [OF m(12)] flags(1) [OF m(13)] strs [OF m(2)] strs [OF m(3)] strs [OF m(4)] strs [OF m(5)]
      nums [OF m(6) conjunct1 [OF n]] nums [OF m(7) conjunct2 [OF conjunct2 [OF n]]] nums [OF m(8) conjunct1 [OF conjunct2 [OF n]]]
      load_after(5) [OF assms(1-3)]
    by (cases "exit_choice aton obj") simp_all
qed

section \<open>The other two modules leave the tunnel's keys alone\<close>

definition ts_keys :: "string set" where
  "ts_keys = insert ''ts_exit_node'' (set (map (fst \<circ> snd) ts_items))"

definition same_keys :: "('h, 'b) nvs_typed \<Rightarrow> 'h \<Rightarrow> 'h \<Rightarrow> bool" where
  "same_keys api h h' \<longleftrightarrow> (\<forall>k\<in>ts_keys. \<forall>t. nt_get api h' t k = nt_get api h t k)"

lemma same_keys_trans: "same_keys api h1 h2 \<Longrightarrow> same_keys api h2 h3 \<Longrightarrow> same_keys api h1 h3"
  by (simp add: same_keys_def)

lemma same_keys_set: "nt_lawful api \<Longrightarrow> k \<notin> ts_keys \<Longrightarrow> same_keys api h (snd (nt_set api h k v))"
  by (auto simp: same_keys_def intro: nt_set_other)

lemma same_keys_param_set: "nt_lawful api \<Longrightarrow> k \<notin> ts_keys \<Longrightarrow> param_set api h k v = (ESP_OK, h') \<Longrightarrow> same_keys api h h'"
  unfolding same_keys_def by (metis param_set_ok(2))

lemma ts_load_same: "nt_healthy api \<Longrightarrow> same_keys api h h' \<Longrightarrow> ts_load api h' s = ts_load api h s"
  by (simp add: same_keys_def ts_keys_def ts_items_def ts_load_def load_int_def param_int_def get_i32_def nvs_str_or_empty_def param_str_def
      get_str_def nt_healthyD)

lemma raw_sets:
  "nvs_param_set (raw_of api ea) (np_set_u8 (raw_of api ea)) h k v = param_set api h k (V8 v)"
  "nvs_param_set (raw_of api ea) (np_set_u16 (raw_of api ea)) h k w = param_set api h k (V16 w)"
  "nvs_param_set_str (raw_of api ea) h k (Some s) = param_set api h k (VStr s)"
  by (auto simp: nvs_param_set_def nvs_param_set_str_def nvs_param_write_def raw_of_def param_set_def Let_def split: prod.split)

lemma fourvia6_keys:
  assumes "nt_lawful api" and "nt_healthy api" and "fourvia6_set_config (raw_of api ea) h via en (Some lan) site = (err, h', via')"
  shows "same_keys api h h'"
proof -
  obtain h1 where 1: "param_set api h ''ts_4v6_en'' (V8 (if en then 1 else 0)) = (ESP_OK, h1)"
    using param_set_healthy [OF assms(2)] by (metis prod.collapse)
  obtain h2 where 2: "param_set api h1 ''ts_4v6_lan'' (VStr lan) = (ESP_OK, h2)" using param_set_healthy [OF assms(2)] by (metis prod.collapse)
  obtain h3 where 3: "param_set api h2 ''ts_4v6_site'' (V16 site) = (ESP_OK, h3)" using param_set_healthy [OF assms(2)] by (metis prod.collapse)
  have "''ts_4v6_en'' \<notin> ts_keys" "''ts_4v6_lan'' \<notin> ts_keys" "''ts_4v6_site'' \<notin> ts_keys" by (simp_all add: ts_keys_def ts_items_def)
  with 1 2 3 have "same_keys api h h3" by (meson assms(1) same_keys_param_set same_keys_trans)
  moreover have "same_keys api h h" by (simp add: same_keys_def)
  ultimately show ?thesis using assms(3) by (auto simp: fourvia6_set_config_def Let_def raw_sets 1 2 3 split: if_splits)
qed

lemma mtu_set_keys:
  assumes "nt_lawful api" and "nt_healthy api" and "tailscale_mtu_set api env mode f (h, w) = (err, h', w')"
  shows "same_keys api h h'"
proof -
  have k: "''ts_mtu_mode'' \<notin> ts_keys" "''ts_mtu'' \<notin> ts_keys" by (simp_all add: ts_keys_def ts_items_def)
  have "same_keys api x (snd (nt_commit api x))" for x
    using nt_commit_get [OF assms(1) nt_healthyD(3) [OF assms(2)]] by (simp add: same_keys_def)
  then have "same_keys api h (snd (nt_commit api (snd (nt_set api (snd (nt_set api h ''ts_mtu_mode'' v)) ''ts_mtu'' v'))))" for v v'
    by (meson same_keys_trans same_keys_set [OF assms(1)] k)
  moreover have "same_keys api h h" by (simp add: same_keys_def)
  ultimately show ?thesis using assms(3) by (auto simp: tailscale_mtu_set_def Let_def split: if_splits)
qed

lemma save_fourvia6_keeps:
  assumes "nt_lawful api" and "nt_healthy api" and "save_fourvia6 (raw_of api ea) v6 d = (ok, d')"
  shows "same_keys api (td_flash d) (td_flash d') \<and> td_settings d' = td_settings d"
  using assms(3) fourvia6_keys [OF assms(1,2)] by (auto simp: save_fourvia6_def Let_def same_keys_def split: if_splits prod.splits)

lemma save_mtu_keeps:
  assumes "nt_lawful api" and "nt_healthy api"
  shows "same_keys api (td_flash d) (td_flash (save_mtu api peers m d)) \<and> td_settings (save_mtu api peers m d) = td_settings d"
  using mtu_set_keys [OF assms] by (auto simp: save_mtu_def Let_def split: prod.splits)

section \<open>The settings in use are the saved ones\<close>

lemma want_exit: "want_selected aton obj s = Some sel \<Longrightarrow> \<not> sel \<Longrightarrow> (case exit_choice aton obj of None \<Rightarrow> ts_exit_node_ip s | Some ip \<Rightarrow> ip) = 0"
  by (auto simp: want_selected_def exit_choice_def split: option.splits item.splits if_splits)

lemma want_adv: "want_advertise obj s = (refresh_bool obj ''advertise_exit_node'' (ts_advertise_exit_node s) \<noteq> 0)"
  by (auto simp: want_advertise_def refresh_bool_def split: option.splits item.splits)

lemma settings_apart:
  assumes "ts_advertise_exit_node (td_settings d) = 0 \<or> ts_exit_node_ip (td_settings d) = 0"
    and "save_settings api raw aton obj d = (r, d')"
  shows "ts_advertise_exit_node (td_settings d') = 0 \<or> ts_exit_node_ip (td_settings d') = 0"
proof (cases "want_selected aton obj (td_settings d)")
  case None
  then show ?thesis using assms by (auto simp: save_settings_def)
next
  case (Some sel)
  show ?thesis
  proof (cases "want_advertise obj (td_settings d) \<and> sel")
    case True
    then show ?thesis using Some assms by (auto simp: save_settings_def)
  next
    case False
    let ?s = "case exit_choice aton obj of None \<Rightarrow> ts_refresh obj (td_settings d) | Some ip \<Rightarrow> ts_refresh obj (td_settings d)\<lparr>ts_exit_node_ip := ip\<rparr>"
    have k: "td_settings d'' = td_settings e" if "save_fourvia6 raw v6 e = (ok, d'')" for v6 e ok d''
      using that by (auto simp: save_fourvia6_def Let_def split: if_splits prod.splits)
    have "td_settings d' = ?s"
      using Some False assms(2) by (auto simp: save_settings_def Let_def k split: prod.splits option.splits item.splits)
    moreover have "ts_exit_node_ip ?s = (case exit_choice aton obj of None \<Rightarrow> ts_exit_node_ip (td_settings d) | Some ip \<Rightarrow> ip)"
      "ts_advertise_exit_node ?s = refresh_bool obj ''advertise_exit_node'' (ts_advertise_exit_node (td_settings d))"
      by (auto simp: ts_refresh_def split: option.split)
    ultimately show ?thesis using False want_exit [OF Some] want_adv by metis
  qed
qed

lemma save_mtu_settings [simp]: "td_settings (save_mtu api peers m d) = td_settings d"
  by (simp add: save_mtu_def Let_def split: prod.split)

text \<open>
  C16: A request to save settings never makes the device an exit node and the client of one at the same
  time, whatever it contains, and whether it is accepted or not.
\<close>

theorem exit_modes_apart:
  assumes "ts_advertise_exit_node (td_settings d) = 0 \<or> ts_exit_node_ip (td_settings d) = 0"
  shows "let s = td_settings (snd (tailscale_save api raw aton peers body d)) in ts_advertise_exit_node s = 0 \<or> ts_exit_node_ip s = 0"
proof -
  let ?ok = "\<lambda>d. ts_advertise_exit_node (td_settings d) = 0 \<or> ts_exit_node_ip (td_settings d) = 0"
  have "?ok (snd (tailscale_save api raw aton peers body d))"
  proof (cases body)
    case (Some root)
    define x where "x = (case root ''settings'' of Some (It_obj obj) \<Rightarrow> save_settings api raw aton obj d | _ \<Rightarrow> (Inr nvs_save_errors_reset, d))"
    obtain r d1 where r: "x = (r, d1)" by fastforce
    have "?ok d1"
      using settings_apart [OF assms] assms r unfolding x_def by (force split: option.splits item.splits)
    then show ?thesis
      using r unfolding tailscale_save_def Some option.case x_def [symmetric]
      by (auto split: sum.splits option.splits item.splits)
  qed (use assms in \<open>simp add: tailscale_save_def\<close>)
  then show ?thesis unfolding Let_def .
qed

text \<open>The globals are what the next start loads, and the flash holds no conflict.\<close>

definition synced :: "('h, 'b) nvs_typed \<Rightarrow> 'h ts_device \<Rightarrow> bool" where
  "synced api d \<longleftrightarrow> tailscale_init api (td_flash d, ts_defaults) = (td_flash d, td_settings d)"

lemma synced_iff:
  assumes "nt_lawful api" and "nt_healthy api"
  shows "synced api d \<longleftrightarrow> ts_load api (td_flash d) ts_defaults = td_settings d \<and>
    (ts_advertise_exit_node (td_settings d) = 0 \<or> ts_exit_node_ip (td_settings d) = 0)"
proof -
  let ?s = "ts_load api (td_flash d) ts_defaults"
  have "ts_advertise_exit_node ?s = 0" if e: "snd (param_set api (td_flash d) ''ts_adv_exit'' (VI32 0)) = td_flash d"
  proof -
    have "param_set api (td_flash d) ''ts_adv_exit'' (VI32 0) = (ESP_OK, td_flash d)"
      using e param_set_healthy [OF assms(2)] by (metis prod.collapse)
    from param_set_ok(1) [OF assms(1) this] show ?thesis
      by (simp add: ts_load_def load_int_def param_int_def get_i32_def always_def flag_def)
  qed
  then show ?thesis by (auto simp: synced_def tailscale_init_def Let_def)
qed

lemma settings_synced:
  assumes "nt_lawful api" and "nt_healthy api" and "synced api d" and "numbers_ok obj"
    and "save_settings api (raw_of api ea) aton obj d = (Inr e, d')"
  shows "sr_count e = 0 \<and> synced api d'"
proof -
  note sy = assms(3) [unfolded synced_iff [OF assms(1,2)]]
  obtain h1 e1 where f: "fold (nvs_save api) (ts_writes aton obj) (td_flash d, nvs_save_errors_reset) = (h1, e1)" by fastforce
  let ?r = "ts_refresh obj (td_settings d)"
  let ?s = "case exit_choice aton obj of None \<Rightarrow> ?r | Some ip \<Rightarrow> ?r\<lparr>ts_exit_node_ip := ip\<rparr>"
  have l: "ts_load api h1 ts_defaults = ?s"
    using load_after_writes [OF assms(1,2) f assms(4), of ts_defaults] unfolding Let_def conjunct1 [OF sy] .
  have e1: "e1 = nvs_save_errors_reset" by (rule written(1) [OF assms(1,2) f])
  obtain sel where sel: "want_selected aton obj (td_settings d) = Some sel" "\<not> (want_advertise obj (td_settings d) \<and> sel)"
    using assms(5) by (auto simp: save_settings_def Let_def split: option.splits if_splits)
  let ?d1 = "d\<lparr>td_flash := h1, td_settings := ?s\<rparr>"
  have "e = e1 \<and> same_keys api h1 (td_flash d') \<and> td_settings d' = ?s"
  proof (cases "\<exists>v6. obj ''fourvia6'' = Some (It_obj v6)")
    case True
    then obtain v6 where v6: "obj ''fourvia6'' = Some (It_obj v6)" by blast
    obtain ok d2 where d2: "save_fourvia6 (raw_of api ea) v6 ?d1 = (ok, d2)" by fastforce
    then have "e = e1 \<and> d2 = d'" using assms(5) sel f v6 by (auto simp: save_settings_def Let_def split: if_splits)
    then show ?thesis using save_fourvia6_keeps [OF assms(1,2) d2] by simp
  next
    case False
    then have "e = e1 \<and> d' = ?d1"
      using assms(5) sel f by (auto simp: save_settings_def Let_def split: option.splits item.splits)
    then show ?thesis by (simp add: same_keys_def)
  qed
  then have k: "e = e1" "same_keys api h1 (td_flash d')" "td_settings d' = ?s" by simp_all
  then have "synced api d'"
    using l ts_load_same [OF assms(2) k(2)] settings_apart [OF conjunct2 [OF sy] assms(5)] unfolding synced_iff [OF assms(1,2)] by simp
  then show ?thesis using k(1) e1 by (simp add: nvs_save_errors_reset_def)
qed

lemma save_synced:
  assumes "nt_lawful api" and "nt_healthy api" and "synced api d"
    and "case body of Some root \<Rightarrow> (case root ''settings'' of Some (It_obj obj) \<Rightarrow> numbers_ok obj | _ \<Rightarrow> True) | None \<Rightarrow> True"
    and "tailscale_save api (raw_of api ea) aton peers body d = (Save_done e, d')"
  shows "sr_count e = 0 \<and> tailscale_init api (td_flash d', ts_defaults) = (td_flash d', td_settings d')"
proof (cases body)
  case None
  then show ?thesis using assms(5) by (simp add: tailscale_save_def)
next
  case (Some root)
  define x where "x = (case root ''settings'' of Some (It_obj obj) \<Rightarrow> save_settings api (raw_of api ea) aton obj d | _ \<Rightarrow> (Inr nvs_save_errors_reset, d))"
  obtain r d1 where r: "x = (r, d1)" by fastforce
  have "r = Inr e" and d': "d' = (case root ''mtu'' of Some (It_obj mtu_j) \<Rightarrow> save_mtu api peers mtu_j d1 | _ \<Rightarrow> d1)"
    using assms(5) r unfolding tailscale_save_def Some option.case x_def [symmetric] by (auto split: sum.splits)
  moreover have "sr_count e = 0 \<and> synced api d1" if "r = Inr e"
  proof (cases "\<exists>obj. root ''settings'' = Some (It_obj obj)")
    case True
    then obtain obj where o: "root ''settings'' = Some (It_obj obj)" by blast
    then have "numbers_ok obj" using assms(4) Some by simp
    then show ?thesis using settings_synced [OF assms(1-3)] r that o unfolding x_def by simp
  next
    case False
    then have "r = Inr nvs_save_errors_reset" "d1 = d" using r unfolding x_def by (auto split: option.splits item.splits)
    then show ?thesis using that assms(3) by (simp add: nvs_save_errors_reset_def)
  qed
  ultimately have s: "sr_count e = 0" "synced api d1" by auto
  have k: "same_keys api (td_flash d1) (td_flash d') \<and> td_settings d' = td_settings d1"
    using save_mtu_keeps [OF assms(1,2)] unfolding d' by (auto simp: same_keys_def split: option.splits item.splits)
  then have "synced api d'" using s(2) ts_load_same [OF assms(2) conjunct1 [OF k]] by (simp add: synced_iff [OF assms(1,2)])
  then show ?thesis using s(1) by (simp add: synced_def)
qed

text \<open>
  C15: After a request that is answered with success the settings in use are exactly the ones that the
  next start loads from the flash: nothing is lost, nothing comes back, and no write failed.  The
  numbers must be in the ranges that the start accepts, since the handler does not check them.
\<close>

theorem save_survives_reboot:
  assumes "nt_lawful api" and "nt_healthy api" and "synced api d"
    and "case body of Some root \<Rightarrow> (case root ''settings'' of Some (It_obj obj) \<Rightarrow> numbers_ok obj | _ \<Rightarrow> True) | None \<Rightarrow> True"
    and "tailscale_save api (raw_of api ea) aton peers body d = (Save_done e, d')"
  shows "sr_count e = 0 \<and> tailscale_init api (td_flash d', ts_defaults) = (td_flash d', td_settings d')"
  using assms by (rule save_synced)

section \<open>Failures\<close>





text \<open>A request that is rejected for its 4via6 part has already changed the other settings.\<close>

lemma rejected_but_saved:
  assumes "want_selected aton obj (td_settings d) = Some False" and "obj ''fourvia6'' = Some (It_obj v6)"
    and "v6 ''site_id'' = Some (It_num v)" and "sint v < 0" and "root ''settings'' = Some (It_obj obj)"
    and "exit_choice aton obj = None"
  shows "fst (tailscale_save api raw aton peers (Some root) d) = Save_rejected ''invalid 4via6 settings'' \<and>
    td_settings (snd (tailscale_save api raw aton peers (Some root) d)) = ts_refresh obj (td_settings d)"
  using assms by (simp add: tailscale_save_def save_settings_def save_fourvia6_def Let_def split: prod.split)

text \<open>
  A number of peers out of range is used by the next connect, cut to 8 bits, and forgotten at the next
  start.
\<close>

lemma max_peers_unchecked:
  assumes "refresh_num obj ''max_peers'' (ts_max_peers s) = 256"
  shows "mc_max_peers (ml_config_of (ts_refresh obj s) r) = 0 \<and> \<not> max_peers_ok (ts_max_peers (ts_refresh obj s))"
  using assms by (simp add: ts_refresh_def ml_config_of_def max_peers_ok_def)

section \<open>Concrete runs\<close>

definition demo_obj :: json_object where
  "demo_obj = [''enabled'' \<mapsto> It_bool True, ''auth_key'' \<mapsto> It_str ''tskey-2'', ''max_peers'' \<mapsto> It_num 8,
     ''exit_node_ip'' \<mapsto> It_str ''100.64.0.2'']"

definition demo_root :: json_object where
  "demo_root = [''settings'' \<mapsto> It_obj demo_obj, ''mtu'' \<mapsto> It_obj [''mode'' \<mapsto> It_num 1, ''fixed_mtu'' \<mapsto> It_num 1300]]"

definition demo_aton :: "string \<Rightarrow> u32 option" where
  "demo_aton t = (if t = ''100.64.0.2'' then Some 0x02004064 else None)"

definition demo_loaded :: ts_settings where
  "demo_loaded = ts_defaults\<lparr>ts_auth_key := Some [], ts_hostname := Some [], ts_login_server := Some [], ts_advertise_routes := Some []\<rparr>"

definition demo_device :: "unit typed_map ts_device" where
  "demo_device = \<lparr>td_flash = (\<lambda>_ _. None), td_settings = demo_loaded, td_via = demo_via, td_mtu = mtu_boot []\<rparr>"

lemma demo_load: "ts_load (map_typed :: (unit typed_map, unit) nvs_typed) (\<lambda>_ _. None) ts_defaults = demo_loaded"
  by (simp add: ts_load_def demo_loaded_def ts_defaults_def nvs_str_or_empty_def param_str_def load_int_def param_int_def get_str_def get_i32_def map_typed_def)

lemma demo_loaded_exit [simp]: "ts_advertise_exit_node demo_loaded = 0" "ts_exit_node_ip demo_loaded = 0"
  by (simp_all add: demo_loaded_def ts_defaults_def)

lemma demo_synced: "synced (map_typed :: (unit typed_map, unit) nvs_typed) demo_device"
  unfolding synced_iff [OF map_typed_lawful map_typed_healthy] by (simp add: demo_device_def demo_load)

abbreviation demo_api :: "(unit typed_map, unit) nvs_typed" where "demo_api \<equiv> map_typed"

definition demo_saved :: ts_settings where
  "demo_saved = (ts_refresh demo_obj demo_loaded)\<lparr>ts_exit_node_ip := 0x64400002\<rparr>"

lemma demo_numbers: "case Some demo_root of Some root \<Rightarrow> (case root ''settings'' of Some (It_obj obj) \<Rightarrow> numbers_ok obj | _ \<Rightarrow> True) | None \<Rightarrow> True"
  by (simp add: demo_root_def demo_obj_def numbers_ok_def max_peers_ok_def)

lemma demo_save:
  obtains e d' where "tailscale_save demo_api (raw_of demo_api (\<lambda>h. (ESP_OK, h))) demo_aton None (Some demo_root) demo_device = (Save_done e, d')"
    and "td_settings d' = demo_saved"
proof -
  obtain h1 e1 where f: "fold (nvs_save demo_api) (ts_writes demo_aton demo_obj) (td_flash demo_device, nvs_save_errors_reset) = (h1, e1)" by fastforce
  have o: "want_selected demo_aton demo_obj s = Some True" "\<not> want_advertise demo_obj demo_loaded" "demo_obj ''fourvia6'' = None"
    "exit_choice demo_aton demo_obj = Some 0x64400002" for s
    by (simp_all add: want_selected_def want_advertise_def exit_choice_def demo_obj_def demo_aton_def htonl_def word_byte_defs)
  have st: "td_settings demo_device = demo_loaded" by (simp add: demo_device_def)
  have "save_settings demo_api raw demo_aton demo_obj demo_device = (Inr e1, demo_device\<lparr>td_flash := h1, td_settings := demo_saved\<rparr>)" for raw
    using o f by (simp add: save_settings_def st demo_saved_def)
  then show thesis using that by (simp add: tailscale_save_def demo_root_def)
qed

lemma save_survives_reboot_witness:
  "\<exists>e d'. tailscale_save demo_api (raw_of demo_api (\<lambda>h. (ESP_OK, h))) demo_aton None (Some demo_root) demo_device = (Save_done e, d') \<and>
     ts_exit_node_ip (snd (tailscale_init demo_api (td_flash d', ts_defaults))) = 0x64400002"
proof -
  obtain e d' where r: "tailscale_save demo_api (raw_of demo_api (\<lambda>h. (ESP_OK, h))) demo_aton None (Some demo_root) demo_device = (Save_done e, d')"
    "td_settings d' = demo_saved" by (rule demo_save)
  then show ?thesis
    using save_survives_reboot [OF map_typed_lawful map_typed_healthy demo_synced demo_numbers r(1)] by (auto simp: demo_saved_def)
qed

lemma exit_modes_apart_witness:
  "let s = td_settings (snd (tailscale_save demo_api (raw_of demo_api (\<lambda>h. (ESP_OK, h))) demo_aton None (Some demo_root) demo_device)) in
     ts_advertise_exit_node s = 0 \<or> ts_exit_node_ip s = 0"
  by (rule exit_modes_apart) (simp add: demo_device_def)



end
