(* ===== verification/Spec2Isabelle.thy ===== *)
theory Spec2Isabelle
  imports Prelude Nvs_Api Acl Dhcp Dhcp_Msg Dhcp_Pool Dhcp_Lease Slot_Table Tables Forwarding Route_Hook Route_Super
    Packet_Edit Netif_Hooks Fourvia6 Dns_Cache Dns_Relay Ring Log_Capture Web_Password Web_Auth Nvs_Typed Wifi_Networks Wifi_Policy Reset_History Remote_Console Sd_Log
    Tailscale_Mtu Tailscale Web_Tailscale
begin

text \<open>Verification library of the ESP32 Tailscale subnet router firmware.\<close>

section \<open>The packet hooks and the tunnel's MTU\<close>

lemma clamp_pbuf_fits:
  assumes "clamp_pbuf (Some b) m = Some (Some b')" and "mss_at b = Some (Some (tcp, k))" and "m \<noteq> 0"
  shows "mss_at b' = Some (Some (tcp, k)) \<and> mss_value b' k \<le> m"
  using assms clamp_eq [OF assms(2), of m] clamped_option [OF assms(2), of "htons m"]
  by (auto simp: clamp_pbuf_def htons_def split: if_splits)

lemma ap_hooks_clamp:
  "ap_input_hook env (Some (tot, b)) s = Some (Handed_on b', r, s') \<Longrightarrow> clamp_pbuf (Some b) (he_mss_clamp env) = Some b'"
  "ap_linkoutput_hook env (Some (tot, b)) s = Some (Handed_on b', s') \<Longrightarrow> clamp_pbuf (Some b) (he_mss_clamp env) = Some b'"
  by (auto simp: ap_input_hook_def ap_linkoutput_hook_def pbytes_def hand_on_def Option.bind_eq_Some_conv split: if_splits)

text \<open>
  C5: Whatever MTU the tunnel gets, a connection of a client fits into it: the MSS that a SYN of a
  client, or the answer to one, still announces behind the hooks of the access point leaves 40 bytes
  for the headers below the MTU that the tunnel's interface has at that moment.
\<close>

theorem clamped_segments_fit_tunnel:
  assumes "me_enabled e" and "w' = tailscale_mtu_update e w" and "he_mss_clamp env = mw_ap_mss_clamp w'"
    and "find is_wg_name (mw_netifs w') = Some wg" and "mss_at b = Some (Some (tcp, k))"
    and "ap_input_hook env (Some (tot, b)) s = Some (Handed_on (Some b'), r, s') \<or> ap_linkoutput_hook env (Some (tot, b)) s = Some (Handed_on (Some b'), s')"
  shows "mss_at b' = Some (Some (tcp, k)) \<and> unat (mss_value b' k) + 40 \<le> unat (ni_mtu wg)"
proof -
  let ?m = "mt_eff_mtu (mw_state w')"
  have u: "mtu_consistent w'" "?m \<noteq> 0" "ni_mtu wg = ?m"
    using update_values [of e w] assms(1,2,4) by (auto simp: Let_def map_option_case split: option.splits)
  then have v: "mw_ap_mss_clamp w' = mt_eff_mss (mw_state w')" "unat (mt_eff_mss (mw_state w')) = unat ?m - 40" "576 \<le> unat ?m"
    by (auto simp: mtu_consistent_def Let_def)
  then have nz: "he_mss_clamp env \<noteq> 0" using assms(3) by (auto simp: unat_eq_0 [symmetric])
  have "clamp_pbuf (Some b) (he_mss_clamp env) = Some (Some b')" using assms(6) ap_hooks_clamp by blast
  from clamp_pbuf_fits [OF this assms(5) nz] show ?thesis
    using v assms(3) u(3) by (auto simp: word_le_nat_alt)
qed

definition demo_tunnel :: mtu_world where
  "demo_tunnel = mtu_boot [\<lparr>ni_ptr = 3, ni_name = (CHR ''w'', CHR ''g''), ni_num = 0, ni_addr = 0x01004064, ni_mask = 0xFFFFFFFF,
     ni_up = True, ni_link = True, ni_napt = 0, ni_mtu = 1420\<rparr>]"

lemma clamped_segments_fit_tunnel_witness:
  "let w' = tailscale_mtu_update demo_mtu_env demo_tunnel; b = demo_syn [2, 4, 0x05, 0xB4, 1, 1, 1, 0] in
   \<exists>b' s'. ap_linkoutput_hook (demo_hook_env\<lparr>he_mss_clamp := mw_ap_mss_clamp w'\<rparr>) (Some (62, b)) demo_hook_state = Some (Handed_on (Some b'), s') \<and>
     mss_value b 54 = 1460 \<and> unat (mss_value b' 54) + 40 \<le> 1280"
proof -
  let ?w = "tailscale_mtu_update demo_mtu_env demo_tunnel" and ?b = "demo_syn [2, 4, 0x05, 0xB4, 1, 1, 1, 0]"
  let ?env = "demo_hook_env\<lparr>he_mss_clamp := mw_ap_mss_clamp ?w\<rparr>"
  have "case find is_wg_name (mw_netifs ?w) of Some wg \<Rightarrow> ni_mtu wg = 1280 | None \<Rightarrow> False" by code_simp
  then obtain wg where wg: "find is_wg_name (mw_netifs ?w) = Some wg" "ni_mtu wg = 1280" by (auto split: option.splits)
  have m: "mw_ap_mss_clamp ?w = 1240" and at: "mss_at ?b = Some (Some (34, 54))" and v: "mss_value ?b 54 = 1460" by code_simp+
  have "case ap_linkoutput_hook (demo_hook_env\<lparr>he_mss_clamp := 1240\<rparr>) (Some (62, ?b)) demo_hook_state of
      Some (v, _) \<Rightarrow> (case v of Handed_on p \<Rightarrow> p \<noteq> None | _ \<Rightarrow> False) | None \<Rightarrow> False" by code_simp
  then obtain b' s' where r: "ap_linkoutput_hook ?env (Some (62, ?b)) demo_hook_state = Some (Handed_on (Some b'), s')"
    unfolding m by (auto split: option.splits verdict.splits)
  have e: "me_enabled demo_mtu_env" by (simp add: demo_mtu_env_def)
  have c: "he_mss_clamp ?env = mw_ap_mss_clamp ?w" by simp
  have "unat (mss_value b' 54) + 40 \<le> unat (ni_mtu wg)"
    using clamped_segments_fit_tunnel [OF e refl c wg(1) at disjI2, OF r] by simp
  then show ?thesis using r v wg(2) unfolding Let_def by auto
qed

text \<open>
  The path MTU that the hooks report is not the tunnel's: a packet that must not be fragmented and is
  up to 20 bytes too long for the tunnel is not answered.
\<close>

lemma path_mtu_gap:
  assumes "me_enabled e" and "w' = tailscale_mtu_update e w" and "34 \<le> length b"
    and "unat (mk16 (b ! 16) (b ! 17)) \<le> unat (mt_eff_mtu (mw_state w')) + 20"
  shows "send_icmp_frag_needed chksum ready alloc src b (mw_ap_pmtu w') = Some None"
proof -
  have u: "mtu_consistent w'" "mt_eff_mtu (mw_state w') \<noteq> 0"
    using update_values [of e w] assms(1,2) by (auto simp: Let_def)
  then have "unat (mw_ap_pmtu w') = unat (mt_eff_mtu (mw_state w')) + 20" by (auto simp: mtu_consistent_def Let_def)
  then have "mk16 (b ! 16) (b ! 17) \<le> mw_ap_pmtu w'" using assms(4) by (simp add: word_le_nat_alt)
  then show ?thesis using assms(3) by (simp add: send_icmp_frag_needed_def byte_simps Let_def)
qed

section \<open>The settings page and the tunnel\<close>



end
